(* ===== verification/Prelude.thy ===== *)
theory Prelude
  imports Main "HOL-Library.Word" "HOL-Library.List_Lexorder" "HOL-Library.Product_Lexorder"
begin

text \<open>
  Shared vocabulary of the development: the machine types the node uses, byte strings and
  their little-endian memory images, 64-bit signed arithmetic with its wrap-around written
  out, and the collections of rewrite rules the component theories extend.

  Conventions.  A \<open>std::vector<unsigned char>\<close> is a list of bytes, a \<open>const_iterator\<close> into
  a script is the suffix that is still to be read, \<open>uint160\<close> and \<open>uint256\<close> are words of
  that width (their \<open>pn\<close> array read as one little-endian number), C \<open>int\<close> and \<open>int64\<close> values
  are integers, and an \<open>int64\<close> operation that could leave the range is followed by
  \<open>wrap64\<close>.
\<close>

unbundle bit_operations_syntax

section \<open>Rule collections\<close>

named_theorems script_simps "unfolding rules of the script layer"
named_theorems opcode_simps "numeric values of opcode groups"
named_theorems exec_simps "evaluation rules of the script interpreter"
named_theorems tx_simps "unfolding rules of the transaction layer"

section \<open>Machine types\<close>

type_synonym byte = "8 word"
type_synonym u32 = "32 word"
type_synonym u64 = "64 word"
type_synonym uint160 = "160 word"
type_synonym uint256 = "256 word"
type_synonym valtype = "byte list"

section \<open>64-bit signed arithmetic\<close>

definition i64_min :: int where "i64_min = - 9223372036854775808"
definition i64_max :: int where "i64_max = 9223372036854775807"

definition in_i64 :: "int \<Rightarrow> bool" where
  "in_i64 n \<longleftrightarrow> i64_min \<le> n \<and> n \<le> i64_max"

definition wrap64 :: "int \<Rightarrow> int" where
  "wrap64 n = (n + 9223372036854775808) mod 18446744073709551616 - 9223372036854775808"

lemma wrap64_id [simp]: "in_i64 n \<Longrightarrow> wrap64 n = n"
  by (simp add: in_i64_def i64_min_def i64_max_def wrap64_def)

lemma in_i64_wrap64 [simp, intro]: "in_i64 (wrap64 n)"
proof -
  have "0 \<le> (n + 9223372036854775808) mod 18446744073709551616"
    and "(n + 9223372036854775808) mod 18446744073709551616 < 18446744073709551616"
    by simp_all
  then show ?thesis by (simp add: in_i64_def i64_min_def i64_max_def wrap64_def)
qed

lemma in_i64I: "i64_min \<le> n \<Longrightarrow> n \<le> i64_max \<Longrightarrow> in_i64 n"
  by (simp add: in_i64_def)

section \<open>Little-endian memory images\<close>

text \<open>
  \<open>nat_le k n\<close> is the \<open>k\<close>-byte memory image of the unsigned integer \<open>n\<close> on a
  little-endian machine, \<open>le_nat\<close> reads such an image back, \<open>nat_be\<close> and \<open>be_nat\<close> are
  the big-endian forms.
\<close>

primrec nat_le :: "nat \<Rightarrow> nat \<Rightarrow> byte list" where
  "nat_le 0 n = []"
| "nat_le (Suc k) n = word_of_nat n # nat_le k (n div 256)"

primrec le_nat :: "byte list \<Rightarrow> nat" where
  "le_nat [] = 0"
| "le_nat (b # bs) = unat b + 256 * le_nat bs"

definition nat_be :: "nat \<Rightarrow> nat \<Rightarrow> byte list" where
  "nat_be k n = rev (nat_le k n)"

definition be_nat :: "byte list \<Rightarrow> nat" where
  "be_nat bs = le_nat (rev bs)"

lemma length_nat_le [simp]: "length (nat_le k n) = k"
  by (induction k arbitrary: n) auto

lemma length_nat_be [simp]: "length (nat_be k n) = k"
  by (simp add: nat_be_def)

lemma unat_byte_lt [simp]: "unat (b :: byte) < 256"
  using unsigned_less [of b, where ?'a = nat] by simp

lemma unat_word_of_nat_byte: "unat (word_of_nat n :: byte) = n mod 256"
  by (simp add: unat_of_nat)

lemma le_nat_nat_le: "le_nat (nat_le k n) = n mod 256 ^ k"
proof (induction k arbitrary: n)
  case 0
  then show ?case by simp
next
  case (Suc k)
  then show ?case
    by (simp add: unat_word_of_nat_byte mod_mult2_eq)
qed

lemma le_nat_nat_le_id [simp]: "n < 256 ^ k \<Longrightarrow> le_nat (nat_le k n) = n"
  by (simp add: le_nat_nat_le)

lemma byte_step: "(u::nat) < 256 \<Longrightarrow> 256 * (x + 1) \<le> y \<Longrightarrow> u + 256 * x < y"
  by simp

lemma le_nat_lt: "le_nat bs < 256 ^ length bs"
proof (induction bs)
  case Nil
  then show ?case by simp
next
  case (Cons b bs)
  have "unat b < 256" by (rule unat_byte_lt)
  moreover have "256 * (le_nat bs + 1) \<le> 256 * 256 ^ length bs"
    using Cons by (intro mult_le_mono2) simp
  ultimately have "unat b + 256 * le_nat bs < 256 * 256 ^ length bs"
    by (rule byte_step)
  then show ?case by simp
qed

lemma nat_le_le_nat [simp]: "nat_le (length bs) (le_nat bs) = bs"
proof (induction bs)
  case Nil
  then show ?case by simp
next
  case (Cons b bs)
  have lt: "unat b < 256" by simp
  then have "(unat b + 256 * le_nat bs) div 256 = le_nat bs" by simp
  moreover have "(word_of_nat (unat b + 256 * le_nat bs) :: byte) = b"
    unfolding word_unat_eq_iff unat_word_of_nat_byte using lt by simp
  ultimately show ?case using Cons.IH by simp
qed

definition le_word :: "byte list \<Rightarrow> 'a::len word" where
  "le_word bs = word_of_nat (le_nat bs)"

definition bytes256 :: "uint256 \<Rightarrow> byte list" where
  "bytes256 w = nat_le 32 (unat w)"

definition bytes160 :: "uint160 \<Rightarrow> byte list" where
  "bytes160 w = nat_le 20 (unat w)"

lemma length_bytes256 [simp]: "length (bytes256 w) = 32"
  by (simp add: bytes256_def)

lemma length_bytes160 [simp]: "length (bytes160 w) = 20"
  by (simp add: bytes160_def)

lemma le_word_bytes160 [simp]: "(le_word (bytes160 w) :: uint160) = w"
proof -
  have "unat w < 2 ^ 160" using unsigned_less [of w] by simp
  then have "unat w < 256 ^ 20" by simp
  then show ?thesis by (simp add: le_word_def bytes160_def del: power_numeral)
qed

lemma le_word_bytes256 [simp]: "(le_word (bytes256 w) :: uint256) = w"
proof -
  have "unat w < 2 ^ 256" using unsigned_less [of w] by simp
  then have "unat w < 256 ^ 32" by simp
  then show ?thesis by (simp add: le_word_def bytes256_def del: power_numeral)
qed

lemma bytes160_le_word: "length bs = 20 \<Longrightarrow> bytes160 (le_word bs) = bs"
proof -
  assume l: "length bs = 20"
  have "le_nat bs < 2 ^ 160" using le_nat_lt [of bs] l by simp
  then have "unat (le_word bs :: uint160) = le_nat bs"
    by (simp add: le_word_def unat_of_nat)
  then show ?thesis using nat_le_le_nat [of bs] l by (simp add: bytes160_def)
qed

section \<open>Ordered sets and random draws\<close>

text \<open>
  A \<open>std::set\<close> whose order matters is a strictly ascending list; \<open>lower_bound\<close> is the first
  element not below the key.
\<close>

fun set_insert :: "'a::linorder \<Rightarrow> 'a list \<Rightarrow> 'a list" where
  "set_insert x [] = [x]"
| "set_insert x (y # ys) =
     (if x < y then x # y # ys else if x = y then y # ys else y # set_insert x ys)"

definition set_lower_bound :: "'a::linorder \<Rightarrow> 'a list \<Rightarrow> 'a option" where
  "set_lower_bound k xs = List.find (\<lambda>x. k \<le> x) xs"

lemma set_set_insert [simp]: "set (set_insert x xs) = insert x (set xs)"
  by (induction xs) auto

lemma sorted_set_insert:
  "sorted_wrt (<) xs \<Longrightarrow> sorted_wrt (<) (set_insert x xs)"
proof (induction xs)
  case Nil
  then show ?case by simp
next
  case (Cons y ys)
  then show ?case by auto
qed

lemma length_set_insert: "length (set_insert x xs) \<le> Suc (length xs)"
  by (induction xs) auto

lemma set_lower_bound_mem: "set_lower_bound k xs = Some x \<Longrightarrow> x \<in> set xs"
  by (auto simp: set_lower_bound_def find_Some_iff)

section \<open>Lists\<close>

text \<open>\<open>std::map\<close> as the list of its entries by ascending key; lookup is \<open>map_of\<close>.\<close>

fun map_put :: "'a::linorder \<Rightarrow> 'b \<Rightarrow> ('a \<times> 'b) list \<Rightarrow> ('a \<times> 'b) list" where
  "map_put k v [] = [(k, v)]"
| "map_put k v ((k', v') # m) =
     (if k < k' then (k, v) # (k', v') # m
      else if k = k' then (k, v) # m
      else (k', v') # map_put k v m)"

definition sorted_map :: "('a::linorder \<times> 'b) list \<Rightarrow> bool" where
  "sorted_map m \<longleftrightarrow> sorted_wrt (<) (map fst m)"

lemma sorted_map_Nil [simp]: "sorted_map []"
  by (simp add: sorted_map_def)

lemma set_map_put: "set (map_put k v m) \<subseteq> insert (k, v) (set m)"
  by (induction k v m rule: map_put.induct) auto

lemma fst_map_put [simp]: "fst ` set (map_put k v m) = insert k (fst ` set m)"
  by (induction k v m rule: map_put.induct) auto

lemma map_put_not_Nil [simp]: "map_put k v m \<noteq> []"
  by (cases m) (auto split: if_splits)

lemma sorted_map_put: "sorted_map m \<Longrightarrow> sorted_map (map_put k v m)"
proof (induction k v m rule: map_put.induct)
  case (2 k v k' v' m)
  have "\<forall>x \<in> set (map fst (map_put k v m)). x \<in> insert k (set (map fst m))"
    by simp
  with 2 show ?case by (auto simp: sorted_map_def)
qed (simp add: sorted_map_def)

lemma map_of_put: "sorted_map m \<Longrightarrow> map_of (map_put k v m) = (map_of m)(k \<mapsto> v)"
  by (induction k v m rule: map_put.induct) (auto simp: sorted_map_def fun_eq_iff)

lemma sorted_map_distinct: "sorted_map m \<Longrightarrow> distinct (map fst m)"
  unfolding sorted_map_def by (induction m) auto

lemma map_of_mem: "sorted_map m \<Longrightarrow> map_of m k = Some v \<longleftrightarrow> (k, v) \<in> set m"
  by (auto simp: sorted_map_distinct dest: map_of_SomeD)

definition map_erase :: "'a \<Rightarrow> ('a \<times> 'b) list \<Rightarrow> ('a \<times> 'b) list" where
  "map_erase k m = filter (\<lambda>x. fst x \<noteq> k) m"

lemma map_of_erase: "map_of (map_erase k m) = (map_of m)(k := None)"
  unfolding map_erase_def by (induction m) (auto simp: fun_eq_iff)

lemma sorted_map_filter: "sorted_map m \<Longrightarrow> sorted_map (filter P m)"
  unfolding sorted_map_def by (induction m) auto

lemma sorted_map_erase: "sorted_map m \<Longrightarrow> sorted_map (map_erase k m)"
  by (simp add: map_erase_def sorted_map_filter)

lemma length_map_erase:
  "sorted_map m \<Longrightarrow> length (map_erase k m) = (if k \<in> fst ` set m then length m - 1 else length m)"
proof (induction m)
  case (Cons x m)
  then have m: "sorted_map m" "fst x \<notin> fst ` set m" by (auto simp: sorted_map_def)
  have "map_erase k m = m" if "k \<notin> fst ` set m" using that by (auto simp: map_erase_def filter_id_conv)
  with Cons.IH [OF m(1)] m(2) show ?case by (cases m) (auto simp: map_erase_def)
qed (simp add: map_erase_def)

lemma sorted_map_lookups: "sorted_map m \<Longrightarrow> map (\<lambda>k. (k, the (map_of m k))) (map fst m) = m"
  unfolding map_map by (rule map_idI) (auto simp: comp_def sorted_map_distinct)

lemma sorted_maps_eq:
  assumes "sorted_map m" and "sorted_map m'" and "map_of m = map_of m'"
  shows "m = m'"
proof -
  have "set (map fst m') = set (map fst m)"
    using arg_cong [OF assms(3), of dom] by (simp add: dom_map_of_conv_image_fst)
  then have "map fst m' = map fst m"
    using assms(1, 2) unfolding sorted_map_def by (intro strict_sorted_equal)
  with assms show ?thesis by (metis sorted_map_lookups)
qed

lemma length_remove1_less: "x \<in> set xs \<Longrightarrow> length (remove1 x xs) < length xs"
  by (induction xs) (auto simp: length_remove1 neq_Nil_conv)

definition remove_nth :: "nat \<Rightarrow> 'a list \<Rightarrow> 'a list" where
  "remove_nth n xs = take n xs @ drop (Suc n) xs"

lemma length_remove_nth: "n < length xs \<Longrightarrow> length (remove_nth n xs) = length xs - 1"
  by (simp add: remove_nth_def)

lemma set_remove_nth: "set (remove_nth n xs) \<subseteq> set xs"
  by (auto simp: remove_nth_def dest: in_set_takeD in_set_dropD)

section \<open>Random numbers\<close>

text \<open>The numbers drawn, in order.\<close>

type_synonym rng = "nat \<Rightarrow> nat"

definition GetRandInt :: "nat \<Rightarrow> rng \<Rightarrow> nat \<times> rng" where
  "GetRandInt nMax r = (if nMax = 0 then (0, r) else (r 0 mod nMax, \<lambda>n. r (n + 1)))"

end
