(* ===== verification/Bignum.thy ===== *)
theory Bignum
  imports Prelude
begin

text \<open>
  The interface to OpenSSL and the part of \<open>src/src/bignum.h\<close> the script layer uses.

  OpenSSL is not part of the repository.  What the node calls of it is a record of functions,
  passed to every definition that needs one; its big numbers are the integers, so \<open>BN_add\<close>,
  \<open>BN_sub\<close>, \<open>BN_cmp\<close>, \<open>BN_lshift\<close> and \<open>BN_set_word\<close> are integer operations, and the conversion
  functions \<open>BN_bn2mpi\<close> and \<open>BN_mpi2bn\<close>, the digests and the elliptic-curve operations are fields.
  \<open>mpi_documented\<close> is the documented MPI format: a four-byte big-endian length, then the
  magnitude in big-endian form with the sign in its most significant bit.
\<close>

section \<open>OpenSSL as a parameter\<close>

record openssl =
  BN_bn2mpi :: "int \<Rightarrow> byte list"
  BN_mpi2bn :: "byte list \<Rightarrow> int"
  SHA1 :: "byte list \<Rightarrow> byte list"
  SHA256 :: "byte list \<Rightarrow> byte list"
  RIPEMD160 :: "byte list \<Rightarrow> byte list"
  o2i_ECPublicKey :: "byte list \<Rightarrow> bool"
  ECDSA_verify :: "byte list \<Rightarrow> byte list \<Rightarrow> byte list \<Rightarrow> int"
  ECDSA_sign :: "byte list \<Rightarrow> byte list \<Rightarrow> byte list option"
  EC_public :: "byte list \<Rightarrow> bool \<Rightarrow> byte list"
  AES256_encrypt :: "byte list \<Rightarrow> byte list \<Rightarrow> byte list \<Rightarrow> byte list option"
  AES256_decrypt :: "byte list \<Rightarrow> byte list \<Rightarrow> byte list \<Rightarrow> byte list option"

fun min_le :: "nat \<Rightarrow> byte list" where
  "min_le n = (if n = 0 then [] else word_of_nat n # min_le (n div 256))"

declare min_le.simps [simp del]

definition mpi_body :: "int \<Rightarrow> byte list" where
  "mpi_body n =
     (case rev (min_le (nat \<bar>n\<bar>)) of
        [] \<Rightarrow> []
      | c # cs \<Rightarrow>
          if c AND 0x80 \<noteq> 0 then (if n < 0 then 0x80 else 0) # c # cs
          else (if n < 0 then c OR 0x80 else c) # cs)"

definition mpi_value :: "byte list \<Rightarrow> int" where
  "mpi_value bs =
     (case bs of
        [] \<Rightarrow> 0
      | c # cs \<Rightarrow>
          (let m = int (be_nat ((c AND 0x7f) # cs))
           in if c AND 0x80 \<noteq> 0 then - m else m))"

definition mpi_documented :: "openssl \<Rightarrow> bool" where
  "mpi_documented L \<longleftrightarrow>
     (\<forall>n. BN_bn2mpi L n = nat_be 4 (length (mpi_body n)) @ mpi_body n) \<and>
     (\<forall>bs. length bs < 2 ^ 32 \<longrightarrow> BN_mpi2bn L (nat_be 4 (length bs) @ bs) = mpi_value bs)"

text \<open>
  A concrete instance, for running the definitions: the documented MPI format, and stand-ins for the
  digests and the curve that keep their documented shapes.
\<close>

definition fit :: "nat \<Rightarrow> byte list \<Rightarrow> byte list" where
  "fit k bs = take k (bs @ replicate k 0)"

definition sample_openssl :: openssl where
  "sample_openssl =
     \<lparr>BN_bn2mpi = (\<lambda>n. nat_be 4 (length (mpi_body n)) @ mpi_body n),
      BN_mpi2bn = (\<lambda>bs. mpi_value (drop 4 bs)),
      SHA1 = fit 20, SHA256 = fit 32, RIPEMD160 = fit 20,
      o2i_ECPublicKey = (\<lambda>p. length p = 33 \<or> length p = 65),
      ECDSA_verify = (\<lambda>p d sig. if sig = take 32 (tl p) @ d then 1 else 0),
      ECDSA_sign = (\<lambda>s d. Some (s @ d)),
      EC_public = (\<lambda>s c. if c then 2 # s else 4 # s @ s),
      AES256_encrypt = (\<lambda>k iv p. Some (k @ iv @ p)),
      AES256_decrypt = (\<lambda>k iv c. if take 64 c = k @ iv then Some (drop 64 c) else None)\<rparr>"

lemma mpi_documented_sample: "mpi_documented sample_openssl"
  by (simp add: mpi_documented_def sample_openssl_def)

section \<open>Double hashes of util.h\<close>

definition Hash :: "openssl \<Rightarrow> byte list \<Rightarrow> uint256" where
  "Hash L bs =
     (let hash1 = (le_word (SHA256 L bs) :: uint256)
      in le_word (SHA256 L (bytes256 hash1)))"

definition Hash160 :: "openssl \<Rightarrow> byte list \<Rightarrow> uint160" where
  "Hash160 L vch =
     (let hash1 = (le_word (SHA256 L vch) :: uint256)
      in le_word (RIPEMD160 L (bytes256 hash1)))"

section \<open>CBigNum\<close>

type_synonym CBigNum = int

definition setvch :: "openssl \<Rightarrow> valtype \<Rightarrow> CBigNum" where
  "setvch L vch = BN_mpi2bn L (nat_be 4 (length vch) @ rev vch)"

definition getvch :: "openssl \<Rightarrow> CBigNum \<Rightarrow> valtype" where
  "getvch L bn =
     (let vch = BN_bn2mpi L bn
      in if length vch \<le> 4 then [] else rev (drop 4 vch))"

definition BN_get_word :: "CBigNum \<Rightarrow> nat" where
  "BN_get_word bn = (if nat \<bar>bn\<bar> < 2 ^ 64 then nat \<bar>bn\<bar> else 2 ^ 64 - 1)"

definition int_max :: int where "int_max = 2147483647"
definition int_min :: int where "int_min = - 2147483648"

definition getint :: "CBigNum \<Rightarrow> int" where
  "getint bn =
     (let n = int (BN_get_word bn)
      in if 0 \<le> bn then (if n > int_max then int_max else n)
         else (if n > int_max then int_min else - n))"

text \<open>
  \<open>setint64\<close> writes the MPI image by hand: eight bytes from the top, leading zero bytes
  skipped, the sign put in the first byte kept (or in a byte of its own when its top bit is
  taken).
\<close>

fun setint64_loop :: "bool \<Rightarrow> bool \<Rightarrow> nat \<Rightarrow> u64 \<Rightarrow> byte list" where
  "setint64_loop fNegative fLeadingZeroes 0 n = []"
| "setint64_loop fNegative fLeadingZeroes (Suc i) n =
     (let c = ucast (drop_bit 56 n AND 0xff) :: byte; n' = push_bit 8 n
      in if fLeadingZeroes then
           (if c = 0 then setint64_loop fNegative True i n'
            else if c AND 0x80 \<noteq> 0 then
              (if fNegative then 0x80 else 0) # c # setint64_loop fNegative False i n'
            else (if fNegative then c OR 0x80 else c) # setint64_loop fNegative False i n')
         else c # setint64_loop fNegative False i n')"

definition setint64 :: "openssl \<Rightarrow> int \<Rightarrow> CBigNum" where
  "setint64 L sn =
     (let fNegative = sn < 0;
          n = (if fNegative then (word_of_int (- (sn + 1)) :: u64) + 1 else word_of_int sn);
          body = setint64_loop fNegative True 8 n
      in BN_mpi2bn L (nat_be 4 (length body) @ body))"

definition CBigNum_of_int :: "openssl \<Rightarrow> int \<Rightarrow> CBigNum" where
  "CBigNum_of_int L n = (if n \<ge> 0 then n else setint64 L n)"

section \<open>The MPI format is invertible\<close>

lemma le_nat_min_le [simp]: "le_nat (min_le n) = n"
proof (induction n rule: min_le.induct)
  case (1 n)
  show ?case
  proof (cases "n = 0")
    case True
    then show ?thesis by (simp add: min_le.simps)
  next
    case False
    with 1 show ?thesis
      by (subst min_le.simps) (simp add: unat_word_of_nat_byte)
  qed
qed

lemma min_le_last: "min_le n \<noteq> [] \<Longrightarrow> last (min_le n) \<noteq> 0"
proof (induction n rule: min_le.induct)
  case (1 n)
  have n0: "n \<noteq> 0"
    using "1.prems" by (cases "n = 0") (simp_all add: min_le.simps [of 0])
  show ?case
  proof (cases "n div 256 = 0")
    case True
    then have lt: "n < 256" by simp
    have "min_le n = [word_of_nat n]"
      using n0 True by (subst min_le.simps) (simp add: min_le.simps [of 0])
    moreover have "unat (word_of_nat n :: byte) = n"
      unfolding unat_word_of_nat_byte using lt by simp
    then have "(word_of_nat n :: byte) \<noteq> 0" using n0 by (metis unat_0)
    ultimately show ?thesis by simp
  next
    case False
    then have ne: "min_le (n div 256) \<noteq> []" by (subst min_le.simps) simp
    have "min_le n = word_of_nat n # min_le (n div 256)"
      using n0 by (subst min_le.simps) simp
    then show ?thesis using "1.IH" [OF n0 ne] ne by simp
  qed
qed

lemma byte_eqI:
  assumes "\<And>n. n \<in> {0, 1, 2, 3, 4, 5, 6, 7} \<Longrightarrow> bit a n = bit b n"
  shows "a = (b :: byte)"
proof (rule bit_word_eqI)
  fix n :: nat
  assume "n < LENGTH(8)"
  then have "n \<in> {0, 1, 2, 3, 4, 5, 6, 7}" by auto
  then show "bit a n = bit b n" by (rule assms)
qed

lemma byte_high_iff: "(c AND 0x80 = 0) = (\<not> bit (c :: byte) 7)"
proof
  assume "c AND 0x80 = 0"
  then have "bit (c AND 0x80) 7 = bit (0 :: byte) 7" by simp
  then show "\<not> bit c 7" by (simp add: bit_and_iff)
next
  assume h: "\<not> bit c 7"
  show "c AND 0x80 = 0"
    by (rule byte_eqI) (use h in \<open>auto simp: bit_and_iff\<close>)
qed

lemma byte_split_high: "\<not> bit c 7 \<Longrightarrow> (c OR 0x80) AND 0x7f = (c :: byte)"
  by (rule byte_eqI) (auto simp: bit_and_iff bit_or_iff)

lemma byte_low: "\<not> bit c 7 \<Longrightarrow> c AND 0x7f = (c :: byte)"
  by (rule byte_eqI) (auto simp: bit_and_iff bit_or_iff)

lemma byte_or_high: "bit (c OR 0x80 :: byte) 7"
  by (simp add: bit_or_iff)

lemma be_nat_Cons: "be_nat (b # bs) = unat b * 256 ^ length bs + be_nat bs"
proof -
  have "le_nat (xs @ [b]) = le_nat xs + unat b * 256 ^ length xs" for xs
    by (induction xs) (simp_all add: algebra_simps)
  then show ?thesis by (simp add: be_nat_def)
qed

lemma be_nat_0 [simp]: "be_nat (0 # bs) = be_nat bs"
  by (simp add: be_nat_Cons)

text \<open>
  \<open>mpi_sign\<close> is the sign handling shared by \<open>BN_bn2mpi\<close> and \<open>setint64\<close>; reading it back gives
  the signed magnitude.
\<close>

definition mpi_sign :: "bool \<Rightarrow> byte list \<Rightarrow> byte list" where
  "mpi_sign neg bs =
     (case bs of [] \<Rightarrow> []
      | c # cs \<Rightarrow> if c AND 0x80 \<noteq> 0 then (if neg then 0x80 else 0) # c # cs
                  else (if neg then c OR 0x80 else c) # cs)"

lemma be_nat_Nil [simp]: "be_nat [] = 0"
  by (simp add: be_nat_def)

lemma mpi_value_sign: "mpi_value (mpi_sign neg bs) = (if neg then - int (be_nat bs) else int (be_nat bs))"
  by (cases bs)
     (auto simp: mpi_sign_def mpi_value_def Let_def byte_high_iff byte_split_high
        byte_low bit_or_iff be_nat_Cons)

lemma mpi_value_body [simp]: "mpi_value (mpi_body n) = n"
proof -
  have "mpi_body n = mpi_sign (n < 0) (rev (min_le (nat \<bar>n\<bar>)))"
    by (simp add: mpi_body_def mpi_sign_def split: list.splits)
  then show ?thesis by (auto simp: mpi_value_sign be_nat_def)
qed

section \<open>Script numbers\<close>

lemma getvch_documented:
  "mpi_documented L \<Longrightarrow> getvch L n = rev (mpi_body n)"
  by (simp add: mpi_documented_def getvch_def)

lemma setvch_documented:
  "mpi_documented L \<Longrightarrow> length vch < 2 ^ 32 \<Longrightarrow> setvch L vch = mpi_value (rev vch)"
  unfolding mpi_documented_def setvch_def by (metis length_rev)

lemma setvch_getvch:
  assumes "mpi_documented L" and "length (getvch L n) < 2 ^ 32"
  shows "setvch L (getvch L n) = n"
  using assms by (simp add: setvch_documented getvch_documented)

lemma length_min_le: "n < 256 ^ k \<Longrightarrow> length (min_le n) \<le> k"
proof (induction k arbitrary: n)
  case 0
  then show ?case by (simp add: min_le.simps)
next
  case (Suc k)
  then have "n div 256 < 256 ^ k" by (simp add: less_mult_imp_div_less mult.commute)
  then have "length (min_le (n div 256)) \<le> k" by (rule Suc.IH)
  then show ?case by (subst min_le.simps) simp
qed

lemma length_mpi_body: "nat \<bar>n\<bar> < 256 ^ k \<Longrightarrow> length (mpi_body n) \<le> Suc k"
  using length_min_le [of "nat \<bar>n\<bar>" k]
  by (auto simp: mpi_body_def split: list.splits)

lemma length_getvch:
  "mpi_documented L \<Longrightarrow> nat \<bar>n\<bar> < 256 ^ k \<Longrightarrow> length (getvch L n) \<le> Suc k"
  by (simp add: getvch_documented length_mpi_body)

lemma be_nat_lt: "be_nat bs < 256 ^ length bs"
  using le_nat_lt [of "rev bs"] by (simp add: be_nat_def)

lemma mpi_value_bound: "nat \<bar>mpi_value bs\<bar> < 256 ^ length bs"
proof (cases bs)
  case (Cons c cs)
  then show ?thesis using be_nat_lt [of "(c AND 0x7f) # cs"] by (simp add: mpi_value_def Let_def)
qed (simp add: mpi_value_def)

section \<open>setint64 computes the value it is given\<close>

primrec top_bytes :: "nat \<Rightarrow> u64 \<Rightarrow> byte list" where
  "top_bytes 0 n = []"
| "top_bytes (Suc i) n = (ucast (drop_bit 56 n AND 0xff) :: byte) # top_bytes i (push_bit 8 n)"

lemma setint64_loop_False: "setint64_loop neg False i n = top_bytes i n"
  by (induction i arbitrary: n) (simp_all add: Let_def)

lemma setint64_loop_True:
  "setint64_loop neg True i n = mpi_sign neg (dropWhile (\<lambda>b. b = 0) (top_bytes i n))"
  by (induction i arbitrary: n) (simp_all add: Let_def setint64_loop_False mpi_sign_def)

lemma be_nat_dropWhile: "be_nat (dropWhile (\<lambda>b. b = 0) bs) = be_nat bs"
  by (induction bs) (auto simp: be_nat_Cons)

lemma length_top_bytes [simp]: "length (top_bytes i n) = i"
  by (induction i arbitrary: n) simp_all

lemma unat_top_byte: "unat (ucast (drop_bit 56 n AND 0xff :: u64) :: byte) = unat n div 2 ^ 56"
proof -
  have n64: "unat n < 2 ^ 64" using unsigned_less [of n, where ?'a = nat] by simp
  then have lt: "unat n div 2 ^ 56 < 256" by (simp add: less_mult_imp_div_less)
  have m: "(0xff :: u64) = mask 8" by (simp add: mask_eq_exp_minus_1)
  have "unat (drop_bit 56 n AND 0xff :: u64) = (unat n div 2 ^ 56) mod 256"
    unfolding m take_bit_eq_mask [symmetric] unsigned_take_bit_eq unsigned_drop_bit_eq
    using n64 lt by (simp add: drop_bit_eq_div take_bit_eq_mod)
  then have "unat (drop_bit 56 n AND 0xff :: u64) = unat n div 2 ^ 56" using lt by simp
  moreover have "unat (ucast x :: byte) = unat x mod 256" for x :: u64
    by (simp add: unsigned_ucast_eq take_bit_eq_mod)
  ultimately show ?thesis using lt by simp
qed

lemma be_nat_top_bytes: "i \<le> 8 \<Longrightarrow> be_nat (top_bytes i n) = unat n div 2 ^ (64 - 8 * i)"
proof (induction i arbitrary: n)
  case 0
  have "unat n < 2 ^ 64" using unsigned_less [of n, where ?'a = nat] by simp
  then show ?case by simp
next
  case (Suc i)
  let ?N = "unat n" and ?d = "56 - 8 * i"
  have sh: "unat (push_bit 8 n) = (?N * 256) mod 2 ^ 64"
    unfolding unsigned_push_bit_eq by (simp add: push_bit_eq_mult take_bit_eq_mod)
  have "(2::nat) ^ 64 = 2 ^ 56 * 256" by simp
  then have r: "unat (push_bit 8 n) = (?N mod 2 ^ 56) * 256"
    unfolding sh by (metis mult_mod_left)
  have e: "64 - 8 * i = ?d + 8" using Suc.prems by simp
  have "unat (push_bit 8 n) div 2 ^ (64 - 8 * i) = (?N mod 2 ^ 56) div 2 ^ ?d"
    unfolding r e by (simp add: power_add)
  moreover have "?N div 2 ^ ?d = (?N div 2 ^ 56) * 2 ^ (8 * i) + (?N mod 2 ^ 56) div 2 ^ ?d"
  proof -
    have p: "(2::nat) ^ 56 = 2 ^ (8 * i) * 2 ^ ?d"
      using Suc.prems by (simp flip: power_add)
    have "?N = (?N div 2 ^ 56) * 2 ^ (8 * i) * 2 ^ ?d + ?N mod 2 ^ 56"
      using div_mult_mod_eq [of ?N "2 ^ 56"] unfolding p by (simp add: mult.assoc)
    then have "?N div 2 ^ ?d = ((?N div 2 ^ 56) * 2 ^ (8 * i) * 2 ^ ?d + ?N mod 2 ^ 56) div 2 ^ ?d"
      by simp
    then show ?thesis by (simp add: add.commute)
  qed
  moreover have "(256::nat) ^ i = 2 ^ (8 * i)" by (simp add: power_mult)
  moreover have "64 - 8 * Suc i = ?d" by simp
  ultimately show ?case
    using Suc by (simp add: be_nat_Cons unat_top_byte)
qed

lemma length_setint64_loop: "length (setint64_loop neg lz i n) \<le> Suc i"
proof (cases lz)
  case True
  let ?bs = "dropWhile (\<lambda>b. b = 0) (top_bytes i n)"
  have "length (mpi_sign neg ?bs) \<le> Suc (length ?bs)"
    by (simp add: mpi_sign_def split: list.splits)
  also have "\<dots> \<le> Suc i"
    using length_dropWhile_le [of "\<lambda>b. b = 0" "top_bytes i n"] by simp
  finally show ?thesis using True by (simp only: setint64_loop_True)
qed (simp add: setint64_loop_False)

lemma unat_setint64_word:
  assumes "in_i64 sn"
  shows "int (unat (if sn < 0 then (word_of_int (- (sn + 1)) :: u64) + 1 else word_of_int sn)) = \<bar>sn\<bar>"
proof (cases "sn < 0")
  case True
  have e: "(word_of_int (- (sn + 1)) :: u64) + 1 = word_of_int (- sn)" by simp
  have "int (unat ((word_of_int (- (sn + 1)) :: u64) + 1)) = (- sn) mod 2 ^ 64"
    unfolding e of_nat_unat uint_word_of_int by simp
  also have "\<dots> = - sn"
    using assms True by (simp add: in_i64_def i64_min_def)
  finally show ?thesis using True by simp
next
  case False
  then show ?thesis
    using assms by (simp add: in_i64_def i64_max_def uint_word_of_int)
qed

lemma setint64_int:
  assumes "mpi_documented L" and "in_i64 sn"
  shows "setint64 L sn = sn"
proof -
  let ?n = "if sn < 0 then (word_of_int (- (sn + 1)) :: u64) + 1 else word_of_int sn"
  let ?body = "setint64_loop (sn < 0) True 8 ?n"
  have "length ?body < 2 ^ 32"
    using length_setint64_loop [of "sn < 0" True 8 ?n] by simp
  then have "setint64 L sn = mpi_value ?body"
    using assms(1) unfolding mpi_documented_def setint64_def Let_def by blast
  also have "\<dots> = (if sn < 0 then - int (unat ?n) else int (unat ?n))"
    using be_nat_top_bytes [of 8 ?n]
    by (simp only: setint64_loop_True mpi_value_sign be_nat_dropWhile) simp
  also have "\<dots> = sn" unfolding unat_setint64_word [OF assms(2)] by simp
  finally show ?thesis .
qed

text \<open>
  The hand-written loop of \<open>setint64\<close> builds the big number its argument is, for every 64-bit
  signed value, the smallest one included.
\<close>

theorem setint64_value:
  assumes "mpi_documented L" and "in_i64 sn"
  shows "setint64 L sn = sn"
  using assms by (rule setint64_int)

theorem setint64_value_witness: "setint64 sample_openssl (-300) = -300"
  by (rule setint64_value [OF mpi_documented_sample])
    (simp add: in_i64_def i64_min_def i64_max_def)

end
