(* ===== verification/Script.thy ===== *)
theory Script
  imports Bignum Opcodes
begin

text \<open>
  \<open>CScript\<close> of \<open>src/src/script.h\<close> and its scanning members in \<open>src/src/script.cpp\<close>: building scripts,
  reading one instruction, the scans over whole scripts, and \<open>FindAndDelete\<close>.  A script is the list
  of its bytes and a \<open>const_iterator\<close> is the suffix still to be read.  Scripts are shorter than
  \<open>2 ^ 32\<close> bytes throughout (\<open>MAX_SIZE\<close> bounds what is deserialised), so the \<open>unsigned int\<close> sizes of
  the source do not wrap.
\<close>

type_synonym script = "byte list"

section \<open>Building scripts\<close>

text \<open>\<open>push_data b\<close> is what \<open>operator<<(vector)\<close> appends.\<close>

definition push_data :: "valtype \<Rightarrow> script" where
  "push_data b =
     (if length b < OP_PUSHDATA1 then [word_of_nat (length b)]
      else if length b \<le> 0xff then [op_byte OP_PUSHDATA1, word_of_nat (length b)]
      else if length b \<le> 0xffff then op_byte OP_PUSHDATA2 # nat_le 2 (length b)
      else op_byte OP_PUSHDATA4 # nat_le 4 (length b)) @ b"

definition push_vch :: "script \<Rightarrow> valtype \<Rightarrow> script" where
  "push_vch s b = s @ push_data b"

text \<open>An \<open>opcodetype\<close> of the enumeration is at most \<open>0xff\<close>, so the range check never throws.\<close>

definition push_opcode :: "script \<Rightarrow> opcodetype \<Rightarrow> script" where
  "push_opcode s opcode = s @ [op_byte opcode]"

definition push_int64 :: "openssl \<Rightarrow> script \<Rightarrow> int \<Rightarrow> script" where
  "push_int64 L s n =
     (if n = -1 \<or> (n \<ge> 1 \<and> n \<le> 16) then s @ [word_of_int (n + (int OP_1 - 1))]
      else push_vch s (getvch L (setint64 L n)))"

definition push_uint160 :: "script \<Rightarrow> uint160 \<Rightarrow> script" where
  "push_uint160 s b = s @ [20] @ bytes160 b"

text \<open>\<open>DecodeOP_N\<close> and \<open>EncodeOP_N\<close> assert their range: \<open>None\<close> is the failed assertion.\<close>

definition DecodeOP_N :: "opcodetype \<Rightarrow> int option" where
  "DecodeOP_N opcode =
     (if opcode = OP_0 then Some 0
      else if opcode \<ge> OP_1 \<and> opcode \<le> OP_16 then Some (int opcode - (int OP_1 - 1))
      else None)"

definition EncodeOP_N :: "int \<Rightarrow> opcodetype option" where
  "EncodeOP_N n =
     (if \<not> (n \<ge> 0 \<and> n \<le> 16) then None
      else if n = 0 then Some OP_0
      else Some (nat (int OP_1 + n - 1)))"

section \<open>Reading one instruction\<close>

text \<open>
  \<open>GetOpErr pc\<close> is a \<open>false\<close> return that leaves the iterator at \<open>pc\<close> (with \<open>OP_INVALIDOPCODE\<close> and an
  empty operand in the reference arguments); \<open>GetOpOk\<close> carries the opcode, the operand and the
  iterator after the instruction.
\<close>

datatype getop = GetOpErr script | GetOpOk opcodetype valtype script

definition take_operand :: "opcodetype \<Rightarrow> nat \<Rightarrow> script \<Rightarrow> getop" where
  "take_operand opcode nSize pc =
     (if length pc < nSize then GetOpErr pc
      else GetOpOk opcode (take nSize pc) (drop nSize pc))"

definition GetOp2 :: "script \<Rightarrow> getop" where
  "GetOp2 pc0 =
     (case pc0 of
        [] \<Rightarrow> GetOpErr []
      | b # pc \<Rightarrow>
          (let opcode = unat b
           in if opcode \<le> OP_PUSHDATA4 then
                (if opcode < OP_PUSHDATA1 then take_operand opcode opcode pc
                 else if opcode = OP_PUSHDATA1 then
                   (case pc of [] \<Rightarrow> GetOpErr pc | n # pc' \<Rightarrow> take_operand opcode (unat n) pc')
                 else if opcode = OP_PUSHDATA2 then
                   (if length pc < 2 then GetOpErr pc
                    else take_operand opcode (le_nat (take 2 pc)) (drop 2 pc))
                 else
                   (if length pc < 4 then GetOpErr pc
                    else take_operand opcode (le_nat (take 4 pc)) (drop 4 pc)))
              else GetOpOk opcode [] pc))"

lemma take_operand_Ok:
  "take_operand op n pc = GetOpOk opcode d r \<Longrightarrow>
     opcode = op \<and> length d = n \<and> pc = d @ r"
  by (auto simp: take_operand_def split: if_splits)

lemma take_operand_append [simp]:
  "length d = n \<Longrightarrow> take_operand op n (d @ r) = GetOpOk op d r"
  by (simp add: take_operand_def)

lemma GetOp2_Nil [simp]: "GetOp2 [] = GetOpErr []"
  by (simp add: GetOp2_def)

lemma take_operand_0 [simp]: "take_operand op 0 r = GetOpOk op [] r"
  by (simp add: take_operand_def)

text \<open>
  The shape of an encoded instruction: \<open>c\<close> encodes \<open>opcode\<close> with operand \<open>d\<close> when it is the opcode
  byte, the length bytes the opcode asks for, and the operand.
\<close>

definition op_encoding :: "opcodetype \<Rightarrow> valtype \<Rightarrow> byte list \<Rightarrow> bool" where
  "op_encoding opcode d c \<longleftrightarrow>
     (\<exists>b. unat b = opcode \<and>
        (if opcode < OP_PUSHDATA1 then length d = opcode \<and> c = b # d
         else if opcode = OP_PUSHDATA1 then (\<exists>n. unat n = length d \<and> c = b # n # d)
         else if opcode = OP_PUSHDATA2 then
           (\<exists>n. length n = 2 \<and> le_nat n = length d \<and> c = b # n @ d)
         else if opcode = OP_PUSHDATA4 then
           (\<exists>n. length n = 4 \<and> le_nat n = length d \<and> c = b # n @ d)
         else d = [] \<and> c = [b]))"

lemma GetOp2_encoded: "op_encoding opcode d c \<Longrightarrow> GetOp2 (c @ r) = GetOpOk opcode d r"
  by (auto simp: op_encoding_def GetOp2_def Let_def split: if_splits)

lemma GetOp2_Ok_encoded:
  assumes "GetOp2 s = GetOpOk opcode d r"
  obtains c where "s = c @ r" and "op_encoding opcode d c"
proof (cases s)
  case Nil
  with assms show ?thesis by simp
next
  case (Cons b pc)
  have split_take: "xs = take n xs @ drop n xs" for n and xs :: "byte list" by simp
  consider (imm) "unat b < 0x4c" | (p1) "unat b = 0x4c" | (p2) "unat b = 0x4d"
    | (p4) "unat b = 0x4e" | (oth) "unat b > 0x4e"
    by arith
  then show ?thesis
  proof cases
    case imm
    with assms Cons have "take_operand (unat b) (unat b) pc = GetOpOk opcode d r"
      by (simp add: GetOp2_def Let_def)
    from take_operand_Ok [OF this] Cons imm show ?thesis
      by (intro that [of "b # d"]) (auto simp: op_encoding_def)
  next
    case p1
    with assms Cons obtain n pc' where pc: "pc = n # pc'"
      and t: "take_operand (unat b) (unat n) pc' = GetOpOk opcode d r"
      by (auto simp: GetOp2_def Let_def split: list.splits)
    from take_operand_Ok [OF t] Cons pc p1 show ?thesis
      by (intro that [of "b # n # d"]) (auto simp: op_encoding_def)
  next
    case p2
    with assms Cons have l: "2 \<le> length pc"
      and t: "take_operand (unat b) (le_nat (take 2 pc)) (drop 2 pc) = GetOpOk opcode d r"
      by (auto simp: GetOp2_def Let_def split: if_splits)
    from take_operand_Ok [OF t] Cons l p2 show ?thesis
      using split_take [of pc 2]
      by (intro that [of "b # take 2 pc @ d"]) (auto simp: op_encoding_def intro!: exI [of _ b])
  next
    case p4
    with assms Cons have l: "4 \<le> length pc"
      and t: "take_operand (unat b) (le_nat (take 4 pc)) (drop 4 pc) = GetOpOk opcode d r"
      by (auto simp: GetOp2_def Let_def split: if_splits)
    from take_operand_Ok [OF t] Cons l p4 show ?thesis
      using split_take [of pc 4]
      by (intro that [of "b # take 4 pc @ d"]) (auto simp: op_encoding_def intro!: exI [of _ b])
  next
    case oth
    with assms Cons show ?thesis
      by (intro that [of "[b]"]) (auto simp: GetOp2_def Let_def op_encoding_def)
  qed
qed

lemma op_encoding_nonempty: "op_encoding opcode d c \<Longrightarrow> c \<noteq> []"
  by (auto simp: op_encoding_def split: if_splits)

lemma GetOp2_shorter [termination_simp]:
  assumes "GetOp2 s = GetOpOk opcode d r"
  shows "length r < length s"
  using assms by (elim GetOp2_Ok_encoded) (auto dest: op_encoding_nonempty)

lemma GetOp2_opcode_lt: "GetOp2 s = GetOpOk opcode d r \<Longrightarrow> opcode < 256"
  by (elim GetOp2_Ok_encoded) (auto simp: op_encoding_def)

lemma GetOp2_operand:
  "GetOp2 s = GetOpOk opcode d r \<Longrightarrow> opcode > OP_PUSHDATA4 \<Longrightarrow> d = []"
  by (elim GetOp2_Ok_encoded) (auto simp: op_encoding_def)

section \<open>Scans over a script\<close>

fun IsPushOnly :: "script \<Rightarrow> bool" where
  "IsPushOnly pc =
     (if pc = [] then True
      else case GetOp2 pc of
             GetOpErr _ \<Rightarrow> False
           | GetOpOk opcode _ pc' \<Rightarrow> if opcode > OP_16 then False else IsPushOnly pc')"

fun HasCanonicalPushes :: "script \<Rightarrow> bool" where
  "HasCanonicalPushes pc =
     (if pc = [] then True
      else case GetOp2 pc of
             GetOpErr _ \<Rightarrow> False
           | GetOpOk opcode d pc' \<Rightarrow>
               if opcode > OP_16 then HasCanonicalPushes pc'
               else if opcode < OP_PUSHDATA1 \<and> opcode > OP_0 \<and> (length d = 1 \<and> d ! 0 \<le> 16) then False
               else if opcode = OP_PUSHDATA1 \<and> length d < OP_PUSHDATA1 then False
               else if opcode = OP_PUSHDATA2 \<and> length d \<le> 0xff then False
               else if opcode = OP_PUSHDATA4 \<and> length d \<le> 0xffff then False
               else HasCanonicalPushes pc')"

fun Find :: "opcodetype \<Rightarrow> script \<Rightarrow> nat" where
  "Find op pc =
     (if pc = [] then 0
      else case GetOp2 pc of
             GetOpErr _ \<Rightarrow> 0
           | GetOpOk opcode _ pc' \<Rightarrow> (if opcode = op then 1 else 0) + Find op pc')"

fun GetSigOpCount_loop :: "bool \<Rightarrow> opcodetype \<Rightarrow> script \<Rightarrow> nat" where
  "GetSigOpCount_loop fAccurate lastOpcode pc =
     (if pc = [] then 0
      else case GetOp2 pc of
             GetOpErr _ \<Rightarrow> 0
           | GetOpOk opcode _ pc' \<Rightarrow>
               (if opcode = OP_CHECKSIG \<or> opcode = OP_CHECKSIGVERIFY then 1
                else if opcode = OP_CHECKMULTISIG \<or> opcode = OP_CHECKMULTISIGVERIFY then
                  (if fAccurate \<and> lastOpcode \<ge> OP_1 \<and> lastOpcode \<le> OP_16
                   then nat (the (DecodeOP_N lastOpcode)) else 20)
                else 0) + GetSigOpCount_loop fAccurate opcode pc')"

definition GetSigOpCount :: "bool \<Rightarrow> script \<Rightarrow> nat" where
  "GetSigOpCount fAccurate s = GetSigOpCount_loop fAccurate OP_INVALIDOPCODE s"

definition IsPayToScriptHash :: "script \<Rightarrow> bool" where
  "IsPayToScriptHash s \<longleftrightarrow>
     length s = 23 \<and> s ! 0 = op_byte OP_HASH160 \<and> s ! 1 = 0x14 \<and> s ! 22 = op_byte OP_EQUAL"

text \<open>The last item \<open>scriptSig\<close> pushes; \<open>None\<close> is the early \<open>return 0\<close>.\<close>

fun last_push :: "valtype \<Rightarrow> script \<Rightarrow> valtype option" where
  "last_push data pc =
     (if pc = [] then Some data
      else case GetOp2 pc of
             GetOpErr _ \<Rightarrow> None
           | GetOpOk opcode d pc' \<Rightarrow> if opcode > OP_16 then None else last_push d pc')"

definition GetSigOpCount_P2SH :: "script \<Rightarrow> script \<Rightarrow> nat" where
  "GetSigOpCount_P2SH s scriptSig =
     (if \<not> IsPayToScriptHash s then GetSigOpCount True s
      else case last_push [] scriptSig of
             None \<Rightarrow> 0
           | Some subscript \<Rightarrow> GetSigOpCount True subscript)"

section \<open>FindAndDelete\<close>

text \<open>The inner loop: every copy of \<open>b\<close> at the iterator is erased.\<close>

function erase_copies :: "script \<Rightarrow> script \<Rightarrow> script \<times> nat" where
  "erase_copies b pc =
     (if b \<noteq> [] \<and> length pc \<ge> length b \<and> take (length b) pc = b
      then (case erase_copies b (drop (length b) pc) of (pc', n) \<Rightarrow> (pc', Suc n))
      else (pc, 0))"
  by pat_completeness auto
termination
  by (relation "measure (\<lambda>(b, pc). length pc)") (auto simp flip: length_greater_0_conv)

declare IsPushOnly.simps [simp del] HasCanonicalPushes.simps [simp del] Find.simps [simp del]
  GetSigOpCount_loop.simps [simp del] last_push.simps [simp del] erase_copies.simps [simp del]

lemma erase_copies_shorter:
  "erase_copies b pc = (pc', n) \<Longrightarrow> length pc = length pc' + n * length b"
proof (induction b pc arbitrary: pc' n rule: erase_copies.induct)
  case (1 b pc)
  show ?case
  proof (cases "b \<noteq> [] \<and> length pc \<ge> length b \<and> take (length b) pc = b")
    case True
    obtain q m where qm: "erase_copies b (drop (length b) pc) = (q, m)" by fastforce
    with True "1.prems" have "pc' = q" and "n = Suc m"
      by (auto simp: erase_copies.simps [of b pc])
    with "1.IH" [OF True qm] True show ?thesis by auto
  next
    case False
    with "1.prems" show ?thesis by (auto simp: erase_copies.simps [of b pc])
  qed
qed

lemma erase_copies_le: "length (fst (erase_copies b pc)) \<le> length pc"
  using erase_copies_shorter [of b pc] by (cases "erase_copies b pc") auto

text \<open>
  The outer loop: the script after the iterator, with the number of copies found.  The bytes an
  instruction occupies are kept in front of what the rest of the loop leaves.
\<close>

function FindAndDelete_loop :: "script \<Rightarrow> script \<Rightarrow> script \<times> nat" where
  "FindAndDelete_loop b pc =
     (case erase_copies b pc of
        (pc', n) \<Rightarrow>
          (case GetOp2 pc' of
             GetOpErr _ \<Rightarrow> (pc', n)
           | GetOpOk _ _ pc'' \<Rightarrow>
               (case FindAndDelete_loop b pc'' of
                  (out, m) \<Rightarrow> (take (length pc' - length pc'') pc' @ out, n + m))))"
  by pat_completeness auto
termination
  by (relation "measure (\<lambda>(b, pc). length pc)")
     (auto dest!: erase_copies_shorter [OF sym] GetOp2_shorter)

declare FindAndDelete_loop.simps [simp del]

definition FindAndDelete :: "script \<Rightarrow> script \<Rightarrow> script \<times> nat" where
  "FindAndDelete s b = (if b = [] then (s, 0) else FindAndDelete_loop b s)"

text \<open>
  Reference description: the script cut into its encoded instructions and the tail that does not
  parse.
\<close>

fun chunks :: "script \<Rightarrow> byte list list \<times> script" where
  "chunks s =
     (case GetOp2 s of
        GetOpErr _ \<Rightarrow> ([], s)
      | GetOpOk _ _ r \<Rightarrow>
          (case chunks r of (cs, t) \<Rightarrow> (take (length s - length r) s # cs, t)))"

declare chunks.simps [simp del]

lemma concat_chunks: "concat (fst (chunks s)) @ snd (chunks s) = s"
proof (induction s rule: chunks.induct)
  case (1 s)
  show ?case
  proof (cases "GetOp2 s")
    case (GetOpErr pc)
    then show ?thesis by (simp add: chunks.simps [of s])
  next
    case (GetOpOk opcode d r)
    then obtain c where c: "s = c @ r" by (rule GetOp2_Ok_encoded)
    with GetOpOk 1 [OF GetOpOk] show ?thesis
      by (auto simp: chunks.simps [of "c @ r"] split: prod.splits)
  qed
qed

lemma take_prefix_iff:
  "(length pc \<ge> length b \<and> take (length b) pc = b) = (\<exists>r. pc = b @ r)"
  by (metis append_eq_conv_conj append_take_drop_id length_append le_add1)

lemma erase_copies_append [simp]:
  "b \<noteq> [] \<Longrightarrow> erase_copies b (b @ r) = (fst (erase_copies b r), Suc (snd (erase_copies b r)))"
  by (subst erase_copies.simps) (simp split: prod.splits)

lemma erase_copies_none: "\<nexists>r. pc = b @ r \<Longrightarrow> erase_copies b pc = (pc, 0)"
  by (subst erase_copies.simps) (use take_prefix_iff [of b pc] in auto)

lemma FindAndDelete_loop_append:
  "b \<noteq> [] \<Longrightarrow> FindAndDelete_loop b (b @ r) =
     (fst (FindAndDelete_loop b r), Suc (snd (FindAndDelete_loop b r)))"
  by (subst (1 2 3) FindAndDelete_loop.simps)
     (simp split: prod.splits getop.splits)

lemma FindAndDelete_loop_none:
  "\<nexists>r. s = b @ r \<Longrightarrow> FindAndDelete_loop b s =
     (case GetOp2 s of
        GetOpErr _ \<Rightarrow> (s, 0)
      | GetOpOk _ _ r \<Rightarrow>
          (take (length s - length r) s @ fst (FindAndDelete_loop b r), snd (FindAndDelete_loop b r)))"
  by (subst FindAndDelete_loop.simps) (simp add: erase_copies_none split: prod.splits getop.splits)

lemma FindAndDelete_loop_chunks:
  assumes "op_encoding opcode d b"
  shows "FindAndDelete_loop b s =
    (concat (filter (\<lambda>c. c \<noteq> b) (fst (chunks s))) @ snd (chunks s),
     length (filter (\<lambda>c. c = b) (fst (chunks s))))"
proof (induction s rule: chunks.induct)
  case (1 s)
  have b: "b \<noteq> []" using assms by (rule op_encoding_nonempty)
  show ?case
  proof (cases "\<exists>r. s = b @ r")
    case True
    then obtain r where s: "s = b @ r" by blast
    have g: "GetOp2 s = GetOpOk opcode d r"
      unfolding s using assms by (rule GetOp2_encoded)
    then have "chunks s = (b # fst (chunks r), snd (chunks r))"
      by (simp add: chunks.simps [of "b @ r"] s split: prod.splits)
    with 1 [OF g] show ?thesis by (simp add: s FindAndDelete_loop_append b)
  next
    case False
    show ?thesis
    proof (cases "GetOp2 s")
      case (GetOpErr pc)
      then show ?thesis
        using FindAndDelete_loop_none [OF False] by (simp add: chunks.simps [of s])
    next
      case (GetOpOk opcode' d' r)
      then obtain c where c: "s = c @ r" by (rule GetOp2_Ok_encoded)
      with False have "c \<noteq> b" by blast
      with c GetOpOk 1 [OF GetOpOk] show ?thesis
        using FindAndDelete_loop_none [OF False]
        by (simp add: chunks.simps [of "c @ r"] split: prod.splits)
    qed
  qed
qed

section \<open>The instructions of a script\<close>

text \<open>The whole script read instruction by instruction; \<open>None\<close> when an instruction does not parse.\<close>

fun instructions :: "script \<Rightarrow> (opcodetype \<times> valtype) list option" where
  "instructions s =
     (if s = [] then Some []
      else case GetOp2 s of
             GetOpErr _ \<Rightarrow> None
           | GetOpOk opcode d r \<Rightarrow> map_option (Cons (opcode, d)) (instructions r))"

declare instructions.simps [simp del]

lemma instructions_Nil [simp]: "instructions [] = Some []"
  by (simp add: instructions.simps)

lemma instructions_Ok:
  assumes "GetOp2 s = GetOpOk opcode d r"
  shows "instructions s = map_option (Cons (opcode, d)) (instructions r)"
proof -
  from assms have "s \<noteq> []" by auto
  with assms show ?thesis by (simp add: instructions.simps [of s])
qed

lemma op_encoding_push_data:
  assumes "length b < 2 ^ 32"
  shows "op_encoding (unat (hd (push_data b))) b (push_data b)"
proof -
  consider "length b < 0x4c" | "0x4c \<le> length b \<and> length b \<le> 0xff"
    | "0xff < length b \<and> length b \<le> 0xffff" | "0xffff < length b"
    by linarith
  then show ?thesis
  proof cases
    case 1
    then show ?thesis by (simp add: op_encoding_def push_data_def unat_word_of_nat_byte)
  next
    case 2
    then show ?thesis
      by (auto simp: op_encoding_def push_data_def unat_op_byte unat_word_of_nat_byte
          intro: exI [of _ "word_of_nat (length b)"])
  next
    case 3
    then show ?thesis
      by (auto simp: op_encoding_def push_data_def unat_op_byte intro: exI [of _ "nat_le 2 (length b)"])
  next
    case 4
    with assms show ?thesis
      by (auto simp: op_encoding_def push_data_def unat_op_byte intro: exI [of _ "nat_le 4 (length b)"])
  qed
qed

lemma GetOp2_push_data:
  "length b < 2 ^ 32 \<Longrightarrow>
     GetOp2 (push_data b @ r) = GetOpOk (unat (hd (push_data b))) b r"
  by (rule GetOp2_encoded [OF op_encoding_push_data])

lemma push_data_not_Nil [simp]: "push_data b \<noteq> []"
  by (simp add: push_data_def)

lemma push_data_opcode_le: "unat (hd (push_data b)) \<le> OP_PUSHDATA4"
  by (simp add: push_data_def unat_op_byte unat_word_of_nat_byte)

lemma GetOp2_opcode:
  "unat b > OP_PUSHDATA4 \<Longrightarrow> GetOp2 (b # r) = GetOpOk (unat b) [] r"
  by (simp add: GetOp2_def Let_def)

lemma IsPushOnly_push_data:
  assumes "length d < 2 ^ 32"
  shows "IsPushOnly (push_data d @ r) = IsPushOnly r"
  using push_data_opcode_le [of d]
  by (subst IsPushOnly.simps) (simp add: GetOp2_push_data [OF assms])

lemma IsPushOnly_pushes:
  "\<forall>d \<in> set ds. length d < 2 ^ 32 \<Longrightarrow> IsPushOnly (concat (map push_data ds))"
  by (induction ds) (simp_all add: IsPushOnly_push_data IsPushOnly.simps [of "[]"])

end
