(* ===== verification/Interpreter.thy ===== *)
theory Interpreter
  imports Script
begin

text \<open>
  The script interpreter \<open>EvalScript\<close> of \<open>src/src/script.cpp\<close>.

  The local variables of \<open>EvalScript\<close> are the record \<open>evalst\<close>.  The vectors \<open>stack\<close>, \<open>altstack\<close>
  and \<open>vfExec\<close> are lists with the top (\<open>back()\<close>) first, so \<open>stacktop(-i)\<close> is element \<open>i - 1\<close>.
  A step ends \<open>Running\<close> or \<open>Failed\<close>; \<open>Failed\<close> carries the state of the failing return because
  the caller's stack is passed by reference and keeps what the script left on it.  The \<open>catch (...)\<close>
  around the loop makes an exception (\<open>CastToBigNum\<close> on more than four bytes) such a failure too.

  \<open>CheckSig\<close> is the argument \<open>chk\<close>: it takes the state \<open>'c\<close> of the signature checker, the signature,
  the public key and the script code, and returns its verdict with the checker's new state.  The
  switch over the opcodes is one definition per group of cases.
\<close>

section \<open>Conversions\<close>

text \<open>\<open>CastToBigNum\<close> throws on more than \<open>nMaxNumSize\<close> bytes: \<open>None\<close>.\<close>

definition CastToBigNum :: "openssl \<Rightarrow> valtype \<Rightarrow> CBigNum option" where
  "CastToBigNum L vch =
     (if length vch > 4 then None else Some (setvch L (getvch L (setvch L vch))))"

fun CastToBool :: "valtype \<Rightarrow> bool" where
  "CastToBool [] = False"
| "CastToBool (b # bs) =
     (if b \<noteq> 0 then (if bs = [] \<and> b = 0x80 then False else True) else CastToBool bs)"

definition resize :: "nat \<Rightarrow> 'a \<Rightarrow> 'a list \<Rightarrow> 'a list" where
  "resize n x xs = (if n \<le> length xs then take n xs else xs @ replicate (n - length xs) x)"

definition MakeSameSize :: "valtype \<Rightarrow> valtype \<Rightarrow> valtype \<times> valtype" where
  "MakeSameSize vch1 vch2 =
     (let vch1' = (if length vch1 < length vch2 then resize (length vch2) 0 vch1 else vch1);
          vch2' = (if length vch2 < length vch1' then resize (length vch1') 0 vch2 else vch2)
      in (vch1', vch2'))"

abbreviation (input) vchFalse :: valtype where "vchFalse \<equiv> []"
abbreviation (input) vchTrue :: valtype where "vchTrue \<equiv> [1]"

definition bool_vch :: "bool \<Rightarrow> valtype" where
  "bool_vch b = (if b then vchTrue else vchFalse)"

section \<open>State\<close>

record evalst =
  stack :: "valtype list"
  altstack :: "valtype list"
  vfExec :: "bool list"
  nOpCount :: nat
  pbegincodehash :: script

datatype outcome = Failed evalst | Running evalst

primrec final :: "outcome \<Rightarrow> evalst" where
  "final (Failed s) = s"
| "final (Running s) = s"

type_synonym 'c sigcheck = "'c \<Rightarrow> valtype \<Rightarrow> valtype \<Rightarrow> script \<Rightarrow> bool \<times> 'c"

definition with_stack :: "evalst \<Rightarrow> valtype list \<Rightarrow> evalst" where
  "with_stack s st = s\<lparr>stack := st\<rparr>"

lemma with_stack_sel [simp]:
  "stack (with_stack s st) = st"
  "altstack (with_stack s st) = altstack s"
  "vfExec (with_stack s st) = vfExec s"
  "nOpCount (with_stack s st) = nOpCount s"
  "pbegincodehash (with_stack s st) = pbegincodehash s"
  by (simp_all add: with_stack_def)

section \<open>Constants and control\<close>

definition exec_const :: "openssl \<Rightarrow> opcodetype \<Rightarrow> evalst \<Rightarrow> outcome" where
  "exec_const L opcode s =
     Running (with_stack s
       (getvch L (CBigNum_of_int L (int opcode - (int OP_1 - 1))) # stack s))"

definition exec_control :: "opcodetype \<Rightarrow> bool \<Rightarrow> evalst \<Rightarrow> outcome" where
  "exec_control opcode fExec s =
     (if opcode = OP_NOP \<or> OP_NOP1 \<le> opcode \<and> opcode \<le> OP_NOP10 then Running s
      else if opcode = OP_IF \<or> opcode = OP_NOTIF then
        (if fExec then
           (case stack s of
              [] \<Rightarrow> Failed s
            | vch # st \<Rightarrow>
                (let fValue = CastToBool vch;
                     fValue = (if opcode = OP_NOTIF then \<not> fValue else fValue)
                 in Running (s\<lparr>stack := st, vfExec := fValue # vfExec s\<rparr>)))
         else Running (s\<lparr>vfExec := False # vfExec s\<rparr>))
      else if opcode = OP_ELSE then
        (case vfExec s of
           [] \<Rightarrow> Failed s
         | b # bs \<Rightarrow> Running (s\<lparr>vfExec := (\<not> b) # bs\<rparr>))
      else if opcode = OP_ENDIF then
        (case vfExec s of
           [] \<Rightarrow> Failed s
         | b # bs \<Rightarrow> Running (s\<lparr>vfExec := bs\<rparr>))
      else if opcode = OP_VERIFY then
        (case stack s of
           [] \<Rightarrow> Failed s
         | vch # st \<Rightarrow> if CastToBool vch then Running (with_stack s st) else Failed s)
      else Failed s)"

section \<open>Stack operations\<close>

text \<open>
  The cases that only rearrange the stack; \<open>None\<close> is the \<open>return false\<close> on too few elements, which
  leaves the stack as it was.
\<close>

definition stack_rearrange :: "opcodetype \<Rightarrow> valtype list \<Rightarrow> valtype list option" where
  "stack_rearrange opcode st =
     (if opcode = OP_2DROP then (case st of x2 # x1 # r \<Rightarrow> Some r | _ \<Rightarrow> None)
      else if opcode = OP_2DUP then
        (case st of x2 # x1 # r \<Rightarrow> Some (x2 # x1 # x2 # x1 # r) | _ \<Rightarrow> None)
      else if opcode = OP_3DUP then
        (case st of x3 # x2 # x1 # r \<Rightarrow> Some (x3 # x2 # x1 # x3 # x2 # x1 # r) | _ \<Rightarrow> None)
      else if opcode = OP_2OVER then
        (case st of
           x4 # x3 # x2 # x1 # r \<Rightarrow> Some (x2 # x1 # x4 # x3 # x2 # x1 # r) | _ \<Rightarrow> None)
      else if opcode = OP_2ROT then
        (case st of
           x6 # x5 # x4 # x3 # x2 # x1 # r \<Rightarrow> Some (x2 # x1 # x6 # x5 # x4 # x3 # r) | _ \<Rightarrow> None)
      else if opcode = OP_2SWAP then
        (case st of x4 # x3 # x2 # x1 # r \<Rightarrow> Some (x2 # x1 # x4 # x3 # r) | _ \<Rightarrow> None)
      else if opcode = OP_IFDUP then
        (case st of x # r \<Rightarrow> Some (if CastToBool x then x # x # r else x # r) | _ \<Rightarrow> None)
      else if opcode = OP_DROP then (case st of x # r \<Rightarrow> Some r | _ \<Rightarrow> None)
      else if opcode = OP_DUP then (case st of x # r \<Rightarrow> Some (x # x # r) | _ \<Rightarrow> None)
      else if opcode = OP_NIP then (case st of x2 # x1 # r \<Rightarrow> Some (x2 # r) | _ \<Rightarrow> None)
      else if opcode = OP_OVER then
        (case st of x2 # x1 # r \<Rightarrow> Some (x1 # x2 # x1 # r) | _ \<Rightarrow> None)
      else if opcode = OP_ROT then
        (case st of x3 # x2 # x1 # r \<Rightarrow> Some (x1 # x3 # x2 # r) | _ \<Rightarrow> None)
      else if opcode = OP_SWAP then (case st of x2 # x1 # r \<Rightarrow> Some (x1 # x2 # r) | _ \<Rightarrow> None)
      else if opcode = OP_TUCK then
        (case st of x2 # x1 # r \<Rightarrow> Some (x2 # x1 # x2 # r) | _ \<Rightarrow> None)
      else None)"

definition exec_stack :: "openssl \<Rightarrow> opcodetype \<Rightarrow> evalst \<Rightarrow> outcome" where
  "exec_stack L opcode s =
     (if opcode = OP_TOALTSTACK then
        (case stack s of
           [] \<Rightarrow> Failed s
         | x # r \<Rightarrow> Running (s\<lparr>stack := r, altstack := x # altstack s\<rparr>))
      else if opcode = OP_FROMALTSTACK then
        (case altstack s of
           [] \<Rightarrow> Failed s
         | x # r \<Rightarrow> Running (s\<lparr>stack := x # stack s, altstack := r\<rparr>))
      else if opcode = OP_DEPTH then
        Running (with_stack s (getvch L (int (length (stack s))) # stack s))
      else if opcode = OP_PICK \<or> opcode = OP_ROLL then
        (if length (stack s) < 2 then Failed s
         else case CastToBigNum L (hd (stack s)) of
                None \<Rightarrow> Failed s
              | Some bn \<Rightarrow>
                  (let n = getint bn; st = tl (stack s)
                   in if n < 0 \<or> n \<ge> int (length st) then Failed (with_stack s st)
                      else (let vch = st ! nat n;
                                st' = (if opcode = OP_ROLL then remove_nth (nat n) st else st)
                            in Running (with_stack s (vch # st')))))
      else (case stack_rearrange opcode (stack s) of
              None \<Rightarrow> Failed s
            | Some st \<Rightarrow> Running (with_stack s st)))"

section \<open>Splice operations\<close>

definition wrap32 :: "int \<Rightarrow> int" where
  "wrap32 n = (n + 2147483648) mod 4294967296 - 2147483648"

definition erase_range :: "nat \<Rightarrow> nat \<Rightarrow> valtype \<Rightarrow> valtype" where
  "erase_range nBegin nEnd vch = drop nBegin (take nEnd vch)"

definition exec_splice :: "openssl \<Rightarrow> opcodetype \<Rightarrow> evalst \<Rightarrow> outcome" where
  "exec_splice L opcode s =
     (if opcode = OP_CAT then
        (case stack s of
           vch2 # vch1 # r \<Rightarrow>
             (let s' = with_stack s ((vch1 @ vch2) # r)
              in if length (vch1 @ vch2) > 520 then Failed s' else Running s')
         | _ \<Rightarrow> Failed s)
      else if opcode = OP_SUBSTR then
        (case stack s of
           vn # vb # vch # r \<Rightarrow>
             (case (CastToBigNum L vb, CastToBigNum L vn) of
                (Some b, Some n) \<Rightarrow>
                  (let nBegin = getint b;
                       nEnd = wrap32 (nBegin + getint n)
                   in if nBegin < 0 \<or> nEnd < nBegin then Failed s
                      else
                        (let nBegin' = (if nBegin > int (length vch) then length vch else nat nBegin);
                             nEnd' = (if nEnd > int (length vch) then length vch else nat nEnd)
                         in Running (with_stack s (erase_range nBegin' nEnd' vch # r))))
              | _ \<Rightarrow> Failed s)
         | _ \<Rightarrow> Failed s)
      else if opcode = OP_LEFT \<or> opcode = OP_RIGHT then
        (case stack s of
           vn # vch # r \<Rightarrow>
             (case CastToBigNum L vn of
                None \<Rightarrow> Failed s
              | Some n \<Rightarrow>
                  (if getint n < 0 then Failed s
                   else
                     (let nSize = (if getint n > int (length vch) then length vch else nat (getint n))
                      in Running (with_stack s
                           ((if opcode = OP_LEFT then take nSize vch
                             else drop (length vch - nSize) vch) # r)))))
         | _ \<Rightarrow> Failed s)
      else
        (case stack s of
           [] \<Rightarrow> Failed s
         | vch # r \<Rightarrow> Running (with_stack s (getvch L (int (length vch)) # vch # r))))"

section \<open>Bitwise logic and equality\<close>

definition exec_bitlogic :: "opcodetype \<Rightarrow> evalst \<Rightarrow> outcome" where
  "exec_bitlogic opcode s =
     (if opcode = OP_INVERT then
        (case stack s of
           [] \<Rightarrow> Failed s
         | vch # r \<Rightarrow> Running (with_stack s (map NOT vch # r)))
      else if opcode = OP_AND \<or> opcode = OP_OR \<or> opcode = OP_XOR then
        (case stack s of
           vch2 # vch1 # r \<Rightarrow>
             (case MakeSameSize vch1 vch2 of
                (v1, v2) \<Rightarrow>
                  Running (with_stack s
                    (map2 (if opcode = OP_AND then (AND)
                           else if opcode = OP_OR then (OR) else (XOR)) v1 v2 # r)))
         | _ \<Rightarrow> Failed s)
      else
        (case stack s of
           vch2 # vch1 # r \<Rightarrow>
             (let fEqual = (vch1 = vch2); s' = with_stack s (bool_vch fEqual # r)
              in if opcode = OP_EQUALVERIFY then
                   (if fEqual then Running (with_stack s r) else Failed s')
                 else Running s')
         | _ \<Rightarrow> Failed s))"

section \<open>Numeric operations\<close>

definition bn_of_bool :: "bool \<Rightarrow> CBigNum" where
  "bn_of_bool b = (if b then 1 else 0)"

text \<open>
  \<open>operator>>=\<close> compares \<open>2 ^ shift\<close> with the signed value first, so every negative number
  shifts to zero.
\<close>

definition bn_shr :: "CBigNum \<Rightarrow> nat \<Rightarrow> CBigNum" where
  "bn_shr a shift = (if 2 ^ shift > a then 0 else a div 2 ^ shift)"

definition numeric1 :: "opcodetype \<Rightarrow> CBigNum \<Rightarrow> CBigNum" where
  "numeric1 opcode bn =
     (if opcode = OP_1ADD then bn + 1
      else if opcode = OP_1SUB then bn - 1
      else if opcode = OP_2MUL then bn * 2
      else if opcode = OP_2DIV then bn_shr bn 1
      else if opcode = OP_NEGATE then - bn
      else if opcode = OP_ABS then (if bn < 0 then - bn else bn)
      else if opcode = OP_NOT then bn_of_bool (bn = 0)
      else bn_of_bool (bn \<noteq> 0))"

definition exec_numeric1 :: "openssl \<Rightarrow> opcodetype \<Rightarrow> evalst \<Rightarrow> outcome" where
  "exec_numeric1 L opcode s =
     (case stack s of
        [] \<Rightarrow> Failed s
      | x # r \<Rightarrow>
          (case CastToBigNum L x of
             None \<Rightarrow> Failed s
           | Some bn \<Rightarrow> Running (with_stack s (getvch L (numeric1 opcode bn) # r))))"

text \<open>\<open>BN_div\<close> and \<open>BN_mod\<close> truncate towards zero and fail on a zero divisor.\<close>

definition numeric2 :: "opcodetype \<Rightarrow> CBigNum \<Rightarrow> CBigNum \<Rightarrow> CBigNum option" where
  "numeric2 opcode bn1 bn2 =
     (if opcode = OP_ADD then Some (bn1 + bn2)
      else if opcode = OP_SUB then Some (bn1 - bn2)
      else if opcode = OP_MUL then Some (bn1 * bn2)
      else if opcode = OP_DIV then
        (if bn2 = 0 then None else Some (sgn bn1 * sgn bn2 * (\<bar>bn1\<bar> div \<bar>bn2\<bar>)))
      else if opcode = OP_MOD then
        (if bn2 = 0 then None else Some (sgn bn1 * (\<bar>bn1\<bar> mod \<bar>bn2\<bar>)))
      else if opcode = OP_LSHIFT then
        (if bn2 < 0 \<or> bn2 > 2048 then None else Some (bn1 * 2 ^ nat bn2))
      else if opcode = OP_RSHIFT then
        (if bn2 < 0 \<or> bn2 > 2048 then None else Some (bn_shr bn1 (nat bn2)))
      else if opcode = OP_BOOLAND then Some (bn_of_bool (bn1 \<noteq> 0 \<and> bn2 \<noteq> 0))
      else if opcode = OP_BOOLOR then Some (bn_of_bool (bn1 \<noteq> 0 \<or> bn2 \<noteq> 0))
      else if opcode = OP_NUMEQUAL \<or> opcode = OP_NUMEQUALVERIFY then Some (bn_of_bool (bn1 = bn2))
      else if opcode = OP_NUMNOTEQUAL then Some (bn_of_bool (bn1 \<noteq> bn2))
      else if opcode = OP_LESSTHAN then Some (bn_of_bool (bn1 < bn2))
      else if opcode = OP_GREATERTHAN then Some (bn_of_bool (bn1 > bn2))
      else if opcode = OP_LESSTHANOREQUAL then Some (bn_of_bool (bn1 \<le> bn2))
      else if opcode = OP_GREATERTHANOREQUAL then Some (bn_of_bool (bn1 \<ge> bn2))
      else if opcode = OP_MIN then Some (if bn1 < bn2 then bn1 else bn2)
      else Some (if bn1 > bn2 then bn1 else bn2))"

definition exec_numeric2 :: "openssl \<Rightarrow> opcodetype \<Rightarrow> evalst \<Rightarrow> outcome" where
  "exec_numeric2 L opcode s =
     (case stack s of
        x2 # x1 # r \<Rightarrow>
          (case (CastToBigNum L x1, CastToBigNum L x2) of
             (Some bn1, Some bn2) \<Rightarrow>
               (case numeric2 opcode bn1 bn2 of
                  None \<Rightarrow> Failed s
                | Some bn \<Rightarrow>
                    (let s' = with_stack s (getvch L bn # r)
                     in if opcode = OP_NUMEQUALVERIFY then
                          (if CastToBool (getvch L bn) then Running (with_stack s r) else Failed s')
                        else Running s'))
           | _ \<Rightarrow> Failed s)
      | _ \<Rightarrow> Failed s)"

definition exec_within :: "openssl \<Rightarrow> evalst \<Rightarrow> outcome" where
  "exec_within L s =
     (case stack s of
        x3 # x2 # x1 # r \<Rightarrow>
          (case (CastToBigNum L x1, CastToBigNum L x2, CastToBigNum L x3) of
             (Some bn1, Some bn2, Some bn3) \<Rightarrow>
               Running (with_stack s (bool_vch (bn2 \<le> bn1 \<and> bn1 < bn3) # r))
           | _ \<Rightarrow> Failed s)
      | _ \<Rightarrow> Failed s)"

section \<open>Crypto\<close>

text \<open>The digests are written into a buffer of twenty or thirty-two bytes.\<close>

definition hash_op :: "openssl \<Rightarrow> opcodetype \<Rightarrow> valtype \<Rightarrow> valtype" where
  "hash_op L opcode vch =
     (if opcode = OP_RIPEMD160 then bytes160 (le_word (RIPEMD160 L vch))
      else if opcode = OP_SHA1 then bytes160 (le_word (SHA1 L vch))
      else if opcode = OP_SHA256 then bytes256 (le_word (SHA256 L vch))
      else if opcode = OP_HASH160 then bytes160 (Hash160 L vch)
      else bytes256 (Hash L vch))"

definition exec_hash :: "openssl \<Rightarrow> opcodetype \<Rightarrow> evalst \<Rightarrow> outcome" where
  "exec_hash L opcode s =
     (case stack s of
        [] \<Rightarrow> Failed s
      | vch # r \<Rightarrow> Running (with_stack s (hash_op L opcode vch # r)))"

definition exec_checksig :: "'c sigcheck \<Rightarrow> opcodetype \<Rightarrow> 'c \<Rightarrow> evalst \<Rightarrow> outcome \<times> 'c" where
  "exec_checksig chk opcode c s =
     (case stack s of
        vchPubKey # vchSig # r \<Rightarrow>
          (let scriptCode = fst (FindAndDelete (pbegincodehash s) (push_data vchSig))
           in case chk c vchSig vchPubKey scriptCode of
                (fSuccess, c') \<Rightarrow>
                  (let s' = with_stack s (bool_vch fSuccess # r)
                   in (if opcode = OP_CHECKSIGVERIFY then
                         (if fSuccess then Running (with_stack s r) else Failed s')
                       else Running s', c')))
      | _ \<Rightarrow> (Failed s, c))"

text \<open>
  The loop of \<open>OP_CHECKMULTISIG\<close> over the positions \<open>isig\<close> and \<open>ikey\<close> of the stack.  On entry
  \<open>nSigsCount\<close> is at most \<open>nKeysCount\<close> and the loop keeps that, so the counters do not go below zero.
\<close>

function multisig_loop ::
  "'c sigcheck \<Rightarrow> script \<Rightarrow> valtype list \<Rightarrow> nat \<Rightarrow> nat \<Rightarrow> nat \<Rightarrow> nat \<Rightarrow> 'c \<Rightarrow> bool \<times> 'c" where
  "multisig_loop chk scriptCode st isig nSigsCount ikey nKeysCount c =
     (if nSigsCount = 0 then (True, c)
      else case chk c (st ! (isig - 1)) (st ! (ikey - 1)) scriptCode of
             (ok, c') \<Rightarrow>
               (let isig' = (if ok then isig + 1 else isig);
                    nSigs' = (if ok then nSigsCount - 1 else nSigsCount);
                    nKeys' = nKeysCount - 1
                in if nSigs' > nKeys' then (False, c')
                   else multisig_loop chk scriptCode st isig' nSigs' (ikey + 1) nKeys' c'))"
  by pat_completeness auto
termination
  by (relation "measure (\<lambda>(_, _, _, _, nSigs, _, nKeys, _). nSigs + nKeys)") (auto split: if_splits)

declare multisig_loop.simps [simp del]

definition delete_sigs :: "script \<Rightarrow> valtype list \<Rightarrow> script" where
  "delete_sigs scriptCode sigs =
     fold (\<lambda>vchSig code. fst (FindAndDelete code (push_data vchSig))) sigs scriptCode"

definition exec_multisig ::
  "openssl \<Rightarrow> 'c sigcheck \<Rightarrow> opcodetype \<Rightarrow> 'c \<Rightarrow> evalst \<Rightarrow> outcome \<times> 'c" where
  "exec_multisig L chk opcode c s =
     (let st = stack s
      in if length st < 1 then (Failed s, c)
         else case CastToBigNum L (st ! 0) of
           None \<Rightarrow> (Failed s, c)
         | Some bnKeys \<Rightarrow>
             (if getint bnKeys < 0 \<or> getint bnKeys > 20 then (Failed s, c)
              else
                (let nKeysCount = nat (getint bnKeys);
                     s1 = s\<lparr>nOpCount := nOpCount s + nKeysCount\<rparr>;
                     ikey = 2;
                     i = 2 + nKeysCount
                 in if nOpCount s1 > 201 then (Failed s1, c)
                    else if length st < i then (Failed s1, c)
                    else case CastToBigNum L (st ! (i - 1)) of
                      None \<Rightarrow> (Failed s1, c)
                    | Some bnSigs \<Rightarrow>
                        (if getint bnSigs < 0 \<or> getint bnSigs > int nKeysCount then (Failed s1, c)
                         else
                           (let nSigsCount = nat (getint bnSigs);
                                isig = i + 1;
                                i = i + 1 + nSigsCount
                            in if length st < i then (Failed s1, c)
                               else
                                 (let scriptCode =
                                        delete_sigs (pbegincodehash s)
                                          (map (\<lambda>k. st ! (isig + k - 1)) [0..<nSigsCount])
                                  in case multisig_loop chk scriptCode st isig nSigsCount
                                            ikey nKeysCount c of
                                       (fSuccess, c') \<Rightarrow>
                                         (let r = drop i st;
                                              s' = with_stack s1 (bool_vch fSuccess # r)
                                          in (if opcode = OP_CHECKMULTISIGVERIFY then
                                                (if fSuccess then Running (with_stack s1 r)
                                                 else Failed s')
                                              else Running s', c'))))))))"

section \<open>One instruction\<close>

definition disabled :: "opcodetype \<Rightarrow> bool" where
  "disabled opcode \<longleftrightarrow>
     opcode \<in> {OP_CAT, OP_SUBSTR, OP_LEFT, OP_RIGHT, OP_INVERT, OP_AND, OP_OR, OP_XOR, OP_2MUL,
       OP_2DIV, OP_MUL, OP_DIV, OP_MOD, OP_LSHIFT, OP_RSHIFT}"

text \<open>
  The switch.  The second iterator is the position after the instruction, which \<open>OP_CODESEPARATOR\<close>
  stores.  Opcodes without a case (\<open>OP_RESERVED\<close>, \<open>OP_VER\<close>, \<open>OP_VERIF\<close>, \<open>OP_VERNOTIF\<close>,
  \<open>OP_RESERVED1\<close>, \<open>OP_RESERVED2\<close> and those above \<open>OP_NOP10\<close>) are the default.
\<close>

definition exec_op ::
  "openssl \<Rightarrow> 'c sigcheck \<Rightarrow> opcodetype \<Rightarrow> bool \<Rightarrow> script \<Rightarrow> 'c \<Rightarrow> evalst \<Rightarrow> outcome \<times> 'c" where
  "exec_op L chk opcode fExec pc c s =
     (if opcode = OP_1NEGATE \<or> OP_1 \<le> opcode \<and> opcode \<le> OP_16 then (exec_const L opcode s, c)
      else if opcode \<in> {OP_NOP, OP_IF, OP_NOTIF, OP_ELSE, OP_ENDIF, OP_VERIFY, OP_RETURN}
        \<or> OP_NOP1 \<le> opcode \<and> opcode \<le> OP_NOP10 then (exec_control opcode fExec s, c)
      else if OP_TOALTSTACK \<le> opcode \<and> opcode \<le> OP_TUCK then (exec_stack L opcode s, c)
      else if OP_CAT \<le> opcode \<and> opcode \<le> OP_SIZE then (exec_splice L opcode s, c)
      else if OP_INVERT \<le> opcode \<and> opcode \<le> OP_EQUALVERIFY then (exec_bitlogic opcode s, c)
      else if OP_1ADD \<le> opcode \<and> opcode \<le> OP_0NOTEQUAL then (exec_numeric1 L opcode s, c)
      else if OP_ADD \<le> opcode \<and> opcode \<le> OP_MAX then (exec_numeric2 L opcode s, c)
      else if opcode = OP_WITHIN then (exec_within L s, c)
      else if OP_RIPEMD160 \<le> opcode \<and> opcode \<le> OP_HASH256 then (exec_hash L opcode s, c)
      else if opcode = OP_CODESEPARATOR then (Running (s\<lparr>pbegincodehash := pc\<rparr>), c)
      else if opcode = OP_CHECKSIG \<or> opcode = OP_CHECKSIGVERIFY then exec_checksig chk opcode c s
      else if opcode = OP_CHECKMULTISIG \<or> opcode = OP_CHECKMULTISIGVERIFY then
        exec_multisig L chk opcode c s
      else (Failed s, c))"

definition size_limit :: "outcome \<Rightarrow> outcome" where
  "size_limit o' =
     (case o' of
        Failed s \<Rightarrow> Failed s
      | Running s \<Rightarrow> if length (stack s) + length (altstack s) > 1000 then Failed s else Running s)"

text \<open>One round of the loop, after the instruction has been read.\<close>

definition eval_step ::
  "openssl \<Rightarrow> 'c sigcheck \<Rightarrow> opcodetype \<Rightarrow> valtype \<Rightarrow> script \<Rightarrow> 'c \<Rightarrow> evalst \<Rightarrow> outcome \<times> 'c" where
  "eval_step L chk opcode vchPushValue pc c s =
     (let fExec = (\<not> (False \<in> set (vfExec s)));
          s1 = (if opcode > OP_16 then s\<lparr>nOpCount := nOpCount s + 1\<rparr> else s)
      in if length vchPushValue > 520 then (Failed s, c)
         else if opcode > OP_16 \<and> nOpCount s1 > 201 then (Failed s1, c)
         else if disabled opcode then (Failed s1, c)
         else
           (case (if fExec \<and> opcode \<le> OP_PUSHDATA4 then
                    (Running (with_stack s1 (vchPushValue # stack s1)), c)
                  else if fExec \<or> OP_IF \<le> opcode \<and> opcode \<le> OP_ENDIF then
                    exec_op L chk opcode fExec pc c s1
                  else (Running s1, c)) of
              (o', c') \<Rightarrow> (size_limit o', c')))"

function eval_loop :: "openssl \<Rightarrow> 'c sigcheck \<Rightarrow> script \<Rightarrow> 'c \<Rightarrow> evalst \<Rightarrow> outcome \<times> 'c" where
  "eval_loop L chk pc c s =
     (if pc = [] then (Running s, c)
      else case GetOp2 pc of
             GetOpErr _ \<Rightarrow> (Failed s, c)
           | GetOpOk opcode vchPushValue pc' \<Rightarrow>
               (case eval_step L chk opcode vchPushValue pc' c s of
                  (Failed s', c') \<Rightarrow> (Failed s', c')
                | (Running s', c') \<Rightarrow> eval_loop L chk pc' c' s'))"
  by pat_completeness auto
termination
  by (relation "measure (\<lambda>(_, _, pc, _, _). length pc)") (auto dest: GetOp2_shorter)

declare eval_loop.simps [simp del]

definition init_evalst :: "valtype list \<Rightarrow> script \<Rightarrow> evalst" where
  "init_evalst st scr = \<lparr>stack = st, altstack = [], vfExec = [], nOpCount = 0, pbegincodehash = scr\<rparr>"

text \<open>\<open>EvalScript\<close> returns its verdict, the caller's stack and the checker's state.\<close>

definition EvalScript ::
  "openssl \<Rightarrow> 'c sigcheck \<Rightarrow> valtype list \<Rightarrow> script \<Rightarrow> 'c \<Rightarrow> bool \<times> valtype list \<times> 'c" where
  "EvalScript L chk st scr c =
     (if length scr > 10000 then (False, st, c)
      else case eval_loop L chk scr c (init_evalst st scr) of
             (Failed s, c') \<Rightarrow> (False, stack s, c')
           | (Running s, c') \<Rightarrow> (vfExec s = [], stack s, c'))"

end
