(* ===== verification/Interpreter_Facts.thy ===== *)
theory Interpreter_Facts
  imports Interpreter "HOL-Library.Sublist"
begin

text \<open>
  What the script interpreter guarantees.  The states the loop of \<open>EvalScript\<close> passes through are
  the inductive relation \<open>eval_reach\<close>, its limits are invariants of that relation, and an accepted
  script is described through the list of its instructions.
\<close>

section \<open>What each group of cases keeps\<close>

lemma final_size_limit [simp]: "final (size_limit o') = final o'"
  by (simp add: size_limit_def split: outcome.splits)

lemma size_limit_Running:
  "size_limit o' = Running s \<longleftrightarrow> o' = Running s \<and> length (stack s) + length (altstack s) \<le> 1000"
  by (auto simp: size_limit_def split: outcome.splits)

text \<open>\<open>keeps s s'\<close>: everything except the two stacks is unchanged.\<close>

definition keeps :: "evalst \<Rightarrow> evalst \<Rightarrow> bool" where
  "keeps s s' \<longleftrightarrow> vfExec s' = vfExec s \<and> nOpCount s' = nOpCount s \<and>
     pbegincodehash s' = pbegincodehash s"

lemma keeps_with_stack [simp]: "keeps s (with_stack s st)"
  by (simp add: keeps_def)

lemma keeps_const: "exec_const L opcode s = Running s' \<Longrightarrow> keeps s s'"
  by (auto simp: exec_const_def)

lemma keeps_stack: "exec_stack L opcode s = Running s' \<Longrightarrow> keeps s s'"
  by (auto simp: exec_stack_def Let_def keeps_def split: if_splits list.splits option.splits)

lemma keeps_splice: "exec_splice L opcode s = Running s' \<Longrightarrow> keeps s s'"
  by (auto simp: exec_splice_def Let_def split: if_splits list.splits option.splits)

lemma keeps_bitlogic: "exec_bitlogic opcode s = Running s' \<Longrightarrow> keeps s s'"
  by (auto simp: exec_bitlogic_def Let_def split: if_splits list.splits prod.splits)

lemma keeps_numeric1: "exec_numeric1 L opcode s = Running s' \<Longrightarrow> keeps s s'"
  by (auto simp: exec_numeric1_def split: list.splits option.splits)

lemma keeps_numeric2: "exec_numeric2 L opcode s = Running s' \<Longrightarrow> keeps s s'"
  by (auto simp: exec_numeric2_def Let_def split: if_splits list.splits option.splits)

lemma keeps_within: "exec_within L s = Running s' \<Longrightarrow> keeps s s'"
  by (auto simp: exec_within_def split: list.splits option.splits)

lemma keeps_hash: "exec_hash L opcode s = Running s' \<Longrightarrow> keeps s s'"
  by (auto simp: exec_hash_def split: list.splits)

lemma keeps_checksig: "exec_checksig chk opcode c s = (Running s', c') \<Longrightarrow> keeps s s'"
  by (auto simp: exec_checksig_def Let_def split: if_splits list.splits prod.splits)

lemmas exec_keeps = keeps_const keeps_stack keeps_splice keeps_bitlogic keeps_numeric1
  keeps_numeric2 keeps_within keeps_hash keeps_checksig

lemma multisig_keeps:
  "exec_multisig L chk opcode c s = (Running s', c') \<Longrightarrow>
     vfExec s' = vfExec s \<and> pbegincodehash s' = pbegincodehash s \<and>
     nOpCount s \<le> nOpCount s' \<and> nOpCount s' \<le> 201"
  by (auto simp: exec_multisig_def Let_def split: if_splits option.splits prod.splits)

lemma control_keeps:
  "exec_control opcode fExec s = Running s' \<Longrightarrow>
     nOpCount s' = nOpCount s \<and> pbegincodehash s' = pbegincodehash s"
  by (auto simp: exec_control_def Let_def split: if_splits list.splits)

text \<open>An instruction is one of the groups; \<open>control_op\<close> says when it is the control group.\<close>

definition control_op :: "opcodetype \<Rightarrow> bool" where
  "control_op opcode \<longleftrightarrow>
     opcode \<in> {OP_NOP, OP_IF, OP_NOTIF, OP_ELSE, OP_ENDIF, OP_VERIFY, OP_RETURN}
        \<or> OP_NOP1 \<le> opcode \<and> opcode \<le> OP_NOP10"

lemma if_mem: "(c \<Longrightarrow> a \<in> S) \<Longrightarrow> (\<not> c \<Longrightarrow> b \<in> S) \<Longrightarrow> (if c then a else b) \<in> S"
  by simp

lemma exec_op_control:
  "control_op opcode \<Longrightarrow> exec_op L chk opcode fExec pc c s = (exec_control opcode fExec s, c)"
  by (auto simp: exec_op_def control_op_def)

lemma exec_op_group:
  "\<not> control_op opcode \<Longrightarrow> exec_op L chk opcode fExec pc c s \<in>
     {(exec_const L opcode s, c), (exec_stack L opcode s, c), (exec_splice L opcode s, c),
      (exec_bitlogic opcode s, c), (exec_numeric1 L opcode s, c), (exec_numeric2 L opcode s, c),
      (exec_within L s, c), (exec_hash L opcode s, c), (Running (s\<lparr>pbegincodehash := pc\<rparr>), c),
      exec_checksig chk opcode c s, exec_multisig L chk opcode c s, (Failed s, c)}"
  unfolding exec_op_def control_op_def [symmetric]
  by (simp only: if_False, intro if_mem) (simp_all only: insert_iff simp_thms)

lemma exec_op_cases:
  assumes "exec_op L chk opcode fExec pc c s = (o', c')"
  obtains
    (control) "control_op opcode" "o' = exec_control opcode fExec s" "c' = c"
  | (const) "\<not> control_op opcode" "o' = exec_const L opcode s" "c' = c"
  | (stack) "\<not> control_op opcode" "o' = exec_stack L opcode s" "c' = c"
  | (splice) "\<not> control_op opcode" "o' = exec_splice L opcode s" "c' = c"
  | (bitlogic) "\<not> control_op opcode" "o' = exec_bitlogic opcode s" "c' = c"
  | (numeric1) "\<not> control_op opcode" "o' = exec_numeric1 L opcode s" "c' = c"
  | (numeric2) "\<not> control_op opcode" "o' = exec_numeric2 L opcode s" "c' = c"
  | (within) "\<not> control_op opcode" "o' = exec_within L s" "c' = c"
  | (hash) "\<not> control_op opcode" "o' = exec_hash L opcode s" "c' = c"
  | (separator) "\<not> control_op opcode" "o' = Running (s\<lparr>pbegincodehash := pc\<rparr>)" "c' = c"
  | (checksig) "\<not> control_op opcode" "exec_checksig chk opcode c s = (o', c')"
  | (multisig) "\<not> control_op opcode" "exec_multisig L chk opcode c s = (o', c')"
  | (failed) "\<not> control_op opcode" "o' = Failed s" "c' = c"
proof (cases "control_op opcode")
  case True
  with assms control show ?thesis by (simp add: exec_op_control)
next
  case False
  from exec_op_group [OF this, of L chk fExec pc c s] False show ?thesis
    unfolding assms insert_iff empty_iff
    by (elim disjE) (simp_all add: that)
qed

lemma exec_op_nOpCount:
  assumes "exec_op L chk opcode fExec pc c s = (Running s', c')"
  shows "nOpCount s \<le> nOpCount s' \<and> (nOpCount s \<le> 201 \<longrightarrow> nOpCount s' \<le> 201)"
  using assms
proof (cases rule: exec_op_cases)
  case multisig
  from multisig_keeps [OF this(2)] show ?thesis by simp
qed (auto simp: keeps_def dest!: sym [of "Running s'"] exec_keeps control_keeps)

lemma exec_op_codehash:
  assumes "exec_op L chk opcode fExec pc c s = (Running s', c')"
  shows "pbegincodehash s' = pbegincodehash s \<or> pbegincodehash s' = pc"
  using assms
  by (cases rule: exec_op_cases)
     (auto simp: keeps_def dest!: sym [of "Running s'"] exec_keeps control_keeps multisig_keeps)

text \<open>The conditional nesting depends on the opcode alone.\<close>

fun if_depth1 :: "opcodetype \<Rightarrow> nat \<Rightarrow> nat option" where
  "if_depth1 opcode d =
     (if opcode = OP_IF \<or> opcode = OP_NOTIF then Some (Suc d)
      else if opcode = OP_ELSE then (if d = 0 then None else Some d)
      else if opcode = OP_ENDIF then (if d = 0 then None else Some (d - 1))
      else if opcode = OP_VERIF \<or> opcode = OP_VERNOTIF then None
      else Some d)"

fun if_depth :: "nat \<Rightarrow> opcodetype list \<Rightarrow> nat option" where
  "if_depth d [] = Some d"
| "if_depth d (opcode # ops) =
     (case if_depth1 opcode d of None \<Rightarrow> None | Some d' \<Rightarrow> if_depth d' ops)"

lemma exec_control_depth:
  assumes e: "exec_control opcode fExec s = Running s'" and c: "control_op opcode"
  shows "if_depth1 opcode (length (vfExec s)) = Some (length (vfExec s'))"
proof -
  consider "opcode = OP_IF" | "opcode = OP_NOTIF" | "opcode = OP_ELSE" | "opcode = OP_ENDIF"
    | "opcode = OP_VERIFY" | "opcode = OP_RETURN"
    | "opcode = OP_NOP \<or> OP_NOP1 \<le> opcode \<and> opcode \<le> OP_NOP10"
    using c unfolding control_op_def by blast
  then show ?thesis
  proof cases
    case 7
    with e show ?thesis by (auto simp: exec_control_def)
  qed (use e in \<open>auto simp: exec_control_def Let_def split: if_splits list.splits\<close>)
qed

lemma if_depth1_other:
  "\<not> control_op opcode \<Longrightarrow> opcode \<notin> {OP_VERIF, OP_VERNOTIF} \<Longrightarrow> if_depth1 opcode d = Some d"
  by (simp add: control_op_def)

declare if_depth1.simps [simp del]

lemma exec_op_VERIF: "exec_op L chk OP_VERIF fExec pc c s = (Failed s, c)"
  by (simp add: exec_op_def)

lemma exec_op_VERNOTIF: "exec_op L chk OP_VERNOTIF fExec pc c s = (Failed s, c)"
  by (simp add: exec_op_def)

lemma exec_op_depth:
  assumes "exec_op L chk opcode fExec pc c s = (Running s', c')"
  shows "if_depth1 opcode (length (vfExec s)) = Some (length (vfExec s'))"
proof -
  have v: "opcode \<notin> {OP_VERIF, OP_VERNOTIF}"
    using assms by (auto simp: exec_op_VERIF exec_op_VERNOTIF)
  from assms show ?thesis
  proof (cases rule: exec_op_cases)
    case control
    from control(2) [symmetric] control(1) show ?thesis by (rule exec_control_depth)
  qed (use if_depth1_other [OF _ v] in \<open>auto simp: keeps_def
         dest!: sym [of "Running s'"] exec_keeps multisig_keeps\<close>)
qed

section \<open>A signature checker without state\<close>

text \<open>A checker without state: the verdict is a predicate.\<close>

definition pure_checker :: "(valtype \<Rightarrow> valtype \<Rightarrow> script \<Rightarrow> bool) \<Rightarrow> unit sigcheck" where
  "pure_checker ok = (\<lambda>c sig pub code. (ok sig pub code, ()))"

lemma pure_checker_apply: "pure_checker ok c sig pub code = (ok sig pub code, ())"
  by (simp add: pure_checker_def)

section \<open>Reachable states\<close>

inductive eval_reach ::
  "openssl \<Rightarrow> 'c sigcheck \<Rightarrow> script \<Rightarrow> 'c \<Rightarrow> evalst \<Rightarrow> script \<Rightarrow> 'c \<Rightarrow> evalst \<Rightarrow> bool"
  for L :: openssl and chk :: "'c sigcheck" and pc0 :: script and c0 :: 'c and s0 :: evalst
where
  eval_start: "eval_reach L chk pc0 c0 s0 pc0 c0 s0"
| eval_next: "eval_reach L chk pc0 c0 s0 pc c s \<Longrightarrow> GetOp2 pc = GetOpOk opcode d pc' \<Longrightarrow>
    eval_step L chk opcode d pc' c s = (Running s', c') \<Longrightarrow> eval_reach L chk pc0 c0 s0 pc' c' s'"

lemma eval_reach_first:
  assumes "GetOp2 pc = GetOpOk opcode d pc'"
    and "eval_step L chk opcode d pc' c s = (Running s', c')"
    and "eval_reach L chk pc' c' s' pc'' c'' s''"
  shows "eval_reach L chk pc c s pc'' c'' s''"
  using assms(3)
proof (induction rule: eval_reach.induct)
  case eval_start
  show ?case by (rule eval_next [OF eval_reach.eval_start assms(1,2)])
next
  case (eval_next pc1 c1 s1 opcode1 d1 pc2 s2 c2)
  then show ?case by (blast intro: eval_reach.eval_next)
qed

lemma eval_loop_reach:
  "eval_loop L chk pc c s = (Running s', c') \<Longrightarrow> eval_reach L chk pc c s [] c' s'"
proof (induction L chk pc c s rule: eval_loop.induct)
  case (1 L chk pc c s)
  show ?case
  proof (cases "pc = []")
    case True
    with "1.prems" show ?thesis
      by (auto simp: eval_loop.simps [of L chk "[]"] intro: eval_start)
  next
    case False
    with "1.prems" obtain opcode d pc' s1 c1 where
      g: "GetOp2 pc = GetOpOk opcode d pc'"
      and e: "eval_step L chk opcode d pc' c s = (Running s1, c1)"
      and l: "eval_loop L chk pc' c1 s1 = (Running s', c')"
      by (auto simp: eval_loop.simps [of L chk pc] split: getop.splits prod.splits outcome.splits)
    from "1.IH" [OF False g e [symmetric] refl l] g e show ?thesis by (blast intro: eval_reach_first)
  qed
qed

definition within_limits :: "script \<Rightarrow> evalst \<Rightarrow> bool" where
  "within_limits scr s \<longleftrightarrow>
     length (stack s) + length (altstack s) \<le> 1000 \<and> nOpCount s \<le> 201 \<and>
     suffix (pbegincodehash s) scr"

lemma suffix_GetOp2: "GetOp2 s = GetOpOk opcode d r \<Longrightarrow> suffix r s"
  by (auto elim!: GetOp2_Ok_encoded intro: suffixI)

text \<open>The three ways a round of the loop goes on.\<close>

lemma eval_step_cases:
  assumes "eval_step L chk opcode d pc c s = (Running s', c')"
  obtains
    (push) "opcode \<le> OP_PUSHDATA4" "False \<notin> set (vfExec s)" "length d \<le> 520" "c' = c"
      "s' = with_stack s (d # stack s)" "length (stack s') + length (altstack s') \<le> 1000"
  | (skip) "False \<in> set (vfExec s)" "\<not> (OP_IF \<le> opcode \<and> opcode \<le> OP_ENDIF)" "\<not> disabled opcode"
      "length d \<le> 520" "c' = c"
      "s' = s\<lparr>nOpCount := (if opcode > OP_16 then nOpCount s + 1 else nOpCount s)\<rparr>"
      "opcode > OP_16 \<Longrightarrow> nOpCount s + 1 \<le> 201"
      "length (stack s') + length (altstack s') \<le> 1000"
  | (exec) s1 where "exec_op L chk opcode (\<not> (False \<in> set (vfExec s))) pc c s1 = (Running s', c')"
      "s1 = s\<lparr>nOpCount := (if opcode > OP_16 then nOpCount s + 1 else nOpCount s)\<rparr>"
      "opcode > OP_16 \<Longrightarrow> nOpCount s + 1 \<le> 201" "\<not> disabled opcode" "length d \<le> 520"
      "length (stack s') + length (altstack s') \<le> 1000"
  using assms
  by (auto simp: eval_step_def Let_def size_limit_Running split: if_splits prod.splits)

lemma eval_step_limits:
  assumes "eval_step L chk opcode d pc c s = (Running s', c')"
    and "within_limits scr s" and "suffix pc scr"
  shows "within_limits scr s'"
  using assms(1)
proof (cases rule: eval_step_cases)
  case (exec s1)
  with assms(2,3) exec_op_nOpCount [OF exec(1)] exec_op_codehash [OF exec(1)] show ?thesis
    by (auto simp: within_limits_def split: if_splits)
qed (use assms(2) in \<open>auto simp: within_limits_def\<close>)

lemma eval_reach_limits:
  assumes "eval_reach L chk pc0 c0 s0 pc c s" and "within_limits scr s0" and "suffix pc0 scr"
  shows "within_limits scr s \<and> suffix pc scr"
  using assms
proof (induction rule: eval_reach.induct)
  case (eval_next pc c s opcode d pc' s' c')
  moreover have "suffix pc' scr"
    using eval_next suffix_GetOp2 suffix_order.trans by blast
  ultimately show ?case by (blast intro: eval_step_limits)
qed simp

text \<open>
  C2.  In every state the loop of \<open>EvalScript\<close> passes through, the two stacks hold at most 1000
  elements together, at most 201 operations have been counted, and the code the next signature
  check hashes is a suffix of the script.
\<close>

theorem EvalScript_reachable_limits:
  assumes "eval_reach L chk scr c (init_evalst st scr) pc c' s" and "length st \<le> 1000"
  shows "length (stack s) + length (altstack s) \<le> 1000 \<and> nOpCount s \<le> 201 \<and>
    suffix (pbegincodehash s) scr \<and> suffix pc scr"
  using eval_reach_limits [OF assms(1), of scr] assms(2)
  by (simp add: within_limits_def init_evalst_def)

theorem EvalScript_reachable_limits_witness:
  "\<exists>s. eval_reach sample_openssl (pure_checker (\<lambda>_ _ _. True)) [0x51, 0x76] ()
       (init_evalst [[3]] [0x51, 0x76]) [] () s \<and> stack s = [[1], [1], [3]] \<and>
     length (stack s) + length (altstack s) \<le> 1000"
proof -
  have "fst (eval_loop sample_openssl (pure_checker (\<lambda>_ _ _. True)) [0x51, 0x76] ()
      (init_evalst [[3]] [0x51, 0x76])) =
    Running \<lparr>stack = [[1], [1], [3]], altstack = [], vfExec = [], nOpCount = 1,
      pbegincodehash = [0x51, 0x76]\<rparr>"
    by code_simp
  then have l: "eval_loop sample_openssl (pure_checker (\<lambda>_ _ _. True)) [0x51, 0x76] ()
      (init_evalst [[3]] [0x51, 0x76]) =
    (Running \<lparr>stack = [[1], [1], [3]], altstack = [], vfExec = [], nOpCount = 1,
      pbegincodehash = [0x51, 0x76]\<rparr>, ())"
    by (simp add: prod_eq_iff)
  from EvalScript_reachable_limits [OF eval_loop_reach [OF l]] eval_loop_reach [OF l]
  show ?thesis by auto
qed

section \<open>What an accepted script looks like\<close>

lemma push_opcode_plain:
  assumes "opcode \<le> OP_PUSHDATA4"
  shows "\<not> disabled opcode" and "if_depth1 opcode d = Some d"
  using assms by (auto simp: disabled_def if_depth1.simps)

lemma eval_step_shape:
  assumes "eval_step L chk opcode d pc c s = (Running s', c')"
  shows "\<not> disabled opcode \<and> length d \<le> 520 \<and>
    if_depth1 opcode (length (vfExec s)) = Some (length (vfExec s')) \<and>
    nOpCount s + (if opcode > OP_16 then 1 else 0) \<le> nOpCount s' \<and>
    (nOpCount s \<le> 201 \<longrightarrow> nOpCount s' \<le> 201)"
  using assms
proof (cases rule: eval_step_cases)
  case push
  with push_opcode_plain [OF push(1)] show ?thesis by simp
next
  case skip
  from skip(2) have "opcode < OP_IF \<or> OP_ENDIF < opcode" by linarith
  then have "if_depth1 opcode (length (vfExec s)) = Some (length (vfExec s))"
    by (auto simp: if_depth1.simps)
  with skip show ?thesis by simp
next
  case (exec s1)
  with exec_op_nOpCount [OF exec(1)] exec_op_depth [OF exec(1)] show ?thesis by auto
qed

definition count_ops :: "(opcodetype \<times> valtype) list \<Rightarrow> nat" where
  "count_ops ins = length (filter (\<lambda>(opcode, d). opcode > OP_16) ins)"

lemma eval_loop_shape:
  "eval_loop L chk pc c s = (Running s', c') \<Longrightarrow>
     \<exists>ins. instructions pc = Some ins \<and>
       (\<forall>(opcode, d) \<in> set ins. \<not> disabled opcode \<and> length d \<le> 520) \<and>
       if_depth (length (vfExec s)) (map fst ins) = Some (length (vfExec s')) \<and>
       nOpCount s + count_ops ins \<le> nOpCount s' \<and> (nOpCount s \<le> 201 \<longrightarrow> nOpCount s' \<le> 201)"
proof (induction L chk pc c s rule: eval_loop.induct)
  case (1 L chk pc c s)
  show ?case
  proof (cases "pc = []")
    case True
    with "1.prems" show ?thesis by (simp add: eval_loop.simps [of L chk "[]"] count_ops_def)
  next
    case False
    with "1.prems" obtain opcode d pc' s1 c1 where
      g: "GetOp2 pc = GetOpOk opcode d pc'"
      and e: "eval_step L chk opcode d pc' c s = (Running s1, c1)"
      and l: "eval_loop L chk pc' c1 s1 = (Running s', c')"
      by (auto simp: eval_loop.simps [of L chk pc] split: getop.splits prod.splits outcome.splits)
    from "1.IH" [OF False g e [symmetric] refl l] obtain ins where
      ins: "instructions pc' = Some ins"
      "\<forall>(opcode, d) \<in> set ins. \<not> disabled opcode \<and> length d \<le> 520"
      "if_depth (length (vfExec s1)) (map fst ins) = Some (length (vfExec s'))"
      "nOpCount s1 + count_ops ins \<le> nOpCount s'" "nOpCount s1 \<le> 201 \<longrightarrow> nOpCount s' \<le> 201"
      by blast
    have "count_ops ((opcode, d) # ins) = (if opcode > OP_16 then 1 else 0) + count_ops ins"
      by (simp add: count_ops_def)
    with ins eval_step_shape [OF e] show ?thesis
      by (intro exI [of _ "(opcode, d) # ins"]) (simp add: instructions_Ok [OF g])
  qed
qed

text \<open>
  C1.  A script \<open>EvalScript\<close> accepts, from whatever stack and with whatever signature checker, has at
  most 10000 bytes, parses to its end, contains no disabled opcode and no push over 520 bytes even
  in branches that are not executed, counts at most 201 operations, and its \<open>OP_IF\<close>, \<open>OP_ELSE\<close> and
  \<open>OP_ENDIF\<close> nest properly (with no \<open>OP_VERIF\<close> or \<open>OP_VERNOTIF\<close> anywhere).
\<close>

theorem EvalScript_accepts_wellformed:
  assumes "EvalScript L chk st scr c = (True, st', c')"
  shows "length scr \<le> 10000 \<and>
    (\<exists>ins. instructions scr = Some ins \<and>
       (\<forall>(opcode, d) \<in> set ins. \<not> disabled opcode \<and> length d \<le> 520) \<and>
       count_ops ins \<le> 201 \<and> if_depth 0 (map fst ins) = Some 0)"
proof -
  from assms obtain s where l: "eval_loop L chk scr c (init_evalst st scr) = (Running s, c')"
    and v: "vfExec s = []" and n: "length scr \<le> 10000"
    by (auto simp: EvalScript_def split: if_splits prod.splits outcome.splits)
  from eval_loop_shape [OF l] n v show ?thesis by (force simp: init_evalst_def)
qed

theorem EvalScript_accepts_wellformed_witness:
  "EvalScript sample_openssl (pure_checker (\<lambda>_ _ _. True)) []
     [0x51, 0x63, 0x52, 0x53, 0x93, 0x67, 0x76, 0x68] () = (True, [[5]], ()) \<and>
   (\<exists>ins. instructions [0x51, 0x63, 0x52, 0x53, 0x93, 0x67, 0x76, 0x68] = Some ins \<and>
      count_ops ins \<le> 201 \<and> if_depth 0 (map fst ins) = Some 0)"
proof -
  have e: "EvalScript sample_openssl (pure_checker (\<lambda>_ _ _. True)) []
      [0x51, 0x63, 0x52, 0x53, 0x93, 0x67, 0x76, 0x68] () = (True, [[5]], ())"
    by code_simp
  from EvalScript_accepts_wellformed [OF e] e show ?thesis by blast
qed

section \<open>Multisignature matching\<close>

text \<open>
  \<open>match_sigs ok sigs keys\<close> is the specification of \<open>OP_CHECKMULTISIG\<close>: there is a choice of keys, in
  the order of the keys, that verify the signatures one by one.
\<close>

definition match_sigs :: "('a \<Rightarrow> 'b \<Rightarrow> bool) \<Rightarrow> 'a list \<Rightarrow> 'b list \<Rightarrow> bool" where
  "match_sigs ok sigs keys \<longleftrightarrow> (\<exists>ks. subseq ks keys \<and> list_all2 ok sigs ks)"

lemma match_sigs_Nil [simp]: "match_sigs ok [] keys"
  unfolding match_sigs_def by (rule exI [of _ "[]"]) simp

lemma match_sigs_length: "match_sigs ok sigs keys \<Longrightarrow> length sigs \<le> length keys"
  unfolding match_sigs_def by (metis list_all2_lengthD list_emb_length)

lemma match_sigs_Cons_Nil [simp]: "\<not> match_sigs ok (x # sigs) []"
  using match_sigs_length [of ok "x # sigs" "[]"] by auto

text \<open>Taking the first key that fits loses nothing.\<close>

lemma match_sigs_Cons:
  "match_sigs ok (x # sigs) (k # keys) =
     (if ok x k then match_sigs ok sigs keys else match_sigs ok (x # sigs) keys)"
proof (cases "ok x k")
  case True
  have "match_sigs ok sigs keys" if m: "match_sigs ok (x # sigs) (k # keys)"
  proof -
    from m obtain j ks where s: "subseq (j # ks) (k # keys)" and l: "list_all2 ok sigs ks"
      by (auto simp: match_sigs_def list_all2_Cons1)
    from s have "subseq ks keys" by (auto split: if_splits dest: subseq_Cons')
    with l show ?thesis by (auto simp: match_sigs_def)
  qed
  moreover have "match_sigs ok (x # sigs) (k # keys)" if m: "match_sigs ok sigs keys"
  proof -
    from m obtain ks where "subseq ks keys" "list_all2 ok sigs ks"
      by (auto simp: match_sigs_def)
    with True show ?thesis
      unfolding match_sigs_def by (intro exI [of _ "k # ks"]) simp
  qed
  ultimately show ?thesis using True by auto
next
  case False
  have "match_sigs ok (x # sigs) keys" if m: "match_sigs ok (x # sigs) (k # keys)"
  proof -
    from m obtain j ks where s: "subseq (j # ks) (k # keys)" and j: "ok x j"
      and l: "list_all2 ok sigs ks"
      by (auto simp: match_sigs_def list_all2_Cons1)
    from j False have "j \<noteq> k" by auto
    with s have "subseq (j # ks) keys" by (metis subseq_Cons2_neq)
    with j l show ?thesis unfolding match_sigs_def by (intro exI [of _ "j # ks"]) simp
  qed
  moreover have "match_sigs ok (x # sigs) (k # keys)" if m: "match_sigs ok (x # sigs) keys"
    using m unfolding match_sigs_def by (meson list_emb_Cons)
  ultimately show ?thesis using False by auto
qed

text \<open>The slice of the stack from position \<open>stacktop(-i)\<close> down.\<close>

definition stack_slice :: "valtype list \<Rightarrow> nat \<Rightarrow> nat \<Rightarrow> valtype list" where
  "stack_slice st i n = map (\<lambda>k. st ! (i + k - 1)) [0..<n]"

lemma stack_slice_0 [simp]: "stack_slice st i 0 = []"
  by (simp add: stack_slice_def)

lemma stack_slice_Suc:
  "stack_slice st i (Suc n) = st ! (i - 1) # stack_slice st (Suc i) n"
  unfolding stack_slice_def by (simp add: upt_conv_Cons map_Suc_upt [symmetric] del: upt_Suc)

lemma length_stack_slice [simp]: "length (stack_slice st i n) = n"
  by (simp add: stack_slice_def)

lemma multisig_loop_match:
  assumes "nSigs \<le> nKeys"
  shows "fst (multisig_loop (pure_checker ok) code st isig nSigs ikey nKeys ()) =
    match_sigs (\<lambda>sig key. ok sig key code) (stack_slice st isig nSigs) (stack_slice st ikey nKeys)"
  using assms
proof (induction nKeys arbitrary: isig nSigs ikey)
  case 0
  then show ?case by (simp add: multisig_loop.simps)
next
  case (Suc nKeys)
  show ?case
  proof (cases nSigs)
    case 0
    then show ?thesis by (simp add: multisig_loop.simps)
  next
    case (Suc n)
    have no: "\<not> match_sigs f xs (stack_slice st j nKeys)" if "nKeys < length xs" for f xs j
      using match_sigs_length [of f xs] that by fastforce
    let ?L = "\<lambda>isig n ikey nKeys. fst (multisig_loop (pure_checker ok) code st isig n ikey nKeys ())"
    have "?L isig (Suc n) ikey (Suc nKeys) =
       (if ok (st ! (isig - 1)) (st ! (ikey - 1)) code
        then n \<le> nKeys \<and> ?L (isig + 1) n (ikey + 1) nKeys
        else Suc n \<le> nKeys \<and> ?L isig (Suc n) (ikey + 1) nKeys)"
      by (subst multisig_loop.simps) (simp add: Let_def pure_checker_apply)
    with Suc Suc.prems Suc.IH [of n] Suc.IH [of "Suc n"] show ?thesis
      by (auto simp: stack_slice_Suc match_sigs_Cons no)
  qed
qed

text \<open>
  The two-counter loop of \<open>OP_CHECKMULTISIG\<close>, entered as the code enters it with no more
  signatures than keys, succeeds exactly when the signatures can be matched, in order, to keys
  among the given ones: the early stop and the greedy choice lose no match.
\<close>

theorem multisig_loop_matches:
  assumes "nSigs \<le> nKeys"
  shows "fst (multisig_loop (pure_checker ok) code st isig nSigs ikey nKeys ()) =
    match_sigs (\<lambda>sig key. ok sig key code) (stack_slice st isig nSigs) (stack_slice st ikey nKeys)"
  using assms by (rule multisig_loop_match)

theorem multisig_loop_matches_witness:
  "fst (multisig_loop (pure_checker (\<lambda>sig key code. sig = key)) [] [[1], [3], [1], [2], [3]]
     1 2 3 3 ())"
  by (subst multisig_loop_matches)
    (simp_all add: stack_slice_def match_sigs_Cons numeral_eq_Suc)

section \<open>Sizes of stack elements\<close>

definition small :: "valtype list \<Rightarrow> bool" where
  "small xs \<longleftrightarrow> (\<forall>x \<in> set xs. length x \<le> 520)"

lemma small_simps [simp]:
  "small []" "small (x # xs) \<longleftrightarrow> length x \<le> 520 \<and> small xs"
  by (auto simp: small_def)

lemma small_mono: "set ys \<subseteq> set xs \<Longrightarrow> small xs \<Longrightarrow> small ys"
  by (auto simp: small_def)

lemma small_drop [intro]: "small xs \<Longrightarrow> small (drop n xs)"
  by (rule small_mono [OF set_drop_subset])

definition small_st :: "evalst \<Rightarrow> bool" where
  "small_st s \<longleftrightarrow> small (stack s) \<and> small (altstack s)"

lemma getvch_small:
  "mpi_documented L \<Longrightarrow> \<bar>n\<bar> < 2 ^ 64 \<Longrightarrow> length (getvch L n) \<le> 520"
  using length_getvch [of L n 8] by (simp add: nat_less_iff)

lemma CastToBigNum_bound:
  assumes "mpi_documented L" and "CastToBigNum L v = Some n"
  shows "\<bar>n\<bar> < 2 ^ 32"
proof -
  have v: "length v \<le> 4" and n: "n = setvch L (getvch L (setvch L v))"
    using assms(2) by (auto simp: CastToBigNum_def split: if_splits)
  from v have s: "setvch L v = mpi_value (rev v)"
    using assms(1) by (simp add: setvch_documented)
  have b: "nat \<bar>setvch L v\<bar> < 256 ^ 4"
    using less_le_trans [OF mpi_value_bound [of "rev v"]]
      power_increasing [of "length v" 4 "256::nat"] v s by simp
  then have "length (getvch L (setvch L v)) < 2 ^ 32"
    using length_getvch [OF assms(1) b] by simp
  from setvch_getvch [OF assms(1) this] n b show ?thesis by simp
qed

lemma numeric1_bound: "\<bar>n\<bar> < 2 ^ 32 \<Longrightarrow> \<not> disabled opcode \<Longrightarrow> \<bar>numeric1 opcode n\<bar> < 2 ^ 64"
  by (auto simp: numeric1_def bn_of_bool_def disabled_def)

lemma numeric2_bound:
  assumes "numeric2 opcode n m = Some k" and "\<bar>n\<bar> < 2 ^ 32" and "\<bar>m\<bar> < 2 ^ 32"
    and "\<not> disabled opcode"
  shows "\<bar>k\<bar> < 2 ^ 64"
proof -
  have "opcode \<notin> {OP_MUL, OP_DIV, OP_MOD, OP_LSHIFT, OP_RSHIFT}"
    using assms(4) by (auto simp: disabled_def)
  with assms(1-3) show ?thesis
    by (auto simp: numeric2_def bn_of_bool_def split: if_splits)
qed

lemma hash_op_small: "length (hash_op L opcode v) \<le> 520"
  by (simp add: hash_op_def)

lemma bool_vch_small [simp]: "length (bool_vch b) \<le> 520"
  by (simp add: bool_vch_def)

lemma small_control: "exec_control opcode fExec s = Running s' \<Longrightarrow> small_st s \<Longrightarrow> small_st s'"
  by (auto simp: exec_control_def small_st_def Let_def split: if_splits list.splits)

lemma small_rearrange: "stack_rearrange opcode st = Some st' \<Longrightarrow> small st \<Longrightarrow> small st'"
  by (rule small_mono [of _ st]) (auto simp: stack_rearrange_def split: if_splits list.splits)

lemma small_nth: "small xs \<Longrightarrow> n < length xs \<Longrightarrow> length (xs ! n) \<le> 520"
  by (simp add: small_def)

lemma small_tl: "small xs \<Longrightarrow> small (tl xs)"
  by (cases xs) auto

lemma small_remove_nth: "small xs \<Longrightarrow> small (remove_nth n xs)"
  by (rule small_mono [OF set_remove_nth])

lemma small_stack:
  assumes "mpi_documented L" and "exec_stack L opcode s = Running s'" and "small_st s"
    and "length (stack s) \<le> 1000"
  shows "small_st s'"
  using assms getvch_small [OF assms(1), of "int (length (stack s))"]
    small_rearrange [of opcode "stack s"]
  by (auto simp: exec_stack_def small_st_def Let_def split: if_splits list.splits option.splits
      intro!: small_nth small_remove_nth small_tl)

lemma small_splice:
  assumes "mpi_documented L" and "exec_splice L opcode s = Running s'" and "small_st s"
    and "\<not> disabled opcode"
  shows "small_st s'"
proof -
  have "opcode \<notin> {OP_CAT, OP_SUBSTR, OP_LEFT, OP_RIGHT}"
    using assms(4) by (auto simp: disabled_def)
  with assms(2,3) getvch_small [OF assms(1)] show ?thesis
    by (auto simp: exec_splice_def small_st_def split: list.splits)
qed

lemma small_bitlogic:
  assumes "exec_bitlogic opcode s = Running s'" and "small_st s" and "\<not> disabled opcode"
  shows "small_st s'"
proof -
  have "opcode \<notin> {OP_INVERT, OP_AND, OP_OR, OP_XOR}"
    using assms(3) by (auto simp: disabled_def)
  with assms(1,2) show ?thesis
    by (auto simp: exec_bitlogic_def small_st_def Let_def split: list.splits if_splits)
qed

lemma small_numeric:
  assumes "mpi_documented L" and "small_st s" and "\<not> disabled opcode"
  shows "exec_numeric1 L opcode s = Running s' \<Longrightarrow> small_st s'"
    and "exec_numeric2 L opcode s = Running s' \<Longrightarrow> small_st s'"
    and "exec_within L s = Running s' \<Longrightarrow> small_st s'"
proof -
  note bounds = CastToBigNum_bound [OF assms(1)] getvch_small [OF assms(1)]
  show "exec_numeric1 L opcode s = Running s' \<Longrightarrow> small_st s'"
    using assms(2) numeric1_bound [OF _ assms(3)] bounds
    by (auto simp: exec_numeric1_def small_st_def split: list.splits option.splits)
  show "exec_numeric2 L opcode s = Running s' \<Longrightarrow> small_st s'"
    using assms(2) numeric2_bound [OF _ _ _ assms(3)] bounds
    by (fastforce simp: exec_numeric2_def small_st_def Let_def
        split: list.splits option.splits if_splits)
  show "exec_within L s = Running s' \<Longrightarrow> small_st s'"
    using assms(2) by (auto simp: exec_within_def small_st_def split: list.splits option.splits)
qed

lemma small_checks:
  "exec_hash L opcode s = Running s' \<Longrightarrow> small_st s \<Longrightarrow> small_st s'"
  "exec_checksig chk opcode c s = (Running s', c') \<Longrightarrow> small_st s \<Longrightarrow> small_st s'"
  "exec_multisig L chk opcode c s = (Running s', c') \<Longrightarrow> small_st s \<Longrightarrow> small_st s'"
  by (auto simp: exec_hash_def exec_checksig_def exec_multisig_def small_st_def Let_def
      hash_op_small split: list.splits option.splits prod.splits if_splits)

lemma small_exec_op:
  assumes L: "mpi_documented L" and e: "exec_op L chk opcode fExec pc c s = (Running s', c')"
    and s: "small_st s" and n: "length (stack s) \<le> 1000" and d: "\<not> disabled opcode"
    and b: "opcode < 256"
  shows "small_st s'"
  using e
proof (cases rule: exec_op_cases)
  case control
  with s show ?thesis by (metis small_control)
next
  case const
  have "CBigNum_of_int L (int opcode - (int OP_1 - 1)) = int opcode - 80"
    using setint64_value [OF L] b by (simp add: CBigNum_of_int_def in_i64_def i64_min_def i64_max_def)
  with const s b getvch_small [OF L, of "int opcode - 80"] show ?thesis
    by (simp add: exec_const_def small_st_def)
next
  case separator
  with s show ?thesis by (simp add: small_st_def)
next
  case stack
  with L s n show ?thesis by (metis small_stack)
next
  case splice
  with L s d show ?thesis by (metis small_splice)
next
  case bitlogic
  with s d show ?thesis by (metis small_bitlogic)
qed (use small_numeric [OF L s d] s in \<open>metis small_checks outcome.distinct(1)\<close>)+

text \<open>
  With the documented big-number format, and starting from elements of at most 520 bytes,
  no state of the run holds an element of more than 520 bytes on either stack.
\<close>

theorem EvalScript_element_size:
  assumes "eval_reach L chk scr c (init_evalst st scr) pc c' s" and "mpi_documented L"
    and "length st \<le> 1000" and "\<forall>x \<in> set st. length x \<le> 520"
  shows "\<forall>x \<in> set (stack s) \<union> set (altstack s). length x \<le> 520"
proof -
  have "small_st s"
    using assms(1)
  proof (induction rule: eval_reach.induct)
    case eval_start
    with assms(4) show ?case by (simp add: small_st_def small_def init_evalst_def)
  next
    case (eval_next pc c s opcode d pc' s' c')
    have n: "length (stack s) \<le> 1000"
      using eval_reach_limits [OF eval_next(1), of scr] assms(3)
      by (simp add: within_limits_def init_evalst_def)
    from eval_next(3) show ?case
    proof (cases rule: eval_step_cases)
      case (exec s1)
      with small_exec_op [OF assms(2) exec(1)] n eval_next.IH GetOp2_opcode_lt [OF eval_next(2)]
      show ?thesis by (simp add: small_st_def)
    qed (use eval_next.IH in \<open>simp_all add: small_st_def\<close>)
  qed
  then show ?thesis by (auto simp: small_st_def small_def)
qed

theorem EvalScript_element_size_witness:
  "\<exists>s. eval_reach sample_openssl (pure_checker (\<lambda>_ _ _. True)) [0x51, 0x93] ()
       (init_evalst [[3]] [0x51, 0x93]) [] () s \<and> stack s = [[4]] \<and>
     (\<forall>x \<in> set (stack s) \<union> set (altstack s). length x \<le> 520)"
proof -
  have "fst (eval_loop sample_openssl (pure_checker (\<lambda>_ _ _. True)) [0x51, 0x93] ()
      (init_evalst [[3]] [0x51, 0x93])) =
    Running \<lparr>stack = [[4]], altstack = [], vfExec = [], nOpCount = 1, pbegincodehash = [0x51, 0x93]\<rparr>"
    by code_simp
  then have l: "eval_loop sample_openssl (pure_checker (\<lambda>_ _ _. True)) [0x51, 0x93] ()
      (init_evalst [[3]] [0x51, 0x93]) =
    (Running \<lparr>stack = [[4]], altstack = [], vfExec = [], nOpCount = 1,
      pbegincodehash = [0x51, 0x93]\<rparr>, ())"
    by (simp add: prod_eq_iff)
  from EvalScript_element_size [OF eval_loop_reach [OF l] mpi_documented_sample] eval_loop_reach [OF l]
  show ?thesis by auto
qed

section \<open>The interface to the signature checker\<close>

text \<open>
  What \<open>EvalScript\<close> relies on: in a state with the invariant, the verdict depends on the signature,
  the key and the code only, and the invariant is kept.  Under this contract a checker with state
  (such as one with a cache) can be replaced by the pure predicate.
\<close>

locale sig_checker =
  fixes chk :: "'c sigcheck"
    and ok :: "valtype \<Rightarrow> valtype \<Rightarrow> script \<Rightarrow> bool"
    and inv :: "'c \<Rightarrow> bool"
  assumes chk_verdict: "inv c \<Longrightarrow> fst (chk c sig pub code) = ok sig pub code"
    and chk_inv: "inv c \<Longrightarrow> inv (snd (chk c sig pub code))"
begin

lemma chk_pair: "inv c \<Longrightarrow> \<exists>c'. chk c sig pub code = (ok sig pub code, c') \<and> inv c'"
  using chk_verdict [of c sig pub code] chk_inv [of c sig pub code]
  by (cases "chk c sig pub code") auto

lemma multisig_loop_pure:
  "inv c \<Longrightarrow> \<exists>c'. multisig_loop chk code st isig nSigs ikey nKeys c =
      (fst (multisig_loop (pure_checker ok) code st isig nSigs ikey nKeys ()), c') \<and> inv c'"
proof (induction "nSigs + nKeys" arbitrary: isig nSigs ikey nKeys c rule: less_induct)
  case less
  from less.prems obtain c' where
    c: "chk c (st ! (isig - 1)) (st ! (ikey - 1)) code =
          (ok (st ! (isig - 1)) (st ! (ikey - 1)) code, c')" "inv c'"
    using chk_pair by blast
  define b where "b = ok (st ! (isig - 1)) (st ! (ikey - 1)) code"
  define n where "n = (if b then nSigs - 1 else nSigs)"
  show ?case
  proof (cases "nSigs = 0 \<or> n > nKeys - 1")
    case True
    with c less.prems show ?thesis
      by (auto simp: multisig_loop.simps [of chk code st isig nSigs ikey nKeys c]
          multisig_loop.simps [of "pure_checker ok" code st isig nSigs ikey nKeys "()"]
          pure_checker_apply b_def n_def Let_def)
  next
    case False
    then have "n + (nKeys - 1) < nSigs + nKeys" by (auto simp: n_def split: if_splits)
    from less.hyps [OF this \<open>inv c'\<close>, of "if b then isig + 1 else isig" "ikey + 1"] False c
    show ?thesis
      by (simp add: multisig_loop.simps [of chk code st isig nSigs ikey nKeys c]
          multisig_loop.simps [of "pure_checker ok" code st isig nSigs ikey nKeys "()"]
          pure_checker_apply b_def n_def Let_def split: if_splits)
  qed
qed

lemma exec_checksig_pure:
  assumes "inv c"
  shows "\<exists>c'. exec_checksig chk opcode c s =
    (fst (exec_checksig (pure_checker ok) opcode () s), c') \<and> inv c'"
proof -
  obtain c' where "chk c sig pub code = (ok sig pub code, c' sig pub code) \<and> inv (c' sig pub code)"
    for sig pub code
    using chk_pair [OF assms] by metis
  with assms show ?thesis
    by (auto simp: exec_checksig_def pure_checker_apply Let_def split: list.splits)
qed

lemma exec_multisig_pure:
  assumes "inv c"
  shows "\<exists>c'. exec_multisig L chk opcode c s =
    (fst (exec_multisig L (pure_checker ok) opcode () s), c') \<and> inv c'"
proof -
  obtain c' where "multisig_loop chk code st i n j m c =
      (fst (multisig_loop (pure_checker ok) code st i n j m ()), c' code st i n j m)
      \<and> inv (c' code st i n j m)" for code st i n j m
    using multisig_loop_pure [OF assms] by metis
  with assms show ?thesis
    by (simp add: exec_multisig_def Let_def split: option.split prod.split)
qed

lemma if_pure:
  "\<exists>c'. a = (fst a', c') \<and> inv c' \<Longrightarrow> \<exists>c'. b = (fst b', c') \<and> inv c' \<Longrightarrow>
     \<exists>c'. (if P then a else b) = (fst (if P then a' else b'), c') \<and> inv c'"
  by simp

lemma pair_pure: "inv c \<Longrightarrow> \<exists>c'. (o', c) = (fst (o', ()), c') \<and> inv c'"
  by simp

lemma exec_op_pure:
  assumes "inv c"
  shows "\<exists>c'. exec_op L chk opcode fExec pc c s =
    (fst (exec_op L (pure_checker ok) opcode fExec pc () s), c') \<and> inv c'"
  unfolding exec_op_def
  by (intro if_pure pair_pure exec_checksig_pure exec_multisig_pure assms)

lemma eval_step_pure:
  assumes "inv c"
  shows "\<exists>c'. eval_step L chk opcode d pc c s =
    (fst (eval_step L (pure_checker ok) opcode d pc () s), c') \<and> inv c'"
proof -
  define fExec where "fExec = (\<not> (False \<in> set (vfExec s)))"
  define s1 where "s1 = (if opcode > OP_16 then s\<lparr>nOpCount := nOpCount s + 1\<rparr> else s)"
  from exec_op_pure [OF assms] obtain c' where
    "exec_op L chk opcode fExec pc c s1 =
       (fst (exec_op L (pure_checker ok) opcode fExec pc () s1), c')" "inv c'"
    by blast
  with assms show ?thesis
    unfolding eval_step_def Let_def fExec_def [symmetric] s1_def [symmetric]
    by (simp split: prod.split)
qed

lemma eval_loop_pure:
  "inv c \<Longrightarrow> \<exists>c'. eval_loop L chk pc c s =
    (fst (eval_loop L (pure_checker ok) pc () s), c') \<and> inv c'"
proof (induction "length pc" arbitrary: pc c s rule: less_induct)
  case less
  show ?case
  proof (cases "pc = [] \<or> (\<exists>e. GetOp2 pc = GetOpErr e)")
    case True
    with less.prems show ?thesis by (auto simp: eval_loop.simps [of L _ pc])
  next
    case False
    then obtain opcode d r where g: "GetOp2 pc = GetOpOk opcode d r" and n: "pc \<noteq> []"
      by (cases "GetOp2 pc") auto
    from eval_step_pure [OF less.prems] obtain c' where
      c: "eval_step L chk opcode d r c s =
        (fst (eval_step L (pure_checker ok) opcode d r () s), c')" "inv c'"
      by blast
    show ?thesis
    proof (cases "fst (eval_step L (pure_checker ok) opcode d r () s)")
      case (Failed s')
      with c g n show ?thesis by (auto simp: eval_loop.simps [of L _ pc] split: prod.splits)
    next
      case (Running s')
      from less.hyps [OF GetOp2_shorter [OF g] c(2), of s'] Running c g n show ?thesis
        by (auto simp: eval_loop.simps [of L _ pc] split: prod.splits)
    qed
  qed
qed

lemma EvalScript_pure:
  assumes "inv c"
  obtains c' where "inv c'"
    and "EvalScript L chk st scr c =
      (case EvalScript L (pure_checker ok) st scr () of (b, st', _) \<Rightarrow> (b, st', c'))"
proof -
  from eval_loop_pure [OF assms] obtain c' where
    "eval_loop L chk scr c (init_evalst st scr) =
       (fst (eval_loop L (pure_checker ok) scr () (init_evalst st scr)), c')" "inv c'"
    by blast
  with assms that show ?thesis
    by (cases "length scr > 10000")
       (auto simp: EvalScript_def split: prod.splits outcome.splits)
qed

end

section \<open>Running one instruction\<close>

lemma eval_loop_Nil [exec_simps]: "eval_loop L chk [] c s = (Running s, c)"
  by (simp add: eval_loop.simps)

lemma eval_loop_Ok:
  "GetOp2 pc = GetOpOk opcode d pc' \<Longrightarrow> eval_loop L chk pc c s =
     (case eval_step L chk opcode d pc' c s of
        (Failed s', c') \<Rightarrow> (Failed s', c')
      | (Running s', c') \<Rightarrow> eval_loop L chk pc' c' s')"
  by (cases "pc = []") (simp_all add: eval_loop.simps [of L chk pc])

lemma eval_loop_push:
  assumes "length d \<le> 520" and "False \<notin> set (vfExec s)"
    and "length (stack s) + length (altstack s) < 1000"
  shows "eval_loop L chk (push_data d @ r) c s = eval_loop L chk r c (with_stack s (d # stack s))"
proof -
  have "GetOp2 (push_data d @ r) = GetOpOk (unat (hd (push_data d))) d r"
    using assms(1) by (intro GetOp2_push_data) simp
  moreover have "eval_step L chk (unat (hd (push_data d))) d r c s =
      (Running (with_stack s (d # stack s)), c)"
    using push_opcode_plain(1) [OF push_data_opcode_le [of d]] push_data_opcode_le [of d] assms
    by (simp add: eval_step_def size_limit_def Let_def)
  ultimately show ?thesis by (simp add: eval_loop_Ok)
qed

lemma eval_loop_pushes:
  "\<forall>d \<in> set ds. length d \<le> 520 \<Longrightarrow> False \<notin> set (vfExec s) \<Longrightarrow>
   length ds + length (stack s) + length (altstack s) \<le> 1000 \<Longrightarrow>
   eval_loop L chk (concat (map push_data ds) @ r) c s =
     eval_loop L chk r c (with_stack s (rev ds @ stack s))"
proof (induction ds arbitrary: s)
  case Nil
  then show ?case by (simp add: with_stack_def)
next
  case (Cons d ds)
  have "eval_loop L chk (push_data d @ concat (map push_data ds) @ r) c s =
      eval_loop L chk (concat (map push_data ds) @ r) c (with_stack s (d # stack s))"
    using Cons.prems by (intro eval_loop_push) auto
  with Cons.IH [of "with_stack s (d # stack s)"] Cons.prems show ?case
    by (simp add: with_stack_def)
qed

text \<open>An operation above \<open>OP_16\<close> that is executed.\<close>

lemma eval_loop_op:
  assumes "unat b > OP_16" and "\<not> disabled (unat b)" and "nOpCount s < 201"
    and "False \<notin> set (vfExec s)"
  shows "eval_loop L chk (b # r) c s =
    (case exec_op L chk (unat b) True r c (s\<lparr>nOpCount := nOpCount s + 1\<rparr>) of
       (o', c') \<Rightarrow>
         (case size_limit o' of
            Failed s' \<Rightarrow> (Failed s', c')
          | Running s' \<Rightarrow> eval_loop L chk r c' s'))"
proof -
  have "GetOp2 (b # r) = GetOpOk (unat b) [] r"
    using assms(1) by (intro GetOp2_opcode) simp
  with assms show ?thesis
    by (simp add: eval_loop_Ok eval_step_def Let_def split: prod.splits outcome.splits)
qed

lemma EvalScript_pushes_run:
  assumes "\<forall>d \<in> set ds. length d \<le> 520" and "length ds + length st \<le> 1000"
    and "length (concat (map push_data ds)) \<le> 10000"
  shows "EvalScript L chk st (concat (map push_data ds)) c = (True, rev ds @ st, c)"
  using eval_loop_pushes [of ds "init_evalst st (concat (map push_data ds))" L chk "[]" c] assms
  by (simp add: EvalScript_def init_evalst_def exec_simps)

text \<open>
  A script that only pushes is accepted within the size limits and leaves exactly its data on
  the stack, the last item on top, without asking the signature checker.
\<close>

theorem EvalScript_pushes:
  assumes "\<forall>d \<in> set ds. length d \<le> 520" and "length ds + length st \<le> 1000"
    and "length (concat (map push_data ds)) \<le> 10000"
  shows "EvalScript L chk st (concat (map push_data ds)) c = (True, rev ds @ st, c)"
  using assms by (rule EvalScript_pushes_run)

theorem EvalScript_pushes_witness:
  "EvalScript sample_openssl (pure_checker (\<lambda>_ _ _. False)) [[9]] [1, 7, 2, 8, 8] () =
     (True, [[8, 8], [7], [9]], ())"
  using EvalScript_pushes [of "[[7], [8, 8]]" "[[9]]" sample_openssl "pure_checker (\<lambda>_ _ _. False)" "()"]
  by (simp add: push_data_def)

end
