(* ===== verification/Serialize.thy ===== *)
theory Serialize
  imports Prelude
begin

text \<open>
  The serialisation templates of \<open>src/src/serialize.h\<close> that transactions use.  Writing produces the
  bytes appended to the stream; reading takes the rest of the stream and returns the value with
  what is left, \<open>None\<close> being the exception (end of data, or a size over \<open>MAX_SIZE\<close>).  The locale
  \<open>codec\<close> is the contract of a serialisable type: reading gives back what was written, and
  \<open>GetSerializeSize\<close> is the number of bytes written.
\<close>

type_synonym 'a reader = "byte list \<Rightarrow> ('a \<times> byte list) option"

section \<open>Plain data\<close>

definition READDATA :: "nat \<Rightarrow> byte list reader" where
  "READDATA k bs = (if length bs < k then None else Some (take k bs, drop k bs))"

lemma READDATA_append [simp]: "length xs = k \<Longrightarrow> READDATA k (xs @ r) = Some (xs, r)"
  by (simp add: READDATA_def)

definition ser_u32 :: "u32 \<Rightarrow> byte list" where
  "ser_u32 x = nat_le 4 (unat x)"

definition unser_u32 :: "u32 reader" where
  "unser_u32 bs = map_option (\<lambda>(xs, r). (word_of_nat (le_nat xs), r)) (READDATA 4 bs)"

text \<open>Signed integers of four and eight bytes in two's complement.\<close>

definition ser_i32 :: "int \<Rightarrow> byte list" where
  "ser_i32 n = nat_le 4 (nat (n mod 2 ^ 32))"

definition unser_i32 :: "int reader" where
  "unser_i32 bs =
     map_option (\<lambda>(xs, r). ((int (le_nat xs) + 2 ^ 31) mod 2 ^ 32 - 2 ^ 31, r)) (READDATA 4 bs)"

definition ser_i64 :: "int \<Rightarrow> byte list" where
  "ser_i64 n = nat_le 8 (nat (n mod 2 ^ 64))"

definition unser_i64 :: "int reader" where
  "unser_i64 bs = map_option (\<lambda>(xs, r). (wrap64 (int (le_nat xs)), r)) (READDATA 8 bs)"

definition ser_u256 :: "uint256 \<Rightarrow> byte list" where
  "ser_u256 x = bytes256 x"

definition unser_u256 :: "uint256 reader" where
  "unser_u256 bs = map_option (\<lambda>(xs, r). (le_word xs, r)) (READDATA 32 bs)"

section \<open>Compact sizes\<close>

definition MAX_SIZE :: nat where "MAX_SIZE = 0x02000000"

definition GetSizeOfCompactSize :: "nat \<Rightarrow> nat" where
  "GetSizeOfCompactSize nSize =
     (if nSize < 253 then 1 else if nSize \<le> 0xffff then 3 else if nSize \<le> 0xffffffff then 5 else 9)"

definition WriteCompactSize :: "nat \<Rightarrow> byte list" where
  "WriteCompactSize nSize =
     (if nSize < 253 then [word_of_nat nSize]
      else if nSize \<le> 0xffff then 253 # nat_le 2 nSize
      else if nSize \<le> 0xffffffff then 254 # nat_le 4 nSize
      else 255 # nat_le 8 nSize)"

definition ReadCompactSize :: "nat reader" where
  "ReadCompactSize bs =
     (case bs of
        [] \<Rightarrow> None
      | chSize # r \<Rightarrow>
          (case (if chSize < 253 then Some (unat chSize, r)
                 else map_option (\<lambda>(xs, r'). (le_nat xs, r'))
                        (READDATA (if chSize = 253 then 2 else if chSize = 254 then 4 else 8) r)) of
             None \<Rightarrow> None
           | Some (nSizeRet, r') \<Rightarrow> if nSizeRet > MAX_SIZE then None else Some (nSizeRet, r')))"

lemma MAX_SIZE_lt: "n \<le> MAX_SIZE \<Longrightarrow> n < 4294967296"
  by (simp add: MAX_SIZE_def)

lemma compact_size_read: "n \<le> MAX_SIZE \<Longrightarrow> ReadCompactSize (WriteCompactSize n @ r) = Some (n, r)"
proof -
  assume n: "n \<le> MAX_SIZE"
  have small: "word_of_nat n < (253 :: byte) \<longleftrightarrow> n < 253" if "n < 256"
    using that by (simp add: word_less_nat_alt unat_word_of_nat_byte)
  from n MAX_SIZE_lt [OF n] small show ?thesis
    by (auto simp: ReadCompactSize_def WriteCompactSize_def unat_word_of_nat_byte)
qed

lemma compact_size_length [simp]: "length (WriteCompactSize n) = GetSizeOfCompactSize n"
  by (simp add: WriteCompactSize_def GetSizeOfCompactSize_def)

text \<open>
  A size up to \<open>MAX_SIZE\<close> is read back as it was written; a larger one is written but refused
  when it is read.
\<close>

theorem compact_size_roundtrip:
  "n < 2 ^ 64 \<Longrightarrow>
     ReadCompactSize (WriteCompactSize n @ r) = (if n \<le> MAX_SIZE then Some (n, r) else None)"
proof -
  assume n: "n < 2 ^ 64"
  show ?thesis
  proof (cases "n \<le> MAX_SIZE")
    case True
    then show ?thesis by (simp add: compact_size_read)
  next
    case False
    with n show ?thesis by (auto simp: ReadCompactSize_def WriteCompactSize_def MAX_SIZE_def)
  qed
qed

theorem compact_size_roundtrip_witness:
  "ReadCompactSize (WriteCompactSize 70000 @ [1, 2]) = Some (70000, [1, 2])"
  using compact_size_roundtrip [of 70000 "[1, 2]"] by (simp add: MAX_SIZE_def)

section \<open>Vectors\<close>

text \<open>
  A vector of bytes is read in blocks of at most five million; a vector of other elements is
  enlarged in steps while its elements are read one by one, which is reading them in sequence.
\<close>

function read_blocks :: "nat \<Rightarrow> byte list reader" where
  "read_blocks nSize bs =
     (if nSize = 0 then Some ([], bs)
      else (case READDATA (min nSize 5000000) bs of
              None \<Rightarrow> None
            | Some (xs, r) \<Rightarrow>
                map_option (\<lambda>(ys, r'). (xs @ ys, r')) (read_blocks (nSize - min nSize 5000000) r)))"
  by pat_completeness auto
termination by (relation "measure fst") auto

declare read_blocks.simps [simp del]

lemma read_blocks_eq: "read_blocks n bs = READDATA n bs"
proof (induction n bs rule: read_blocks.induct)
  case (1 n bs)
  show ?case
  proof (cases "n = 0")
    case True
    then show ?thesis by (simp add: read_blocks.simps READDATA_def)
  next
    case False
    with 1 show ?thesis
      by (subst read_blocks.simps)
        (auto simp: READDATA_def min_def take_add [symmetric] split: if_splits)
  qed
qed

definition ser_bytes :: "byte list \<Rightarrow> byte list" where
  "ser_bytes v = WriteCompactSize (length v) @ v"

definition unser_bytes :: "byte list reader" where
  "unser_bytes bs =
     (case ReadCompactSize bs of None \<Rightarrow> None | Some (nSize, r) \<Rightarrow> read_blocks nSize r)"

definition ser_vector :: "('a \<Rightarrow> byte list) \<Rightarrow> 'a list \<Rightarrow> byte list" where
  "ser_vector ser v = WriteCompactSize (length v) @ concat (map ser v)"

primrec read_elems :: "'a reader \<Rightarrow> nat \<Rightarrow> 'a list reader" where
  "read_elems unser 0 bs = Some ([], bs)"
| "read_elems unser (Suc n) bs =
     (case unser bs of
        None \<Rightarrow> None
      | Some (x, r) \<Rightarrow> map_option (\<lambda>(xs, r'). (x # xs, r')) (read_elems unser n r))"

definition unser_vector :: "'a reader \<Rightarrow> 'a list reader" where
  "unser_vector unser bs =
     (case ReadCompactSize bs of None \<Rightarrow> None | Some (nSize, r) \<Rightarrow> read_elems unser nSize r)"

definition size_bytes :: "byte list \<Rightarrow> nat" where
  "size_bytes v = GetSizeOfCompactSize (length v) + length v"

definition size_vector :: "('a \<Rightarrow> nat) \<Rightarrow> 'a list \<Rightarrow> nat" where
  "size_vector sz v = GetSizeOfCompactSize (length v) + sum_list (map sz v)"

section \<open>The contract of a serialisable type\<close>

locale codec =
  fixes ser :: "'a \<Rightarrow> byte list"
    and unser :: "'a reader"
    and sz :: "'a \<Rightarrow> nat"
    and wf :: "'a \<Rightarrow> bool"
  assumes read_back: "wf x \<Longrightarrow> unser (ser x @ r) = Some (x, r)"
    and size_ok: "wf x \<Longrightarrow> length (ser x) = sz x"
begin

lemma read_elems_back:
  "\<forall>x \<in> set xs. wf x \<Longrightarrow> read_elems unser (length xs) (concat (map ser xs) @ r) = Some (xs, r)"
  by (induction xs) (simp_all add: read_back)

lemma vector_read_back:
  "\<forall>x \<in> set xs. wf x \<Longrightarrow> length xs \<le> MAX_SIZE \<Longrightarrow>
     unser_vector unser (ser_vector ser xs @ r) = Some (xs, r)"
  by (simp add: unser_vector_def ser_vector_def compact_size_read read_elems_back)

lemma sum_size: "\<forall>x \<in> set xs. wf x \<Longrightarrow> length (concat (map ser xs)) = sum_list (map sz xs)"
  by (induction xs) (simp_all add: size_ok)


lemma vector_size:
  "\<forall>x \<in> set xs. wf x \<Longrightarrow> length (ser_vector ser xs) = size_vector sz xs"
  by (simp add: ser_vector_def size_vector_def sum_size)

end

interpretation bytes: codec ser_bytes unser_bytes size_bytes "\<lambda>v. length v \<le> MAX_SIZE"
  by unfold_locales
    (simp_all add: ser_bytes_def unser_bytes_def compact_size_read read_blocks_eq size_bytes_def)

interpretation u32: codec ser_u32 unser_u32 "\<lambda>_. 4" "\<lambda>_. True"
proof
  show "unser_u32 (ser_u32 x @ r) = Some (x, r)" for x r
    using unsigned_less [of x, where ?'a = nat] by (simp add: unser_u32_def ser_u32_def)
qed (simp add: ser_u32_def)

interpretation i32: codec ser_i32 unser_i32 "\<lambda>_. 4" "\<lambda>n. - (2 ^ 31) \<le> n \<and> n < 2 ^ 31"
proof
  show "unser_i32 (ser_i32 x @ r) = Some (x, r)" if "- (2 ^ 31) \<le> x \<and> x < 2 ^ 31" for x r
  proof -
    have "le_nat (nat_le 4 (nat (x mod 2 ^ 32))) = nat (x mod 2 ^ 32)"
      by (rule le_nat_nat_le_id) (simp add: nat_less_iff)
    moreover have "(x mod 2 ^ 32 + 2 ^ 31) mod 2 ^ 32 = x + 2 ^ 31"
      using that by (simp add: mod_add_left_eq)
    ultimately show ?thesis by (simp add: unser_i32_def ser_i32_def)
  qed
qed (simp add: ser_i32_def)

interpretation i64: codec ser_i64 unser_i64 "\<lambda>_. 8" in_i64
proof
  show "unser_i64 (ser_i64 x @ r) = Some (x, r)" if x: "in_i64 x" for x r
  proof -
    have "le_nat (nat_le 8 (nat (x mod 2 ^ 64))) = nat (x mod 2 ^ 64)"
      by (rule le_nat_nat_le_id) (simp add: nat_less_iff)
    moreover have "wrap64 (x mod 2 ^ 64) = wrap64 x"
      by (simp add: wrap64_def mod_add_left_eq)
    ultimately show ?thesis using x by (simp add: unser_i64_def ser_i64_def)
  qed
qed (simp add: ser_i64_def)

interpretation u256: codec ser_u256 unser_u256 "\<lambda>_. 32" "\<lambda>_. True"
  by unfold_locales (simp_all add: ser_u256_def unser_u256_def)

end
