(* ===== verification/Transaction.thy ===== *)
theory Transaction
  imports Serialize Script
begin

text \<open>
  The transaction types of \<open>src/src/main.h\<close>: outpoints, inputs, outputs and transactions, their
  null and empty values, the order on outpoints, and their serialisation, which is also what is
  hashed for the transaction id.
\<close>

section \<open>Outpoints\<close>

datatype COutPoint = COutPoint (op_hash: uint256) (op_n: u32)

definition COutPoint_SetNull :: COutPoint where
  "COutPoint_SetNull = COutPoint 0 (- 1)"

definition COutPoint_IsNull :: "COutPoint \<Rightarrow> bool" where
  "COutPoint_IsNull p \<longleftrightarrow> op_hash p = 0 \<and> op_n p = - 1"

definition COutPoint_less :: "COutPoint \<Rightarrow> COutPoint \<Rightarrow> bool" where
  "COutPoint_less a b \<longleftrightarrow> op_hash a < op_hash b \<or> op_hash a = op_hash b \<and> op_n a < op_n b"

instantiation COutPoint :: linorder
begin

definition less_COutPoint :: "COutPoint \<Rightarrow> COutPoint \<Rightarrow> bool" where
  "less_COutPoint a b \<longleftrightarrow> COutPoint_less a b"

definition less_eq_COutPoint :: "COutPoint \<Rightarrow> COutPoint \<Rightarrow> bool" where
  "less_eq_COutPoint a b \<longleftrightarrow> a < b \<or> a = b"

instance
proof
  fix x y z :: COutPoint
  show "x < y \<longleftrightarrow> x \<le> y \<and> \<not> y \<le> x"
    by (cases x; cases y) (auto simp: less_COutPoint_def COutPoint_less_def less_eq_COutPoint_def)
  show "x \<le> x" by (simp add: less_eq_COutPoint_def)
  show "x \<le> y \<Longrightarrow> y \<le> z \<Longrightarrow> x \<le> z"
    by (cases x; cases y; cases z) (auto simp: less_COutPoint_def COutPoint_less_def less_eq_COutPoint_def)
  show "x \<le> y \<Longrightarrow> y \<le> x \<Longrightarrow> x = y"
    by (cases x; cases y) (auto simp: less_COutPoint_def COutPoint_less_def less_eq_COutPoint_def)
  show "x \<le> y \<or> y \<le> x"
    by (cases x; cases y) (auto simp: less_COutPoint_def COutPoint_less_def less_eq_COutPoint_def)
qed

end

text \<open>\<open>FLATDATA\<close>: the memory image of the object.\<close>

definition ser_COutPoint :: "COutPoint \<Rightarrow> byte list" where
  "ser_COutPoint p = ser_u256 (op_hash p) @ ser_u32 (op_n p)"

definition unser_COutPoint :: "COutPoint reader" where
  "unser_COutPoint bs =
     (case unser_u256 bs of
        None \<Rightarrow> None
      | Some (h, r) \<Rightarrow> map_option (\<lambda>(k, r'). (COutPoint h k, r')) (unser_u32 r))"

interpretation outpoint: codec ser_COutPoint unser_COutPoint "\<lambda>_. 36" "\<lambda>_. True"
  by unfold_locales
    (simp_all add: ser_COutPoint_def unser_COutPoint_def u256.read_back u32.read_back
      u256.size_ok u32.size_ok)

section \<open>Inputs\<close>

record CTxIn =
  prevout :: COutPoint
  scriptSig :: script
  nSequence :: u32

definition CTxIn_default :: CTxIn where
  "CTxIn_default = \<lparr>prevout = COutPoint_SetNull, scriptSig = [], nSequence = - 1\<rparr>"

definition CTxIn_IsFinal :: "CTxIn \<Rightarrow> bool" where
  "CTxIn_IsFinal i \<longleftrightarrow> nSequence i = - 1"

definition ser_CTxIn :: "CTxIn \<Rightarrow> byte list" where
  "ser_CTxIn i = ser_COutPoint (prevout i) @ ser_bytes (scriptSig i) @ ser_u32 (nSequence i)"

definition unser_CTxIn :: "CTxIn reader" where
  "unser_CTxIn bs =
     (case unser_COutPoint bs of
        None \<Rightarrow> None
      | Some (p, r) \<Rightarrow>
          (case unser_bytes r of
             None \<Rightarrow> None
           | Some (s, r') \<Rightarrow>
               map_option (\<lambda>(q, r''). (\<lparr>prevout = p, scriptSig = s, nSequence = q\<rparr>, r''))
                 (unser_u32 r')))"

definition size_CTxIn :: "CTxIn \<Rightarrow> nat" where
  "size_CTxIn i = 36 + size_bytes (scriptSig i) + 4"

definition wf_CTxIn :: "CTxIn \<Rightarrow> bool" where
  "wf_CTxIn i \<longleftrightarrow> length (scriptSig i) \<le> MAX_SIZE"

interpretation txin: codec ser_CTxIn unser_CTxIn size_CTxIn wf_CTxIn
  by unfold_locales
    (simp_all add: ser_CTxIn_def unser_CTxIn_def size_CTxIn_def wf_CTxIn_def
      outpoint.read_back bytes.read_back u32.read_back outpoint.size_ok bytes.size_ok u32.size_ok)

section \<open>Outputs\<close>

record CTxOut =
  nValue :: int
  scriptPubKey :: script

definition CTxOut_SetNull :: CTxOut where
  "CTxOut_SetNull = \<lparr>nValue = -1, scriptPubKey = []\<rparr>"

definition CTxOut_IsNull :: "CTxOut \<Rightarrow> bool" where
  "CTxOut_IsNull t \<longleftrightarrow> nValue t = -1"

definition CTxOut_SetEmpty :: CTxOut where
  "CTxOut_SetEmpty = \<lparr>nValue = 0, scriptPubKey = []\<rparr>"

definition CTxOut_IsEmpty :: "CTxOut \<Rightarrow> bool" where
  "CTxOut_IsEmpty t \<longleftrightarrow> nValue t = 0 \<and> scriptPubKey t = []"

definition ser_CTxOut :: "CTxOut \<Rightarrow> byte list" where
  "ser_CTxOut t = ser_i64 (nValue t) @ ser_bytes (scriptPubKey t)"

definition unser_CTxOut :: "CTxOut reader" where
  "unser_CTxOut bs =
     (case unser_i64 bs of
        None \<Rightarrow> None
      | Some (v, r) \<Rightarrow>
          map_option (\<lambda>(s, r'). (\<lparr>nValue = v, scriptPubKey = s\<rparr>, r')) (unser_bytes r))"

definition size_CTxOut :: "CTxOut \<Rightarrow> nat" where
  "size_CTxOut t = 8 + size_bytes (scriptPubKey t)"

definition wf_CTxOut :: "CTxOut \<Rightarrow> bool" where
  "wf_CTxOut t \<longleftrightarrow> in_i64 (nValue t) \<and> length (scriptPubKey t) \<le> MAX_SIZE"

interpretation txout: codec ser_CTxOut unser_CTxOut size_CTxOut wf_CTxOut
  by unfold_locales
    (simp_all add: ser_CTxOut_def unser_CTxOut_def size_CTxOut_def wf_CTxOut_def
      i64.read_back bytes.read_back i64.size_ok bytes.size_ok)

section \<open>Transactions\<close>

text \<open>\<open>nDoS\<close> is memory only and is returned by the checks that raise it.\<close>

record CTransaction =
  nVersion :: int
  nTime :: u32
  vin :: "CTxIn list"
  vout :: "CTxOut list"
  nLockTime :: u32

definition CTransaction_SetNull :: "u32 \<Rightarrow> CTransaction" where
  "CTransaction_SetNull adjustedTime =
     \<lparr>nVersion = 1, nTime = adjustedTime, vin = [], vout = [], nLockTime = 0\<rparr>"

definition CTransaction_IsNull :: "CTransaction \<Rightarrow> bool" where
  "CTransaction_IsNull tx \<longleftrightarrow> vin tx = [] \<and> vout tx = []"

definition IsCoinBase :: "CTransaction \<Rightarrow> bool" where
  "IsCoinBase tx \<longleftrightarrow>
     length (vin tx) = 1 \<and> COutPoint_IsNull (prevout (vin tx ! 0)) \<and> length (vout tx) \<ge> 1"

definition IsCoinStake :: "CTransaction \<Rightarrow> bool" where
  "IsCoinStake tx \<longleftrightarrow>
     length (vin tx) > 0 \<and> \<not> COutPoint_IsNull (prevout (vin tx ! 0)) \<and> length (vout tx) \<ge> 2 \<and>
     CTxOut_IsEmpty (vout tx ! 0)"

definition ser_CTransaction :: "CTransaction \<Rightarrow> byte list" where
  "ser_CTransaction tx =
     ser_i32 (nVersion tx) @ ser_u32 (nTime tx) @ ser_vector ser_CTxIn (vin tx) @
     ser_vector ser_CTxOut (vout tx) @ ser_u32 (nLockTime tx)"

definition unser_CTransaction :: "CTransaction reader" where
  "unser_CTransaction bs =
     (case unser_i32 bs of
        None \<Rightarrow> None
      | Some (v, r1) \<Rightarrow>
     (case unser_u32 r1 of
        None \<Rightarrow> None
      | Some (t, r2) \<Rightarrow>
     (case unser_vector unser_CTxIn r2 of
        None \<Rightarrow> None
      | Some (ins, r3) \<Rightarrow>
     (case unser_vector unser_CTxOut r3 of
        None \<Rightarrow> None
      | Some (outs, r4) \<Rightarrow>
          map_option (\<lambda>(l, r5).
            (\<lparr>nVersion = v, nTime = t, vin = ins, vout = outs, nLockTime = l\<rparr>, r5))
            (unser_u32 r4)))))"

definition size_CTransaction :: "CTransaction \<Rightarrow> nat" where
  "size_CTransaction tx =
     4 + 4 + size_vector size_CTxIn (vin tx) + size_vector size_CTxOut (vout tx) + 4"

definition wf_CTransaction :: "CTransaction \<Rightarrow> bool" where
  "wf_CTransaction tx \<longleftrightarrow>
     - (2 ^ 31) \<le> nVersion tx \<and> nVersion tx < 2 ^ 31 \<and>
     length (vin tx) \<le> MAX_SIZE \<and> (\<forall>i \<in> set (vin tx). wf_CTxIn i) \<and>
     length (vout tx) \<le> MAX_SIZE \<and> (\<forall>t \<in> set (vout tx). wf_CTxOut t)"

interpretation transaction: codec ser_CTransaction unser_CTransaction size_CTransaction wf_CTransaction
  by unfold_locales
    (simp_all add: ser_CTransaction_def unser_CTransaction_def size_CTransaction_def
      wf_CTransaction_def i32.read_back u32.read_back txin.vector_read_back txout.vector_read_back
      i32.size_ok u32.size_ok txin.vector_size txout.vector_size)



definition SerializeHash :: "openssl \<Rightarrow> byte list \<Rightarrow> uint256" where
  "SerializeHash L bs = Hash L bs"

definition CTransaction_GetHash :: "openssl \<Rightarrow> CTransaction \<Rightarrow> uint256" where
  "CTransaction_GetHash L tx = SerializeHash L (ser_CTransaction tx)"

text \<open>Two transactions with the same serialisation are the same transaction.\<close>

lemma ser_CTransaction_inj:
  assumes "wf_CTransaction tx" and "wf_CTransaction tx'"
    and "ser_CTransaction tx = ser_CTransaction tx'"
  shows "tx = tx'"
  using transaction.read_back [OF assms(1), of "[]"] transaction.read_back [OF assms(2), of "[]"]
    assms(3) by simp

end
