(* ===== verification/Key.thy ===== *)
theory Key
  imports Bignum
begin

text \<open>
  \<open>CPubKey\<close> and \<open>CKey\<close> of \<open>src/src/key.h\<close> and \<open>src/src/key.cpp\<close>.  A \<open>CPubKey\<close> is its bytes.  The
  \<open>EC_KEY\<close> of OpenSSL is the material it was filled from and its conversion form; the operations on
  it are fields of the parameter \<open>openssl\<close>.  A \<open>key_error\<close> is \<open>None\<close>.
\<close>

type_synonym CKeyID = uint160
type_synonym CScriptID = uint160
type_synonym CSecret = "byte list"
type_synonym CPubKey = "byte list"

definition CPubKey_GetID :: "openssl \<Rightarrow> CPubKey \<Rightarrow> CKeyID" where
  "CPubKey_GetID L vchPubKey = Hash160 L vchPubKey"

definition CPubKey_GetHash :: "openssl \<Rightarrow> CPubKey \<Rightarrow> uint256" where
  "CPubKey_GetHash L vchPubKey = Hash L vchPubKey"

definition CPubKey_IsValid :: "CPubKey \<Rightarrow> bool" where
  "CPubKey_IsValid vchPubKey \<longleftrightarrow> length vchPubKey = 33 \<or> length vchPubKey = 65"

definition CPubKey_IsCompressed :: "CPubKey \<Rightarrow> bool" where
  "CPubKey_IsCompressed vchPubKey \<longleftrightarrow> length vchPubKey = 33"

section \<open>CKey\<close>

datatype ec_material = EC_none | EC_pub "byte list" | EC_sec "byte list"

record EC_KEY =
  material :: ec_material
  conv_compressed :: bool

record CKey =
  pkey :: EC_KEY
  fSet :: bool
  fCompressedPubKey :: bool

definition new_EC_KEY :: EC_KEY where
  "new_EC_KEY = \<lparr>material = EC_none, conv_compressed = False\<rparr>"

definition SetCompressedPubKey :: "CKey \<Rightarrow> CKey" where
  "SetCompressedPubKey k =
     k\<lparr>pkey := (pkey k)\<lparr>conv_compressed := True\<rparr>, fCompressedPubKey := True\<rparr>"

definition CKey_Reset :: "CKey \<Rightarrow> CKey" where
  "CKey_Reset k = k\<lparr>fCompressedPubKey := False, pkey := new_EC_KEY, fSet := False\<rparr>"

definition CKey_new :: CKey where
  "CKey_new = \<lparr>pkey = new_EC_KEY, fSet = False, fCompressedPubKey = False\<rparr>"

text \<open>
  The copy constructor does not initialise \<open>fCompressedPubKey\<close> (\<open>junk\<close> is what the memory held), and
  the assignment leaves the old flag in place.
\<close>

definition CKey_copy :: "bool \<Rightarrow> CKey \<Rightarrow> CKey" where
  "CKey_copy junk b = \<lparr>pkey = pkey b, fSet = fSet b, fCompressedPubKey = junk\<rparr>"

definition CKey_assign :: "CKey \<Rightarrow> CKey \<Rightarrow> CKey" where
  "CKey_assign a b = a\<lparr>pkey := pkey b, fSet := fSet b\<rparr>"

definition CKey_IsNull :: "CKey \<Rightarrow> bool" where
  "CKey_IsNull k \<longleftrightarrow> \<not> fSet k"

definition CKey_IsCompressed :: "CKey \<Rightarrow> bool" where
  "CKey_IsCompressed k \<longleftrightarrow> fCompressedPubKey k"

definition SetSecret :: "CKey \<Rightarrow> CSecret \<Rightarrow> bool \<Rightarrow> CKey option" where
  "SetSecret k vchSecret fCompressed =
     (if length vchSecret \<noteq> 32 then None
      else
        (let k' = k\<lparr>pkey := \<lparr>material = EC_sec vchSecret, conv_compressed = False\<rparr>, fSet := True\<rparr>
         in Some (if fCompressed \<or> fCompressedPubKey k then SetCompressedPubKey k' else k')))"

definition GetSecret :: "CKey \<Rightarrow> (CSecret \<times> bool) option" where
  "GetSecret k =
     (case material (pkey k) of EC_sec s \<Rightarrow> Some (s, fCompressedPubKey k) | _ \<Rightarrow> None)"

definition SetPubKey :: "openssl \<Rightarrow> CKey \<Rightarrow> CPubKey \<Rightarrow> bool \<times> CKey" where
  "SetPubKey L k vchPubKey =
     (if o2i_ECPublicKey L vchPubKey then
        (let k' = k\<lparr>pkey := \<lparr>material = EC_pub vchPubKey,
                            conv_compressed = (length vchPubKey = 33)\<rparr>, fSet := True\<rparr>
         in (True, if length vchPubKey = 33 then SetCompressedPubKey k' else k'))
      else (False, CKey_Reset k))"

definition GetPubKey :: "openssl \<Rightarrow> CKey \<Rightarrow> CPubKey option" where
  "GetPubKey L k =
     (case material (pkey k) of
        EC_none \<Rightarrow> None
      | EC_pub p \<Rightarrow> Some p
      | EC_sec s \<Rightarrow> Some (EC_public L s (conv_compressed (pkey k))))"

definition CKey_Sign :: "openssl \<Rightarrow> CKey \<Rightarrow> uint256 \<Rightarrow> valtype option" where
  "CKey_Sign L k h =
     (case material (pkey k) of
        EC_sec s \<Rightarrow> ECDSA_sign L s (bytes256 h)
      | _ \<Rightarrow> None)"

definition CKey_Verify :: "openssl \<Rightarrow> CKey \<Rightarrow> uint256 \<Rightarrow> valtype \<Rightarrow> bool" where
  "CKey_Verify L k h vchSig =
     (case GetPubKey L k of
        None \<Rightarrow> False
      | Some p \<Rightarrow> ECDSA_verify L p (bytes256 h) vchSig = 1)"

text \<open>
  What OpenSSL documents of signing: a signature made with a secret verifies under the public key
  of that secret, in both encodings, which are accepted as public keys of 33 or 65 bytes.
\<close>

definition ecdsa_documented :: "openssl \<Rightarrow> bool" where
  "ecdsa_documented L \<longleftrightarrow>
     (\<forall>s d sig c. length s = 32 \<longrightarrow> ECDSA_sign L s d = Some sig \<longrightarrow>
        ECDSA_verify L (EC_public L s c) d sig = 1) \<and>
     (\<forall>s c. length s = 32 \<longrightarrow> o2i_ECPublicKey L (EC_public L s c) \<and>
        length (EC_public L s c) = (if c then 33 else 65))"

lemma ecdsa_documented_sample: "ecdsa_documented sample_openssl"
  by (simp add: ecdsa_documented_def sample_openssl_def)

lemma SetSecret_new:
  "SetSecret CKey_new s c = Some k \<longleftrightarrow>
     length s = 32 \<and>
     k = \<lparr>pkey = \<lparr>material = EC_sec s, conv_compressed = c\<rparr>, fSet = True, fCompressedPubKey = c\<rparr>"
  by (auto simp: SetSecret_def CKey_new_def SetCompressedPubKey_def new_EC_KEY_def Let_def)

text \<open>
  A fresh key given a secret returns that secret and its compression flag, publishes the public
  key in the form asked for, and signs so that the published key verifies the signature.
\<close>

theorem key_secret_roundtrip:
  assumes "ecdsa_documented L" and "SetSecret CKey_new s c = Some k"
  shows "GetSecret k = Some (s, c) \<and>
    (\<exists>p. GetPubKey L k = Some p \<and> CPubKey_IsValid p \<and> CPubKey_IsCompressed p = c \<and>
       (\<forall>h sig. CKey_Sign L k h = Some sig \<longrightarrow>
          fst (SetPubKey L CKey_new p) \<and> CKey_Verify L (snd (SetPubKey L CKey_new p)) h sig))"
proof -
  from assms(2) have s: "length s = 32" and
    k: "k = \<lparr>pkey = \<lparr>material = EC_sec s, conv_compressed = c\<rparr>, fSet = True, fCompressedPubKey = c\<rparr>"
    by (simp_all add: SetSecret_new)
  have "o2i_ECPublicKey L (EC_public L s c)"
    and "length (EC_public L s c) = (if c then 33 else 65)"
    and "ECDSA_sign L s d = Some sig \<Longrightarrow> ECDSA_verify L (EC_public L s c) d sig = 1" for d sig
    using assms(1) s unfolding ecdsa_documented_def by blast+
  then show ?thesis
    by (cases c) (simp_all add: k GetSecret_def GetPubKey_def CKey_Sign_def CKey_Verify_def SetPubKey_def
        SetCompressedPubKey_def CPubKey_IsValid_def CPubKey_IsCompressed_def Let_def)
qed

theorem key_secret_roundtrip_witness:
  "GetSecret (the (SetSecret CKey_new (replicate 32 7) True)) = Some (replicate 32 7, True)"
proof -
  obtain k where k: "SetSecret CKey_new (replicate 32 7) True = Some k"
    by (simp add: SetSecret_def Let_def)
  from key_secret_roundtrip [OF ecdsa_documented_sample k] k show ?thesis by simp
qed

text \<open>
  Assigning keys copies the key but not the compression flag: when the flags differ the copy
  reports, with the same secret, another compression than its source.
\<close>

theorem CKey_assign_drops_compression:
  "GetPubKey L (CKey_assign a b) = GetPubKey L b \<and>
   map_option fst (GetSecret (CKey_assign a b)) = map_option fst (GetSecret b) \<and>
   CKey_IsCompressed (CKey_assign a b) = CKey_IsCompressed a"
  by (auto simp: CKey_assign_def GetPubKey_def GetSecret_def CKey_IsCompressed_def
      split: ec_material.splits)

end
