(* ===== verification/SigCheck.thy ===== *)
theory SigCheck
  imports Interpreter_Facts Transaction Key
begin

text \<open>
  Signature checking of \<open>src/src/script.cpp\<close>: \<open>SignatureHash\<close>, the cache of valid signatures,
  \<open>CheckSig\<close>, \<open>VerifyScript\<close> and \<open>VerifySignature\<close>.  The static cache of \<open>CheckSig\<close> is explicit
  state; the random hashes that choose what is evicted are an endless tape in that state.
\<close>

section \<open>SignatureHash\<close>

definition blank_scriptSigs :: "nat \<Rightarrow> script \<Rightarrow> CTxIn list \<Rightarrow> CTxIn list" where
  "blank_scriptSigs nIn scriptCode ins =
     (let ins' = map (\<lambda>i. i\<lparr>scriptSig := []\<rparr>) ins
      in ins'[nIn := (ins' ! nIn)\<lparr>scriptSig := scriptCode\<rparr>])"

definition zero_sequences :: "nat \<Rightarrow> CTxIn list \<Rightarrow> CTxIn list" where
  "zero_sequences nIn ins =
     map (\<lambda>k. if k \<noteq> nIn then (ins ! k)\<lparr>nSequence := 0\<rparr> else ins ! k) [0..<length ins]"

text \<open>
  The transaction that is hashed; \<open>None\<close> is the out-of-range return of the constant 1.
\<close>

definition SignatureHash_tx :: "script \<Rightarrow> CTransaction \<Rightarrow> nat \<Rightarrow> u32 \<Rightarrow> CTransaction option" where
  "SignatureHash_tx scriptCode txTo nIn nHashType =
     (if nIn \<ge> length (vin txTo) then None
      else
        (let code = fst (FindAndDelete scriptCode [op_byte OP_CODESEPARATOR]);
             txTmp = txTo\<lparr>vin := blank_scriptSigs nIn code (vin txTo)\<rparr>;
             txTmp2 =
               (if nHashType AND 0x1f = SIGHASH_NONE then
                  Some (txTmp\<lparr>vout := [], vin := zero_sequences nIn (vin txTmp)\<rparr>)
                else if nHashType AND 0x1f = SIGHASH_SINGLE then
                  (let nOut = nIn
                   in if nOut \<ge> length (vout txTmp) then None
                      else Some (txTmp\<lparr>vout := replicate nOut CTxOut_SetNull @ [vout txTmp ! nOut],
                                       vin := zero_sequences nIn (vin txTmp)\<rparr>))
                else Some txTmp)
         in map_option (\<lambda>t. if nHashType AND SIGHASH_ANYONECANPAY \<noteq> 0
                             then t\<lparr>vin := [vin t ! nIn]\<rparr> else t) txTmp2))"

definition SignatureHash :: "openssl \<Rightarrow> script \<Rightarrow> CTransaction \<Rightarrow> nat \<Rightarrow> u32 \<Rightarrow> uint256" where
  "SignatureHash L scriptCode txTo nIn nHashType =
     (case SignatureHash_tx scriptCode txTo nIn nHashType of
        None \<Rightarrow> 1
      | Some txTmp \<Rightarrow> Hash L (ser_CTransaction txTmp @ ser_u32 nHashType))"

lemma SignatureHash_scriptSigs:
  assumes "map (\<lambda>i. i\<lparr>scriptSig := []\<rparr>) (vin tx) = map (\<lambda>i. i\<lparr>scriptSig := []\<rparr>) (vin tx')"
    and "tx'\<lparr>vin := vin tx\<rparr> = tx"
  shows "SignatureHash L code tx nIn ht = SignatureHash L code tx' nIn ht"
proof -
  have n: "length (vin tx) = length (vin tx')"
    using arg_cong [OF assms(1), of length] by simp
  have b: "blank_scriptSigs nIn c (vin tx) = blank_scriptSigs nIn c (vin tx')" for c
    by (simp add: blank_scriptSigs_def assms(1))
  have "tx\<lparr>vin := xs\<rparr> = tx'\<lparr>vin := xs\<rparr>" for xs
    using arg_cong [OF assms(2), of "\<lambda>t. t\<lparr>vin := xs\<rparr>"] by simp
  moreover from this [of "[]"] have "vout tx = vout tx'"
    by (metis CTransaction.select_convs(4) CTransaction.surjective CTransaction.update_convs(3))
  ultimately show ?thesis
    by (simp add: SignatureHash_def SignatureHash_tx_def n b Let_def)
qed

text \<open>
  The signature hash does not depend on the signatures themselves: two transactions that agree
  up to the \<open>scriptSig\<close> of their inputs have the same signature hash for every input and hash type.
\<close>

theorem SignatureHash_ignores_scriptSigs:
  assumes "map (\<lambda>i. i\<lparr>scriptSig := []\<rparr>) (vin tx) = map (\<lambda>i. i\<lparr>scriptSig := []\<rparr>) (vin tx')"
    and "tx'\<lparr>vin := vin tx\<rparr> = tx"
  shows "SignatureHash L code tx nIn ht = SignatureHash L code tx' nIn ht"
  using assms by (rule SignatureHash_scriptSigs)

theorem SignatureHash_ignores_scriptSigs_witness:
  "SignatureHash sample_openssl [0xac]
     \<lparr>nVersion = 1, nTime = 4, vin = [\<lparr>prevout = COutPoint 5 1, scriptSig = [1, 2], nSequence = 7\<rparr>],
      vout = [], nLockTime = 0\<rparr> 0 1 =
   SignatureHash sample_openssl [0xac]
     \<lparr>nVersion = 1, nTime = 4, vin = [\<lparr>prevout = COutPoint 5 1, scriptSig = [], nSequence = 7\<rparr>],
      vout = [], nLockTime = 0\<rparr> 0 1"
  by (rule SignatureHash_ignores_scriptSigs) simp_all

text \<open>
  With \<open>SIGHASH_SINGLE\<close> and no output at the input's index, the hash is the constant 1, whatever
  the transaction.
\<close>

theorem SignatureHash_single_out_of_range:
  assumes "ht AND 0x1f = SIGHASH_SINGLE" and "nIn \<ge> length (vout tx)"
  shows "SignatureHash L code tx nIn ht = 1"
  using assms by (simp add: SignatureHash_def SignatureHash_tx_def Let_def)

theorem SignatureHash_single_out_of_range_witness:
  "SignatureHash sample_openssl [0xac]
     \<lparr>nVersion = 1, nTime = 4, vin = [CTxIn_default, CTxIn_default], vout = [CTxOut_SetNull],
      nLockTime = 0\<rparr> 1 3 = 1"
  by (rule SignatureHash_single_out_of_range) simp_all

text \<open>
  With \<open>SIGHASH_ANYONECANPAY\<close>, replacing every input but the signed one, even their number when
  the position stays, leaves the signature hash as it is.
\<close>

theorem SignatureHash_anyonecanpay:
  assumes "ht AND SIGHASH_ANYONECANPAY \<noteq> 0" and "nIn < length (vin tx)" and "nIn < length ins"
    and "ins ! nIn = vin tx ! nIn"
  shows "SignatureHash L code (tx\<lparr>vin := ins\<rparr>) nIn ht = SignatureHash L code tx nIn ht"
  using assms
  by (simp add: SignatureHash_def SignatureHash_tx_def Let_def blank_scriptSigs_def
      zero_sequences_def)

theorem SignatureHash_anyonecanpay_witness:
  "let tx = \<lparr>nVersion = 1, nTime = 4, vin = [CTxIn_default], vout = [CTxOut_SetNull], nLockTime = 0\<rparr>
   in SignatureHash sample_openssl [0xac]
        (tx\<lparr>vin := [CTxIn_default, \<lparr>prevout = COutPoint 5 1, scriptSig = [], nSequence = 7\<rparr>]\<rparr>) 0 0x81 =
      SignatureHash sample_openssl [0xac] tx 0 0x81"
  unfolding Let_def by (rule SignatureHash_anyonecanpay) simp_all

section \<open>The cache of valid signatures\<close>

type_synonym sigdata_type = "uint256 \<times> valtype \<times> valtype"

record CSignatureCache =
  setValid :: "sigdata_type list"
  rand_tape :: "nat \<Rightarrow> uint256"
  rand_pos :: nat

definition cache_Get :: "CSignatureCache \<Rightarrow> uint256 \<Rightarrow> valtype \<Rightarrow> valtype \<Rightarrow> bool" where
  "cache_Get cache h vchSig pubKey \<longleftrightarrow> (h, vchSig, pubKey) \<in> set (setValid cache)"

definition cache_evict1 :: "CSignatureCache \<Rightarrow> CSignatureCache" where
  "cache_evict1 cache =
     (let randomHash = rand_tape cache (rand_pos cache);
          it = (case set_lower_bound (randomHash, [], []) (setValid cache) of
                  Some x \<Rightarrow> x | None \<Rightarrow> hd (setValid cache))
      in cache\<lparr>setValid := remove1 it (setValid cache), rand_pos := rand_pos cache + 1\<rparr>)"

lemma cache_evict1_shorter:
  "setValid cache \<noteq> [] \<Longrightarrow> length (setValid (cache_evict1 cache)) < length (setValid cache)"
  by (auto simp: cache_evict1_def Let_def intro!: length_remove1_less dest: set_lower_bound_mem
      split: option.splits)

function cache_evict :: "nat \<Rightarrow> CSignatureCache \<Rightarrow> CSignatureCache" where
  "cache_evict nMaxCacheSize cache =
     (if length (setValid cache) > nMaxCacheSize
      then cache_evict nMaxCacheSize (cache_evict1 cache) else cache)"
  by pat_completeness auto
termination
  by (relation "measure (\<lambda>(_, cache). length (setValid cache))")
    (auto intro: cache_evict1_shorter)

declare cache_evict.simps [simp del]

definition cache_Set :: "int \<Rightarrow> CSignatureCache \<Rightarrow> uint256 \<Rightarrow> valtype \<Rightarrow> valtype \<Rightarrow> CSignatureCache" where
  "cache_Set nMaxCacheSize cache h vchSig pubKey =
     (if nMaxCacheSize \<le> 0 then cache
      else (let cache' = cache_evict (nat nMaxCacheSize) cache
            in cache'\<lparr>setValid := set_insert (h, vchSig, pubKey) (setValid cache')\<rparr>))"

lemma cache_evict1_subset: "set (setValid (cache_evict1 cache)) \<subseteq> set (setValid cache)"
  unfolding cache_evict1_def Let_def by (simp add: set_remove1_subset)

lemma cache_evict_facts:
  "length (setValid (cache_evict n cache)) \<le> n \<and>
   set (setValid (cache_evict n cache)) \<subseteq> set (setValid cache)"
proof (induction n cache rule: cache_evict.induct)
  case (1 n cache)
  show ?case
  proof (cases "length (setValid cache) > n")
    case True
    with 1 cache_evict1_subset [of cache] show ?thesis by (subst (1 2) cache_evict.simps) auto
  next
    case False
    then show ?thesis by (simp add: cache_evict.simps)
  qed
qed

section \<open>CheckSig\<close>

definition CheckSig ::
  "openssl \<Rightarrow> int \<Rightarrow> CTransaction \<Rightarrow> nat \<Rightarrow> u32 \<Rightarrow> CSignatureCache sigcheck" where
  "CheckSig L nMaxCacheSize txTo nIn nHashType cache vchSig vchPubKey scriptCode =
     (if vchSig = [] then (False, cache)
      else if nHashType \<noteq> 0 \<and> nHashType \<noteq> ucast (last vchSig) then (False, cache)
      else
        (let nHashType' = (if nHashType = 0 then ucast (last vchSig) else nHashType);
             vchSig' = butlast vchSig;
             sighash = SignatureHash L scriptCode txTo nIn nHashType'
         in if cache_Get cache sighash vchSig' vchPubKey then (True, cache)
            else
              (case SetPubKey L CKey_new vchPubKey of
                 (ok, key) \<Rightarrow>
                   if \<not> ok then (False, cache)
                   else if \<not> CKey_Verify L key sighash vchSig' then (False, cache)
                   else (True, cache_Set nMaxCacheSize cache sighash vchSig' vchPubKey))))"

text \<open>The same check without the cache, as a predicate.\<close>

definition ecdsa_valid :: "openssl \<Rightarrow> uint256 \<Rightarrow> valtype \<Rightarrow> valtype \<Rightarrow> bool" where
  "ecdsa_valid L h vchSig vchPubKey \<longleftrightarrow>
     o2i_ECPublicKey L vchPubKey \<and> ECDSA_verify L vchPubKey (bytes256 h) vchSig = 1"

definition sig_valid ::
  "openssl \<Rightarrow> CTransaction \<Rightarrow> nat \<Rightarrow> u32 \<Rightarrow> valtype \<Rightarrow> valtype \<Rightarrow> script \<Rightarrow> bool" where
  "sig_valid L txTo nIn nHashType vchSig vchPubKey scriptCode \<longleftrightarrow>
     vchSig \<noteq> [] \<and> (nHashType = 0 \<or> nHashType = ucast (last vchSig)) \<and>
     ecdsa_valid L (SignatureHash L scriptCode txTo nIn (ucast (last vchSig)))
       (butlast vchSig) vchPubKey"

definition cache_inv :: "openssl \<Rightarrow> CSignatureCache \<Rightarrow> bool" where
  "cache_inv L cache \<longleftrightarrow> (\<forall>(h, s, p) \<in> set (setValid cache). ecdsa_valid L h s p)"

lemma key_verify:
  "fst (SetPubKey L CKey_new p) \<and> CKey_Verify L (snd (SetPubKey L CKey_new p)) h s \<longleftrightarrow>
     ecdsa_valid L h s p"
  by (simp add: SetPubKey_def CKey_Verify_def GetPubKey_def ecdsa_valid_def SetCompressedPubKey_def
      Let_def)

lemma cache_inv_Set:
  "cache_inv L cache \<Longrightarrow> ecdsa_valid L h s p \<Longrightarrow> cache_inv L (cache_Set n cache h s p)"
  using cache_evict_facts [of "nat n" cache]
  by (auto simp: cache_inv_def cache_Set_def Let_def)

lemma CheckSig_cached:
  assumes inv: "cache_inv L c"
  shows "fst (CheckSig L nMax tx nIn ht c sig pub code) = sig_valid L tx nIn ht sig pub code \<and>
    cache_inv L (snd (CheckSig L nMax tx nIn ht c sig pub code))"
proof (cases "sig = [] \<or> ht \<noteq> 0 \<and> ht \<noteq> ucast (last sig)")
  case True
  with inv show ?thesis by (auto simp: CheckSig_def sig_valid_def)
next
  case False
  define h where "h = SignatureHash L code tx nIn (ucast (last sig))"
  define v where "v = ecdsa_valid L h (butlast sig) pub"
  obtain ok key where k: "SetPubKey L CKey_new pub = (ok, key)" by fastforce
  have v_key: "v \<longleftrightarrow> ok \<and> CKey_Verify L key h (butlast sig)"
    using key_verify [of L pub h "butlast sig"] k by (simp add: v_def)
  have "cache_Get c h (butlast sig) pub \<Longrightarrow> v"
    using inv by (auto simp: cache_inv_def cache_Get_def v_def)
  moreover have "v \<Longrightarrow> cache_inv L (cache_Set nMax c h (butlast sig) pub)"
    using cache_inv_Set [OF inv] by (simp add: v_def)
  moreover have "(if ht = 0 then ucast (last sig) else ht) = ucast (last sig)"
    using False by auto
  then have "CheckSig L nMax tx nIn ht c sig pub code =
      (if cache_Get c h (butlast sig) pub then (True, c)
       else if v then (True, cache_Set nMax c h (butlast sig) pub) else (False, c))"
    using False by (auto simp: CheckSig_def Let_def k v_key h_def)
  moreover have "sig_valid L tx nIn ht sig pub code = v"
    using False by (auto simp: sig_valid_def v_def h_def)
  ultimately show ?thesis using inv by simp
qed

interpretation cached: sig_checker "CheckSig L nMax tx nIn ht" "sig_valid L tx nIn ht" "cache_inv L"
  for L nMax tx nIn ht
  by unfold_locales (simp_all add: CheckSig_cached)

end
