(* ===== verification/Spending.thy ===== *)
theory Spending
  imports SigCheck
begin

text \<open>
  \<open>VerifyScript\<close> and \<open>VerifySignature\<close> of \<open>src/src/script.cpp\<close>, and what they amount to for the
  standard forms of output: pay to public key hash, pay to script hash, and provably unspendable
  outputs.
\<close>

section \<open>Definitions\<close>

text \<open>
  Over any signature checker.  \<open>stackCopy.back()\<close> is read without a check;
  \<open>EvalScript_P2SH_nonempty\<close> below shows that the copy is not empty there.
\<close>

definition VerifyScript_with ::
  "openssl \<Rightarrow> 'c sigcheck \<Rightarrow> script \<Rightarrow> script \<Rightarrow> bool \<Rightarrow> 'c \<Rightarrow> bool \<times> 'c" where
  "VerifyScript_with L chk sigScript pubScript fValidatePayToScriptHash c =
     (case EvalScript L chk [] sigScript c of
        (ok1, st1, c1) \<Rightarrow>
          (if \<not> ok1 then (False, c1)
           else
             (let stackCopy = st1
              in case EvalScript L chk st1 pubScript c1 of
                   (ok2, st2, c2) \<Rightarrow>
                     (if \<not> ok2 then (False, c2)
                      else if st2 = [] then (False, c2)
                      else if \<not> CastToBool (hd st2) then (False, c2)
                      else if fValidatePayToScriptHash \<and> IsPayToScriptHash pubScript then
                        (if \<not> IsPushOnly sigScript then (False, c2)
                         else
                           (let pubKey2 = hd stackCopy
                            in case EvalScript L chk (tl stackCopy) pubKey2 c2 of
                                 (ok3, st3, c3) \<Rightarrow>
                                   (if \<not> ok3 then (False, c3)
                                    else if st3 = [] then (False, c3)
                                    else (CastToBool (hd st3), c3))))
                      else (True, c2)))))"

definition VerifyScript ::
  "openssl \<Rightarrow> int \<Rightarrow> script \<Rightarrow> script \<Rightarrow> CTransaction \<Rightarrow> nat \<Rightarrow> bool \<Rightarrow> u32 \<Rightarrow> CSignatureCache \<Rightarrow>
     bool \<times> CSignatureCache" where
  "VerifyScript L nMaxCacheSize sigScript pubScript txTo nIn fP2SH nHashType cache =
     VerifyScript_with L (CheckSig L nMaxCacheSize txTo nIn nHashType) sigScript pubScript fP2SH cache"

text \<open>\<open>None\<close> is the failed assertion on the input index.\<close>

definition VerifySignature ::
  "openssl \<Rightarrow> int \<Rightarrow> CTransaction \<Rightarrow> CTransaction \<Rightarrow> nat \<Rightarrow> bool \<Rightarrow> u32 \<Rightarrow> CSignatureCache \<Rightarrow>
     (bool \<times> CSignatureCache) option" where
  "VerifySignature L nMaxCacheSize txFrom txTo nIn fP2SH nHashType cache =
     (if \<not> nIn < length (vin txTo) then None
      else
        (let txin = vin txTo ! nIn; k = unat (op_n (prevout txin))
         in if k \<ge> length (vout txFrom) then Some (False, cache)
            else if op_hash (prevout txin) \<noteq> CTransaction_GetHash L txFrom then Some (False, cache)
            else Some (VerifyScript L nMaxCacheSize (scriptSig txin) (scriptPubKey (vout txFrom ! k))
                         txTo nIn fP2SH nHashType cache)))"

section \<open>The cache is transparent\<close>

text \<open>The verdict without cache.\<close>

definition script_ok ::
  "openssl \<Rightarrow> (valtype \<Rightarrow> valtype \<Rightarrow> script \<Rightarrow> bool) \<Rightarrow> script \<Rightarrow> script \<Rightarrow> bool \<Rightarrow> bool" where
  "script_ok L ok sigScript pubScript fP2SH =
     fst (VerifyScript_with L (pure_checker ok) sigScript pubScript fP2SH ())"

context sig_checker
begin

lemma VerifyScript_pure:
  assumes c: "inv c"
  shows "\<exists>c'. VerifyScript_with L chk a b f c = (script_ok L ok a b f, c') \<and> inv c'"
proof -
  obtain c1 where c1: "inv c1" and e1: "EvalScript L chk [] a c =
      (case EvalScript L (pure_checker ok) [] a () of (b, st', _) \<Rightarrow> (b, st', c1))"
    using EvalScript_pure [OF c] .
  obtain b1 s1 where p1: "EvalScript L (pure_checker ok) [] a () = (b1, s1, ())"
    by (metis prod_cases3 old.unit.exhaust)
  obtain c2 where c2: "inv c2" and e2: "EvalScript L chk s1 b c1 =
      (case EvalScript L (pure_checker ok) s1 b () of (b, st', _) \<Rightarrow> (b, st', c2))"
    using EvalScript_pure [OF c1] .
  obtain b2 s2 where p2: "EvalScript L (pure_checker ok) s1 b () = (b2, s2, ())"
    by (metis prod_cases3 old.unit.exhaust)
  obtain c3 where c3: "inv c3" and e3: "EvalScript L chk (tl s1) (hd s1) c2 =
      (case EvalScript L (pure_checker ok) (tl s1) (hd s1) () of (b, st', _) \<Rightarrow> (b, st', c3))"
    using EvalScript_pure [OF c2] .
  obtain b3 s3 where p3: "EvalScript L (pure_checker ok) (tl s1) (hd s1) () = (b3, s3, ())"
    by (metis prod_cases3 old.unit.exhaust)
  from e1 e2 e3 p1 p2 p3 c1 c2 c3 show ?thesis
    by (simp add: VerifyScript_with_def script_ok_def Let_def)
qed

end

lemma VerifyScript_cached:
  assumes "cache_inv L cache"
  shows "fst (VerifyScript L nMax a b tx nIn f ht cache) = script_ok L (sig_valid L tx nIn ht) a b f \<and>
    cache_inv L (snd (VerifyScript L nMax a b tx nIn f ht cache))"
proof -
  from cached.VerifyScript_pure [OF assms, of L nMax tx nIn ht a b f]
  obtain c' where "VerifyScript_with L (CheckSig L nMax tx nIn ht) a b f cache =
      (script_ok L (sig_valid L tx nIn ht) a b f, c')" and "cache_inv L c'" by blast
  then show ?thesis by (simp add: VerifyScript_def)
qed

text \<open>
  C6.  With a cache that holds only valid signatures, \<open>VerifyScript\<close> decides exactly what it decides
  with no cache at all, for every cache content, cache size and eviction tape, and leaves such a
  cache again.
\<close>

theorem VerifyScript_cache_transparent:
  assumes "cache_inv L cache"
  shows "fst (VerifyScript L nMax a b tx nIn f ht cache) = script_ok L (sig_valid L tx nIn ht) a b f \<and>
    cache_inv L (snd (VerifyScript L nMax a b tx nIn f ht cache))"
  using assms by (rule VerifyScript_cached)

theorem VerifyScript_cache_transparent_witness:
  "let cache = \<lparr>setValid = [], rand_tape = (\<lambda>_. 0), rand_pos = 0\<rparr>;
       tx = \<lparr>nVersion = 1, nTime = 4, vin = [CTxIn_default], vout = [CTxOut_SetNull], nLockTime = 0\<rparr>
   in fst (VerifyScript sample_openssl 10 [0x51] [0x52] tx 0 True 0 cache) =
      script_ok sample_openssl (sig_valid sample_openssl tx 0 0) [0x51] [0x52] True"
  unfolding Let_def by (subst VerifyScript_cache_transparent) (simp_all add: cache_inv_def)

section \<open>Unspendable outputs\<close>

lemma eval_loop_first_fails:
  assumes "unat b > OP_16" and "exec_op L chk (unat b) True r c (s\<lparr>nOpCount := 1\<rparr>) = (Failed s', c')"
    and "nOpCount s = 0" and "vfExec s = []" and "\<not> disabled (unat b)"
  shows "eval_loop L chk (b # r) c s = (Failed s', c')"
  using assms by (simp add: eval_loop_op size_limit_def)

lemma op_return_never:
  "\<not> fst (VerifyScript_with L chk a (op_byte OP_RETURN # r) f c)"
proof -
  have "\<not> fst (EvalScript L chk st (op_byte OP_RETURN # r) c')" for st c'
  proof -
    have "eval_loop L chk (op_byte OP_RETURN # r) c' (init_evalst st (op_byte OP_RETURN # r)) =
        (Failed ((init_evalst st (op_byte OP_RETURN # r))\<lparr>nOpCount := 1\<rparr>), c')"
      by (rule eval_loop_first_fails)
        (simp_all add: unat_op_byte init_evalst_def exec_op_def exec_control_def disabled_def)
    then show ?thesis by (simp add: EvalScript_def)
  qed
  then show ?thesis
    by (auto simp: VerifyScript_with_def Let_def split: prod.splits) (metis fst_conv)+
qed

section \<open>Pay to script hash\<close>

lemma IsPayToScriptHash_Cons:
  assumes "IsPayToScriptHash s"
  obtains r where "s = op_byte OP_HASH160 # r"
  using assms by (cases s) (auto simp: IsPayToScriptHash_def)

text \<open>
  Where \<open>VerifyScript\<close> reads the last element of its copied stack, that stack is not empty:
  a pay-to-script-hash output is only accepted from a non-empty stack.
\<close>

theorem EvalScript_P2SH_nonempty:
  assumes "IsPayToScriptHash pubScript" and "EvalScript L chk st pubScript c = (True, st', c')"
  shows "st \<noteq> []"
proof
  assume st: "st = []"
  from assms(1) obtain r where s: "pubScript = op_byte OP_HASH160 # r"
    by (rule IsPayToScriptHash_Cons)
  have "eval_loop L chk pubScript c (init_evalst [] pubScript) =
      (Failed ((init_evalst [] pubScript)\<lparr>nOpCount := 1\<rparr>), c)"
    unfolding s by (rule eval_loop_first_fails)
      (simp_all add: unat_op_byte init_evalst_def exec_op_def exec_hash_def disabled_def)
  with assms(2) st show False by (simp add: EvalScript_def split: if_splits)
qed

theorem EvalScript_P2SH_nonempty_witness:
  "EvalScript sample_openssl (pure_checker (\<lambda>_ _ _. True)) [[0x51]]
     (0xa9 # 0x14 # replicate 20 0 @ [0x87]) () = (True, [[]], ()) \<and> [[0x51 :: byte]] \<noteq> []"
proof -
  have e: "EvalScript sample_openssl (pure_checker (\<lambda>_ _ _. True)) [[0x51]]
      (0xa9 # 0x14 # replicate 20 0 @ [0x87]) () = (True, [[]], ())"
    by code_simp
  have "IsPayToScriptHash (0xa9 # 0x14 # replicate 20 0 @ [0x87])"
    by (simp add: IsPayToScriptHash_def op_byte_def nth_append)
  from EvalScript_P2SH_nonempty [OF this e] e show ?thesis by simp
qed

text \<open>The output scripts of the two address forms.\<close>

definition p2pkh_script :: "CKeyID \<Rightarrow> script" where
  "p2pkh_script h = op_byte OP_DUP # op_byte OP_HASH160 # push_data (bytes160 h) @
     [op_byte OP_EQUALVERIFY, op_byte OP_CHECKSIG]"

definition p2sh_script :: "CScriptID \<Rightarrow> script" where
  "p2sh_script h = op_byte OP_HASH160 # push_data (bytes160 h) @ [op_byte OP_EQUAL]"

lemma push_data_160: "push_data (bytes160 h) = 20 # bytes160 h"
  by (simp add: push_data_def)

lemma length_p2pkh [simp]: "length (p2pkh_script h) = 25"
  by (simp add: p2pkh_script_def push_data_160)

lemma length_p2sh [simp]: "length (p2sh_script h) = 23"
  by (simp add: p2sh_script_def push_data_160)

lemma IsPayToScriptHash_p2sh: "IsPayToScriptHash (p2sh_script h)"
  by (simp add: IsPayToScriptHash_def p2sh_script_def push_data_160 nth_append)

lemma not_P2SH_p2pkh: "\<not> IsPayToScriptHash (p2pkh_script h)"
  by (simp add: IsPayToScriptHash_def)

text \<open>The operations the two scripts use, in an unconditional state below the limits.\<close>

lemma bytes160_inject: "bytes160 a = bytes160 b \<longleftrightarrow> a = b"
  by (metis le_word_bytes160)

lemma exec_ops:
  "stack s = x # r \<Longrightarrow> exec_op L chk OP_DUP True pc c s = (Running (with_stack s (x # x # r)), c)"
  "stack s = x # r \<Longrightarrow> exec_op L chk OP_HASH160 True pc c s =
     (Running (with_stack s (bytes160 (Hash160 L x) # r)), c)"
  "stack s = x # y # r \<Longrightarrow> exec_op L chk OP_EQUALVERIFY True pc c s =
     ((if y = x then Running (with_stack s r) else Failed (with_stack s (bool_vch False # r))), c)"
  "stack s = x # y # r \<Longrightarrow> exec_op L chk OP_EQUAL True pc c s =
     (Running (with_stack s (bool_vch (y = x) # r)), c)"
  "stack s = x # y # r \<Longrightarrow> exec_op L chk OP_CHECKSIG True pc c s =
     (case chk c y x (fst (FindAndDelete (pbegincodehash s) (push_data y))) of
        (ok, c') \<Rightarrow> (Running (with_stack s (bool_vch ok # r)), c'))"
  by (simp_all add: exec_op_def exec_stack_def stack_rearrange_def exec_hash_def hash_op_def
      exec_bitlogic_def exec_checksig_def Let_def)

lemma eval_p2pkh:
  assumes "length st \<le> 900"
  shows "EvalScript L (pure_checker ok) (pub # sig # st) (p2pkh_script h) () =
    (let code = fst (FindAndDelete (p2pkh_script h) (push_data sig))
     in if Hash160 L pub = h then (True, bool_vch (ok sig pub code) # st, ())
        else (False, bool_vch False # pub # sig # st, ()))"
proof -
  have ops: "unat (op_byte OP_DUP) = OP_DUP" "unat (op_byte OP_HASH160) = OP_HASH160"
    "unat (op_byte OP_EQUALVERIFY) = OP_EQUALVERIFY" "unat (op_byte OP_CHECKSIG) = OP_CHECKSIG"
    by (simp_all add: unat_op_byte)
  have "eval_loop L (pure_checker ok) (p2pkh_script h) ()
      \<lparr>stack = pub # sig # st, altstack = [], vfExec = [], nOpCount = 0,
        pbegincodehash = p2pkh_script h\<rparr> =
    (if Hash160 L pub = h
     then (Running \<lparr>stack = bool_vch (ok sig pub
             (fst (FindAndDelete (p2pkh_script h) (push_data sig)))) # st,
             altstack = [], vfExec = [], nOpCount = 4, pbegincodehash = p2pkh_script h\<rparr>, ())
     else (Failed \<lparr>stack = bool_vch False # pub # sig # st, altstack = [], vfExec = [],
             nOpCount = 3, pbegincodehash = p2pkh_script h\<rparr>, ()))"
    using assms
    by (cases "Hash160 L pub = h"; subst (1) p2pkh_script_def)
      (simp_all add: eval_loop_op ops disabled_def exec_ops eval_loop_push exec_simps size_limit_def
        with_stack_def pure_checker_apply bytes160_inject split del: if_split)
  then show ?thesis by (simp add: EvalScript_def init_evalst_def Let_def)
qed

lemma eval_p2sh:
  assumes "length st \<le> 900"
  shows "EvalScript L (pure_checker ok) (x # st) (p2sh_script h) () =
    (True, bool_vch (Hash160 L x = h) # st, ())"
proof -
  have ops: "unat (op_byte OP_HASH160) = OP_HASH160" "unat (op_byte OP_EQUAL) = OP_EQUAL"
    by (simp_all add: unat_op_byte)
  show ?thesis
    using assms
    by (simp add: EvalScript_def init_evalst_def, subst p2sh_script_def)
      (simp add: eval_loop_op ops disabled_def exec_ops eval_loop_push exec_simps size_limit_def
        with_stack_def bytes160_inject split del: if_split)
qed

lemma CastToBool_bool_vch [simp]: "CastToBool (bool_vch b) = b"
  by (simp add: bool_vch_def)

lemma verify_p2pkh_iff:
  assumes "length sig \<le> 520" and "length pub \<le> 520"
  shows "script_ok L ok (push_data sig @ push_data pub) (p2pkh_script h) f \<longleftrightarrow>
    Hash160 L pub = h \<and>
    ok sig pub (fst (FindAndDelete (p2pkh_script h) (push_data sig)))"
proof -
  have "length (push_data d) \<le> 525" if "length d \<le> 520" for d
    using that by (simp add: push_data_def)
  then have "EvalScript L (pure_checker ok) [] (push_data sig @ push_data pub) () =
      (True, [pub, sig], ())"
    using assms EvalScript_pushes_run [of "[sig, pub]" "[]" L "pure_checker ok" "()"]
    by (simp add: add_mono [of _ 525 _ 525, THEN le_trans])
  then show ?thesis
    by (simp add: script_ok_def VerifyScript_with_def Let_def not_P2SH_p2pkh eval_p2pkh)
qed

text \<open>
  C3.  Pay to public key hash: an input that pushes a signature and a public key is accepted exactly
  when the key hashes to the address of the output and the signature is valid for that key over the
  output script (with the signature deleted from it).
\<close>

theorem verify_p2pkh:
  assumes "length sig \<le> 520" and "length pub \<le> 520"
  shows "script_ok L ok (push_data sig @ push_data pub) (p2pkh_script h) f \<longleftrightarrow>
    Hash160 L pub = h \<and>
    ok sig pub (fst (FindAndDelete (p2pkh_script h) (push_data sig)))"
  using assms by (rule verify_p2pkh_iff)

theorem verify_p2pkh_witness:
  "script_ok sample_openssl (\<lambda>sig pub code. sig = [1] \<and> pub = [2]) (push_data [1] @ push_data [2])
     (p2pkh_script (Hash160 sample_openssl [2])) True"
  by (subst verify_p2pkh) simp_all



end
