(* ===== verification/Solver.thy ===== *)
theory Solver
  imports Spending
begin

text \<open>
  Recognition of the standard output scripts: \<open>Solver\<close>, \<open>IsStandard\<close>, \<open>ScriptSigArgsExpected\<close>,
  \<open>ExtractDestination\<close> and \<open>ExtractDestinations\<close> of \<open>src/src/script.cpp\<close>, and the scripts built for
  destinations, \<open>SetDestination\<close> and \<open>SetMultisig\<close>.  Every caller of \<open>Solver\<close> passes an empty
  solution vector.
\<close>

section \<open>Templates\<close>

text \<open>The templates in the order of the keys of the map.\<close>

definition mTemplates :: "(txnouttype \<times> script) list" where
  "mTemplates =
     [(TX_PUBKEY, [op_byte OP_PUBKEY, op_byte OP_CHECKSIG]),
      (TX_PUBKEYHASH, [op_byte OP_DUP, op_byte OP_HASH160, op_byte OP_PUBKEYHASH,
                       op_byte OP_EQUALVERIFY, op_byte OP_CHECKSIG]),
      (TX_MULTISIG, [op_byte OP_SMALLINTEGER, op_byte OP_PUBKEYS, op_byte OP_SMALLINTEGER,
                     op_byte OP_CHECKMULTISIG]),
      (TX_NULL_DATA, [op_byte OP_RETURN, op_byte OP_SMALLDATA])]"

text \<open>The loop that collects public keys; a failed \<open>GetOp\<close> leaves \<open>OP_INVALIDOPCODE\<close> and no data.\<close>

function pubkeys_loop ::
  "opcodetype \<Rightarrow> valtype \<Rightarrow> script \<Rightarrow> valtype list \<Rightarrow> opcodetype \<times> valtype \<times> script \<times> valtype list" where
  "pubkeys_loop opcode1 vch1 pc1 sols =
     (if length vch1 \<ge> 33 \<and> length vch1 \<le> 120 then
        (case GetOp2 pc1 of
           GetOpErr e \<Rightarrow> (OP_INVALIDOPCODE, [], e, sols @ [vch1])
         | GetOpOk op d r \<Rightarrow> pubkeys_loop op d r (sols @ [vch1]))
      else (opcode1, vch1, pc1, sols))"
  by pat_completeness auto
termination
  by (relation "measure (\<lambda>(_, _, pc1, _). length pc1)") (auto dest: GetOp2_shorter)

declare pubkeys_loop.simps [simp del]

text \<open>One instruction against one template opcode: the solutions after it, \<open>None\<close> for the break.\<close>

definition match_step ::
  "opcodetype \<Rightarrow> valtype \<Rightarrow> opcodetype \<Rightarrow> valtype \<Rightarrow> valtype list \<Rightarrow> valtype list option" where
  "match_step opcode1 vch1 opcode2 vch2 sols =
     (if opcode2 = OP_PUBKEY then
        (if length vch1 < 33 \<or> length vch1 > 120 then None else Some (sols @ [vch1]))
      else if opcode2 = OP_PUBKEYHASH then
        (if length vch1 \<noteq> 20 then None else Some (sols @ [vch1]))
      else if opcode2 = OP_SMALLINTEGER then
        (if opcode1 = OP_0 \<or> opcode1 \<ge> OP_1 \<and> opcode1 \<le> OP_16
         then map_option (\<lambda>n. sols @ [[word_of_int n]]) (DecodeOP_N opcode1)
         else None)
      else if opcode2 = OP_SMALLDATA then
        (if length vch1 > 80 then None else Some sols)
      else if opcode1 \<noteq> opcode2 \<or> vch1 \<noteq> vch2 then None
      else Some sols)"

function template_match :: "script \<Rightarrow> script \<Rightarrow> valtype list \<Rightarrow> valtype list option" where
  "template_match pc1 pc2 sols =
     (if pc1 = [] \<and> pc2 = [] then Some sols
      else case GetOp2 pc1 of
             GetOpErr _ \<Rightarrow> None
           | GetOpOk opcode1 vch1 r1 \<Rightarrow>
               (case GetOp2 pc2 of
                  GetOpErr _ \<Rightarrow> None
                | GetOpOk opcode2 vch2 r2 \<Rightarrow>
                    (if opcode2 = OP_PUBKEYS then
                       (case pubkeys_loop opcode1 vch1 r1 sols of
                          (opcode1', vch1', r1', sols') \<Rightarrow>
                            (case GetOp2 r2 of
                               GetOpErr _ \<Rightarrow> None
                             | GetOpOk opcode2' vch2' r2' \<Rightarrow>
                                 (case match_step opcode1' vch1' opcode2' vch2' sols' of
                                    None \<Rightarrow> None
                                  | Some sols'' \<Rightarrow> template_match r1' r2' sols'')))
                     else
                       (case match_step opcode1 vch1 opcode2 vch2 sols of
                          None \<Rightarrow> None
                        | Some sols' \<Rightarrow> template_match r1 r2 sols'))))"
  by pat_completeness auto
termination
  by (relation "measure (\<lambda>(_, pc2, _). length pc2)") (fastforce dest: GetOp2_shorter)+

declare template_match.simps [simp del]

text \<open>
  \<open>Solver\<close> returns the verdict, the type and the solutions.  A script that matches the multisig
  template with bad numbers ends the scan with \<open>false\<close>, leaving \<open>TX_MULTISIG\<close> and the solutions.
\<close>

fun Solver_scan :: "script \<Rightarrow> (txnouttype \<times> script) list \<Rightarrow> bool \<times> txnouttype \<times> valtype list" where
  "Solver_scan script1 [] = (False, TX_NONSTANDARD, [])"
| "Solver_scan script1 ((typ, script2) # ts) =
     (case template_match script1 script2 [] of
        None \<Rightarrow> Solver_scan script1 ts
      | Some sols \<Rightarrow>
          (if typ = TX_MULTISIG then
             (let m = hd (hd sols); n = hd (last sols)
              in if m < 1 \<or> n < 1 \<or> m > n \<or> length sols - 2 \<noteq> unat n then (False, typ, sols)
                 else (True, typ, sols))
           else (True, typ, sols)))"

definition Solver :: "script \<Rightarrow> bool \<times> txnouttype \<times> valtype list" where
  "Solver spk =
     (if IsPayToScriptHash spk then (True, TX_SCRIPTHASH, [take 20 (drop 2 spk)])
      else Solver_scan spk mTemplates)"

section \<open>Users of the solver\<close>

definition ScriptSigArgsExpected :: "txnouttype \<Rightarrow> valtype list \<Rightarrow> int" where
  "ScriptSigArgsExpected t vSolutions =
     (case t of
        TX_NONSTANDARD \<Rightarrow> -1
      | TX_NULL_DATA \<Rightarrow> 1
      | TX_PUBKEY \<Rightarrow> 1
      | TX_PUBKEYHASH \<Rightarrow> 2
      | TX_MULTISIG \<Rightarrow>
          (if length vSolutions < 1 \<or> length (vSolutions ! 0) < 1 then -1
           else uint (vSolutions ! 0 ! 0) + 1)
      | TX_SCRIPTHASH \<Rightarrow> 1)"

definition IsStandard :: "script \<Rightarrow> bool \<times> txnouttype" where
  "IsStandard spk =
     (case Solver spk of
        (ok, whichType, vSolutions) \<Rightarrow>
          (if \<not> ok then (False, whichType)
           else if whichType = TX_MULTISIG \<and>
             (let m = hd (hd vSolutions); n = hd (last vSolutions)
              in n < 1 \<or> n > 3 \<or> m < 1 \<or> m > n) then (False, whichType)
           else (whichType \<noteq> TX_NONSTANDARD, whichType)))"

datatype CTxDestination = CNoDestination | DestKeyID CKeyID | DestScriptID CScriptID

definition uint160_of :: "valtype \<Rightarrow> uint160" where
  "uint160_of vch = (if length vch = 20 then le_word vch else 0)"

definition ExtractDestination :: "openssl \<Rightarrow> script \<Rightarrow> CTxDestination option" where
  "ExtractDestination L spk =
     (case Solver spk of
        (ok, whichType, vSolutions) \<Rightarrow>
          (if \<not> ok then None
           else if whichType = TX_PUBKEY then Some (DestKeyID (CPubKey_GetID L (vSolutions ! 0)))
           else if whichType = TX_PUBKEYHASH then Some (DestKeyID (uint160_of (vSolutions ! 0)))
           else if whichType = TX_SCRIPTHASH then Some (DestScriptID (uint160_of (vSolutions ! 0)))
           else None))"

text \<open>
  \<open>nRequiredRet\<close> is an option: \<open>None\<close> where the code leaves the caller's variable untouched, which it
  does for \<open>TX_NULL_DATA\<close> although it returns \<open>true\<close>.
\<close>

definition ExtractDestinations ::
  "openssl \<Rightarrow> script \<Rightarrow> bool \<times> txnouttype \<times> CTxDestination list \<times> int option" where
  "ExtractDestinations L spk =
     (case Solver spk of
        (ok, typeRet, vSolutions) \<Rightarrow>
          (if \<not> ok then (False, typeRet, [], None)
           else if typeRet = TX_NULL_DATA then (True, typeRet, [], None)
           else if typeRet = TX_MULTISIG then
             (True, typeRet,
              map (\<lambda>k. DestKeyID (CPubKey_GetID L k)) (take (length vSolutions - 2) (drop 1 vSolutions)),
              Some (uint (hd (hd vSolutions))))
           else
             (case ExtractDestination L spk of
                None \<Rightarrow> (False, typeRet, [], Some 1)
              | Some address \<Rightarrow> (True, typeRet, [address], Some 1))))"

section \<open>Building output scripts\<close>

definition SetDestination :: "CTxDestination \<Rightarrow> bool \<times> script" where
  "SetDestination dest =
     (case dest of
        CNoDestination \<Rightarrow> (False, [])
      | DestKeyID keyID \<Rightarrow>
          (True, push_opcode (push_opcode (push_uint160 (push_opcode (push_opcode [] OP_DUP) OP_HASH160)
             keyID) OP_EQUALVERIFY) OP_CHECKSIG)
      | DestScriptID scriptID \<Rightarrow>
          (True, push_opcode (push_uint160 (push_opcode [] OP_HASH160) scriptID) OP_EQUAL))"

text \<open>\<open>EncodeOP_N\<close> asserts its range and \<open>GetPubKey\<close> throws on a key that is not set: \<open>None\<close>.\<close>

definition SetMultisig :: "openssl \<Rightarrow> int \<Rightarrow> CKey list \<Rightarrow> script option" where
  "SetMultisig L nRequired keys =
     (case (EncodeOP_N nRequired, those (map (GetPubKey L) keys), EncodeOP_N (int (length keys))) of
        (Some opm, Some pubs, Some opn) \<Rightarrow>
          Some (push_opcode (push_opcode (fold (\<lambda>p s. push_vch s p) pubs (push_opcode [] opm)) opn)
                  OP_CHECKMULTISIG)
      | _ \<Rightarrow> None)"

section \<open>Matching in terms of instructions\<close>

lemma instructions_eq_Nil [simp]: "instructions s = Some [] \<longleftrightarrow> s = []"
  by (auto simp: instructions.simps [of s] split: getop.splits if_splits)

lemma instructions_eq_Cons:
  "instructions s = Some ((opcode, d) # ins) \<longleftrightarrow>
     (\<exists>r. GetOp2 s = GetOpOk opcode d r \<and> instructions r = Some ins)"
  by (auto simp: instructions.simps [of s] split: getop.splits if_splits)

lemma template_match_Nil [simp]: "template_match s [] sols = (if s = [] then Some sols else None)"
  by (simp add: template_match.simps [of s "[]"] split: getop.splits)

lemma template_match_Cons:
  assumes "unat b > OP_PUSHDATA4" and "unat b \<noteq> OP_PUBKEYS"
  shows "template_match s (b # t) sols = Some res \<longleftrightarrow>
    (\<exists>opcode d r sols'. GetOp2 s = GetOpOk opcode d r \<and>
       match_step opcode d (unat b) [] sols = Some sols' \<and> template_match r t sols' = Some res)"
  using assms
  by (auto simp: template_match.simps [of s "b # t"] GetOp2_opcode split: getop.splits option.splits)

lemma template_match_PUBKEYS:
  assumes "unat b > OP_PUSHDATA4"
  shows "template_match s (op_byte OP_PUBKEYS # b # t) sols = Some res \<longleftrightarrow>
    (\<exists>opcode d r opcode' d' r' sols' sols''. GetOp2 s = GetOpOk opcode d r \<and>
       pubkeys_loop opcode d r sols = (opcode', d', r', sols') \<and>
       match_step opcode' d' (unat b) [] sols' = Some sols'' \<and> template_match r' t sols'' = Some res)"
  using assms
  by (auto simp: template_match.simps [of s "op_byte OP_PUBKEYS # b # t"] GetOp2_opcode unat_op_byte
      split: getop.splits option.splits prod.splits)

lemmas match_step_ops [simp] =
  match_step_def [where ?opcode2.0 = "OP_PUBKEY"]
  match_step_def [where ?opcode2.0 = "OP_PUBKEYHASH"]
  match_step_def [where ?opcode2.0 = "OP_SMALLINTEGER"]
  match_step_def [where ?opcode2.0 = "OP_SMALLDATA"]
  match_step_def [where ?opcode2.0 = "OP_DUP"]
  match_step_def [where ?opcode2.0 = "OP_HASH160"]
  match_step_def [where ?opcode2.0 = "OP_EQUALVERIFY"]
  match_step_def [where ?opcode2.0 = "OP_CHECKSIG"]
  match_step_def [where ?opcode2.0 = "OP_CHECKMULTISIG"]
  match_step_def [where ?opcode2.0 = "OP_RETURN"]

lemma match_pubkey:
  "template_match s [op_byte OP_PUBKEY, op_byte OP_CHECKSIG] [] = Some sols \<longleftrightarrow>
     (\<exists>opcode d. instructions s = Some [(opcode, d), (OP_CHECKSIG, [])] \<and>
        33 \<le> length d \<and> length d \<le> 120 \<and> sols = [d])"
  by (auto simp: template_match_Cons unat_op_byte instructions_eq_Cons not_less split: if_splits)

lemma match_pubkeyhash:
  "template_match s [op_byte OP_DUP, op_byte OP_HASH160, op_byte OP_PUBKEYHASH,
       op_byte OP_EQUALVERIFY, op_byte OP_CHECKSIG] [] = Some sols \<longleftrightarrow>
     (\<exists>opcode d. instructions s = Some [(OP_DUP, []), (OP_HASH160, []), (opcode, d),
          (OP_EQUALVERIFY, []), (OP_CHECKSIG, [])] \<and> length d = 20 \<and> sols = [d])"
  by (auto simp: template_match_Cons unat_op_byte instructions_eq_Cons split: if_splits) blast

lemma match_null_data:
  "template_match s [op_byte OP_RETURN, op_byte OP_SMALLDATA] [] = Some sols \<longleftrightarrow>
     (\<exists>opcode d. instructions s = Some [(OP_RETURN, []), (opcode, d)] \<and> length d \<le> 80 \<and> sols = [])"
  by (auto simp: template_match_Cons unat_op_byte instructions_eq_Cons not_less split: if_splits)

text \<open>The public keys of a multisig script.\<close>

definition pubkey_sized :: "valtype \<Rightarrow> bool" where
  "pubkey_sized d \<longleftrightarrow> 33 \<le> length d \<and> length d \<le> 120"

lemma pubkeys_loop_collects:
  assumes "pubkeys_loop opcode d r sols = (opcode', d', r', sols')"
    and "opcode' \<noteq> OP_INVALIDOPCODE"
  shows "\<exists>keys. sols' = sols @ map snd keys \<and> (\<forall>(opc, k) \<in> set keys. pubkey_sized k) \<and>
    \<not> pubkey_sized d' \<and>
    map_option (Cons (opcode, d)) (instructions r) =
      map_option (\<lambda>ins. keys @ (opcode', d') # ins) (instructions r')"
  using assms
proof (induction opcode d r sols rule: pubkeys_loop.induct)
  case (1 opcode d r sols)
  show ?case
  proof (cases "pubkey_sized d")
    case False
    with "1.prems" show ?thesis
      by (intro exI [of _ "[]"]) (auto simp: pubkeys_loop.simps [of opcode] pubkey_sized_def)
  next
    case True
    with "1.prems" obtain op d1 r1 where g: "GetOp2 r = GetOpOk op d1 r1"
      and l: "pubkeys_loop op d1 r1 (sols @ [d]) = (opcode', d', r', sols')"
      by (auto simp: pubkeys_loop.simps [of opcode] pubkey_sized_def split: getop.splits)
    from "1.IH" [OF True [unfolded pubkey_sized_def] g l "1.prems"(2)] obtain keys where
      k: "sols' = (sols @ [d]) @ map snd keys" "\<forall>(opc, k) \<in> set keys. pubkey_sized k"
      "\<not> pubkey_sized d'"
      "map_option (Cons (op, d1)) (instructions r1) =
         map_option (\<lambda>ins. keys @ (opcode', d') # ins) (instructions r')"
      by blast
    from k(4) have "map_option (Cons (opcode, d)) (instructions r) =
        map_option (\<lambda>ins. ((opcode, d) # keys) @ (opcode', d') # ins) (instructions r')"
      unfolding instructions_Ok [OF g] by (cases "instructions r1"; cases "instructions r'") auto
    with k True show ?thesis by (intro exI [of _ "(opcode, d) # keys"]) simp
  qed
qed

text \<open>The small integers of the template.\<close>

lemma match_step_small:
  "match_step opcode d OP_SMALLINTEGER [] sols = Some sols' \<longleftrightarrow>
     (\<exists>k. DecodeOP_N opcode = Some k \<and> sols' = sols @ [[word_of_int k]])"
  by (auto simp: DecodeOP_N_def split: if_splits)

lemma DecodeOP_N_range: "DecodeOP_N opcode = Some k \<Longrightarrow> 0 \<le> k \<and> k \<le> 16 \<and> opcode \<le> OP_16"
  by (auto simp: DecodeOP_N_def split: if_splits)

lemma uint_small: "0 \<le> k \<Longrightarrow> k \<le> 16 \<Longrightarrow> uint (word_of_int k :: byte) = k"
  by (simp add: uint_word_of_int)

abbreviation (input) multisig_template :: script where
  "multisig_template \<equiv> [op_byte OP_SMALLINTEGER, op_byte OP_PUBKEYS, op_byte OP_SMALLINTEGER,
     op_byte OP_CHECKMULTISIG]"

lemma match_multisig:
  assumes "template_match s multisig_template [] = Some sols"
  shows "\<exists>opm dm m keys opn dn n.
    instructions s = Some ((opm, dm) # keys @ [(opn, dn), (OP_CHECKMULTISIG, [])]) \<and>
    DecodeOP_N opm = Some m \<and> DecodeOP_N opn = Some n \<and> (\<forall>(opc, k) \<in> set keys. pubkey_sized k) \<and>
    sols = [word_of_int m] # map snd keys @ [[word_of_int n]]"
proof -
  from assms obtain opm dm r1 m opcode d r2 opn dn r3 sols1 n
    where 1: "GetOp2 s = GetOpOk opm dm r1" "DecodeOP_N opm = Some m"
      and 2: "GetOp2 r1 = GetOpOk opcode d r2"
      and l: "pubkeys_loop opcode d r2 [[word_of_int m]] = (opn, dn, r3, sols1)"
      and 3: "DecodeOP_N opn = Some n" "GetOp2 r3 = GetOpOk OP_CHECKMULTISIG [] []"
      and s: "sols = sols1 @ [[word_of_int n]]"
    by (auto simp: template_match_Cons template_match_PUBKEYS unat_op_byte match_step_small
        simp del: match_step_ops(3) split: if_splits)
  have "opn \<noteq> OP_INVALIDOPCODE" using DecodeOP_N_range [OF 3(1)] by auto
  from pubkeys_loop_collects [OF l this] obtain keys where
    k: "sols1 = [[word_of_int m]] @ map snd keys" "\<forall>(opc, k) \<in> set keys. pubkey_sized k"
    and i: "map_option (Cons (opcode, d)) (instructions r2) =
       map_option (\<lambda>ins. keys @ (opn, dn) # ins) (instructions r3)" by blast
  have "instructions r3 = Some [(OP_CHECKMULTISIG, [])]"
    by (simp add: instructions_Ok [OF 3(2)])
  with i have "instructions r1 = Some (keys @ [(opn, dn), (OP_CHECKMULTISIG, [])])"
    by (simp add: instructions_Ok [OF 2])
  then have "instructions s = Some ((opm, dm) # keys @ [(opn, dn), (OP_CHECKMULTISIG, [])])"
    by (simp add: instructions_Ok [OF 1(1)])
  with 1(2) 3(1) k s show ?thesis by auto
qed

lemma Solver_cases:
  assumes "Solver spk = (True, typ, sols)"
  obtains
    (scripthash) "IsPayToScriptHash spk" "typ = TX_SCRIPTHASH" "sols = [take 20 (drop 2 spk)]"
  | (pubkey) "typ = TX_PUBKEY" "template_match spk [op_byte OP_PUBKEY, op_byte OP_CHECKSIG] [] = Some sols"
  | (pubkeyhash) "typ = TX_PUBKEYHASH"
      "template_match spk [op_byte OP_DUP, op_byte OP_HASH160, op_byte OP_PUBKEYHASH,
         op_byte OP_EQUALVERIFY, op_byte OP_CHECKSIG] [] = Some sols"
  | (multisig) "typ = TX_MULTISIG" "template_match spk multisig_template [] = Some sols"
      "hd (hd sols) \<noteq> 0" "hd (hd sols) \<le> hd (last sols)" "length sols - 2 = unat (hd (last sols))"
  | (null_data) "typ = TX_NULL_DATA"
      "template_match spk [op_byte OP_RETURN, op_byte OP_SMALLDATA] [] = Some sols"
  using assms
  by (auto simp: Solver_def mTemplates_def Let_def not_less split: if_splits option.splits)

text \<open>
  What \<open>Solver\<close> accepts as multisignature output is one: its solutions are the threshold, the
  keys and their number, with \<open>1 \<le> m \<le> n \<le> 16\<close>, exactly \<open>n\<close> keys of 33 to 120 bytes, and the script
  is the small integer, the keys, the small integer and \<open>OP_CHECKMULTISIG\<close>.
\<close>

theorem Solver_multisig_shape:
  assumes "Solver spk = (True, TX_MULTISIG, sols)"
  shows "\<exists>m n keys opm dm opn dn. sols = [m] # map snd keys @ [[n]] \<and>
    1 \<le> unat m \<and> unat m \<le> unat n \<and> unat n \<le> 16 \<and> length keys = unat n \<and>
    (\<forall>(opc, k) \<in> set keys. 33 \<le> length k \<and> length k \<le> 120) \<and>
    DecodeOP_N opm = Some (int (unat m)) \<and> DecodeOP_N opn = Some (int (unat n)) \<and>
    instructions spk = Some ((opm, dm) # keys @ [(opn, dn), (OP_CHECKMULTISIG, [])])"
  using assms
proof (cases rule: Solver_cases)
  case multisig
  from match_multisig [OF multisig(2)] obtain opm dm m keys opn dn n where
    i: "instructions spk = Some ((opm, dm) # keys @ [(opn, dn), (OP_CHECKMULTISIG, [])])"
    and m: "DecodeOP_N opm = Some m" and n: "DecodeOP_N opn = Some n"
    and k: "\<forall>(opc, k) \<in> set keys. pubkey_sized k"
    and s: "sols = [word_of_int m] # map snd keys @ [[word_of_int n]]"
    by blast
  have u: "int (unat (word_of_int m :: byte)) = m" "int (unat (word_of_int n :: byte)) = n"
    using DecodeOP_N_range [OF m] DecodeOP_N_range [OF n]
    by (simp_all add: uint_small uint_nat [symmetric])
  have w: "(word_of_int m :: byte) \<noteq> 0" "(word_of_int m :: byte) \<le> word_of_int n"
    "length keys = unat (word_of_int n :: byte)"
    using multisig(3-5) s by simp_all
  have "1 \<le> unat (word_of_int m :: byte)" "unat (word_of_int m :: byte) \<le> unat (word_of_int n :: byte)"
    using w(1,2) by (simp_all add: word_le_nat_alt unat_gt_0 Suc_le_eq)
  moreover have "unat (word_of_int n :: byte) \<le> 16"
    using u(2) DecodeOP_N_range [OF n] by linarith
  ultimately show ?thesis
    using i m n k s w(3) u
    by (intro exI [of _ "word_of_int m"] exI [of _ "word_of_int n"] exI [of _ keys] exI [of _ opm]
        exI [of _ dm] exI [of _ opn] exI [of _ dn]) (simp add: pubkey_sized_def)
qed simp_all

theorem Solver_multisig_shape_witness:
  "let spk = 0x51 # push_data (replicate 33 2) @ push_data (replicate 33 3) @ [0x52, 0xae]
   in fst (Solver spk) \<and>
      (\<exists>m n keys. snd (snd (Solver spk)) = [m] # map snd (keys :: (opcodetype \<times> valtype) list) @ [[n]] \<and>
         length keys = unat n \<and> 1 \<le> unat m \<and> unat m \<le> unat n)"
proof -
  have s: "Solver (0x51 # push_data (replicate 33 2) @ push_data (replicate 33 3) @ [0x52, 0xae]) =
      (True, TX_MULTISIG, [[1], replicate 33 2, replicate 33 3, [2]])"
    by code_simp
  from Solver_multisig_shape [OF s] show ?thesis unfolding Let_def s fst_conv snd_conv by blast
qed

text \<open>
  \<open>Solver\<close> answers "public key hash" for exactly the five-instruction scripts
  \<open>OP_DUP OP_HASH160 push20 OP_EQUALVERIFY OP_CHECKSIG\<close>, and the solution is the pushed hash.
\<close>

theorem Solver_pubkeyhash_iff:
  "Solver spk = (True, TX_PUBKEYHASH, sols) \<longleftrightarrow>
     (\<exists>opcode d. instructions spk = Some [(OP_DUP, []), (OP_HASH160, []), (opcode, d),
          (OP_EQUALVERIFY, []), (OP_CHECKSIG, [])] \<and> length d = 20 \<and> sols = [d])"
proof
  assume "Solver spk = (True, TX_PUBKEYHASH, sols)"
  then show "\<exists>opcode d. instructions spk = Some [(OP_DUP, []), (OP_HASH160, []), (opcode, d),
      (OP_EQUALVERIFY, []), (OP_CHECKSIG, [])] \<and> length d = 20 \<and> sols = [d]"
    by (cases rule: Solver_cases) (simp_all add: match_pubkeyhash)
next
  assume r: "\<exists>opcode d. instructions spk = Some [(OP_DUP, []), (OP_HASH160, []), (opcode, d),
      (OP_EQUALVERIFY, []), (OP_CHECKSIG, [])] \<and> length d = 20 \<and> sols = [d]"
  then have "\<not> IsPayToScriptHash spk"
    by (auto elim!: IsPayToScriptHash_Cons simp: instructions_eq_Cons GetOp2_opcode unat_op_byte)
  moreover have "template_match spk [op_byte OP_PUBKEY, op_byte OP_CHECKSIG] [] = None"
  proof (rule ccontr)
    assume "template_match spk [op_byte OP_PUBKEY, op_byte OP_CHECKSIG] [] \<noteq> None"
    with r show False by (auto simp: match_pubkey)
  qed
  ultimately show "Solver spk = (True, TX_PUBKEYHASH, sols)"
    using r match_pubkeyhash [of spk sols] by (simp add: Solver_def mTemplates_def)
qed

text \<open>
  Whatever \<open>Solver\<close> classifies as null data is unspendable: no \<open>scriptSig\<close> satisfies it.
\<close>

theorem Solver_null_data_unspendable:
  assumes "Solver spk = (True, TX_NULL_DATA, sols)"
  shows "\<not> fst (VerifyScript_with L chk sigScript spk f c)"
  using assms
proof (cases rule: Solver_cases)
  case null_data
  then obtain r where g: "GetOp2 spk = GetOpOk OP_RETURN [] r"
    by (auto simp: match_null_data instructions_eq_Cons)
  from GetOp2_Ok_encoded [OF g] obtain cs where s: "spk = cs @ r" and e: "op_encoding OP_RETURN [] cs" .
  from e obtain b where "unat b = OP_RETURN" "cs = [b]" by (auto simp: op_encoding_def)
  moreover from this have "b = op_byte OP_RETURN"
    by (simp add: word_unat_eq_iff unat_op_byte)
  ultimately have "spk = op_byte OP_RETURN # r" using s by simp
  then show ?thesis by (simp add: op_return_never)
qed simp_all

theorem Solver_null_data_unspendable_witness:
  "Solver [0x6a, 2, 7, 7] = (True, TX_NULL_DATA, []) \<and>
   \<not> fst (VerifyScript_with sample_openssl (pure_checker (\<lambda>_ _ _. True)) [0x51] [0x6a, 2, 7, 7] True ())"
proof -
  have s: "Solver [0x6a, 2, 7, 7] = (True, TX_NULL_DATA, [])" by code_simp
  from Solver_null_data_unspendable [OF s] s show ?thesis by simp
qed

section \<open>Scripts built for destinations\<close>

lemma SetDestination_scripts:
  "SetDestination (DestKeyID h) = (True, p2pkh_script h)"
  "SetDestination (DestScriptID h) = (True, p2sh_script h)"
  by (simp_all add: SetDestination_def push_opcode_def push_uint160_def p2pkh_script_def
      p2sh_script_def push_data_160)

lemma instructions_op: "unat b > OP_PUSHDATA4 \<Longrightarrow>
    instructions (b # r) = map_option (Cons (unat b, [])) (instructions r)"
  by (rule instructions_Ok [OF GetOp2_opcode])

lemma instructions_push: "length d < 2 ^ 32 \<Longrightarrow>
    instructions (push_data d @ r) =
      map_option (Cons (unat (hd (push_data d)), d)) (instructions r)"
  by (rule instructions_Ok [OF GetOp2_push_data])

lemma Solver_p2pkh: "Solver (p2pkh_script h) = (True, TX_PUBKEYHASH, [bytes160 h])"
  by (subst Solver_pubkeyhash_iff)
    (simp add: p2pkh_script_def instructions_op instructions_push unat_op_byte)

lemma Solver_p2sh: "Solver (p2sh_script h) = (True, TX_SCRIPTHASH, [bytes160 h])"
  by (simp add: Solver_def IsPayToScriptHash_p2sh) (simp add: p2sh_script_def push_data_160)

text \<open>
  The script written for an address gives the address back, from both extraction functions,
  with one signature required, and is standard.
\<close>

theorem destination_roundtrip:
  assumes "dest \<noteq> CNoDestination"
  shows "case SetDestination dest of (ok, spk) \<Rightarrow>
    ok \<and> ExtractDestination L spk = Some dest \<and> fst (IsStandard spk) \<and>
    (case ExtractDestinations L spk of (ok', typ, dests, n) \<Rightarrow> ok' \<and> dests = [dest] \<and> n = Some 1)"
  using assms
  by (cases dest)
    (simp_all add: SetDestination_scripts ExtractDestination_def ExtractDestinations_def
      IsStandard_def Solver_p2pkh Solver_p2sh uint160_of_def)

theorem destination_roundtrip_witness:
  "ExtractDestination sample_openssl (snd (SetDestination (DestScriptID 77))) = Some (DestScriptID 77)"
  using destination_roundtrip [of "DestScriptID 77" sample_openssl] by (simp split: prod.splits)

section \<open>Multisignature scripts\<close>

definition multisig_script :: "nat \<Rightarrow> valtype list \<Rightarrow> script" where
  "multisig_script m pubs =
     op_byte (OP_1 + m - 1) # concat (map push_data pubs) @
       [op_byte (OP_1 + length pubs - 1), op_byte OP_CHECKMULTISIG]"

lemma fold_push_vch: "fold (\<lambda>p s. push_vch s p) pubs s = s @ concat (map push_data pubs)"
  by (induction pubs arbitrary: s) (simp_all add: push_vch_def)

lemma those_length: "those xs = Some ys \<Longrightarrow> length xs = length ys"
  by (induction xs arbitrary: ys) (auto split: option.splits)

lemma SetMultisig_script:
  assumes "those (map (GetPubKey L) keys) = Some pubs" and "1 \<le> m" and "m \<le> 16"
    and "length keys = length pubs" and "pubs \<noteq> []" and "length pubs \<le> 16"
  shows "SetMultisig L (int m) keys = Some (multisig_script m pubs)"
  using assms
  by (simp add: SetMultisig_def EncodeOP_N_def fold_push_vch push_opcode_def multisig_script_def
      nat_diff_distrib nat_add_distrib)

lemma pubkeys_loop_pushes:
  assumes "GetOp2 rest = GetOpOk op' d' r'" and "\<not> pubkey_sized d'"
  shows "pubkey_sized d \<Longrightarrow> \<forall>k \<in> set ks. pubkey_sized k \<Longrightarrow>
    pubkeys_loop opcode d (concat (map push_data ks) @ rest) sols = (op', d', r', sols @ d # ks)"
proof (induction ks arbitrary: opcode d sols)
  case Nil
  with assms show ?case
    by (auto simp: pubkeys_loop.simps [of opcode] pubkeys_loop.simps [of op'] pubkey_sized_def)
next
  case (Cons k ks)
  have g: "GetOp2 (push_data k @ concat (map push_data ks) @ rest) =
      GetOpOk (unat (hd (push_data k))) k (concat (map push_data ks) @ rest)"
    using Cons.prems(2) by (intro GetOp2_push_data) (simp add: pubkey_sized_def)
  with Cons show ?case
    by (subst pubkeys_loop.simps) (simp add: pubkey_sized_def)
qed

lemma instructions_pushes:
  "\<forall>k \<in> set ks. length k < 2 ^ 32 \<Longrightarrow>
     instructions (concat (map push_data ks) @ r) =
       map_option (\<lambda>ins. map (\<lambda>k. (unat (hd (push_data k)), k)) ks @ ins) (instructions r)"
  by (induction ks; cases "instructions r") (simp_all add: instructions_push)

lemma instructions_multisig:
  assumes "1 \<le> m" and "m \<le> 16" and "pubs \<noteq> []" and "length pubs \<le> 16"
    and "\<forall>k \<in> set pubs. pubkey_sized k"
  shows "instructions (multisig_script m pubs) =
    Some ((OP_1 + m - 1, []) # map (\<lambda>k. (unat (hd (push_data k)), k)) pubs @
      [(OP_1 + length pubs - 1, []), (OP_CHECKMULTISIG, [])])"
proof -
  have "unat (op_byte (OP_1 + m - 1)) = OP_1 + m - 1"
    "unat (op_byte (OP_1 + length pubs - 1)) = OP_1 + length pubs - 1"
    using assms by (simp_all add: unat_op_byte)
  moreover have "0 < length pubs" using assms(3) by simp
  moreover have "\<forall>k \<in> set pubs. length k < 2 ^ 32"
    using assms(5) by (auto simp: pubkey_sized_def)
  ultimately show ?thesis
    using assms(1) unfolding multisig_script_def
    by (simp add: instructions_op instructions_pushes unat_op_byte)
qed

lemma template_match_multisig:
  assumes "1 \<le> m" and "m \<le> 16" and "pubs \<noteq> []" and "length pubs \<le> 16"
    and "\<forall>k \<in> set pubs. pubkey_sized k"
  shows "template_match (multisig_script m pubs) multisig_template [] =
    Some ([word_of_nat m] # pubs @ [[word_of_nat (length pubs)]])"
proof -
  obtain p ps where p: "pubs = p # ps" using assms(3) by (cases pubs) auto
  let ?rest = "[op_byte (OP_1 + length pubs - 1), op_byte OP_CHECKMULTISIG]"
  have l: "0 < length pubs" using assms(3) by simp
  have u: "unat (op_byte (OP_1 + m - 1)) = OP_1 + m - 1"
    "unat (op_byte (OP_1 + length pubs - 1)) = OP_1 + length pubs - 1"
    using assms by (simp_all add: unat_op_byte)
  have g: "GetOp2 (multisig_script m pubs) =
      GetOpOk (OP_1 + m - 1) [] (push_data p @ concat (map push_data ps) @ ?rest)"
    using assms(1) u unfolding multisig_script_def by (subst GetOp2_opcode) (simp_all add: p)
  have "length p < 2 ^ 32" using assms(5) p by (simp add: pubkey_sized_def)
  note gp = GetOp2_push_data [OF this, of "concat (map push_data ps) @ ?rest"]
  have gr: "GetOp2 ?rest = GetOpOk (OP_1 + length pubs - 1) [] [op_byte OP_CHECKMULTISIG]"
    using u l by (subst GetOp2_opcode) simp_all
  have lp: "pubkeys_loop (unat (hd (push_data p))) p (concat (map push_data ps) @ ?rest)
      [[word_of_int (int m)]] = (OP_1 + length pubs - 1, [], [op_byte OP_CHECKMULTISIG],
        [[word_of_int (int m)]] @ p # ps)"
    using assms(5) p by (intro pubkeys_loop_pushes [OF gr]) (auto simp: pubkey_sized_def)
  have d: "DecodeOP_N (OP_1 + m - 1) = Some (int m)"
    "DecodeOP_N (OP_1 + length pubs - 1) = Some (int (length pubs))"
    using assms l by (simp_all add: DecodeOP_N_def Suc_le_eq)
  have "template_match (multisig_script m pubs) multisig_template [] =
      Some ([word_of_int (int m)] # pubs @ [[word_of_int (int (length pubs))]])"
    using g gp lp d
    by (simp add: template_match_Cons template_match_PUBKEYS unat_op_byte match_step_small p
        GetOp2_opcode del: match_step_ops(3) of_int_of_nat_eq)
  then show ?thesis by simp
qed

text \<open>
  \<open>SetMultisig\<close> and \<open>Solver\<close> agree: the script built for \<open>m\<close> of the given keys, with
  \<open>1 \<le> m \<le> n \<le> 16\<close> and keys of 33 to 120 bytes, is recognised as that multisignature output, and the
  keys of its destinations are the given keys in order.
\<close>

theorem SetMultisig_solved:
  assumes "those (map (GetPubKey L) keys) = Some pubs" and "1 \<le> m" and "m \<le> length pubs"
    and "length pubs \<le> 16" and "\<forall>k \<in> set pubs. 33 \<le> length k \<and> length k \<le> 120"
  shows "\<exists>spk. SetMultisig L (int m) keys = Some spk \<and>
    Solver spk = (True, TX_MULTISIG, [word_of_nat m] # pubs @ [[word_of_nat (length pubs)]]) \<and>
    ExtractDestinations L spk =
      (True, TX_MULTISIG, map (\<lambda>k. DestKeyID (Hash160 L k)) pubs, Some (int m))"
proof -
  have ks: "\<forall>k \<in> set pubs. pubkey_sized k" using assms(5) by (simp add: pubkey_sized_def)
  have n: "pubs \<noteq> []" using assms(2,3) by auto
  have m: "m \<le> 16" using assms(3,4) by simp
  have "length keys = length pubs"
    using those_length [OF assms(1)] by simp
  note s = SetMultisig_script [OF assms(1,2) m this n assms(4)]
  let ?s = "multisig_script m pubs"
  note i = instructions_multisig [OF assms(2) m n assms(4) ks]
  note t = template_match_multisig [OF assms(2) m n assms(4) ks]
  have p: "\<not> IsPayToScriptHash ?s"
    using assms(2) m by (auto elim!: IsPayToScriptHash_Cons simp: multisig_script_def
        dest!: arg_cong [of _ _ unat] simp: unat_op_byte)
  have "template_match ?s [op_byte OP_PUBKEY, op_byte OP_CHECKSIG] [] = None"
    using match_pubkey [of ?s] i by (cases "template_match ?s [op_byte OP_PUBKEY, op_byte OP_CHECKSIG] []") auto
  moreover have "template_match ?s [op_byte OP_DUP, op_byte OP_HASH160, op_byte OP_PUBKEYHASH,
      op_byte OP_EQUALVERIFY, op_byte OP_CHECKSIG] [] = None"
    using match_pubkeyhash [of ?s] i assms(2) m
    by (cases "template_match ?s [op_byte OP_DUP, op_byte OP_HASH160, op_byte OP_PUBKEYHASH,
      op_byte OP_EQUALVERIFY, op_byte OP_CHECKSIG] []") auto
  moreover have u: "unat (word_of_nat k :: byte) = k" if "k \<le> 16" for k
    using that by (simp add: unat_word_of_nat_byte)
  moreover have "(word_of_nat m :: byte) \<le> word_of_nat (length pubs)"
    "(word_of_nat m :: byte) \<noteq> 0" "(word_of_nat (length pubs) :: byte) \<noteq> 0"
    using u [OF m] u [OF assms(4)] assms(2,3) by (auto simp: word_le_nat_alt word_unat_eq_iff)
  ultimately have sol: "Solver ?s =
      (True, TX_MULTISIG, [word_of_nat m] # pubs @ [[word_of_nat (length pubs)]])"
    using p t assms(4) by (simp add: Solver_def mTemplates_def Let_def not_less word_less_1)
  moreover have "uint (word_of_nat m :: byte) = int m"
    using u [OF m] by (simp add: uint_nat)
  ultimately show ?thesis
    using s by (simp add: ExtractDestinations_def CPubKey_GetID_def)
qed

theorem SetMultisig_solved_witness:
  "let key = \<lparr>pkey = \<lparr>material = EC_pub (replicate 33 2), conv_compressed = True\<rparr>, fSet = True,
              fCompressedPubKey = True\<rparr>
   in \<exists>spk. SetMultisig sample_openssl 1 [key, key] = Some spk \<and>
        Solver spk = (True, TX_MULTISIG, [[1], replicate 33 2, replicate 33 2, [2]])"
  using SetMultisig_solved [of sample_openssl
      "[\<lparr>pkey = \<lparr>material = EC_pub (replicate 33 2), conv_compressed = True\<rparr>, fSet = True,
         fCompressedPubKey = True\<rparr>,
        \<lparr>pkey = \<lparr>material = EC_pub (replicate 33 2), conv_compressed = True\<rparr>, fSet = True,
         fCompressedPubKey = True\<rparr>]" "[replicate 33 2, replicate 33 2]" 1]
  by (auto simp: GetPubKey_def Let_def)

end
