(* ===== verification/TxRules.thy ===== *)
theory TxRules
  imports Spending Solver
begin

text \<open>
  The context-free rules on transactions of \<open>src/src/main.h\<close> and \<open>src/src/main.cpp\<close>: the money range,
  \<open>CheckTransaction\<close>, lock times, replacement order, fees, signature operation counts and the
  standardness tests.  A rejection that calls \<open>DoS(n, ...)\<close> carries \<open>n\<close>, a plain \<open>false\<close> carries 0.
  The globals \<open>nBestHeight\<close> and \<open>GetAdjustedTime()\<close> are arguments.
\<close>

section \<open>Amounts\<close>

definition COIN :: int where "COIN = 1000000"
definition CENT :: int where "CENT = 10000"
definition MIN_TX_FEE :: int where "MIN_TX_FEE = 1 * CENT"
definition MIN_RELAY_TX_FEE :: int where "MIN_RELAY_TX_FEE = MIN_TX_FEE"
definition MIN_TXOUT_AMOUNT :: int where "MIN_TXOUT_AMOUNT = MIN_TX_FEE"
definition MAX_MONEY :: int where "MAX_MONEY = 30000000000 * COIN"
definition MAX_BLOCK_SIZE :: nat where "MAX_BLOCK_SIZE = 1000000"
definition MAX_BLOCK_SIZE_GEN :: nat where "MAX_BLOCK_SIZE_GEN = MAX_BLOCK_SIZE div 2"
definition MAX_BLOCK_SIGOPS :: nat where "MAX_BLOCK_SIGOPS = MAX_BLOCK_SIZE div 50"
definition LOCKTIME_THRESHOLD :: nat where "LOCKTIME_THRESHOLD = 500000000"

lemmas amount_defs = COIN_def CENT_def MIN_TX_FEE_def MIN_RELAY_TX_FEE_def MIN_TXOUT_AMOUNT_def
  MAX_MONEY_def MAX_BLOCK_SIZE_def MAX_BLOCK_SIZE_GEN_def MAX_BLOCK_SIGOPS_def

definition MoneyRange :: "int \<Rightarrow> bool" where
  "MoneyRange v \<longleftrightarrow> v \<ge> 0 \<and> v \<le> MAX_MONEY"

text \<open>\<open>None\<close> is the \<open>runtime_error\<close>.\<close>

fun GetValueOut_loop :: "CTxOut list \<Rightarrow> int \<Rightarrow> int option" where
  "GetValueOut_loop [] nValueOut = Some nValueOut"
| "GetValueOut_loop (txout # outs) nValueOut =
     (let n = wrap64 (nValueOut + nValue txout)
      in if \<not> MoneyRange (nValue txout) \<or> \<not> MoneyRange n then None else GetValueOut_loop outs n)"

definition GetValueOut :: "CTransaction \<Rightarrow> int option" where
  "GetValueOut tx = GetValueOut_loop (vout tx) 0"

section \<open>CheckTransaction\<close>

datatype verdict = Valid | Invalid nat

fun check_outputs :: "bool \<Rightarrow> CTxOut list \<Rightarrow> int \<Rightarrow> verdict" where
  "check_outputs fUser [] nValueOut = Valid"
| "check_outputs fUser (txout # outs) nValueOut =
     (if CTxOut_IsEmpty txout \<and> fUser then Invalid 100
      else if \<not> CTxOut_IsEmpty txout \<and> nValue txout < MIN_TXOUT_AMOUNT then Invalid 100
      else if nValue txout > MAX_MONEY then Invalid 100
      else
        (let n = wrap64 (nValueOut + nValue txout)
         in if \<not> MoneyRange n then Invalid 100 else check_outputs fUser outs n))"

fun dup_inputs :: "CTxIn list \<Rightarrow> COutPoint set \<Rightarrow> bool" where
  "dup_inputs [] seen = False"
| "dup_inputs (txin # ins) seen = (prevout txin \<in> seen \<or> dup_inputs ins (insert (prevout txin) seen))"

definition CheckTransaction :: "CTransaction \<Rightarrow> verdict" where
  "CheckTransaction tx =
     (if vin tx = [] then Invalid 10
      else if vout tx = [] then Invalid 10
      else if size_CTransaction tx > MAX_BLOCK_SIZE then Invalid 100
      else
        (case check_outputs (\<not> IsCoinBase tx \<and> \<not> IsCoinStake tx) (vout tx) 0 of
           Invalid n \<Rightarrow> Invalid n
         | Valid \<Rightarrow>
             (if dup_inputs (vin tx) {} then Invalid 0
              else if IsCoinBase tx then
                (let n = length (scriptSig (vin tx ! 0)) in if n < 2 \<or> n > 100 then Invalid 100 else Valid)
              else if \<exists>txin \<in> set (vin tx). COutPoint_IsNull (prevout txin) then Invalid 10
              else Valid)))"

section \<open>Lock time and replacement\<close>

definition IsFinal :: "int \<Rightarrow> int \<Rightarrow> CTransaction \<Rightarrow> int \<Rightarrow> int \<Rightarrow> bool" where
  "IsFinal nBestHeight adjustedTime tx nBlockHeight nBlockTime \<longleftrightarrow>
     (if nLockTime tx = 0 then True
      else
        (let h = (if nBlockHeight = 0 then nBestHeight else nBlockHeight);
             t = (if nBlockTime = 0 then adjustedTime else nBlockTime);
             lock = uint (nLockTime tx)
         in if lock < (if lock < int LOCKTIME_THRESHOLD then h else t) then True
            else (\<forall>txin \<in> set (vin tx). CTxIn_IsFinal txin)))"

fun newer_loop :: "(u32 \<times> u32) list \<Rightarrow> bool \<Rightarrow> u32 \<Rightarrow> bool" where
  "newer_loop [] fNewer nLowest = fNewer"
| "newer_loop ((new, old) # rest) fNewer nLowest =
     (if new \<noteq> old then
        (let (f, l) = (if new \<le> nLowest then (False, new) else (fNewer, nLowest));
             (f', l') = (if old < l then (True, old) else (f, l))
         in newer_loop rest f' l')
      else newer_loop rest fNewer nLowest)"

definition IsNewerThan :: "CTransaction \<Rightarrow> CTransaction \<Rightarrow> bool" where
  "IsNewerThan tx old \<longleftrightarrow>
     (if length (vin tx) \<noteq> length (vin old) then False
      else if map prevout (vin tx) \<noteq> map prevout (vin old) then False
      else newer_loop (zip (map nSequence (vin tx)) (map nSequence (vin old))) False (- 1))"

section \<open>Fees\<close>

datatype GetMinFee_mode = GMF_BLOCK | GMF_RELAY | GMF_SEND

definition GetMinFee :: "CTransaction \<Rightarrow> u32 \<Rightarrow> bool \<Rightarrow> GetMinFee_mode \<Rightarrow> u32 \<Rightarrow> int" where
  "GetMinFee tx nBlockSize fAllowFree mode nBytes =
     (let nBaseFee = (if mode = GMF_RELAY then MIN_RELAY_TX_FEE else MIN_TX_FEE);
          nNewBlockSize = nBlockSize + nBytes;
          nMinFee = wrap64 ((1 + uint nBytes div 1000) * nBaseFee);
          nMinFee = (if nMinFee < nBaseFee \<and> (\<exists>txout \<in> set (vout tx). nValue txout < CENT)
                     then nBaseFee else nMinFee)
      in if nBlockSize \<noteq> 1 \<and> unat nNewBlockSize \<ge> MAX_BLOCK_SIZE_GEN div 2 then
           (if unat nNewBlockSize \<ge> MAX_BLOCK_SIZE_GEN then MAX_MONEY
            else
              (let nMinFee = wrap64 (nMinFee *
                     int (MAX_BLOCK_SIZE_GEN div (MAX_BLOCK_SIZE_GEN - unat nNewBlockSize)))
               in if \<not> MoneyRange nMinFee then MAX_MONEY else nMinFee))
         else if \<not> MoneyRange nMinFee then MAX_MONEY else nMinFee)"

section \<open>Previous transactions\<close>

record CDiskTxPos =
  nFile :: u32
  nBlockPos :: u32
  nTxPos :: u32

definition CDiskTxPos_SetNull :: CDiskTxPos where
  "CDiskTxPos_SetNull = \<lparr>nFile = - 1, nBlockPos = 0, nTxPos = 0\<rparr>"

definition CDiskTxPos_IsNull :: "CDiskTxPos \<Rightarrow> bool" where
  "CDiskTxPos_IsNull p \<longleftrightarrow> nFile p = - 1"

record CTxIndex =
  ti_pos :: CDiskTxPos
  vSpent :: "CDiskTxPos list"

definition CTxIndex_SetNull :: CTxIndex where
  "CTxIndex_SetNull = \<lparr>ti_pos = CDiskTxPos_SetNull, vSpent = []\<rparr>"

definition CTxIndex_IsNull :: "CTxIndex \<Rightarrow> bool" where
  "CTxIndex_IsNull i \<longleftrightarrow> CDiskTxPos_IsNull (ti_pos i)"

definition CTxIndex_new :: "CDiskTxPos \<Rightarrow> nat \<Rightarrow> CTxIndex" where
  "CTxIndex_new posIn nOutputs = \<lparr>ti_pos = posIn, vSpent = replicate nOutputs CDiskTxPos_SetNull\<rparr>"

type_synonym MapPrevTx = "(uint256 \<times> CTxIndex \<times> CTransaction) list"

definition GetOutputFor :: "CTxIn \<Rightarrow> MapPrevTx \<Rightarrow> CTxOut option" where
  "GetOutputFor input inputs =
     (case map_of inputs (op_hash (prevout input)) of
        None \<Rightarrow> None
      | Some (_, txPrev) \<Rightarrow>
          (let n = unat (op_n (prevout input))
           in if n \<ge> length (vout txPrev) then None else Some (vout txPrev ! n)))"

fun GetValueIn_loop :: "CTxIn list \<Rightarrow> MapPrevTx \<Rightarrow> int \<Rightarrow> int option" where
  "GetValueIn_loop [] inputs nResult = Some nResult"
| "GetValueIn_loop (txin # ins) inputs nResult =
     (case GetOutputFor txin inputs of
        None \<Rightarrow> None
      | Some prev \<Rightarrow> GetValueIn_loop ins inputs (wrap64 (nResult + nValue prev)))"

definition GetValueIn :: "CTransaction \<Rightarrow> MapPrevTx \<Rightarrow> int option" where
  "GetValueIn tx inputs = (if IsCoinBase tx then Some 0 else GetValueIn_loop (vin tx) inputs 0)"

section \<open>Signature operations\<close>

definition GetLegacySigOpCount :: "CTransaction \<Rightarrow> nat" where
  "GetLegacySigOpCount tx =
     (\<Sum>txin \<leftarrow> vin tx. GetSigOpCount False (scriptSig txin)) +
     (\<Sum>txout \<leftarrow> vout tx. GetSigOpCount False (scriptPubKey txout))"

fun P2SHSigOps_loop :: "CTxIn list \<Rightarrow> MapPrevTx \<Rightarrow> nat \<Rightarrow> nat option" where
  "P2SHSigOps_loop [] inputs nSigOps = Some nSigOps"
| "P2SHSigOps_loop (txin # ins) inputs nSigOps =
     (case GetOutputFor txin inputs of
        None \<Rightarrow> None
      | Some prev \<Rightarrow>
          P2SHSigOps_loop ins inputs
            (if IsPayToScriptHash (scriptPubKey prev)
             then nSigOps + GetSigOpCount_P2SH (scriptPubKey prev) (scriptSig txin) else nSigOps))"

definition GetP2SHSigOpCount :: "CTransaction \<Rightarrow> MapPrevTx \<Rightarrow> nat option" where
  "GetP2SHSigOpCount tx inputs = (if IsCoinBase tx then Some 0 else P2SHSigOps_loop (vin tx) inputs 0)"

section \<open>Standardness\<close>

definition CTransaction_IsStandard :: "CTransaction \<Rightarrow> bool" where
  "CTransaction_IsStandard tx \<longleftrightarrow>
     \<not> nVersion tx > 1 \<and>
     (\<forall>txin \<in> set (vin tx). \<not> length (scriptSig txin) > 500 \<and> IsPushOnly (scriptSig txin)) \<and>
     (\<forall>txout \<in> set (vout tx). fst (IsStandard (scriptPubKey txout)) \<and> nValue txout \<noteq> 0)"

text \<open>
  One input of \<open>AreInputsStandard\<close>: \<open>chk\<close> is the signature checker the evaluation of the input script
  uses.
\<close>

definition input_standard ::
  "openssl \<Rightarrow> 'c sigcheck \<Rightarrow> CTxOut \<Rightarrow> CTxIn \<Rightarrow> 'c \<Rightarrow> bool \<times> 'c" where
  "input_standard L chk prev txin c =
     (case Solver (scriptPubKey prev) of
        (ok, whichType, vSolutions) \<Rightarrow>
          (if \<not> ok then (False, c)
           else
             (let nArgsExpected = ScriptSigArgsExpected whichType vSolutions
              in if nArgsExpected < 0 then (False, c)
                 else
                   (case EvalScript L chk [] (scriptSig txin) c of
                      (fEval, st, c') \<Rightarrow>
                        (if \<not> fEval then (False, c')
                         else if whichType = TX_SCRIPTHASH then
                           (if st = [] then (False, c')
                            else
                              (case Solver (hd st) of
                                 (ok2, whichType2, vSolutions2) \<Rightarrow>
                                   (if \<not> ok2 \<or> whichType2 = TX_SCRIPTHASH then (False, c')
                                    else
                                      (let tmpExpected = ScriptSigArgsExpected whichType2 vSolutions2
                                       in if tmpExpected < 0 then (False, c')
                                          else (int (length st) = nArgsExpected + tmpExpected, c')))))
                         else (int (length st) = nArgsExpected, c'))))))"

fun inputs_standard ::
  "openssl \<Rightarrow> (nat \<Rightarrow> 'c sigcheck) \<Rightarrow> MapPrevTx \<Rightarrow> CTxIn list \<Rightarrow> nat \<Rightarrow> 'c \<Rightarrow> (bool \<times> 'c) option" where
  "inputs_standard L chk inputs [] i c = Some (True, c)"
| "inputs_standard L chk inputs (txin # ins) i c =
     (case GetOutputFor txin inputs of
        None \<Rightarrow> None
      | Some prev \<Rightarrow>
          (case input_standard L (chk i) prev txin c of
             (ok, c') \<Rightarrow> if ok then inputs_standard L chk inputs ins (Suc i) c' else Some (False, c')))"

definition AreInputsStandard ::
  "openssl \<Rightarrow> int \<Rightarrow> CTransaction \<Rightarrow> MapPrevTx \<Rightarrow> CSignatureCache \<Rightarrow> (bool \<times> CSignatureCache) option" where
  "AreInputsStandard L nMaxCacheSize tx mapInputs cache =
     (if IsCoinBase tx then Some (True, cache)
      else inputs_standard L (\<lambda>i. CheckSig L nMaxCacheSize tx i 0) mapInputs (vin tx) 0 cache)"

section \<open>Amounts add up\<close>

lemma MoneyRange_i64: "MoneyRange v \<Longrightarrow> in_i64 v"
  by (simp add: MoneyRange_def in_i64_def i64_min_def i64_max_def amount_defs)

lemma MoneyRange_add: "MoneyRange a \<Longrightarrow> MoneyRange b \<Longrightarrow> in_i64 (a + b)"
  by (simp add: MoneyRange_def in_i64_def i64_min_def i64_max_def amount_defs)

lemma GetValueOut_loop_iff:
  "MoneyRange n \<Longrightarrow> GetValueOut_loop outs n = Some v \<longleftrightarrow>
     (\<forall>t \<in> set outs. MoneyRange (nValue t)) \<and> v = n + (\<Sum>t \<leftarrow> outs. nValue t) \<and> MoneyRange v"
proof (induction outs arbitrary: n)
  case (Cons t outs)
  have nn: "(\<Sum>t \<leftarrow> outs. nValue t) \<ge> 0" if "\<forall>t \<in> set outs. MoneyRange (nValue t)"
    using that by (intro sum_list_nonneg) (auto simp: MoneyRange_def)
  show ?case
  proof (cases "MoneyRange (nValue t)")
    case True
    then have w: "wrap64 (n + nValue t) = n + nValue t"
      using Cons.prems by (simp add: MoneyRange_add)
    show ?thesis
    proof (cases "MoneyRange (n + nValue t)")
      case True
      with Cons.IH [OF True] \<open>MoneyRange (nValue t)\<close> w show ?thesis by (auto simp: Let_def)
    next
      case False
      then have "\<not> MoneyRange (n + nValue t + (\<Sum>t \<leftarrow> outs. nValue t))"
        if "\<forall>t \<in> set outs. MoneyRange (nValue t)"
        using nn [OF that] Cons.prems True by (auto simp: MoneyRange_def)
      with False w show ?thesis by (auto simp: Let_def add.assoc)
    qed
  qed (simp add: Let_def)
qed auto

definition outputs_ok :: "bool \<Rightarrow> CTxOut list \<Rightarrow> bool" where
  "outputs_ok fUser outs \<longleftrightarrow>
     (\<forall>t \<in> set outs. if CTxOut_IsEmpty t then \<not> fUser else MIN_TXOUT_AMOUNT \<le> nValue t)"

lemma outputs_ok_nonneg: "outputs_ok u outs \<Longrightarrow> (\<Sum>t \<leftarrow> outs. nValue t) \<ge> 0"
  by (intro sum_list_nonneg)
    (auto simp: outputs_ok_def CTxOut_IsEmpty_def amount_defs split: if_splits)

lemma check_outputs_iff:
  "MoneyRange n \<Longrightarrow> check_outputs u outs n = Valid \<longleftrightarrow>
     outputs_ok u outs \<and> MoneyRange (n + (\<Sum>t \<leftarrow> outs. nValue t))"
proof (induction outs arbitrary: n)
  case (Cons t outs)
  let ?rest = "\<Sum>t \<leftarrow> outs. nValue t"
  show ?case
  proof (cases "if CTxOut_IsEmpty t then \<not> u else MIN_TXOUT_AMOUNT \<le> nValue t")
    case False
    then show ?thesis by (auto simp: outputs_ok_def split: if_splits)
  next
    case True
    then have pos: "0 \<le> nValue t"
      by (auto simp: CTxOut_IsEmpty_def amount_defs split: if_splits)
    have ok: "outputs_ok u (t # outs) = outputs_ok u outs" using True by (simp add: outputs_ok_def)
    show ?thesis
    proof (cases "nValue t > MAX_MONEY")
      case big: True
      with Cons.prems outputs_ok_nonneg [of u outs] ok True show ?thesis
        by (auto simp: MoneyRange_def)
    next
      case False
      with pos have "MoneyRange (nValue t)" by (simp add: MoneyRange_def)
      then have w: "wrap64 (n + nValue t) = n + nValue t"
        using Cons.prems by (simp add: MoneyRange_add)
      have step: "check_outputs u (t # outs) n =
          (if MoneyRange (n + nValue t) then check_outputs u outs (n + nValue t) else Invalid 100)"
        using True False w by (auto simp: Let_def)
      show ?thesis
      proof (cases "MoneyRange (n + nValue t)")
        case True
        with Cons.IH [OF True] step ok show ?thesis by (simp add: add.assoc)
      next
        case False
        then have "\<not> MoneyRange (n + nValue t + ?rest)" if "outputs_ok u outs"
          using outputs_ok_nonneg [OF that] Cons.prems pos by (auto simp: MoneyRange_def)
        with False step ok show ?thesis by (auto simp: add.assoc)
      qed
    qed
  qed
qed (simp add: outputs_ok_def)

lemma dup_inputs_iff:
  "\<not> dup_inputs ins seen \<longleftrightarrow> distinct (map prevout ins) \<and> prevout ` set ins \<inter> seen = {}"
  by (induction ins arbitrary: seen) auto

text \<open>
  C17.  \<open>CheckTransaction\<close> accepts exactly the transactions with inputs and outputs and at most a block in
  size, whose outputs are at least the minimum amount (empty outputs only in coinbase and coinstake
  transactions), whose exact total is at most the money supply, whose inputs are all different, and
  whose inputs are not null or which are coinbases with a script of 2 to 100 bytes.  On these
  \<open>GetValueOut\<close> does not throw and its 64-bit sum is the exact total.
\<close>

theorem CheckTransaction_iff:
  "(CheckTransaction tx = Valid \<longleftrightarrow>
     vin tx \<noteq> [] \<and> vout tx \<noteq> [] \<and> size_CTransaction tx \<le> MAX_BLOCK_SIZE \<and>
     outputs_ok (\<not> IsCoinBase tx \<and> \<not> IsCoinStake tx) (vout tx) \<and>
     (\<Sum>t \<leftarrow> vout tx. nValue t) \<le> MAX_MONEY \<and>
     distinct (map prevout (vin tx)) \<and>
     (if IsCoinBase tx then 2 \<le> length (scriptSig (vin tx ! 0)) \<and> length (scriptSig (vin tx ! 0)) \<le> 100
      else (\<forall>i \<in> set (vin tx). \<not> COutPoint_IsNull (prevout i)))) \<and>
   (CheckTransaction tx = Valid \<longrightarrow> GetValueOut tx = Some (\<Sum>t \<leftarrow> vout tx. nValue t))"
proof -
  let ?u = "\<not> IsCoinBase tx \<and> \<not> IsCoinStake tx" and ?sum = "\<Sum>t \<leftarrow> vout tx. nValue t"
  have 0: "MoneyRange 0" by (simp add: MoneyRange_def amount_defs)
  have outs: "check_outputs ?u (vout tx) 0 = Valid \<longleftrightarrow> outputs_ok ?u (vout tx) \<and> ?sum \<le> MAX_MONEY"
    using check_outputs_iff [OF 0, of ?u "vout tx"] outputs_ok_nonneg [of ?u "vout tx"]
    by (auto simp: MoneyRange_def)
  have val: "GetValueOut tx = Some ?sum" if ok: "outputs_ok ?u (vout tx)" and m: "?sum \<le> MAX_MONEY"
  proof -
    have nn: "0 \<le> nValue t" if "t \<in> set (vout tx)" for t
      using ok that by (auto simp: outputs_ok_def CTxOut_IsEmpty_def amount_defs split: if_splits)
    have "nValue t \<le> ?sum" if "t \<in> set (vout tx)" for t
      using that nn by (intro member_le_sum_list) auto
    with nn m have "\<forall>t \<in> set (vout tx). MoneyRange (nValue t)" by (fastforce simp: MoneyRange_def)
    with GetValueOut_loop_iff [OF 0, of "vout tx" ?sum] m outputs_ok_nonneg [OF ok] show ?thesis
      by (simp add: GetValueOut_def MoneyRange_def)
  qed
  have 1: "CheckTransaction tx = Valid \<longleftrightarrow>
     vin tx \<noteq> [] \<and> vout tx \<noteq> [] \<and> size_CTransaction tx \<le> MAX_BLOCK_SIZE \<and>
     check_outputs ?u (vout tx) 0 = Valid \<and> \<not> dup_inputs (vin tx) {} \<and>
     (if IsCoinBase tx then 2 \<le> length (scriptSig (vin tx ! 0)) \<and> length (scriptSig (vin tx ! 0)) \<le> 100
      else (\<forall>i \<in> set (vin tx). \<not> COutPoint_IsNull (prevout i)))"
    by (auto simp: CheckTransaction_def Let_def not_less split: verdict.splits)
  show ?thesis unfolding 1 outs dup_inputs_iff using val by auto
qed

theorem CheckTransaction_iff_witness:
  "let tx = \<lparr>nVersion = 1, nTime = 4, vin = [\<lparr>prevout = COutPoint 5 1, scriptSig = [1, 2], nSequence = 7\<rparr>],
             vout = [\<lparr>nValue = 10000, scriptPubKey = [0x51]\<rparr>, \<lparr>nValue = 20000, scriptPubKey = []\<rparr>],
             nLockTime = 0\<rparr>
   in CheckTransaction tx = Valid \<and> GetValueOut tx = Some 30000"
proof -
  let ?tx = "\<lparr>nVersion = 1, nTime = 4, vin = [\<lparr>prevout = COutPoint 5 1, scriptSig = [1, 2], nSequence = 7\<rparr>],
             vout = [\<lparr>nValue = 10000, scriptPubKey = [0x51]\<rparr>, \<lparr>nValue = 20000, scriptPubKey = []\<rparr>],
             nLockTime = 0\<rparr>"
  have "CheckTransaction ?tx = Valid"
    by (simp add: CheckTransaction_iff outputs_ok_def CTxOut_IsEmpty_def amount_defs IsCoinBase_def
        COutPoint_IsNull_def size_CTransaction_def size_vector_def size_CTxIn_def size_CTxOut_def
        size_bytes_def GetSizeOfCompactSize_def)
  with CheckTransaction_iff [of ?tx] show ?thesis by simp
qed

section \<open>Replacement order, lock time, fees\<close>

text \<open>Every differing new sequence number is above \<open>b\<close>; some differing old one is below all of them.\<close>

definition above_new :: "(u32 \<times> u32) list \<Rightarrow> u32 \<Rightarrow> bool" where
  "above_new ps b \<longleftrightarrow> (\<forall>(c, d) \<in> set ps. c \<noteq> d \<longrightarrow> b < c)"

definition old_below :: "(u32 \<times> u32) list \<Rightarrow> u32 \<Rightarrow> bool" where
  "old_below ps lo \<longleftrightarrow> (\<exists>a b. (a, b) \<in> set ps \<and> a \<noteq> b \<and> b < lo \<and> above_new ps b)"

lemma above_new_mono: "above_new ps b \<Longrightarrow> b' \<le> b \<Longrightarrow> above_new ps b'"
  by (fastforce simp: above_new_def)

lemma above_new_Cons: "above_new ((a, b) # ps) x \<longleftrightarrow> (a = b \<or> x < a) \<and> above_new ps x"
  by (auto simp: above_new_def)

lemma old_below_Cons:
  "a \<noteq> b \<Longrightarrow> old_below ((a, b) # ps) lo \<longleftrightarrow>
     b < lo \<and> b < a \<and> above_new ps b \<or> old_below ps (min lo a)"
  by (auto simp: old_below_def above_new_Cons)

lemma old_below_same: "old_below ((b, b) # ps) lo \<longleftrightarrow> old_below ps lo"
  by (auto simp: old_below_def above_new_Cons)

lemma old_below_less:
  assumes "b \<le> lo"
  shows "old_below ps lo \<or> above_new ps b \<longleftrightarrow> old_below ps b \<or> above_new ps b"
proof -
  have "above_new ps b \<or> old_below ps b" if "old_below ps lo"
  proof -
    from that obtain a' b' where m: "(a', b') \<in> set ps" "a' \<noteq> b'" "above_new ps b'"
      by (auto simp: old_below_def)
    show ?thesis
    proof (cases "b' < b")
      case True
      with m show ?thesis by (auto simp: old_below_def)
    next
      case False
      with m(3) above_new_mono [of ps b' b] show ?thesis by simp
    qed
  qed
  moreover have "old_below ps lo" if "old_below ps b"
    using that assms unfolding old_below_def by (meson order.strict_trans2)
  ultimately show ?thesis by blast
qed

lemma newer_loop_iff: "newer_loop ps f lo \<longleftrightarrow> old_below ps lo \<or> f \<and> above_new ps lo"
proof (induction ps arbitrary: f lo)
  case (Cons p ps)
  obtain a b where p: "p = (a, b)" by (cases p)
  consider "a = b" | "a \<noteq> b" "a \<le> lo" "b < a" | "a \<noteq> b" "a \<le> lo" "a < b"
    | "a \<noteq> b" "lo < a" "b < lo" | "a \<noteq> b" "lo < a" "lo \<le> b" by fastforce
  then show ?case
  proof cases
    case 1
    then show ?thesis by (simp add: p Cons.IH old_below_same above_new_Cons)
  next
    case 2
    then have "min lo a = a" "b < lo" by simp_all
    with 2 old_below_less [OF less_imp_le [OF 2(3)], of ps] show ?thesis
      by (auto simp: p Cons.IH old_below_Cons above_new_Cons)
  next
    case 3
    then have "min lo a = a" "\<not> b < a" by simp_all
    with 3 show ?thesis by (auto simp: p Cons.IH old_below_Cons above_new_Cons)
  next
    case 4
    then have "min lo a = lo" "b < a" by simp_all
    with 4 old_below_less [OF less_imp_le [OF 4(3)], of ps] above_new_mono [OF _ less_imp_le [OF 4(3)], of ps] show ?thesis
      by (auto simp: p Cons.IH old_below_Cons above_new_Cons)
  next
    case 5
    then have "min lo a = lo" "\<not> b < lo" "\<not> a \<le> lo" by simp_all
    with 5 show ?thesis by (auto simp: p Cons.IH old_below_Cons above_new_Cons)
  qed
qed (simp add: old_below_def above_new_def)

lemma old_below_max: "old_below ps (- 1) \<longleftrightarrow> (\<exists>a b. (a, b) \<in> set ps \<and> a \<noteq> b \<and> above_new ps b)"
proof -
  have "b < - 1" if "above_new ps b" "(a, b) \<in> set ps" "a \<noteq> b" for a b
  proof -
    from that have "b < a" by (auto simp: above_new_def)
    also have "a \<le> - 1" by simp
    finally show ?thesis .
  qed
  then show ?thesis by (auto simp: old_below_def)
qed

lemma newer_swap: "above_new ps b \<Longrightarrow> (a, b) \<in> set ps \<Longrightarrow> a \<noteq> b \<Longrightarrow>
   \<not> old_below (map prod.swap ps) (- 1)"
  unfolding old_below_max by (force simp: above_new_def)

text \<open>
  The replacement loop computes what it is meant to: a transaction is newer than another exactly
  when they spend the same outpoints in the same order and, among the inputs whose sequence numbers
  differ, some old number is below every new one.  So of two transactions at most one is newer.
\<close>

theorem IsNewerThan_iff:
  "(IsNewerThan tx old \<longleftrightarrow>
     map prevout (vin tx) = map prevout (vin old) \<and>
     (let ps = zip (map nSequence (vin tx)) (map nSequence (vin old))
      in \<exists>(new, b) \<in> set ps. new \<noteq> b \<and> (\<forall>(c, d) \<in> set ps. c \<noteq> d \<longrightarrow> b < c))) \<and>
   \<not> (IsNewerThan tx old \<and> IsNewerThan old tx)"
proof -
  have len: "map prevout (vin tx) = map prevout (vin old) \<Longrightarrow> length (vin tx) = length (vin old)"
    by (rule map_eq_imp_length_eq)
  have iff: "IsNewerThan tx old \<longleftrightarrow> map prevout (vin tx) = map prevout (vin old) \<and>
      old_below (zip (map nSequence (vin tx)) (map nSequence (vin old))) (- 1)" for tx old
    by (auto simp: IsNewerThan_def newer_loop_iff dest: map_eq_imp_length_eq)
  have swap: "zip (map nSequence (vin old)) (map nSequence (vin tx)) =
      map prod.swap (zip (map nSequence (vin tx)) (map nSequence (vin old)))"
    by (subst zip_commute) (simp add: prod.swap_def case_prod_unfold)
  let ?ps = "zip (map nSequence (vin tx)) (map nSequence (vin old))"
  have "\<not> (old_below ?ps (- 1) \<and> old_below (map prod.swap ?ps) (- 1))"
    using newer_swap [of ?ps] unfolding old_below_max [of ?ps] by blast
  then have "\<not> (IsNewerThan tx old \<and> IsNewerThan old tx)" unfolding iff swap by blast
  moreover have "(\<exists>(new, b) \<in> set ?ps. new \<noteq> b \<and> (\<forall>(c, d) \<in> set ?ps. c \<noteq> d \<longrightarrow> b < c)) \<longleftrightarrow>
      old_below ?ps (- 1)"
    unfolding old_below_max above_new_def by (simp add: Bex_def split_paired_Ex)
  ultimately show ?thesis unfolding Let_def iff [of tx old] by blast
qed

theorem IsNewerThan_iff_witness:
  "let tx = (\<lambda>q. \<lparr>nVersion = 1, nTime = 4,
               vin = [\<lparr>prevout = COutPoint 5 1, scriptSig = [], nSequence = q\<rparr>], vout = [], nLockTime = 0\<rparr>)
   in IsNewerThan (tx 8) (tx 7) \<and> \<not> IsNewerThan (tx 7) (tx 8)"
  by (simp add: Let_def IsNewerThan_iff)

text \<open>
  A transaction that is final stays final: with a later (non-zero) height and time, and a chain
  that does not get shorter, \<open>IsFinal\<close> stays true.
\<close>

theorem IsFinal_mono:
  assumes "IsFinal best now tx h t" and "h > 0" and "t > 0" and "h \<le> h'" and "t \<le> t'"
  shows "IsFinal best' now' tx h' t'"
  using assms by (auto simp: IsFinal_def Let_def split: if_splits)

theorem IsFinal_mono_witness:
  "IsFinal 0 0 \<lparr>nVersion = 1, nTime = 4, vin = [], vout = [], nLockTime = 100\<rparr> 201 6"
  by (rule IsFinal_mono [of 0 0 _ 101 5]) (simp_all add: IsFinal_def LOCKTIME_THRESHOLD_def)

lemma bytes_div_1000: "0 \<le> uint (n :: u32) div 1000" "uint (n :: u32) div 1000 \<le> 4294967"
proof -
  have "uint n < 4294967296" "0 \<le> uint n" using unsigned_less [of n, where ?'a = int] by simp_all
  then show "0 \<le> uint n div 1000" "uint n div 1000 \<le> 4294967"
    using zdiv_mono1 [of "uint n" 4294967295 1000] by (simp_all add: pos_imp_zdiv_nonneg_iff)
qed

lemma GetMinFee_base: "wrap64 ((1 + uint (n :: u32) div 1000) * 10000) = (1 + uint n div 1000) * 10000"
  using bytes_div_1000 [of n] by (simp add: in_i64_def i64_min_def i64_max_def)

text \<open>
  The fee asked is never below \<open>MIN_TX_FEE\<close> plus one such fee per thousand bytes, never above the
  money supply, and does not overflow; it does not depend on the outputs, so the rule against dust
  outputs the comment announces has no effect.
\<close>

theorem GetMinFee_bounds:
  "(1 + uint nBytes div 1000) * MIN_TX_FEE \<le> GetMinFee tx nBlockSize fAllowFree mode nBytes \<and>
   GetMinFee tx nBlockSize fAllowFree mode nBytes \<le> MAX_MONEY \<and>
   GetMinFee tx nBlockSize fAllowFree mode nBytes = GetMinFee tx' nBlockSize fAllowFree mode nBytes"
proof -
  let ?b = "(1 + uint nBytes div 1000) * 10000"
  have b: "10000 \<le> ?b" "?b \<le> 42949680000" using bytes_div_1000 [of nBytes] by simp_all
  have f: "GetMinFee tx nBlockSize fAllowFree mode nBytes =
     (let k = unat (nBlockSize + nBytes)
      in if nBlockSize \<noteq> 1 \<and> k \<ge> 250000 then
           (if k \<ge> 500000 then MAX_MONEY
            else (let r = wrap64 (?b * int (500000 div (500000 - k)))
                  in if \<not> MoneyRange r then MAX_MONEY else r))
         else if \<not> MoneyRange ?b then MAX_MONEY else ?b)" for tx
  proof -
    have c: "MIN_RELAY_TX_FEE = 10000" "MIN_TX_FEE = 10000" "MAX_BLOCK_SIZE_GEN = 500000"
      "500000 div 2 = (250000 :: nat)" by (simp_all add: amount_defs)
    have "(?b < 10000) = False" using b by simp
    then show ?thesis
      by (simp only: GetMinFee_def Let_def c GetMinFee_base if_cancel simp_thms if_False)
  qed
  have "?b \<le> wrap64 (?b * int (500000 div (500000 - k)))" if "k < 500000" for k :: nat
  proof -
    have q: "1 \<le> 500000 div (500000 - k)"
      using that by (simp add: Suc_le_eq div_greater_zero_iff)
    have "500000 div (500000 - k) \<le> 500000" by simp
    then have hi: "?b * int (500000 div (500000 - k)) \<le> 42949680000 * 500000"
      using b by (intro mult_mono) simp_all
    have lo: "?b * 1 \<le> ?b * int (500000 div (500000 - k))"
      using b q by (intro mult_left_mono) simp_all
    from hi lo b(1) have "in_i64 (?b * int (500000 div (500000 - k)))"
      unfolding in_i64_def i64_min_def i64_max_def by linarith
    then show ?thesis using lo by simp
  qed
  moreover have "?b \<le> MAX_MONEY" using b by (simp add: amount_defs)
  ultimately have "?b \<le> GetMinFee tx nBlockSize fAllowFree mode nBytes \<and>
      GetMinFee tx nBlockSize fAllowFree mode nBytes \<le> MAX_MONEY"
    unfolding f by (auto simp: Let_def MoneyRange_def)
  moreover have "MIN_TX_FEE = 10000" by (simp add: amount_defs)
  ultimately show ?thesis using f by simp
qed

end
