(* ===== verification/Compact.thy ===== *)
theory Compact
  imports Bignum
begin

text \<open>
  The rest of the conversions of \<open>src/src/bignum.h\<close> the chain code uses: 64 and 256-bit unsigned values,
  and the compact form of difficulty targets, a base-256 floating-point format in 32 bits.
\<close>

section \<open>Unsigned conversions\<close>

definition setuint64 :: "openssl \<Rightarrow> u64 \<Rightarrow> CBigNum" where
  "setuint64 L n =
     (let body = setint64_loop False True 8 n
      in BN_mpi2bn L (nat_be 4 (length body) @ body))"

text \<open>The bytes of the number from the top, leading zero bytes skipped.\<close>

fun setuint256_loop :: "bool \<Rightarrow> byte list \<Rightarrow> byte list" where
  "setuint256_loop fLeadingZeroes [] = []"
| "setuint256_loop fLeadingZeroes (c # cs) =
     (if fLeadingZeroes then
        (if c = 0 then setuint256_loop True cs
         else (if c AND 0x80 \<noteq> 0 then [0] else []) @ c # setuint256_loop False cs)
      else c # setuint256_loop False cs)"

definition setuint256 :: "openssl \<Rightarrow> uint256 \<Rightarrow> CBigNum" where
  "setuint256 L n =
     (let body = setuint256_loop True (rev (bytes256 n))
      in BN_mpi2bn L (nat_be 4 (length body) @ body))"

text \<open>The sign bit is masked off and the low 32 bytes are kept.\<close>

definition getuint256 :: "openssl \<Rightarrow> CBigNum \<Rightarrow> uint256" where
  "getuint256 L bn =
     (let vch = BN_bn2mpi L bn
      in if length vch < 4 then 0
         else
           (let body = (case drop 4 vch of [] \<Rightarrow> [] | c # cs \<Rightarrow> (c AND 0x7f) # cs)
            in le_word (take 32 (rev body))))"

section \<open>Compact targets\<close>

definition BN_num_bytes :: "CBigNum \<Rightarrow> nat" where
  "BN_num_bytes bn = length (min_le (nat \<bar>bn\<bar>))"

definition SetCompact :: "u32 \<Rightarrow> CBigNum" where
  "SetCompact nCompact =
     (let nSize = unat (drop_bit 24 nCompact);
          fNegative = (nCompact AND 0x00800000 \<noteq> 0);
          nWord = unat (nCompact AND 0x007fffff);
          bn = (if nSize \<le> 3 then int (nWord div 2 ^ (8 * (3 - nSize)))
                else int nWord * 2 ^ (8 * (nSize - 3)))
      in if fNegative then - bn else bn)"

definition GetCompact :: "CBigNum \<Rightarrow> u32" where
  "GetCompact bn =
     (let nSize = BN_num_bytes bn;
          nCompact = (if nSize \<le> 3 then word_of_nat (BN_get_word bn * 2 ^ (8 * (3 - nSize)))
                      else word_of_nat (BN_get_word (\<bar>bn\<bar> div 2 ^ (8 * (nSize - 3))))) :: u32;
          (nCompact', nSize') =
            (if nCompact AND 0x00800000 \<noteq> 0 then (drop_bit 8 nCompact, nSize + 1) else (nCompact, nSize))
      in nCompact' OR push_bit 24 (word_of_nat nSize') OR (if bn < 0 then 0x00800000 else 0))"

section \<open>The conversions mean what they should\<close>

lemma setuint256_loop_False: "setuint256_loop False cs = cs"
  by (induction cs) simp_all

lemma setuint256_loop_True:
  "setuint256_loop True cs = mpi_sign False (dropWhile (\<lambda>b. b = 0) cs)"
  by (induction cs) (simp_all add: setuint256_loop_False mpi_sign_def)

lemma length_mpi_sign: "length (mpi_sign neg bs) \<le> Suc (length bs)"
  by (simp add: mpi_sign_def split: list.splits)

lemma bytes256_value: "le_nat (bytes256 w) = unat w"
proof -
  have "unat w < 2 ^ 256" using unsigned_less [of w, where ?'a = nat] by simp
  then have "unat w < 256 ^ 32" by simp
  then show ?thesis by (simp add: bytes256_def del: power_numeral)
qed

lemma setuint256_int:
  assumes "mpi_documented L"
  shows "setuint256 L n = uint n"
proof -
  let ?bs = "rev (bytes256 n)"
  let ?body = "mpi_sign False (dropWhile (\<lambda>b. b = 0) ?bs)"
  have "length ?body \<le> Suc (length (dropWhile (\<lambda>b. b = 0) ?bs))" by (rule length_mpi_sign)
  also have "\<dots> \<le> 33" using length_dropWhile_le [of "\<lambda>b. b = 0" ?bs] by simp
  finally have "length ?body < 2 ^ 32" by simp
  then have "setuint256 L n = mpi_value ?body"
    using assms unfolding mpi_documented_def setuint256_def setuint256_loop_True Let_def by blast
  then show ?thesis
    by (simp add: mpi_value_sign be_nat_dropWhile) (simp add: be_nat_def bytes256_value)
qed

lemma mpi_body_sign: "mpi_body n = mpi_sign (n < 0) (rev (min_le (nat \<bar>n\<bar>)))"
  by (simp add: mpi_body_def mpi_sign_def split: list.splits)

lemma mask_sign:
  "be_nat (case mpi_sign neg bs of [] \<Rightarrow> [] | c # cs \<Rightarrow> (c AND 0x7f) # cs) = be_nat bs"
  by (cases bs)
    (auto simp: mpi_sign_def byte_high_iff byte_split_high byte_low bit_or_iff be_nat_Cons)

lemma le_nat_append: "le_nat (xs @ ys) = le_nat xs + 256 ^ length xs * le_nat ys"
  by (induction xs) (simp_all add: algebra_simps)

lemma le_word_take: "le_word (take 32 bs) = (word_of_nat (le_nat bs) :: uint256)"
proof (cases "length bs \<le> 32")
  case False
  have "le_nat bs = le_nat (take 32 bs @ drop 32 bs)" by simp
  also have "\<dots> = le_nat (take 32 bs) + 2 ^ 256 * le_nat (drop 32 bs)"
    using False by (simp only: le_nat_append length_take) (simp add: min_def)
  finally have "le_nat (take 32 bs) mod 2 ^ 256 = le_nat bs mod 2 ^ 256"
    by (simp only: mod_mult_self2)
  then show ?thesis by (simp add: le_word_def word_unat_eq_iff unat_of_nat)
qed (simp add: le_word_def)

lemma getuint256_word:
  assumes "mpi_documented L"
  shows "getuint256 L bn = word_of_nat (nat \<bar>bn\<bar>)"
proof -
  have "drop 4 (BN_bn2mpi L bn) = mpi_body bn" "\<not> length (BN_bn2mpi L bn) < 4"
    using assms by (simp_all add: mpi_documented_def)
  moreover have "le_nat (rev (case mpi_body bn of [] \<Rightarrow> [] | c # cs \<Rightarrow> (c AND 0x7f) # cs)) = nat \<bar>bn\<bar>"
    using mask_sign [of "bn < 0" "rev (min_le (nat \<bar>bn\<bar>))"] by (simp add: mpi_body_sign be_nat_def)
  ultimately show ?thesis by (simp add: getuint256_def Let_def le_word_take)
qed

section \<open>Compact targets as numbers\<close>

lemma compact_or:
  assumes "m < 2 ^ 24"
  shows "word_of_nat m OR push_bit 24 (word_of_nat s) = (word_of_nat (m + s * 2 ^ 24) :: u32)"
proof -
  have "take_bit 24 (word_of_nat m :: u32) = word_of_nat (take_bit 24 m)"
    by (simp only: take_bit_of_nat)
  then have m: "(word_of_nat m :: u32) = take_bit 24 (word_of_nat m)"
    using assms by (simp add: take_bit_nat_eq_self)
  have "(word_of_nat m :: u32) AND push_bit 24 (word_of_nat s) = 0"
    by (subst m) (rule bit_word_eqI, simp add: bit_simps)
  then have "word_of_nat m OR push_bit 24 (word_of_nat s) = (word_of_nat m + push_bit 24 (word_of_nat s) :: u32)"
    by (simp add: disjunctive_add_eq_or)
  then show ?thesis by (simp add: push_bit_eq_mult)
qed

lemma SetCompact_nat:
  assumes "v < 2 ^ 32"
  shows "SetCompact (word_of_nat v) =
    (let s = v div 2 ^ 24; w = v mod 2 ^ 23;
         bn = (if s \<le> 3 then int (w div 2 ^ (8 * (3 - s))) else int w * 2 ^ (8 * (s - 3)))
     in if odd (v div 2 ^ 23) then - bn else bn)"
proof -
  let ?c = "word_of_nat v :: u32"
  have u: "unat ?c = v" using assms by (simp add: unat_of_nat)
  have "unat (drop_bit 24 ?c) = v div 2 ^ 24"
    unfolding unsigned_drop_bit_eq u using assms by (simp add: drop_bit_eq_div take_bit_nat_eq_self)
  moreover have "(0x007fffff :: u32) = mask 23" by (simp add: mask_eq_exp_minus_1)
  then have "unat (?c AND 0x007fffff) = take_bit 23 v"
    by (simp only: take_bit_eq_mask [symmetric] unsigned_take_bit_eq u)
  then have "unat (?c AND 0x007fffff) = v mod 2 ^ 23" by (simp only: take_bit_eq_mod)
  moreover have "(?c AND 0x00800000 \<noteq> 0) = odd (v div 2 ^ 23)"
    using and_exp_eq_0_iff_not_bit [of ?c 23] u bit_unsigned_iff [of ?c 23, where ?'a = nat]
    by (simp add: bit_iff_odd)
  ultimately show ?thesis by (simp add: SetCompact_def Let_def)
qed

text \<open>The exponent and mantissa \<open>GetCompact\<close> gives a number that is not negative.\<close>

definition compact_mantissa :: "nat \<Rightarrow> nat" where
  "compact_mantissa n =
     (let k = length (min_le n) in if k \<le> 3 then n * 256 ^ (3 - k) else n div 256 ^ (k - 3))"

lemma length_min_le_bounds:
  assumes "n > 0"
  shows "n < 256 ^ length (min_le n)" and "256 ^ (length (min_le n) - 1) \<le> n" and "length (min_le n) > 0"
proof -
  let ?k = "length (min_le n)"
  show k: "?k > 0" using assms by (subst min_le.simps) simp
  show "n < 256 ^ ?k" using le_nat_lt [of "min_le n"] by simp
  show "256 ^ (?k - 1) \<le> n"
  proof (rule ccontr)
    assume "\<not> 256 ^ (?k - 1) \<le> n"
    then have "?k \<le> ?k - 1" by (intro length_min_le) simp
    with k show False by linarith
  qed
qed

lemma compact_mantissa_bounds:
  assumes "n > 0"
  shows "2 ^ 16 \<le> compact_mantissa n" and "compact_mantissa n < 2 ^ 24"
proof -
  let ?k = "length (min_le n)"
  note b = length_min_le_bounds [OF assms]
  have "2 ^ 16 \<le> compact_mantissa n \<and> compact_mantissa n < 2 ^ 24"
  proof (cases "?k \<le> 3")
    case True
    with b(3) have "?k = 1 \<or> ?k = 2 \<or> ?k = 3" by linarith
    then have e: "(256 :: nat) ^ (?k - 1) * 256 ^ (3 - ?k) = 2 ^ 16" "(256 :: nat) ^ ?k * 256 ^ (3 - ?k) = 2 ^ 24"
      by auto
    have "256 ^ (?k - 1) * 256 ^ (3 - ?k) \<le> n * 256 ^ (3 - ?k)" "n * 256 ^ (3 - ?k) < 256 ^ ?k * 256 ^ (3 - ?k)"
      using b by simp_all
    with True show ?thesis unfolding e by (simp add: compact_mantissa_def)
  next
    case False
    then obtain j where j: "?k = j + 3" by (metis le_add_diff_inverse2 nat_le_linear)
    then have e: "(256 :: nat) ^ ?k = 2 ^ 24 * 256 ^ (?k - 3)" "(256 :: nat) ^ (?k - 1) = 2 ^ 16 * 256 ^ (?k - 3)"
      by (simp_all add: power_add)
    have "n div 256 ^ (?k - 3) < 2 ^ 24"
      using b(1) unfolding e by (simp add: less_mult_imp_div_less)
    moreover have "2 ^ 16 \<le> n div 256 ^ (?k - 3)"
      using b(2) unfolding e by (simp add: less_eq_div_iff_mult_less_eq)
    ultimately show ?thesis using False by (simp add: compact_mantissa_def Let_def)
  qed
  then show "2 ^ 16 \<le> compact_mantissa n" and "compact_mantissa n < 2 ^ 24" by simp_all
qed

lemma GetCompact_nat:
  assumes "n > 0" and "length (min_le n) \<le> 254"
  shows "GetCompact (int n) =
    (let k = length (min_le n); m = compact_mantissa n
     in if m < 2 ^ 23 then word_of_nat (m + k * 2 ^ 24) else word_of_nat (m div 256 + (k + 1) * 2 ^ 24))"
proof -
  let ?k = "length (min_le n)" and ?m = "compact_mantissa n"
  note b = compact_mantissa_bounds [OF assms(1)]
  have n3: "n < 256 ^ 3" if "?k \<le> 3"
    using length_min_le_bounds(1) [OF assms(1)] power_increasing [OF that, of "256 :: nat"] by linarith
  have "(if ?k \<le> 3 then word_of_nat (BN_get_word (int n) * 2 ^ (8 * (3 - ?k)))
      else word_of_nat (BN_get_word (\<bar>int n\<bar> div 2 ^ (8 * (?k - 3))))) = (word_of_nat ?m :: u32)"
  proof (cases "?k \<le> 3")
    case True
    with n3 have "BN_get_word (int n) = n" by (simp add: BN_get_word_def)
    with True show ?thesis by (simp add: compact_mantissa_def power_mult)
  next
    case False
    have e: "\<bar>int n\<bar> div 2 ^ (8 * (?k - 3)) = int ?m"
      using False by (simp add: compact_mantissa_def power_mult zdiv_int Let_def)
    show ?thesis unfolding e using b(2) False by (simp add: BN_get_word_def)
  qed
  moreover have "((word_of_nat ?m :: u32) AND 0x00800000 \<noteq> 0) = (\<not> ?m < 2 ^ 23)"
  proof -
    have "unat (word_of_nat ?m :: u32) = ?m" using b(2) by (simp add: unat_of_nat)
    then have "bit (word_of_nat ?m :: u32) 23 = odd (?m div 2 ^ 23)"
      using bit_unsigned_iff [of "word_of_nat ?m :: u32" 23, where ?'a = nat] by (simp add: bit_iff_odd)
    moreover have "?m div 2 ^ 23 = (if ?m < 2 ^ 23 then 0 else 1)" using b(2) by (simp add: div_nat_eqI)
    ultimately show ?thesis using and_exp_eq_0_iff_not_bit [of "word_of_nat ?m :: u32" 23] by simp
  qed
  moreover have "drop_bit 8 (word_of_nat ?m :: u32) = word_of_nat (?m div 256)"
  proof (rule word_unat_eq_iff [THEN iffD2])
    have u: "unat (word_of_nat ?m :: u32) = ?m" using b(2) by (simp add: unat_of_nat)
    show "unat (drop_bit 8 (word_of_nat ?m :: u32)) = unat (word_of_nat (?m div 256) :: u32)"
      unfolding unsigned_drop_bit_eq u
      using b(2) by (simp add: drop_bit_eq_div take_bit_nat_eq_self unat_of_nat)
  qed
  ultimately show ?thesis
    using b(2) by (simp add: GetCompact_def BN_num_bytes_def Let_def compact_or)
qed

text \<open>The number of low bytes \<open>GetCompact\<close> drops.\<close>

definition compact_dropped :: "nat \<Rightarrow> nat" where
  "compact_dropped n =
     (if compact_mantissa n < 2 ^ 23 then length (min_le n) - 3 else length (min_le n) - 2)"

lemma compact_decode:
  assumes "m < 2 ^ 23" and "k \<le> 255"
  shows "SetCompact (word_of_nat (m + k * 2 ^ 24)) =
    (if k \<le> 3 then int (m div 256 ^ (3 - k)) else int (m * 256 ^ (k - 3)))"
proof -
  have lt: "m + k * 2 ^ 24 < 2 ^ 32" using assms by simp
  have "(m + k * 2 ^ 24) div 2 ^ 24 = k" using assms(1) by simp
  moreover have "(m + k * 2 ^ 24) mod 2 ^ 23 = m"
  proof -
    have "m + k * 2 ^ 24 = m + (2 * k) * 2 ^ 23" by simp
    then show ?thesis using assms(1) by (simp only: mod_mult_self1) simp
  qed
  moreover have "(m + k * 2 ^ 24) div 2 ^ 23 = 2 * k"
  proof -
    have "m + k * 2 ^ 24 = m + (2 * k) * 2 ^ 23" by simp
    then show ?thesis using assms(1) by (simp only: div_mult_self1) simp
  qed
  ultimately show ?thesis unfolding SetCompact_nat [OF lt] by (simp add: Let_def power_mult)
qed

lemma compact_roundtrip_nat:
  assumes "n > 0" and "length (min_le n) \<le> 254"
  shows "SetCompact (GetCompact (int n)) = int (n div 256 ^ compact_dropped n * 256 ^ compact_dropped n)"
proof -
  let ?k = "length (min_le n)" and ?m = "compact_mantissa n"
  note b = compact_mantissa_bounds [OF assms(1)]
  show ?thesis
  proof (cases "?m < 2 ^ 23")
    case True
    then have "SetCompact (GetCompact (int n)) =
        (if ?k \<le> 3 then int (?m div 256 ^ (3 - ?k)) else int (?m * 256 ^ (?k - 3)))"
      using GetCompact_nat [OF assms] compact_decode [OF True, of ?k] assms(2) by (simp add: Let_def)
    with True show ?thesis by (simp add: compact_dropped_def compact_mantissa_def Let_def)
  next
    case False
    have m: "?m div 256 < 2 ^ 23" using b(2) by simp
    have g: "SetCompact (GetCompact (int n)) =
        (if ?k + 1 \<le> 3 then int (?m div 256 div 256 ^ (3 - (?k + 1))) else int (?m div 256 * 256 ^ (?k + 1 - 3)))"
      using GetCompact_nat [OF assms] compact_decode [OF m, of "?k + 1"] assms(2) False
      by (simp add: Let_def)
    consider (small) "?k \<le> 2" | (three) "?k = 3" | (big) "?k > 3" by linarith
    then show ?thesis
    proof cases
      case small
      then obtain i where i: "3 - ?k = Suc i" "3 - (?k + 1) = i" using Suc_diff_le [of ?k 2] by auto
      then have "?m = n * (256 * 256 ^ i)" using small by (simp add: compact_mantissa_def Let_def)
      then have "?m div 256 div 256 ^ i = n" by (simp flip: div_mult2_eq)
      moreover have "?k - 2 = 0" "?k + 1 \<le> 3" using small by simp_all
      ultimately show ?thesis using False g unfolding i by (simp add: compact_dropped_def)
    next
      case three
      with False g show ?thesis by (simp add: compact_dropped_def compact_mantissa_def)
    next
      case big
      then obtain j where j: "?k = 4 + j" using le_Suc_ex [of 4 ?k] by auto
      have e: "(256 :: nat) ^ (?k - 2) = 256 ^ (?k - 3) * 256" unfolding j by simp
      have "?m div 256 = n div 256 ^ (?k - 2)"
        unfolding e using big by (simp add: compact_mantissa_def div_mult2_eq Let_def)
      moreover have "?k + 1 - 3 = ?k - 2" "\<not> ?k + 1 \<le> 3" using big by simp_all
      ultimately show ?thesis using False g by (simp only: compact_dropped_def if_False)
    qed
  qed
qed

lemma compact_dropped_cases:
  assumes "n > 0"
  obtains (exact) "compact_dropped n = 0"
  | (low) j where "compact_mantissa n < 2 ^ 23" "length (min_le n) = j + 3" "compact_dropped n = j" "j > 0"
      "compact_mantissa n = n div 256 ^ j"
  | (high) j where "\<not> compact_mantissa n < 2 ^ 23" "length (min_le n) = j + 3" "compact_dropped n = Suc j"
      "compact_mantissa n = n div 256 ^ j"
proof (cases "length (min_le n) \<ge> 3")
  case False
  then show ?thesis by (intro exact) (simp add: compact_dropped_def)
next
  case True
  then obtain j where j: "length (min_le n) = j + 3" by (metis le_add_diff_inverse2)
  then have m: "compact_mantissa n = n div 256 ^ j" by (cases j) (simp_all add: compact_mantissa_def)
  show ?thesis
  proof (cases "compact_mantissa n < 2 ^ 23")
    case True
    then have "compact_dropped n = j" by (simp add: compact_dropped_def j)
    then show ?thesis using True j m by (cases j) (auto intro: exact low)
  next
    case False
    then have "compact_dropped n = Suc j" by (simp add: compact_dropped_def j)
    then show ?thesis using False j m by (intro high [of j]) simp_all
  qed
qed

lemma error_bound:
  assumes "(r :: nat) < p" and "c * p \<le> n" and "2 ^ 15 \<le> c"
  shows "r * 2 ^ 15 \<le> n"
proof -
  have "r * 2 ^ 15 \<le> p * c" using assms(1,3) by (intro mult_le_mono) simp_all
  with assms(2) show ?thesis by (simp add: mult.commute)
qed

lemma compact_mantissa_long: "length (min_le n) = j + 3 \<Longrightarrow> compact_mantissa n = n div 256 ^ j"
  by (cases j) (simp_all add: compact_mantissa_def)

lemma compact_error:
  assumes "n > 0"
  shows "n mod 256 ^ compact_dropped n * 2 ^ 15 \<le> n"
  using assms
proof (cases rule: compact_dropped_cases)
  case (low j)
  have "2 ^ 16 * 256 ^ j \<le> n"
    using length_min_le_bounds(2) [OF assms] low(2) by (simp add: power_add)
  then show ?thesis unfolding low(3) by (rule error_bound [rotated]) simp_all
next
  case (high j)
  have "2 ^ 23 \<le> n div 256 ^ j" using high by simp
  then have "2 ^ 15 * 256 ^ Suc j \<le> n" by (simp add: less_eq_div_iff_mult_less_eq)
  then show ?thesis unfolding high(3) by (rule error_bound [rotated]) simp_all
qed simp

lemma min_le_length_eq:
  assumes "256 ^ k \<le> n" and "n < 256 ^ Suc k"
  shows "length (min_le n) = Suc k"
proof (rule antisym)
  show "length (min_le n) \<le> Suc k" using assms(2) by (rule length_min_le)
  have "n > 0" using assms(1) by (meson less_le_trans zero_less_numeral zero_less_power)
  then have "(256 :: nat) ^ k < 256 ^ length (min_le n)"
    using assms(1) length_min_le_bounds(1) [of n] by linarith
  then show "Suc k \<le> length (min_le n)" by simp
qed

lemma compact_canonical:
  assumes "n > 0" and "length (min_le n) \<le> 254"
  defines "n' \<equiv> n div 256 ^ compact_dropped n * 256 ^ compact_dropped n"
  shows "n' > 0 \<and> GetCompact (int n') = GetCompact (int n)"
  using assms(1)
proof (cases rule: compact_dropped_cases)
  case exact
  then show ?thesis using assms by simp
next
  case (low j)
  have n': "n' = n div 256 ^ j * 256 ^ j" using low by (simp add: n'_def)
  have q: "256 ^ 2 \<le> n div 256 ^ j" "n div 256 ^ j < 256 ^ 3"
    using compact_mantissa_bounds [OF assms(1)] low(5) by simp_all
  have "256 ^ 2 * 256 ^ j \<le> n'" "n' < 256 ^ 3 * 256 ^ j" unfolding n' using q by simp_all
  then have b: "256 ^ (j + 2) \<le> n'" "n' < 256 ^ Suc (j + 2)" by (simp_all add: power_add)
  then have len: "length (min_le n') = j + 3" using min_le_length_eq [OF b] by simp
  have pos: "n' > 0" using b(1) by (meson less_le_trans zero_less_numeral zero_less_power)
  have m: "compact_mantissa n' = compact_mantissa n"
    unfolding compact_mantissa_long [OF len] low(5) by (simp add: n')
  show ?thesis
    using GetCompact_nat [OF pos] GetCompact_nat [OF assms(1,2)] low len m assms(2) pos by simp
next
  case (high j)
  have n': "n' = n div 256 ^ Suc j * 256 ^ Suc j" using high by (simp add: n'_def)
  have d: "n div 256 ^ Suc j = n div 256 ^ j div 256" by (simp add: div_mult2_eq [symmetric] mult.commute)
  have q: "2 ^ 15 \<le> n div 256 ^ Suc j" "n div 256 ^ Suc j < 256 ^ 2"
    unfolding d using compact_mantissa_bounds [OF assms(1)] high(1,4) by simp_all
  have "2 ^ 15 * 256 ^ Suc j \<le> n'" "n' < 256 ^ 2 * 256 ^ Suc j" unfolding n' using q by simp_all
  then have b: "256 ^ (j + 2) \<le> n'" "n' < 256 ^ Suc (j + 2)" by (simp_all add: power_add)
  then have len: "length (min_le n') = j + 3" using min_le_length_eq [OF b] by simp
  have pos: "n' > 0" using b(1) by (meson less_le_trans zero_less_numeral zero_less_power)
  have m: "compact_mantissa n' = n div 256 ^ Suc j * 256"
    unfolding compact_mantissa_long [OF len] by (simp add: n' mult.assoc [symmetric])
  have "compact_mantissa n' div 256 = compact_mantissa n div 256" "\<not> compact_mantissa n' < 2 ^ 23"
    unfolding m using high(4) q(1) d by simp_all
  then show ?thesis
    using GetCompact_nat [OF pos] GetCompact_nat [OF assms(1,2)] high len assms(2) pos by simp
qed

text \<open>
  The compact form keeps a target of up to 256 bits to within one part in \<open>2 ^ 15\<close>, rounding down:
  decoding never gives a larger target, and encoding the decoded target gives the same compact form
  again, so comparing \<open>nBits\<close> fields compares targets.
\<close>

theorem compact_precision:
  assumes "0 \<le> n" and "n < 2 ^ 256"
  shows "0 \<le> SetCompact (GetCompact n) \<and> SetCompact (GetCompact n) \<le> n \<and>
    (n - SetCompact (GetCompact n)) * 2 ^ 15 \<le> n \<and>
    GetCompact (SetCompact (GetCompact n)) = GetCompact n"
proof (cases "n = 0")
  case True
  have "GetCompact 0 = 0"
    by (simp add: GetCompact_def BN_num_bytes_def BN_get_word_def Let_def min_le.simps)
  then show ?thesis using True by (simp add: SetCompact_def Let_def)
next
  case False
  from assms(1) obtain k where n: "n = int k" by (rule nonneg_int_cases)
  with False have pos: "k > 0" by simp
  have "k < 2 ^ 256" using assms(2) unfolding n by (metis of_nat_less_iff of_nat_numeral of_nat_power)
  then have "k < 256 ^ 32" by simp
  then have len: "length (min_le k) \<le> 254" using length_min_le [of k 32] by simp
  let ?d = "256 ^ compact_dropped k"
  have r: "SetCompact (GetCompact n) = int (k div ?d * ?d)"
    unfolding n using compact_roundtrip_nat [OF pos len] .
  have "k - k div ?d * ?d = k mod ?d" by (simp add: minus_div_mult_eq_mod)
  then have "int k - int (k div ?d * ?d) = int (k mod ?d)"
    by (metis of_nat_diff div_times_less_eq_dividend)
  moreover have "int (k mod ?d * 2 ^ 15) \<le> int k"
    using compact_error [OF pos] by (simp only: of_nat_le_iff)
  ultimately have "(int k - int (k div ?d * ?d)) * 2 ^ 15 \<le> int k" by simp
  moreover have "GetCompact (int (k div ?d * ?d)) = GetCompact (int k)"
    using compact_canonical [OF pos len] by simp
  moreover have "0 \<le> int (k div ?d * ?d)" "int (k div ?d * ?d) \<le> int k"
    unfolding of_nat_le_iff by (rule of_nat_0_le_iff, rule div_times_less_eq_dividend)
  ultimately show ?thesis unfolding r unfolding n by blast
qed

theorem compact_precision_witness:
  "SetCompact (GetCompact 0x123456789) \<le> 0x123456789 \<and>
   GetCompact (SetCompact (GetCompact 0x123456789)) = GetCompact 0x123456789"
  using compact_precision [of "0x123456789"] by simp

end
