(* ===== verification/Block.thy ===== *)
theory Block
  imports Transaction
begin

text \<open>
  Blocks of \<open>src/src/main.h\<close>: the header and its hash (\<open>src/src/hashblock.h\<close>), the wire format, the
  Merkle tree with its branches, and the block index with the look-backs over it.  A pointer into the
  block index is the list of the block and its ancestors, newest first; \<open>[]\<close> is \<open>NULL\<close>.
\<close>

section \<open>The block hash\<close>

text \<open>The five vendored digests are parameters; each yields 64 bytes.\<close>

record sphlib =
  keccak512 :: "byte list \<Rightarrow> byte list"
  groestl512 :: "byte list \<Rightarrow> byte list"
  skein512 :: "byte list \<Rightarrow> byte list"
  blake512 :: "byte list \<Rightarrow> byte list"
  jh512 :: "byte list \<Rightarrow> byte list"

definition pn512 :: "byte list \<Rightarrow> nat \<Rightarrow> u32" where
  "pn512 h i = le_word (take 4 (drop (4 * i) h))"

text \<open>\<open>pn\<close> is an array of 32-bit words, so this combines four words, not four bytes.\<close>

definition GetUInt32 :: "byte list \<Rightarrow> u32" where
  "GetUInt32 h = pn512 h 0 OR push_bit 8 (pn512 h 1) OR push_bit 16 (pn512 h 2) OR push_bit 24 (pn512 h 3)"

definition trim256 :: "byte list \<Rightarrow> uint256" where
  "trim256 h = le_word (take 32 h)"

definition sha3v2_round :: "sphlib \<Rightarrow> byte list \<Rightarrow> byte list" where
  "sha3v2_round D h =
     (let h1 = (if GetUInt32 h AND 1 \<noteq> 0 then groestl512 D h else skein512 D h)
      in if GetUInt32 h1 AND 1 \<noteq> 0 then blake512 D h1 else jh512 D h1)"

definition HashSHA3V2 :: "sphlib \<Rightarrow> byte list \<Rightarrow> uint256" where
  "HashSHA3V2 D input = trim256 ((sha3v2_round D ^^ 3) (keccak512 D (take 80 input)))"

definition sha3v1_round :: "sphlib \<Rightarrow> byte list \<Rightarrow> byte list" where
  "sha3v1_round D h =
     (let m = GetUInt32 h AND 3
      in if m = 0 then blake512 D h else if m = 1 then groestl512 D h
         else if m = 2 then jh512 D h else skein512 D h)"

definition HashSHA3V1 :: "sphlib \<Rightarrow> byte list \<Rightarrow> u32 \<Rightarrow> uint256" where
  "HashSHA3V1 D input round_mask =
     (let hash = keccak512 D (take 88 input)
      in trim256 ((sha3v1_round D ^^ unat (GetUInt32 hash AND round_mask)) hash))"

definition HashSHA3 :: "sphlib \<Rightarrow> byte list \<Rightarrow> uint256" where
  "HashSHA3 D input =
     (let round_mask = le_word (take 4 (drop 84 input))
      in if round_mask = 7 then HashSHA3V1 D input round_mask else HashSHA3V2 D input)"

section \<open>Blocks\<close>

record CBlock =
  b_nVersion :: int
  hashPrevBlock :: uint256
  b_hashMerkleRoot :: uint256
  b_nTime :: u32
  b_nBits :: u32
  b_nNonce :: u32
  b_nSuperBlock :: u32
  b_nRoundMask :: u32
  vtx :: "CTransaction list"
  vchBlockSig :: valtype
  vMerkleTree :: "uint256 list"

definition CBlock_SetNull :: CBlock where
  "CBlock_SetNull = \<lparr>b_nVersion = 4, hashPrevBlock = 0, b_hashMerkleRoot = 0, b_nTime = 0, b_nBits = 0,
     b_nNonce = 0, b_nSuperBlock = 0, b_nRoundMask = 0, vtx = [], vchBlockSig = [], vMerkleTree = []\<rparr>"

definition CBlock_IsNull :: "CBlock \<Rightarrow> bool" where
  "CBlock_IsNull b \<longleftrightarrow> b_nBits b = 0"

text \<open>The header, as it is serialised and as it lies in memory from \<open>nVersion\<close> to \<open>nRoundMask\<close>.\<close>

definition ser_header :: "CBlock \<Rightarrow> byte list" where
  "ser_header b = ser_i32 (b_nVersion b) @ ser_u256 (hashPrevBlock b) @ ser_u256 (b_hashMerkleRoot b) @
     ser_u32 (b_nTime b) @ ser_u32 (b_nBits b) @ ser_u32 (b_nNonce b) @ ser_u32 (b_nSuperBlock b) @
     ser_u32 (b_nRoundMask b)"

definition CBlock_GetHash :: "sphlib \<Rightarrow> CBlock \<Rightarrow> uint256" where
  "CBlock_GetHash D b = HashSHA3 D (ser_header b)"

definition ser_CBlock :: "CBlock \<Rightarrow> byte list" where
  "ser_CBlock b = ser_header b @ ser_vector ser_CTransaction (vtx b) @ ser_bytes (vchBlockSig b)"

definition unser_header :: "CBlock reader" where
  "unser_header bs =
     (case unser_i32 bs of None \<Rightarrow> None | Some (v, r1) \<Rightarrow>
     (case unser_u256 r1 of None \<Rightarrow> None | Some (p, r2) \<Rightarrow>
     (case unser_u256 r2 of None \<Rightarrow> None | Some (m, r3) \<Rightarrow>
     (case unser_u32 r3 of None \<Rightarrow> None | Some (t, r4) \<Rightarrow>
     (case unser_u32 r4 of None \<Rightarrow> None | Some (b, r5) \<Rightarrow>
     (case unser_u32 r5 of None \<Rightarrow> None | Some (n, r6) \<Rightarrow>
     (case unser_u32 r6 of None \<Rightarrow> None | Some (s, r7) \<Rightarrow>
     (case unser_u32 r7 of None \<Rightarrow> None | Some (k, r8) \<Rightarrow>
        Some (\<lparr>b_nVersion = v, hashPrevBlock = p, b_hashMerkleRoot = m, b_nTime = t, b_nBits = b,
               b_nNonce = n, b_nSuperBlock = s, b_nRoundMask = k, vtx = [], vchBlockSig = [],
               vMerkleTree = []\<rparr>, r8)))))))))"

definition unser_CBlock :: "CBlock reader" where
  "unser_CBlock bs =
     (case unser_header bs of None \<Rightarrow> None | Some (b, r) \<Rightarrow>
     (case unser_vector unser_CTransaction r of None \<Rightarrow> None | Some (txs, r') \<Rightarrow>
        map_option (\<lambda>(s, r''). (b\<lparr>vtx := txs, vchBlockSig := s\<rparr>, r'')) (unser_bytes r')))"

definition size_CBlock :: "CBlock \<Rightarrow> nat" where
  "size_CBlock b = 88 + size_vector size_CTransaction (vtx b) + size_bytes (vchBlockSig b)"

definition wf_CBlock :: "CBlock \<Rightarrow> bool" where
  "wf_CBlock b \<longleftrightarrow> - (2 ^ 31) \<le> b_nVersion b \<and> b_nVersion b < 2 ^ 31 \<and>
     length (vtx b) \<le> MAX_SIZE \<and> (\<forall>tx \<in> set (vtx b). wf_CTransaction tx) \<and>
     length (vchBlockSig b) \<le> MAX_SIZE \<and> vMerkleTree b = []"

definition Block_IsProofOfStake :: "CBlock \<Rightarrow> bool" where
  "Block_IsProofOfStake b \<longleftrightarrow> length (vtx b) > 1 \<and> IsCoinStake (vtx b ! 1)"

definition Block_IsProofOfWork :: "CBlock \<Rightarrow> bool" where
  "Block_IsProofOfWork b \<longleftrightarrow> \<not> Block_IsProofOfStake b"

definition GetProofOfStake :: "CBlock \<Rightarrow> COutPoint \<times> u32" where
  "GetProofOfStake b =
     (if Block_IsProofOfStake b then (prevout (vin (vtx b ! 1) ! 0), nTime (vtx b ! 1))
      else (COutPoint_SetNull, 0))"

definition GetMaxTransactionTime :: "CBlock \<Rightarrow> int" where
  "GetMaxTransactionTime b = fold (\<lambda>tx m. max m (uint (nTime tx))) (vtx b) 0"

definition GetStakeEntropyBit :: "sphlib \<Rightarrow> CBlock \<Rightarrow> u32" where
  "GetStakeEntropyBit D b = ucast (ucast (CBlock_GetHash D b) AND (1 :: u64))"

section \<open>Merkle trees\<close>

definition Hash2 :: "openssl \<Rightarrow> uint256 \<Rightarrow> uint256 \<Rightarrow> uint256" where
  "Hash2 L a b = Hash L (bytes256 a @ bytes256 b)"

text \<open>One level: pairs of neighbours, the last one paired with itself when their number is odd.\<close>

function merkle_level :: "openssl \<Rightarrow> uint256 list \<Rightarrow> nat \<Rightarrow> nat \<Rightarrow> nat \<Rightarrow> uint256 list" where
  "merkle_level L tree j nSize i =
     (if i < nSize then
        Hash2 L (tree ! (j + i)) (tree ! (j + min (i + 1) (nSize - 1))) #
          merkle_level L tree j nSize (i + 2)
      else [])"
  by pat_completeness auto
termination by (relation "measure (\<lambda>(_, _, _, nSize, i). nSize - i)") auto

function merkle_build :: "openssl \<Rightarrow> uint256 list \<Rightarrow> nat \<Rightarrow> nat \<Rightarrow> uint256 list" where
  "merkle_build L tree j nSize =
     (if nSize > 1 then
        merkle_build L (tree @ merkle_level L tree j nSize 0) (j + nSize) ((nSize + 1) div 2)
      else tree)"
  by pat_completeness auto
termination by (relation "measure (\<lambda>(_, _, _, nSize). nSize)") auto

declare merkle_level.simps [simp del] merkle_build.simps [simp del]

definition BuildMerkleTree :: "openssl \<Rightarrow> CBlock \<Rightarrow> uint256 \<times> CBlock" where
  "BuildMerkleTree L b =
     (let tree = merkle_build L (map (CTransaction_GetHash L) (vtx b)) 0 (length (vtx b))
      in (if tree = [] then 0 else last tree, b\<lparr>vMerkleTree := tree\<rparr>))"

function merkle_branch :: "uint256 list \<Rightarrow> nat \<Rightarrow> nat \<Rightarrow> nat \<Rightarrow> uint256 list" where
  "merkle_branch tree j nSize nIndex =
     (if nSize > 1 then
        tree ! (j + min (nIndex XOR 1) (nSize - 1)) #
          merkle_branch tree (j + nSize) ((nSize + 1) div 2) (nIndex div 2)
      else [])"
  by pat_completeness auto
termination by (relation "measure (\<lambda>(_, _, nSize, _). nSize)") auto

declare merkle_branch.simps [simp del]

definition GetMerkleBranch :: "openssl \<Rightarrow> CBlock \<Rightarrow> nat \<Rightarrow> uint256 list \<times> CBlock" where
  "GetMerkleBranch L b nIndex =
     (let b' = (if vMerkleTree b = [] then snd (BuildMerkleTree L b) else b)
      in (merkle_branch (vMerkleTree b') 0 (length (vtx b)) nIndex, b'))"

fun check_branch :: "openssl \<Rightarrow> uint256 \<Rightarrow> uint256 list \<Rightarrow> nat \<Rightarrow> uint256" where
  "check_branch L h [] nIndex = h"
| "check_branch L h (otherside # branch) nIndex =
     check_branch L (if nIndex AND 1 \<noteq> 0 then Hash2 L otherside h else Hash2 L h otherside)
       branch (nIndex div 2)"

definition CheckMerkleBranch :: "openssl \<Rightarrow> uint256 \<Rightarrow> uint256 list \<Rightarrow> int \<Rightarrow> uint256" where
  "CheckMerkleBranch L h vMerkleBranch nIndex =
     (if nIndex = -1 then 0 else check_branch L h vMerkleBranch (nat nIndex))"

section \<open>The block index\<close>

record CBlockIndex =
  phashBlock :: uint256
  bi_nFile :: u32
  bi_nBlockPos :: u32
  bnChainTrust :: int
  nHeight :: int
  nMint :: int
  nMoneySupply :: int
  nFlags :: u32
  nStakeModifier :: u64
  nStakeModifierChecksum :: u32
  prevoutStake :: COutPoint
  nStakeTime :: u32
  hashProofOfStake :: uint256
  bi_nVersion :: int
  hashMerkleRoot :: uint256
  bi_nTime :: u32
  nBits :: u32
  nNonce :: u32
  nSuperBlock :: u32
  nRoundMask :: u32

definition BLOCK_PROOF_OF_STAKE :: u32 where "BLOCK_PROOF_OF_STAKE = 1"
definition BLOCK_STAKE_ENTROPY :: u32 where "BLOCK_STAKE_ENTROPY = 2"
definition BLOCK_STAKE_MODIFIER :: u32 where "BLOCK_STAKE_MODIFIER = 4"

definition SetProofOfStake :: "CBlockIndex \<Rightarrow> CBlockIndex" where
  "SetProofOfStake i = i\<lparr>nFlags := nFlags i OR BLOCK_PROOF_OF_STAKE\<rparr>"

text \<open>The constructor, with \<open>phashBlock\<close> set as \<open>AddToBlockIndex\<close> does right after it.\<close>

definition CBlockIndex_of :: "sphlib \<Rightarrow> u32 \<Rightarrow> u32 \<Rightarrow> CBlock \<Rightarrow> CBlockIndex" where
  "CBlockIndex_of D nFileIn nBlockPosIn b =
     (let i = \<lparr>phashBlock = CBlock_GetHash D b, bi_nFile = nFileIn, bi_nBlockPos = nBlockPosIn,
            bnChainTrust = 0, nHeight = 0, nMint = 0, nMoneySupply = 0, nFlags = 0, nStakeModifier = 0,
            nStakeModifierChecksum = 0, prevoutStake = COutPoint_SetNull, nStakeTime = 0,
            hashProofOfStake = 0, bi_nVersion = b_nVersion b, hashMerkleRoot = b_hashMerkleRoot b,
            bi_nTime = b_nTime b, nBits = b_nBits b, nNonce = b_nNonce b, nSuperBlock = b_nSuperBlock b,
            nRoundMask = b_nRoundMask b\<rparr>
      in if Block_IsProofOfStake b then
           (SetProofOfStake i)\<lparr>prevoutStake := prevout (vin (vtx b ! 1) ! 0), nStakeTime := nTime (vtx b ! 1)\<rparr>
         else i)"

definition IsProofOfStake :: "CBlockIndex \<Rightarrow> bool" where
  "IsProofOfStake i \<longleftrightarrow> nFlags i AND BLOCK_PROOF_OF_STAKE \<noteq> 0"

definition IsProofOfWork :: "CBlockIndex \<Rightarrow> bool" where
  "IsProofOfWork i \<longleftrightarrow> \<not> IsProofOfStake i"

definition Index_GetStakeEntropyBit :: "CBlockIndex \<Rightarrow> u32" where
  "Index_GetStakeEntropyBit i = drop_bit 1 (nFlags i AND BLOCK_STAKE_ENTROPY)"

definition SetStakeEntropyBit :: "CBlockIndex \<Rightarrow> u32 \<Rightarrow> bool \<times> CBlockIndex" where
  "SetStakeEntropyBit i nEntropyBit =
     (if nEntropyBit > 1 then (False, i)
      else (True, i\<lparr>nFlags := nFlags i OR (if nEntropyBit \<noteq> 0 then BLOCK_STAKE_ENTROPY else 0)\<rparr>))"

definition GeneratedStakeModifier :: "CBlockIndex \<Rightarrow> bool" where
  "GeneratedStakeModifier i \<longleftrightarrow> nFlags i AND BLOCK_STAKE_MODIFIER \<noteq> 0"

definition SetStakeModifier :: "CBlockIndex \<Rightarrow> u64 \<Rightarrow> bool \<Rightarrow> CBlockIndex" where
  "SetStakeModifier i nModifier fGenerated =
     (let i' = i\<lparr>nStakeModifier := nModifier\<rparr>
      in if fGenerated then i'\<lparr>nFlags := nFlags i' OR BLOCK_STAKE_MODIFIER\<rparr> else i')"

definition GetBlockTime :: "CBlockIndex \<Rightarrow> int" where
  "GetBlockTime i = uint (bi_nTime i)"

definition GetMedianTimePast :: "CBlockIndex list \<Rightarrow> int" where
  "GetMedianTimePast chain =
     (let ts = sort (map GetBlockTime (take 11 chain)) in ts ! (length ts div 2))"

fun super_majority :: "int \<Rightarrow> CBlockIndex list \<Rightarrow> nat \<Rightarrow> nat \<Rightarrow> nat \<Rightarrow> nat" where
  "super_majority minVersion chain nRequired 0 nFound = nFound"
| "super_majority minVersion [] nRequired (Suc k) nFound = nFound"
| "super_majority minVersion (i # chain) nRequired (Suc k) nFound =
     (if nFound < nRequired
      then super_majority minVersion chain nRequired k
             (if bi_nVersion i \<ge> minVersion then nFound + 1 else nFound)
      else nFound)"

definition IsSuperMajority :: "int \<Rightarrow> CBlockIndex list \<Rightarrow> nat \<Rightarrow> nat \<Rightarrow> bool" where
  "IsSuperMajority minVersion pstart nRequired nToCheck \<longleftrightarrow>
     super_majority minVersion pstart nRequired nToCheck 0 \<ge> nRequired"

section \<open>Merkle branches lead to the root\<close>

lemma length_merkle_level: "length (merkle_level L tree j n i) = (n - i + 1) div 2"
proof (induction L tree j n i rule: merkle_level.induct)
  case (1 L tree j n i)
  show ?case
  proof (cases "i < n")
    case True
    then have "n - i + 1 = n - (i + 2) + 1 + 2 \<or> n - i + 1 = 2" by arith
    with 1 [OF True] True show ?thesis
      by (subst merkle_level.simps) auto
  qed (simp add: merkle_level.simps)
qed

lemma nth_merkle_level:
  "2 * k + i < n \<Longrightarrow> merkle_level L tree j n i ! k =
     Hash2 L (tree ! (j + i + 2 * k)) (tree ! (j + min (i + 2 * k + 1) (n - 1)))"
proof (induction L tree j n i arbitrary: k rule: merkle_level.induct)
  case (1 L tree j n i)
  then have i: "i < n" by simp
  show ?case
  proof (cases k)
    case 0
    with i show ?thesis by (simp add: merkle_level.simps [of L tree j n i])
  next
    case (Suc k')
    with 1 i have "merkle_level L tree j n (i + 2) ! k' =
        Hash2 L (tree ! (j + (i + 2) + 2 * k')) (tree ! (j + min (i + 2 + 2 * k' + 1) (n - 1)))"
      by simp
    with Suc i show ?thesis
      by (simp add: merkle_level.simps [of L tree j n i] add.assoc)
  qed
qed

lemma merkle_build_prefix: "\<exists>ext. merkle_build L tree j n = tree @ ext"
proof (induction L tree j n rule: merkle_build.induct)
  case (1 L tree j n)
  show ?case
  proof (cases "n > 1")
    case True
    with 1 show ?thesis by (subst merkle_build.simps) auto
  qed (simp add: merkle_build.simps)
qed

lemma xor_1: "(k :: nat) XOR Suc 0 = (if even k then Suc k else k - 1)"
  by (simp add: xor_Suc_0_eq)

lemma branch_root:
  "length tree = j + n \<Longrightarrow> k < n \<Longrightarrow>
     check_branch L (tree ! (j + k)) (merkle_branch (merkle_build L tree j n) j n k) k =
     last (merkle_build L tree j n)"
proof (induction L tree j n arbitrary: k rule: merkle_build.induct)
  case (1 L tree j n)
  show ?case
  proof (cases "n > 1")
    case False
    with 1 have "n = 1" "k = 0" by simp_all
    with 1 show ?thesis
      by (cases tree rule: rev_cases) (auto simp: merkle_build.simps merkle_branch.simps nth_append)
  next
    case True
    let ?lvl = "merkle_level L tree j n 0"
    let ?t = "merkle_build L (tree @ ?lvl) (j + n) ((n + 1) div 2)"
    obtain ext where ext: "?t = (tree @ ?lvl) @ ext" using merkle_build_prefix by blast
    have k: "k div 2 < (n + 1) div 2" "2 * (k div 2) < n" using 1(3) by auto
    let ?sib = "min (k XOR 1) (n - 1)"
    have old: "?t ! (j + i) = tree ! (j + i)" if "i < n" for i
      using ext 1(2) that by (simp add: nth_append)
    have up: "(tree @ ?lvl) ! (j + n + k div 2) =
        (if odd k then Hash2 L (?t ! (j + ?sib)) (tree ! (j + k)) else Hash2 L (tree ! (j + k)) (?t ! (j + ?sib)))"
    proof -
      have "(tree @ ?lvl) ! (j + n + k div 2) = ?lvl ! (k div 2)" using 1(2) by (simp add: nth_append)
      also have "\<dots> = Hash2 L (tree ! (j + 2 * (k div 2))) (tree ! (j + min (2 * (k div 2) + 1) (n - 1)))"
        using nth_merkle_level [of "k div 2" 0 n] k by simp
      finally show ?thesis
        using 1(3) old [of ?sib] True by (cases "even k") (auto simp: xor_1 elim!: evenE oddE)
    qed
    have "check_branch L (tree ! (j + k)) (merkle_branch ?t j n k) k =
        check_branch L ((tree @ ?lvl) ! (j + n + k div 2))
          (merkle_branch ?t (j + n) ((n + 1) div 2) (k div 2)) (k div 2)"
      unfolding up using True by (subst merkle_branch.simps) (simp add: and_one_eq odd_iff_mod_2_eq_one)
    also have "\<dots> = last ?t"
      using 1(1) [OF True, of "k div 2"] 1(2) k by (simp add: length_merkle_level)
    finally show ?thesis using True by (simp add: merkle_build.simps [of L tree j n])
  qed
qed

lemma merkle_branch_root:
  assumes "k < length (vtx b)" and "vMerkleTree b = []"
  shows "CheckMerkleBranch L (CTransaction_GetHash L (vtx b ! k)) (fst (GetMerkleBranch L b k)) (int k) =
    fst (BuildMerkleTree L b)"
proof -
  let ?leaves = "map (CTransaction_GetHash L) (vtx b)"
  have ne: "merkle_build L ?leaves 0 (length (vtx b)) \<noteq> []"
    using assms(1) merkle_build_prefix [of L ?leaves 0 "length (vtx b)"] by auto
  show ?thesis
    using branch_root [of ?leaves 0 "length (vtx b)" k L] assms ne
    by (simp add: CheckMerkleBranch_def GetMerkleBranch_def BuildMerkleTree_def Let_def)
qed

text \<open>
  The branch \<open>GetMerkleBranch\<close> gives for a transaction of a block proves it: \<open>CheckMerkleBranch\<close>
  computes from the transaction's hash and the branch exactly the root \<open>BuildMerkleTree\<close> computes,
  for every position and every number of transactions.
\<close>

theorem merkle_branch_proves:
  assumes "k < length (vtx b)" and "vMerkleTree b = []"
  shows "CheckMerkleBranch L (CTransaction_GetHash L (vtx b ! k)) (fst (GetMerkleBranch L b k)) (int k) =
    fst (BuildMerkleTree L b)"
  using assms by (rule merkle_branch_root)

theorem merkle_branch_proves_witness:
  "let tx = (\<lambda>n. \<lparr>nVersion = 1, nTime = n, vin = [], vout = [], nLockTime = 0\<rparr>);
       b = CBlock_SetNull\<lparr>vtx := [tx 0, tx 1, tx 2, tx 3, tx 4]\<rparr>
   in CheckMerkleBranch sample_openssl (CTransaction_GetHash sample_openssl (tx 4))
        (fst (GetMerkleBranch sample_openssl b 4)) 4 =
      fst (BuildMerkleTree sample_openssl b)"
  using merkle_branch_proves [of 4 "CBlock_SetNull\<lparr>vtx := map (\<lambda>n.
    \<lparr>nVersion = 1, nTime = n, vin = [], vout = [], nLockTime = 0\<rparr>) [0, 1, 2, 3, 4]\<rparr>" sample_openssl]
  by (simp add: CBlock_SetNull_def Let_def)

section \<open>Blocks read back\<close>

lemma length_ser_header: "length (ser_header b) = 88"
  by (simp add: ser_header_def ser_i32_def ser_u32_def ser_u256_def)

lemma unser_header_ser:
  assumes "- (2 ^ 31) \<le> b_nVersion b" and "b_nVersion b < 2 ^ 31"
  shows "unser_header (ser_header b @ r) =
    Some (b\<lparr>vtx := [], vchBlockSig := [], vMerkleTree := []\<rparr>, r)"
  using assms
  by (simp add: ser_header_def unser_header_def i32.read_back u32.read_back u256.read_back)

interpretation block: codec ser_CBlock unser_CBlock size_CBlock wf_CBlock
  by unfold_locales
    (auto simp: ser_CBlock_def unser_CBlock_def size_CBlock_def wf_CBlock_def unser_header_ser
      length_ser_header transaction.vector_read_back transaction.vector_size bytes.read_back bytes.size_ok)



section \<open>What the block hash commits to\<close>

lemma header_parts:
  "take 80 (ser_header b) = ser_i32 (b_nVersion b) @ ser_u256 (hashPrevBlock b) @
     ser_u256 (b_hashMerkleRoot b) @ ser_u32 (b_nTime b) @ ser_u32 (b_nBits b) @ ser_u32 (b_nNonce b)"
  "take 4 (drop 84 (ser_header b)) = ser_u32 (b_nRoundMask b)"
  by (simp_all add: ser_header_def ser_i32_def ser_u32_def ser_u256_def)

lemma round_mask_read: "le_word (ser_u32 w) = w"
  using unsigned_less [of w, where ?'a = nat] by (simp add: ser_u32_def le_word_def)

text \<open>
  Unless the round mask is 7, the hash of a block covers only its first 80 header bytes: blocks that
  differ in the super-block number or in the round mask have the same hash.
\<close>

theorem block_hash_ignores_superblock:
  assumes "b_nRoundMask b \<noteq> 7" and "m \<noteq> 7"
  shows "CBlock_GetHash D (b\<lparr>b_nSuperBlock := s, b_nRoundMask := m\<rparr>) = CBlock_GetHash D b"
  using assms
  by (simp add: CBlock_GetHash_def HashSHA3_def header_parts round_mask_read HashSHA3V2_def Let_def)

theorem block_hash_ignores_superblock_witness:
  "CBlock_GetHash \<lparr>keccak512 = id, groestl512 = rev, skein512 = id, blake512 = rev, jh512 = id\<rparr>
     (CBlock_SetNull\<lparr>b_nSuperBlock := 9, b_nRoundMask := 3\<rparr>) =
   CBlock_GetHash \<lparr>keccak512 = id, groestl512 = rev, skein512 = id, blake512 = rev, jh512 = id\<rparr>
     CBlock_SetNull"
  by (rule block_hash_ignores_superblock) (simp_all add: CBlock_SetNull_def)

end
