(* ===== verification/Difficulty.thy ===== *)
theory Difficulty
  imports Compact Block "HOL-Library.Signed_Division"
begin

text \<open>
  Difficulty of \<open>src/src/main.cpp\<close>: target limits, retargeting, the bounds used against spam, proof of
  work, and the trust of a block.  Big-number comparisons and products are those of the integers,
  \<open>BN_div\<close> truncates towards zero.
\<close>

definition bnProofOfWorkLimit :: "openssl \<Rightarrow> CBigNum" where
  "bnProofOfWorkLimit L = setuint256 L (drop_bit 20 (NOT 0))"

definition bnProofOfStakeLimit :: "openssl \<Rightarrow> CBigNum" where
  "bnProofOfStakeLimit L = setuint256 L (drop_bit 20 (NOT 0))"

definition nStakeTargetSpacing :: int where "nStakeTargetSpacing = 20"
definition nWorkTargetSpacing :: int where "nWorkTargetSpacing = 120"

function max_bits_loop :: "CBigNum \<Rightarrow> CBigNum \<Rightarrow> int \<Rightarrow> CBigNum" where
  "max_bits_loop bnTargetLimit bnResult dt =
     (if dt > 0 \<and> bnResult < bnTargetLimit
      then max_bits_loop bnTargetLimit (bnResult * 2) (dt - 24 * 60 * 60) else bnResult)"
  by pat_completeness auto
termination by (relation "measure (\<lambda>(_, _, dt). nat dt)") auto

declare max_bits_loop.simps [simp del]

definition ComputeMaxBits :: "CBigNum \<Rightarrow> u32 \<Rightarrow> int \<Rightarrow> u32" where
  "ComputeMaxBits bnTargetLimit nBase dt =
     (let bnResult = max_bits_loop bnTargetLimit (SetCompact nBase * 2) dt
      in GetCompact (if bnResult > bnTargetLimit then bnTargetLimit else bnResult))"

definition ComputeMinWork :: "openssl \<Rightarrow> u32 \<Rightarrow> int \<Rightarrow> u32" where
  "ComputeMinWork L nBase dt = ComputeMaxBits (bnProofOfWorkLimit L) nBase dt"

definition ComputeMinStake :: "openssl \<Rightarrow> u32 \<Rightarrow> int \<Rightarrow> u32 \<Rightarrow> u32" where
  "ComputeMinStake L nBase dt nBlockTime = ComputeMaxBits (bnProofOfStakeLimit L) nBase dt"

fun GetLastBlockIndex :: "CBlockIndex list \<Rightarrow> bool \<Rightarrow> CBlockIndex list" where
  "GetLastBlockIndex [] fProofOfStake = []"
| "GetLastBlockIndex [i] fProofOfStake = [i]"
| "GetLastBlockIndex (i # j # chain) fProofOfStake =
     (if IsProofOfStake i \<noteq> fProofOfStake then GetLastBlockIndex (j # chain) fProofOfStake
      else i # j # chain)"

definition GetNextTargetRequired :: "openssl \<Rightarrow> CBlockIndex list \<Rightarrow> bool \<Rightarrow> u32" where
  "GetNextTargetRequired L pindexLast fProofOfStake =
     (let maxTargetTimespan = 960; nInterval = 30;
          bnTargetLimit = (if fProofOfStake then bnProofOfStakeLimit L else bnProofOfWorkLimit L)
      in if pindexLast = [] then GetCompact bnTargetLimit
         else
           (let pindexPrev = GetLastBlockIndex pindexLast fProofOfStake
            in if tl pindexPrev = [] then GetCompact bnTargetLimit
               else
                 (let pindexPrevPrev = GetLastBlockIndex (tl pindexPrev) fProofOfStake
                  in if tl pindexPrevPrev = [] then GetCompact bnTargetLimit
                     else
                       (let nSpacing = GetBlockTime (hd pindexPrev) - GetBlockTime (hd pindexPrevPrev);
                            nActualSpacing =
                              (if nSpacing < 0 then 1
                               else if nSpacing > maxTargetTimespan then maxTargetTimespan else nSpacing);
                            nTargetSpacing =
                              (if fProofOfStake then nStakeTargetSpacing else nWorkTargetSpacing);
                            bnNew = SetCompact (nBits (hd pindexPrev)) *
                              setint64 L ((nInterval - 1) * nTargetSpacing + nActualSpacing + nActualSpacing);
                            bnNew = bnNew sdiv setint64 L ((nInterval + 1) * nTargetSpacing)
                        in GetCompact (if bnNew > bnTargetLimit then bnTargetLimit else bnNew)))))"

definition CheckProofOfWork :: "openssl \<Rightarrow> uint256 \<Rightarrow> u32 \<Rightarrow> bool" where
  "CheckProofOfWork L h bits =
     (let bnTarget = SetCompact bits
      in if bnTarget \<le> 0 \<or> bnTarget > bnProofOfWorkLimit L then False
         else if h > getuint256 L bnTarget then False
         else True)"

definition GetBlockTrust :: "openssl \<Rightarrow> CBlockIndex \<Rightarrow> CBigNum" where
  "GetBlockTrust L i =
     (let bnTarget = SetCompact (nBits i)
      in if bnTarget \<le> 0 then 0
         else if IsProofOfStake i then (2 ^ 256) sdiv (bnTarget + 1)
         else
           (let bnPoWTrust = bnProofOfWorkLimit L sdiv (bnTarget + 1)
            in if bnPoWTrust > 1 then bnPoWTrust else 1))"

section \<open>Proof of work\<close>

lemma limit_value:
  "mpi_documented L \<Longrightarrow> bnProofOfWorkLimit L = 2 ^ 236 - 1"
  "mpi_documented L \<Longrightarrow> bnProofOfStakeLimit L = 2 ^ 236 - 1"
proof -
  have "uint (drop_bit 20 (NOT 0) :: uint256) = 2 ^ 236 - 1"
    by (simp add: unsigned_drop_bit_eq unsigned_not_eq take_bit_eq_mod drop_bit_eq_div)
  then show "mpi_documented L \<Longrightarrow> bnProofOfWorkLimit L = 2 ^ 236 - 1"
    "mpi_documented L \<Longrightarrow> bnProofOfStakeLimit L = 2 ^ 236 - 1"
    unfolding bnProofOfWorkLimit_def bnProofOfStakeLimit_def by (simp_all only: setuint256_int)
qed

text \<open>
  C19.  A hash passes \<open>CheckProofOfWork\<close> exactly when, as numbers, the target its \<open>nBits\<close> stand for is
  positive and at most the limit \<open>2 ^ 236 - 1\<close> and the hash is at most the target: the passage
  through big numbers and back to 256 bits loses nothing.
\<close>

theorem CheckProofOfWork_iff:
  assumes "mpi_documented L"
  shows "CheckProofOfWork L h bits \<longleftrightarrow>
    0 < SetCompact bits \<and> SetCompact bits \<le> 2 ^ 236 - 1 \<and> uint h \<le> SetCompact bits"
proof (cases "0 < SetCompact bits \<and> SetCompact bits \<le> 2 ^ 236 - 1")
  case True
  then have "nat \<bar>SetCompact bits\<bar> < 2 ^ 256" by (simp add: nat_less_iff)
  moreover have "getuint256 L (SetCompact bits) = of_nat (nat (SetCompact bits))"
    using True by (simp add: getuint256_word [OF assms])
  ultimately have "unat (getuint256 L (SetCompact bits)) = nat (SetCompact bits)"
    using True by (simp only: unat_of_nat) simp
  then have "h > getuint256 L (SetCompact bits) \<longleftrightarrow> uint h > SetCompact bits"
    using True unfolding word_less_nat_alt by (simp add: nat_less_iff)
  with True show ?thesis by (auto simp: CheckProofOfWork_def Let_def limit_value [OF assms])
qed (auto simp: CheckProofOfWork_def Let_def limit_value [OF assms])

theorem CheckProofOfWork_iff_witness:
  "CheckProofOfWork sample_openssl 5 0x03000007 \<and> \<not> CheckProofOfWork sample_openssl 8 0x03000007"
  unfolding CheckProofOfWork_iff [OF mpi_documented_sample] by (simp add: SetCompact_def Let_def)

end
