(* ===== verification/TxDB.thy ===== *)
theory TxDB
  imports TxRules Difficulty
begin

text \<open>
  The transaction database of \<open>src/src/db.cpp\<close> as the chain code sees it, and reading from the block
  files (\<open>src/src/main.h\<close>, \<open>src/src/main.cpp\<close>).  Berkeley DB is a key-value store that may refuse to
  write a key; what lies at a position of the block files is a parameter.
\<close>

section \<open>The database\<close>

record CTxDB =
  tx_index :: "uint256 \<rightharpoonup> CTxIndex"
  refuses :: "uint256 \<Rightarrow> bool"

definition ReadTxIndex :: "CTxDB \<Rightarrow> uint256 \<Rightarrow> CTxIndex option" where
  "ReadTxIndex txdb h = tx_index txdb h"

definition UpdateTxIndex :: "CTxDB \<Rightarrow> uint256 \<Rightarrow> CTxIndex \<Rightarrow> bool \<times> CTxDB" where
  "UpdateTxIndex txdb h txindex =
     (if refuses txdb h then (False, txdb)
      else (True, txdb\<lparr>tx_index := (tx_index txdb)(h \<mapsto> txindex)\<rparr>))"

definition EraseTxIndex :: "openssl \<Rightarrow> CTxDB \<Rightarrow> CTransaction \<Rightarrow> bool \<times> CTxDB" where
  "EraseTxIndex L txdb tx =
     (let h = CTransaction_GetHash L tx
      in if refuses txdb h then (False, txdb)
         else (True, txdb\<lparr>tx_index := (tx_index txdb)(h := None)\<rparr>))"

definition ContainsTx :: "CTxDB \<Rightarrow> uint256 \<Rightarrow> bool" where
  "ContainsTx txdb h \<longleftrightarrow> tx_index txdb h \<noteq> None"

section \<open>The block files\<close>

text \<open>What opening, seeking and unserialising at a position gives.\<close>

record blockfiles =
  file_tx :: "CDiskTxPos \<rightharpoonup> CTransaction"
  file_block :: "u32 \<times> u32 \<rightharpoonup> CBlock"

text \<open>\<open>CTransaction::ReadFromDisk(txdb, prevout, txindexRet)\<close>; \<open>None\<close> is \<open>false\<close>.\<close>

definition ReadFromDisk :: "blockfiles \<Rightarrow> CTxDB \<Rightarrow> COutPoint \<Rightarrow> (CTransaction \<times> CTxIndex) option" where
  "ReadFromDisk files txdb out =
     (case ReadTxIndex txdb (op_hash out) of
        None \<Rightarrow> None
      | Some txindexRet \<Rightarrow>
          (case file_tx files (ti_pos txindexRet) of
             None \<Rightarrow> None
           | Some tx \<Rightarrow>
               if unat (op_n out) \<ge> length (vout tx) then None else Some (tx, txindexRet)))"

text \<open>\<open>CBlock::ReadFromDisk(nFile, nBlockPos, fReadTransactions)\<close>.\<close>

definition Block_ReadFromDisk ::
  "openssl \<Rightarrow> sphlib \<Rightarrow> blockfiles \<Rightarrow> u32 \<Rightarrow> u32 \<Rightarrow> bool \<Rightarrow> CBlock option" where
  "Block_ReadFromDisk L D files nF nPos fReadTransactions =
     (case file_block files (nF, nPos) of
        None \<Rightarrow> None
      | Some b \<Rightarrow>
          (let b' = (if fReadTransactions then b else b\<lparr>vtx := [], vchBlockSig := []\<rparr>)
           in if fReadTransactions \<and> Block_IsProofOfWork b' \<and>
                 \<not> CheckProofOfWork L (CBlock_GetHash D b') (b_nBits b')
              then None else Some b'))"

text \<open>\<open>CTxIndex(1,1,1)\<close>, the marker of a transaction that is only in the memory pool.\<close>

definition pos_111 :: CDiskTxPos where
  "pos_111 = \<lparr>nFile = 1, nBlockPos = 1, nTxPos = 1\<rparr>"

section \<open>Coin age\<close>

definition getuint64 :: "openssl \<Rightarrow> CBigNum \<Rightarrow> u64" where
  "getuint64 L bn =
     (let vch = BN_bn2mpi L bn
      in if length vch < 4 then 0
         else
           (let body = (case drop 4 vch of [] \<Rightarrow> [] | c # cs \<Rightarrow> (c AND 0x7f) # cs)
            in le_word (take 8 (rev body))))"

definition nStakeMinAge :: int where "nStakeMinAge = 60 * 60 * 24 * 1"

text \<open>The sum over the inputs in cent-seconds; \<open>None\<close> is \<open>false\<close>.\<close>

fun coin_age_loop ::
  "openssl \<Rightarrow> sphlib \<Rightarrow> blockfiles \<Rightarrow> CTxDB \<Rightarrow> u32 \<Rightarrow> CTxIn list \<Rightarrow> CBigNum \<Rightarrow> CBigNum option" where
  "coin_age_loop L D files txdb t [] bnCentSecond = Some bnCentSecond"
| "coin_age_loop L D files txdb t (txin # ins) bnCentSecond =
     (case ReadFromDisk files txdb (prevout txin) of
        None \<Rightarrow> coin_age_loop L D files txdb t ins bnCentSecond
      | Some (txPrev, txindex) \<Rightarrow>
          if t < nTime txPrev then None
          else
            (case Block_ReadFromDisk L D files (nFile (ti_pos txindex)) (nBlockPos (ti_pos txindex)) False of
               None \<Rightarrow> None
             | Some block \<Rightarrow>
                 if uint (b_nTime block) + nStakeMinAge > uint t
                 then coin_age_loop L D files txdb t ins bnCentSecond
                 else
                   (let nValueIn = nValue (vout txPrev ! unat (op_n (prevout txin)))
                    in coin_age_loop L D files txdb t ins
                         (bnCentSecond + nValueIn * uint (t - nTime txPrev) sdiv CENT))))"

definition GetCoinAge ::
  "openssl \<Rightarrow> sphlib \<Rightarrow> blockfiles \<Rightarrow> CTxDB \<Rightarrow> CTransaction \<Rightarrow> u64 option" where
  "GetCoinAge L D files txdb tx =
     (if IsCoinBase tx then Some 0
      else
        (case coin_age_loop L D files txdb (nTime tx) (vin tx) 0 of
           None \<Rightarrow> None
         | Some bnCentSecond \<Rightarrow>
             Some (getuint64 L (bnCentSecond * CENT sdiv COIN sdiv (24 * 60 * 60)))))"

fun block_coin_age_loop ::
  "openssl \<Rightarrow> sphlib \<Rightarrow> blockfiles \<Rightarrow> CTxDB \<Rightarrow> CTransaction list \<Rightarrow> u64 \<Rightarrow> u64 option" where
  "block_coin_age_loop L D files txdb [] nCoinAge = Some nCoinAge"
| "block_coin_age_loop L D files txdb (tx # txs) nCoinAge =
     (case GetCoinAge L D files txdb tx of
        None \<Rightarrow> None
      | Some nTxCoinAge \<Rightarrow> block_coin_age_loop L D files txdb txs (nCoinAge + nTxCoinAge))"

text \<open>\<open>CBlock::GetCoinAge\<close>: at least one coin-day.\<close>

definition Block_GetCoinAge ::
  "openssl \<Rightarrow> sphlib \<Rightarrow> blockfiles \<Rightarrow> CTxDB \<Rightarrow> CBlock \<Rightarrow> u64 option" where
  "Block_GetCoinAge L D files txdb b =
     map_option (\<lambda>n. if n = 0 then 1 else n) (block_coin_age_loop L D files txdb (vtx b) 0)"

end
