(* ===== verification/Rewards.thy ===== *)
theory Rewards
  imports TxDB
begin

text \<open>
  Rewards of \<open>src/src/main.cpp\<close>: heights counted per kind of block, with the checkpoints that shorten
  the walk, and the subsidies.  A chain is the list of a block and its ancestors, newest first; \<open>None\<close>
  is the dereference of a null pointer.  C \<open>double\<close> products are computed exactly and rounded to 53
  significant bits, ties to even.
\<close>

section \<open>Double-precision products\<close>

fun bit_len :: "nat \<Rightarrow> nat" where
  "bit_len n = (if n = 0 then 0 else Suc (bit_len (n div 2)))"

declare bit_len.simps [simp del]

definition round53 :: "nat \<Rightarrow> nat" where
  "round53 p =
     (let k = bit_len p - 53; q = p div 2 ^ k; r = p mod 2 ^ k
      in if k = 0 then p
         else (if 2 * r > 2 ^ k \<or> 2 * r = 2 ^ k \<and> odd q then q + 1 else q) * 2 ^ k)"

text \<open>\<open>(int64)(n * d)\<close> for a positive double \<open>d = m / 2 ^ e\<close> and \<open>n \<ge> 0\<close>.\<close>

definition mul_double :: "nat \<Rightarrow> nat \<Rightarrow> nat \<Rightarrow> nat" where
  "mul_double n m e = round53 (round53 n * m) div 2 ^ e"

definition CIRCULATION_MONEY :: int where "CIRCULATION_MONEY = MAX_MONEY"

text \<open>The doubles nearest to 0.01, 0.001, 0.0001 and 0.9.\<close>

definition times_0_01 :: "int \<Rightarrow> int" where
  "times_0_01 n = int (mul_double (nat n) 5764607523034235 59)"

definition times_0_9 :: "int \<Rightarrow> int" where
  "times_0_9 n = int (mul_double (nat n) 8106479329266893 53)"

definition MAX_MINT_PROOF_OF_STAKE_START :: int where
  "MAX_MINT_PROOF_OF_STAKE_START = int (mul_double (nat COIN) 4611686018427388 62)"

definition MAX_MINT_PROOF_OF_STAKE_END :: int where
  "MAX_MINT_PROOF_OF_STAKE_END = int (mul_double (nat COIN) 7378697629483821 66)"

section \<open>Heights per kind of block\<close>

definition checkpointPoWHeight :: "(int \<times> int) list" where
  "checkpointPoWHeight =
     [(25000, 5587), (50000, 9027), (75000, 12354), (100000, 15639), (125000, 18946), (150000, 22309),
      (175000, 25648), (200000, 28918), (225000, 32194), (250000, 35406), (275000, 38599),
      (300000, 41591), (325000, 44482), (350000, 47332), (375000, 50160), (400000, 53062),
      (425000, 55947), (450000, 61201), (475000, 65087), (500000, 68169), (525000, 71250),
      (550000, 74229), (575000, 77161), (600000, 80039)]"

fun pow_delta_loop :: "CBlockIndex list \<Rightarrow> int \<Rightarrow> int \<Rightarrow> int" where
  "pow_delta_loop [] superBlock count = count"
| "pow_delta_loop (i # chain) superBlock count =
     (let count = (if IsProofOfStake i = False then count + 1 else count)
      in case chain of
           [] \<Rightarrow> count
         | j # _ \<Rightarrow> if nHeight j < superBlock then count else pow_delta_loop chain superBlock count)"

definition CountPowDelta :: "CBlockIndex list \<Rightarrow> int \<Rightarrow> int option" where
  "CountPowDelta pindex superBlock =
     (case pindex of
        [] \<Rightarrow> None
      | i # _ \<Rightarrow>
          (let height = nHeight i + 1; delta = height - superBlock
           in if delta \<le> 0 then Some 0 else Some (pow_delta_loop pindex superBlock 0)))"

text \<open>The walk of \<open>maxCheck\<close> blocks.\<close>

fun pow_height_loop :: "CBlockIndex list \<Rightarrow> nat \<Rightarrow> int \<Rightarrow> int option" where
  "pow_height_loop chain 0 count = Some count"
| "pow_height_loop [] (Suc k) count = None"
| "pow_height_loop (i # chain) (Suc k) count =
     pow_height_loop chain k (if \<not> IsProofOfStake i then count + 1 else count)"

definition GetPowHeight :: "CBlockIndex list \<Rightarrow> int option" where
  "GetPowHeight pindex =
     (case pindex of
        [] \<Rightarrow> None
      | i # _ \<Rightarrow>
          (let height = nHeight i
           in case List.find (\<lambda>(h, _). height > h) (rev checkpointPoWHeight) of
                None \<Rightarrow> map_option (\<lambda>c. c + 1) (pow_height_loop pindex (nat height) 0)
              | Some (h, n) \<Rightarrow> map_option (\<lambda>c. c + n) (pow_height_loop pindex (nat (height - h)) 0)))"

definition GetPosHeight :: "CBlockIndex list \<Rightarrow> int option" where
  "GetPosHeight pindex =
     (case pindex of [] \<Rightarrow> None | i # _ \<Rightarrow> map_option (\<lambda>p. nHeight i - p) (GetPowHeight pindex))"

section \<open>Subsidies\<close>

definition nMinSubsidy :: int where "nMinSubsidy = 1 * COIN"

fun reduce_subsidy :: "nat \<Rightarrow> int \<Rightarrow> int" where
  "reduce_subsidy 0 nSubsidy = nSubsidy"
| "reduce_subsidy (Suc nCount) nSubsidy = reduce_subsidy nCount (times_0_9 nSubsidy)"

definition GetProofOfWorkReward :: "int \<Rightarrow> int \<Rightarrow> CBlockIndex list \<Rightarrow> int option" where
  "GetProofOfWorkReward h nFees pindex =
     (let nSubsidy = (if h = 1 then times_0_01 CIRCULATION_MONEY else 100000 * COIN)
      in case GetPowHeight pindex of
           None \<Rightarrow> None
         | Some hp \<Rightarrow>
             (let nPoWHeight = hp + 1;
                  nReduceFactor = nPoWHeight sdiv 5040;
                  nSubsidy' = (if nReduceFactor > 109 then nMinSubsidy
                               else reduce_subsidy (nat nReduceFactor) nSubsidy)
              in Some (wrap64 (nSubsidy' + nFees))))"

definition POS_BUG_FIX :: int where "POS_BUG_FIX = 451000"

definition GetProofOfStakeReward :: "int \<Rightarrow> CBlockIndex list \<Rightarrow> bool \<Rightarrow> int option" where
  "GetProofOfStakeReward nCoinAge pindex IsNewBlock =
     (case pindex of
        [] \<Rightarrow> None
      | i # _ \<Rightarrow>
          (case GetPosHeight pindex of
             None \<Rightarrow> None
           | Some h \<Rightarrow>
               (let nPoSHeight = (if nHeight i > POS_BUG_FIX \<and> IsNewBlock then h + 1 else h);
                    nRewardCoinDay =
                      (if nPoSHeight < 7884000 then
                         (let nPosStage = nPoSHeight sdiv 388800
                          in MAX_MINT_PROOF_OF_STAKE_START -
                             (MAX_MINT_PROOF_OF_STAKE_START - MAX_MINT_PROOF_OF_STAKE_END) * nPosStage sdiv 20)
                       else MAX_MINT_PROOF_OF_STAKE_END)
                in Some (wrap64 (nCoinAge * nRewardCoinDay)))))"

lemma stake_constants: "MAX_MINT_PROOF_OF_STAKE_START = 1000" "MAX_MINT_PROOF_OF_STAKE_END = 100"
  by (simp_all add: MAX_MINT_PROOF_OF_STAKE_START_def MAX_MINT_PROOF_OF_STAKE_END_def mul_double_def
      round53_def bit_len.simps COIN_def Let_def)

lemma tax: "times_0_01 CIRCULATION_MONEY = 300000000000000"
  by (simp add: times_0_01_def CIRCULATION_MONEY_def mul_double_def round53_def bit_len.simps amount_defs Let_def)

section \<open>The subsidy falls by exactly a tenth\<close>

lemma bit_len_le: "p < 2 ^ b \<Longrightarrow> bit_len p \<le> b"
proof (induction p arbitrary: b rule: bit_len.induct)
  case (1 p)
  show ?case
  proof (cases "p = 0")
    case False
    with 1(2) obtain c where b: "b = Suc c" by (cases b) auto
    with 1(2) have "p div 2 < 2 ^ c" by (simp add: less_mult_imp_div_less mult.commute)
    with 1(1) False b show ?thesis by (subst bit_len.simps) simp
  qed (simp add: bit_len.simps)
qed

lemma round53_small: "p < 2 ^ 53 \<Longrightarrow> round53 p = p"
  using bit_len_le [of p 53] by (simp add: round53_def)

text \<open>Rounding stays above every multiple of the step below, and moves by less than a step.\<close>

lemma round53_near:
  assumes "p < 2 ^ (53 + j)" and "2 ^ j dvd a" and "a \<le> p"
  shows "a \<le> round53 p" and "round53 p \<le> p + 2 ^ j"
proof -
  define k where "k = bit_len p - 53"
  have kj: "k \<le> j" using bit_len_le [OF assms(1)] by (simp add: k_def)
  then have d: "2 ^ k dvd a" using assms(2) by (meson dvd_trans le_imp_power_dvd)
  then have "a div 2 ^ k * 2 ^ k = a" by simp
  moreover have "a div 2 ^ k \<le> p div 2 ^ k" using assms(3) by (rule div_le_mono)
  ultimately have lo: "a \<le> p div 2 ^ k * 2 ^ k" by (metis mult_le_mono1)
  have hi: "p div 2 ^ k * 2 ^ k \<le> p" by simp
  have s: "(2 :: nat) ^ k \<le> 2 ^ j" using kj by simp
  have "round53 p = p \<or> round53 p = p div 2 ^ k * 2 ^ k \<or> round53 p = p div 2 ^ k * 2 ^ k + 2 ^ k"
    by (simp add: round53_def k_def [symmetric] Let_def algebra_simps)
  then show "a \<le> round53 p" "round53 p \<le> p + 2 ^ j"
    using lo hi s assms(3) by (elim disjE; linarith)+
qed

lemma times_0_9_exact:
  assumes "0 \<le> n" and "n \<le> 2 ^ 49"
  shows "times_0_9 n = n * 9 div 10"
proof -
  define k where "k = nat n"
  define p where "p = k * 8106479329266893"
  define q where "q = k * 9 div 10"
  have k: "k \<le> 2 ^ 49" using assms by (simp add: k_def nat_le_iff)
  then have r: "round53 k = k" by (intro round53_small) simp
  have e: "10 * p = 90071992547409920 * q + 9007199254740992 * (k * 9 mod 10) + 2 * k"
  proof -
    have "k * 9 = 10 * q + k * 9 mod 10" by (simp add: q_def)
    then show ?thesis unfolding p_def by linarith
  qed
  have m: "k * 9 mod 10 \<le> 9" by simp
  have a: "q * 9007199254740992 \<le> p" using e by linarith
  have d: "(2 :: nat) ^ 49 dvd q * 9007199254740992"
  proof (rule dvdI)
    show "q * 9007199254740992 = 2 ^ 49 * (q * 16)" by simp
  qed
  have p: "p < 2 ^ (53 + 49)" using k unfolding p_def by simp
  have "q * 9007199254740992 \<le> round53 p" by (rule round53_near(1) [OF p d a])
  moreover have "round53 p < (q + 1) * 9007199254740992"
    using round53_near(2) [OF p d a] e m k by simp
  ultimately have "round53 p div 9007199254740992 = q"
    by (intro div_nat_eqI) (simp_all add: mult.commute)
  then have "mul_double k 8106479329266893 53 = q" by (simp add: mul_double_def r p_def)
  then show ?thesis
    unfolding times_0_9_def k_def q_def using assms(1) by (simp add: nat_mult_distrib zdiv_int)
qed

lemma reduce_subsidy_step:
  "reduce_subsidy (Suc k) n = times_0_9 (reduce_subsidy k n)"
  by (induction k arbitrary: n) simp_all

lemma nine_tenths: "0 \<le> n \<Longrightarrow> 0 \<le> n * 9 div 10 \<and> n * 9 div 10 \<le> (n :: int)"
  by presburger

lemma reduce_subsidy_range:
  assumes "0 \<le> n" and "n \<le> 2 ^ 49"
  shows "0 \<le> reduce_subsidy k n \<and> reduce_subsidy k n \<le> n"
proof (induction k)
  case (Suc k)
  then have "0 \<le> reduce_subsidy k n" "reduce_subsidy k n \<le> 2 ^ 49" using assms by auto
  with Suc nine_tenths [of "reduce_subsidy k n"] show ?case
    unfolding reduce_subsidy_step by (simp add: times_0_9_exact)
qed (use assms in simp)

lemma reduce_subsidy_antimono:
  assumes "0 \<le> n" and "n \<le> 2 ^ 49" and "j \<le> k"
  shows "reduce_subsidy k n \<le> reduce_subsidy j n"
  using assms(3)
proof (induction k rule: dec_induct)
  case (step k)
  have "0 \<le> reduce_subsidy k n" "reduce_subsidy k n \<le> 2 ^ 49"
    using reduce_subsidy_range [OF assms(1, 2), of k] assms(2) by auto
  then have "reduce_subsidy (Suc k) n \<le> reduce_subsidy k n"
    unfolding reduce_subsidy_step using nine_tenths [of "reduce_subsidy k n"] by (simp add: times_0_9_exact)
  with step.IH show ?case by simp
qed simp

lemma reduce_subsidy_109: "COIN \<le> reduce_subsidy 109 (100000 * COIN)"
proof -
  have *: "reduce_subsidy (Suc k) n = reduce_subsidy k (n * 9 div 10)" if "0 \<le> n" "n \<le> 2 ^ 49" for k n
    using times_0_9_exact [OF that] by simp
  show ?thesis
    by (simp add: COIN_def numeral_eq_Suc * del: reduce_subsidy.simps(2))
qed

section \<open>Counting the blocks of each kind\<close>

definition pow_count :: "CBlockIndex list \<Rightarrow> nat" where
  "pow_count chain = length (filter (\<lambda>i. \<not> IsProofOfStake i) chain)"

text \<open>Heights count down to the genesis block, which is proof of work.\<close>

definition chain_ok :: "CBlockIndex list \<Rightarrow> bool" where
  "chain_ok chain \<longleftrightarrow> chain \<noteq> [] \<and> \<not> IsProofOfStake (last chain) \<and>
     (\<forall>k < length chain. nHeight (chain ! k) = int (length chain - 1 - k))"

text \<open>A checkpoint below the top gives the number of proof-of-work blocks up to its height.\<close>

definition checkpoints_ok :: "CBlockIndex list \<Rightarrow> bool" where
  "checkpoints_ok chain \<longleftrightarrow>
     (\<forall>(h, n) \<in> set checkpointPoWHeight. h + 1 < int (length chain) \<longrightarrow>
        int (pow_count (drop (length chain - nat (h + 1)) chain)) = n)"

lemma pow_count_append [simp]: "pow_count (xs @ ys) = pow_count xs + pow_count ys"
  by (simp add: pow_count_def)

lemma pow_height_loop_take:
  "k \<le> length chain \<Longrightarrow> pow_height_loop chain k c = Some (c + int (pow_count (take k chain)))"
  by (induction chain k c rule: pow_height_loop.induct) (auto simp: pow_count_def)

lemma pow_height_loop_ge: "pow_height_loop chain k c = Some d \<Longrightarrow> c \<le> d"
  by (induction chain k c rule: pow_height_loop.induct) (auto split: if_splits)

lemma find_checkpoint:
  "List.find P (rev checkpointPoWHeight) = Some hn \<Longrightarrow> hn \<in> set checkpointPoWHeight \<and> P hn"
  by (auto simp: find_Some_iff in_set_conv_nth simp del: set_rev) (metis nth_mem set_rev length_rev in_set_conv_nth)

lemma checkpoints_positive: "(h, n) \<in> set checkpointPoWHeight \<Longrightarrow> 0 < h \<and> 0 < n"
  by (auto simp: checkpointPoWHeight_def)

lemma GetPowHeight_nonneg: "GetPowHeight chain = Some p \<Longrightarrow> 0 \<le> p"
  by (auto simp: GetPowHeight_def Let_def split: list.splits option.splits
      dest!: pow_height_loop_ge find_checkpoint checkpoints_positive)

text \<open>
  \<open>GetPowHeight\<close> counts the proof-of-work blocks of the chain, genesis included: the walk stops at
  the last checkpoint and adds its count, and as long as the table agrees with the chain the shortcut
  gives what the full walk would.  \<open>GetPosHeight\<close> is then the number of proof-of-stake blocks, less one.
\<close>

theorem GetPowHeight_counts:
  assumes "chain_ok chain" and "checkpoints_ok chain"
  shows "GetPowHeight chain = Some (int (pow_count chain)) \<and>
    GetPosHeight chain = Some (int (length (filter IsProofOfStake chain)) - 1)"
proof -
  obtain i rest where c: "chain = i # rest" using assms(1) by (cases chain) (auto simp: chain_ok_def)
  have h: "nHeight i = int (length chain) - 1"
    using assms(1) c unfolding chain_ok_def by force
  have "GetPowHeight chain = Some (int (pow_count chain))"
  proof (cases "List.find (\<lambda>(h, _). nHeight i > h) (rev checkpointPoWHeight)")
    case None
    have "chain = take (length chain - 1) chain @ [last chain]"
      using assms(1) by (simp add: chain_ok_def butlast_conv_take [symmetric] del: One_nat_def)
    then have "pow_count chain = pow_count (take (length chain - 1) chain) + 1"
      using assms(1) by (metis pow_count_append pow_count_def chain_ok_def filter.simps One_nat_def list.size(3,4) add_0)
    then show ?thesis
      using None h c pow_height_loop_take [of "length chain - 1" chain 0]
      by (simp add: GetPowHeight_def)
  next
    case (Some hn)
    obtain hc n where hn: "hn = (hc, n)" by (cases hn)
    with find_checkpoint [OF Some] have m: "(hc, n) \<in> set checkpointPoWHeight" "hc < nHeight i" by auto
    with checkpoints_positive have hc: "0 < hc" by blast
    have k: "nat (nHeight i - hc) = length chain - nat (hc + 1)" using h hc m(2) by simp
    have "int (pow_count (drop (length chain - nat (hc + 1)) chain)) = n"
      using assms(2) m h unfolding checkpoints_ok_def by fastforce
    moreover have "pow_count chain = pow_count (take (length chain - nat (hc + 1)) chain) +
        pow_count (drop (length chain - nat (hc + 1)) chain)"
      by (metis append_take_drop_id pow_count_append)
    ultimately show ?thesis
      using Some hn c k pow_height_loop_take [of "length chain - nat (hc + 1)" chain 0]
      by (simp add: GetPowHeight_def)
  qed
  moreover have "length (filter IsProofOfStake chain) + pow_count chain = length chain"
    unfolding pow_count_def by (rule sum_length_filter_compl)
  ultimately show ?thesis using c h by (simp add: GetPosHeight_def)
qed

theorem GetPowHeight_counts_witness:
  "let block = (\<lambda>h fl. \<lparr>phashBlock = 0, bi_nFile = 0, bi_nBlockPos = 0, bnChainTrust = 0, nHeight = h, nMint = 0,
         nMoneySupply = 0, nFlags = fl, nStakeModifier = 0, nStakeModifierChecksum = 0,
         prevoutStake = COutPoint_SetNull, nStakeTime = 0, hashProofOfStake = 0, bi_nVersion = 4,
         hashMerkleRoot = 0, bi_nTime = 0, nBits = 0, nNonce = 0, nSuperBlock = 0, nRoundMask = 8\<rparr>)
   in GetPowHeight [block 3 0, block 2 1, block 1 0, block 0 0] = Some 3 \<and>
      GetPosHeight [block 3 0, block 2 1, block 1 0, block 0 0] = Some 0"
proof -
  define block where "block = (\<lambda>h fl. \<lparr>phashBlock = 0, bi_nFile = 0, bi_nBlockPos = 0, bnChainTrust = 0, nHeight = h, nMint = 0,
         nMoneySupply = 0, nFlags = fl, nStakeModifier = 0, nStakeModifierChecksum = 0,
         prevoutStake = COutPoint_SetNull, nStakeTime = 0, hashProofOfStake = 0, bi_nVersion = 4,
         hashMerkleRoot = 0, bi_nTime = 0, nBits = 0, nNonce = 0, nSuperBlock = 0, nRoundMask = 8\<rparr>)"
  let ?c = "[block 3 0, block 2 1, block 1 0, block 0 0]"
  have 1: "chain_ok ?c"
    by (auto simp: chain_ok_def block_def IsProofOfStake_def BLOCK_PROOF_OF_STAKE_def nth_Cons' less_Suc_eq)
  have 2: "checkpoints_ok ?c" by (simp add: checkpoints_ok_def checkpointPoWHeight_def)
  show ?thesis
    unfolding Let_def block_def [symmetric] using GetPowHeight_counts [OF 1 2]
    by (simp add: pow_count_def block_def IsProofOfStake_def BLOCK_PROOF_OF_STAKE_def)
qed

section \<open>Bounds of the rewards\<close>

lemma sdiv_nonneg: "0 \<le> a \<Longrightarrow> 0 < b \<Longrightarrow> a sdiv b = a div (b :: int)"
  by (simp add: signed_divide_int_def sgn_if)

text \<open>The subsidy in exact arithmetic, by the number of proof-of-work blocks so far.\<close>

definition subsidy :: "int \<Rightarrow> int" where
  "subsidy p =
     (let k = (p + 1) div 5040
      in if k > 109 then COIN else ((\<lambda>n. n * 9 div 10) ^^ nat k) (100000 * COIN))"

lemma reduce_subsidy_exact:
  assumes "0 \<le> n" and "n \<le> 2 ^ 49"
  shows "reduce_subsidy k n = ((\<lambda>n. n * 9 div 10) ^^ k) n"
proof (induction k)
  case (Suc k)
  then show ?case
    unfolding reduce_subsidy_step using reduce_subsidy_range [OF assms, of k] assms
    by (simp add: times_0_9_exact)
qed simp

lemma subsidy_start: "0 \<le> 100000 * COIN" "100000 * COIN \<le> 2 ^ 49"
  by (simp_all add: COIN_def)

lemma subsidy_reduce:
  "subsidy p = (let k = (p + 1) div 5040
     in if k > 109 then COIN else reduce_subsidy (nat k) (100000 * COIN))"
  by (simp only: subsidy_def reduce_subsidy_exact [OF subsidy_start])

lemma subsidy_range: "COIN \<le> subsidy p" "subsidy p \<le> 100000 * COIN"
proof -
  have 1: "COIN \<le> reduce_subsidy k (100000 * COIN)" if "k \<le> 109" for k
    using reduce_subsidy_antimono [OF subsidy_start that] reduce_subsidy_109 by (rule order.trans [rotated])
  show "COIN \<le> subsidy p" by (simp add: subsidy_reduce Let_def 1 nat_le_iff)
  have 2: "COIN \<le> 100000 * COIN" by (simp add: COIN_def)
  show "subsidy p \<le> 100000 * COIN"
    using reduce_subsidy_range [OF subsidy_start] 2 by (simp add: subsidy_reduce Let_def)
qed

lemma subsidy_antimono: "p \<le> q \<Longrightarrow> subsidy q \<le> subsidy p"
proof -
  assume "p \<le> q"
  then have le: "(p + 1) div 5040 \<le> (q + 1) div 5040" by (intro zdiv_mono1) simp_all
  show ?thesis
  proof (cases "(q + 1) div 5040 > 109")
    case True
    then show ?thesis using subsidy_range(1) [of p] by (simp add: subsidy_reduce)
  next
    case False
    with le reduce_subsidy_antimono [OF subsidy_start nat_mono [OF le]] show ?thesis
      by (simp add: subsidy_reduce Let_def)
  qed
qed

lemma GetProofOfWorkReward_subsidy:
  assumes "h \<noteq> 1" and "GetPowHeight chain = Some p" and "MoneyRange nFees"
  shows "GetProofOfWorkReward h nFees chain = Some (subsidy p + nFees)"
proof -
  have p: "0 \<le> p" using assms(2) by (rule GetPowHeight_nonneg)
  have "in_i64 (subsidy p + nFees)"
    using subsidy_range [of p] assms(3)
    unfolding in_i64_def i64_min_def i64_max_def MoneyRange_def amount_defs by linarith
  moreover have "GetProofOfWorkReward h nFees chain = Some (wrap64 (subsidy p + nFees))"
    using assms(1, 2) p
    by (simp add: GetProofOfWorkReward_def sdiv_nonneg nMinSubsidy_def subsidy_reduce Let_def)
  ultimately show ?thesis by simp
qed

text \<open>
  The proof-of-work subsidy.  Except for block 1, it is \<open>subsidy\<close> of the number of proof-of-work
  blocks so far: 100000 coins, multiplied by 0.9 every 5040 such blocks, where the products in double
  precision are exactly nine tenths rounded down, and one coin from step 110 on.  It never rises as the
  chain grows and is never below one coin, and adding the fees does not overflow.
\<close>

theorem GetProofOfWorkReward_bounds:
  assumes "h \<noteq> 1" and "GetPowHeight chain = Some p" and "MoneyRange nFees"
  shows "GetProofOfWorkReward h nFees chain = Some (subsidy p + nFees) \<and>
    COIN \<le> subsidy p \<and> subsidy p \<le> 100000 * COIN \<and> (\<forall>q. p \<le> q \<longrightarrow> subsidy q \<le> subsidy p)"
  using GetProofOfWorkReward_subsidy [OF assms] subsidy_range subsidy_antimono by blast

theorem GetProofOfWorkReward_bounds_witness:
  "GetProofOfWorkReward 2 500
     [\<lparr>phashBlock = 0, bi_nFile = 0, bi_nBlockPos = 0, bnChainTrust = 0, nHeight = 0, nMint = 0,
         nMoneySupply = 0, nFlags = 0, nStakeModifier = 0, nStakeModifierChecksum = 0,
         prevoutStake = COutPoint_SetNull, nStakeTime = 0, hashProofOfStake = 0, bi_nVersion = 4,
         hashMerkleRoot = 0, bi_nTime = 0, nBits = 0, nNonce = 0, nSuperBlock = 0, nRoundMask = 8\<rparr>] =
   Some (100000000000 + 500)"
proof -
  let ?g = "\<lparr>phashBlock = 0, bi_nFile = 0, bi_nBlockPos = 0, bnChainTrust = 0, nHeight = 0, nMint = 0,
         nMoneySupply = 0, nFlags = 0, nStakeModifier = 0, nStakeModifierChecksum = 0,
         prevoutStake = COutPoint_SetNull, nStakeTime = 0, hashProofOfStake = 0, bi_nVersion = 4,
         hashMerkleRoot = 0, bi_nTime = 0, nBits = 0, nNonce = 0, nSuperBlock = 0, nRoundMask = 8\<rparr>"
  have "GetPowHeight [?g] = Some 1" by (simp add: GetPowHeight_def checkpointPoWHeight_def)
  from GetProofOfWorkReward_bounds [OF _ this, of 2 500] show ?thesis
    by (simp add: subsidy_def MoneyRange_def amount_defs)
qed

text \<open>
  The proof-of-stake reward: with a count of stake blocks that is not negative, a coin-day earns
  between 100 and 1000 units (0.01 and 0.1 percent), 1000 for the first stage of 388800 stake blocks and
  100 from block 7776000 on, and a coin age within the money supply in coin-days does not overflow.
\<close>

theorem GetProofOfStakeReward_bounds:
  assumes "GetPosHeight (i # chain) = Some h" and "0 \<le> h" and "0 \<le> age" and "age \<le> 2 ^ 50"
  shows "\<exists>r. GetProofOfStakeReward age (i # chain) new = Some r \<and> 100 * age \<le> r \<and> r \<le> 1000 * age \<and>
    (h + 1 < 388800 \<longrightarrow> r = 1000 * age) \<and> (7776000 \<le> h \<longrightarrow> r = 100 * age)"
proof -
  define h' where "h' = (if nHeight i > POS_BUG_FIX \<and> new then h + 1 else h)"
  define rate where
    "rate = (if h' < 7884000 then 1000 - 900 * (h' div 388800) sdiv 20 else (100 :: int))"
  have h': "0 \<le> h'" "h \<le> h'" "h' \<le> h + 1" using assms(2) by (simp_all add: h'_def)
  let ?s = "h' div 388800"
  have s: "0 \<le> ?s" using h'(1) by (simp add: pos_imp_zdiv_nonneg_iff)
  have "900 * ?s div 20 = 45 * ?s" using nonzero_mult_div_cancel_left [of 20 "45 * ?s"] by simp
  then have rate': "rate = (if h' < 7884000 then 1000 - 45 * ?s else 100)"
    using s by (simp add: rate_def sdiv_nonneg)
  have hi: "?s \<le> 20" if "h' < 7884000" using zdiv_mono1 [of h' 7883999 388800] that by simp
  have lo: "20 \<le> ?s" if "7776000 \<le> h'" using zdiv_mono1 [OF that, of 388800] by simp
  have zero: "?s = 0" if "h' < 388800" using h'(1) that by simp
  have rate: "100 \<le> rate" "rate \<le> 1000" "h' < 388800 \<longrightarrow> rate = 1000" "7776000 \<le> h' \<longrightarrow> rate = 100"
    unfolding rate' using s hi lo zero by auto
  have "0 \<le> age * rate" "age * rate \<le> 2 ^ 50 * 1000"
    using assms(3, 4) rate(1, 2) mult_mono [of age "2 ^ 50" rate 1000] by simp_all
  then have "in_i64 (age * rate)" unfolding in_i64_def i64_min_def i64_max_def by simp
  moreover have "GetProofOfStakeReward age (i # chain) new = Some (wrap64 (age * rate))"
    using assms(1) h'(1)
    by (simp add: GetProofOfStakeReward_def h'_def [symmetric] rate_def stake_constants sdiv_nonneg Let_def)
  moreover have "100 * age \<le> age * rate" "age * rate \<le> 1000 * age"
    using mult_left_mono [OF rate(1) assms(3)] mult_left_mono [OF rate(2) assms(3)]
    by (simp_all only: mult.commute)
  ultimately show ?thesis using rate(3, 4) h' by (auto simp: mult.commute)
qed

theorem GetProofOfStakeReward_bounds_witness:
  "\<exists>r. GetProofOfStakeReward 7
     [\<lparr>phashBlock = 0, bi_nFile = 0, bi_nBlockPos = 0, bnChainTrust = 0, nHeight = 0, nMint = 0,
         nMoneySupply = 0, nFlags = 0, nStakeModifier = 0, nStakeModifierChecksum = 0,
         prevoutStake = COutPoint_SetNull, nStakeTime = 0, hashProofOfStake = 0, bi_nVersion = 4,
         hashMerkleRoot = 0, bi_nTime = 0, nBits = 0, nNonce = 0, nSuperBlock = 0, nRoundMask = 8\<rparr>\<lparr>nHeight := 1, nFlags := 1\<rparr>,
      \<lparr>phashBlock = 0, bi_nFile = 0, bi_nBlockPos = 0, bnChainTrust = 0, nHeight = 0, nMint = 0,
         nMoneySupply = 0, nFlags = 0, nStakeModifier = 0, nStakeModifierChecksum = 0,
         prevoutStake = COutPoint_SetNull, nStakeTime = 0, hashProofOfStake = 0, bi_nVersion = 4,
         hashMerkleRoot = 0, bi_nTime = 0, nBits = 0, nNonce = 0, nSuperBlock = 0, nRoundMask = 8\<rparr>] True =
     Some r \<and> r = 7000"
proof -
  let ?g = "\<lparr>phashBlock = 0, bi_nFile = 0, bi_nBlockPos = 0, bnChainTrust = 0, nHeight = 0, nMint = 0,
         nMoneySupply = 0, nFlags = 0, nStakeModifier = 0, nStakeModifierChecksum = 0,
         prevoutStake = COutPoint_SetNull, nStakeTime = 0, hashProofOfStake = 0, bi_nVersion = 4,
         hashMerkleRoot = 0, bi_nTime = 0, nBits = 0, nNonce = 0, nSuperBlock = 0, nRoundMask = 8\<rparr>"
  let ?b = "?g\<lparr>nHeight := 1, nFlags := 1\<rparr>"
  have "GetPosHeight [?b, ?g] = Some 0"
    by (simp add: GetPosHeight_def GetPowHeight_def checkpointPoWHeight_def IsProofOfStake_def
        BLOCK_PROOF_OF_STAKE_def)
  from GetProofOfStakeReward_bounds [OF this, of 7 True] show ?thesis by simp
qed

end
