(* ===== verification/Connect.thy ===== *)
theory Connect
  imports Rewards
begin

text \<open>
  Connecting and disconnecting a transaction (\<open>src/src/main.cpp\<close>): fetching the transactions it spends
  from the pending changes, the database, the block files or the memory pool, checking its inputs and
  marking them spent, and undoing that.  A \<open>mapTestPool\<close> is a list of entries by ascending hash;
  the memory pool enters as the lookup \<open>pool\<close>.  \<open>None\<close> is an exception or a failed assertion.
\<close>

section \<open>FetchInputs\<close>

text \<open>
  The three outcomes: the inputs, some not seen, or definitely invalid (\<open>fInvalid\<close> and \<open>DoS(100)\<close>).
  On failure no caller looks at what has been fetched.
\<close>

datatype fetched = Fetched MapPrevTx | NotFound | InvalidInputs

definition fetch_one ::
  "blockfiles \<Rightarrow> (uint256 \<rightharpoonup> CTransaction) \<Rightarrow> CTxDB \<Rightarrow> (uint256 \<times> CTxIndex) list \<Rightarrow> bool \<Rightarrow> bool \<Rightarrow>
     uint256 \<Rightarrow> (CTxIndex \<times> CTransaction) option" where
  "fetch_one files pool txdb mapTestPool fBlock fMiner h =
     (let found =
            (case map_of mapTestPool h of
               Some txindex \<Rightarrow> if fBlock \<or> fMiner then Some txindex else ReadTxIndex txdb h
             | None \<Rightarrow> ReadTxIndex txdb h)
      in case found of
           None \<Rightarrow>
             if fBlock \<or> fMiner then None
             else
               (case pool h of
                  None \<Rightarrow> None
                | Some txPrev \<Rightarrow>
                    Some (CTxIndex_SetNull\<lparr>vSpent := replicate (length (vout txPrev)) CDiskTxPos_SetNull\<rparr>, txPrev))
         | Some txindex \<Rightarrow>
             if ti_pos txindex = pos_111 then map_option (\<lambda>txPrev. (txindex, txPrev)) (pool h)
             else map_option (\<lambda>txPrev. (txindex, txPrev)) (file_tx files (ti_pos txindex)))"

fun fetch_loop ::
  "(uint256 \<Rightarrow> (CTxIndex \<times> CTransaction) option) \<Rightarrow> CTxIn list \<Rightarrow> MapPrevTx \<Rightarrow> MapPrevTx option" where
  "fetch_loop fetch [] inputsRet = Some inputsRet"
| "fetch_loop fetch (txin # ins) inputsRet =
     (let h = op_hash (prevout txin)
      in if map_of inputsRet h \<noteq> None then fetch_loop fetch ins inputsRet
         else
           (case fetch h of
              None \<Rightarrow> None
            | Some p \<Rightarrow> fetch_loop fetch ins ((h, p) # inputsRet)))"

definition input_in_range :: "MapPrevTx \<Rightarrow> CTxIn \<Rightarrow> bool" where
  "input_in_range inputs txin =
     (case map_of inputs (op_hash (prevout txin)) of
        None \<Rightarrow> False
      | Some (txindex, txPrev) \<Rightarrow>
          \<not> (unat (op_n (prevout txin)) \<ge> length (vout txPrev) \<or>
             unat (op_n (prevout txin)) \<ge> length (vSpent txindex)))"

definition FetchInputs ::
  "blockfiles \<Rightarrow> (uint256 \<rightharpoonup> CTransaction) \<Rightarrow> CTxDB \<Rightarrow> (uint256 \<times> CTxIndex) list \<Rightarrow> bool \<Rightarrow> bool \<Rightarrow>
     CTransaction \<Rightarrow> MapPrevTx \<Rightarrow> fetched" where
  "FetchInputs files pool txdb mapTestPool fBlock fMiner tx inputsRet =
     (if IsCoinBase tx then Fetched inputsRet
      else
        (case fetch_loop (fetch_one files pool txdb mapTestPool fBlock fMiner) (vin tx) inputsRet of
           None \<Rightarrow> NotFound
         | Some inputs \<Rightarrow>
             if \<forall>txin \<in> set (vin tx). input_in_range inputs txin then Fetched inputs else InvalidInputs))"

section \<open>ConnectInputs\<close>

definition nCoinbaseMaturity :: int where "nCoinbaseMaturity = 50"

text \<open>The walk back over blocks less than \<open>nCoinbaseMaturity\<close> deep, looking for the one of \<open>pos\<close>.\<close>

fun immature :: "int \<Rightarrow> CDiskTxPos \<Rightarrow> CBlockIndex list \<Rightarrow> bool" where
  "immature h0 pos [] = False"
| "immature h0 pos (i # chain) =
     (if \<not> h0 - nHeight i < nCoinbaseMaturity then False
      else if bi_nBlockPos i = nBlockPos pos \<and> bi_nFile i = nFile pos then True
      else immature h0 pos chain)"

text \<open>The first loop: the inexpensive checks, and the value of the inputs.\<close>

fun check_inputs ::
  "CBlockIndex list \<Rightarrow> CTransaction \<Rightarrow> MapPrevTx \<Rightarrow> CTxIn list \<Rightarrow> int \<Rightarrow> (verdict \<times> int) option" where
  "check_inputs pindexBlock tx inputs [] nValueIn = Some (Valid, nValueIn)"
| "check_inputs pindexBlock tx inputs (txin # ins) nValueIn =
     (case map_of inputs (op_hash (prevout txin)) of
        None \<Rightarrow> None
      | Some (txindex, txPrev) \<Rightarrow>
          (let n = unat (op_n (prevout txin))
           in if n \<ge> length (vout txPrev) \<or> n \<ge> length (vSpent txindex) then Some (Invalid 100, nValueIn)
              else if (IsCoinBase txPrev \<or> IsCoinStake txPrev) \<and>
                      immature (case pindexBlock of [] \<Rightarrow> 0 | i # _ \<Rightarrow> nHeight i) (ti_pos txindex) pindexBlock
              then Some (Invalid 0, nValueIn)
              else if nTime txPrev > nTime tx then Some (Invalid 100, nValueIn)
              else
                (let v = nValue (vout txPrev ! n); nValueIn' = wrap64 (nValueIn + v)
                 in if \<not> MoneyRange v \<or> \<not> MoneyRange nValueIn' then Some (Invalid 100, nValueIn')
                    else check_inputs pindexBlock tx inputs ins nValueIn')))"

text \<open>
  The second loop: conflicts and signatures, marking each outpoint spent.  \<open>fVerify\<close> says whether
  signatures are checked; \<open>k\<close> is the index of the input.
\<close>

fun connect_loop ::
  "openssl \<Rightarrow> int \<Rightarrow> CTransaction \<Rightarrow> CDiskTxPos \<Rightarrow> bool \<Rightarrow> bool \<Rightarrow> bool \<Rightarrow> CTxIn list \<Rightarrow> nat \<Rightarrow>
     MapPrevTx \<Rightarrow> (uint256 \<times> CTxIndex) list \<Rightarrow> CSignatureCache \<Rightarrow>
     (verdict \<times> (uint256 \<times> CTxIndex) list \<times> CSignatureCache) option" where
  "connect_loop L nMax tx posThisTx fWrite fVerify fStrict [] k inputs mapTestPool cache =
     Some (Valid, mapTestPool, cache)"
| "connect_loop L nMax tx posThisTx fWrite fVerify fStrict (txin # ins) k inputs mapTestPool cache =
     (let h = op_hash (prevout txin); n = unat (op_n (prevout txin))
      in case map_of inputs h of
           None \<Rightarrow> None
         | Some (txindex, txPrev) \<Rightarrow>
             if \<not> CDiskTxPos_IsNull (vSpent txindex ! n) then Some (Invalid 0, mapTestPool, cache)
             else
               (case (if fVerify then VerifySignature L nMax txPrev tx k fStrict 0 cache
                      else Some (True, cache)) of
                  None \<Rightarrow> None
                | Some (False, cache1) \<Rightarrow>
                    (case (if fStrict then VerifySignature L nMax txPrev tx k False 0 cache1
                           else Some (False, cache1)) of
                       None \<Rightarrow> None
                     | Some (ok, cache2) \<Rightarrow> Some (Invalid (if ok then 0 else 100), mapTestPool, cache2))
                | Some (True, cache1) \<Rightarrow>
                    (let txindex' = txindex\<lparr>vSpent := (vSpent txindex)[n := posThisTx]\<rparr>
                     in connect_loop L nMax tx posThisTx fWrite fVerify fStrict ins (Suc k)
                          ((h, (txindex', txPrev)) # inputs)
                          (if fWrite then map_put h txindex' mapTestPool else mapTestPool) cache1)))"

text \<open>The rules on fees and on the stake reward, after both loops.\<close>

definition check_fees ::
  "openssl \<Rightarrow> sphlib \<Rightarrow> blockfiles \<Rightarrow> CTxDB \<Rightarrow> CBlockIndex list \<Rightarrow> bool \<Rightarrow> CTransaction \<Rightarrow> int \<Rightarrow>
     verdict option" where
  "check_fees L D files txdb pindexBlock fBlock tx nValueIn =
     (let minFee = GetMinFee tx 1 False GMF_BLOCK 0
      in if IsCoinStake tx then
           (case GetCoinAge L D files txdb tx of
              None \<Rightarrow> Some (Invalid 0)
            | Some nCoinAge \<Rightarrow>
                (case GetValueOut tx of
                   None \<Rightarrow> None
                 | Some nValueOut \<Rightarrow>
                     (case GetProofOfStakeReward (sint nCoinAge) pindexBlock False of
                        None \<Rightarrow> None
                      | Some reward \<Rightarrow>
                          Some (if wrap64 (nValueOut - nValueIn) >
                                   wrap64 (wrap64 (reward - minFee) + MIN_TX_FEE)
                                then Invalid 100 else Valid))))
         else
           (case GetValueOut tx of
              None \<Rightarrow> None
            | Some nValueOut \<Rightarrow>
                (let nTxFee = wrap64 (nValueIn - nValueOut)
                 in Some (if nValueIn < nValueOut then Invalid 100
                          else if nTxFee < 0 then Invalid 100
                          else if nTxFee < minFee then Invalid (if fBlock then 100 else 0)
                          else if \<not> MoneyRange nTxFee then Invalid 100
                          else Valid))))"

definition ConnectInputs ::
  "openssl \<Rightarrow> sphlib \<Rightarrow> blockfiles \<Rightarrow> int \<Rightarrow> int \<Rightarrow> int \<Rightarrow> CTxDB \<Rightarrow> MapPrevTx \<Rightarrow> (uint256 \<times> CTxIndex) list \<Rightarrow>
     CDiskTxPos \<Rightarrow> CBlockIndex list \<Rightarrow> bool \<Rightarrow> bool \<Rightarrow> bool \<Rightarrow> CTransaction \<Rightarrow> CSignatureCache \<Rightarrow>
     (verdict \<times> (uint256 \<times> CTxIndex) list \<times> CSignatureCache) option" where
  "ConnectInputs L D files nMax nBestHeight nBlocksEstimate txdb inputs mapTestPool posThisTx pindexBlock
       fBlock fMiner fStrict tx cache =
     (if IsCoinBase tx then Some (Valid, mapTestPool, cache)
      else
        (case check_inputs pindexBlock tx inputs (vin tx) 0 of
           None \<Rightarrow> None
         | Some (Invalid d, _) \<Rightarrow> Some (Invalid d, mapTestPool, cache)
         | Some (Valid, nValueIn) \<Rightarrow>
             (case connect_loop L nMax tx posThisTx (fBlock \<or> fMiner)
                     (\<not> (fBlock \<and> nBestHeight < nBlocksEstimate)) fStrict (vin tx) 0 inputs mapTestPool cache of
                None \<Rightarrow> None
              | Some (Invalid d, mapTestPool', cache') \<Rightarrow> Some (Invalid d, mapTestPool', cache')
              | Some (Valid, mapTestPool', cache') \<Rightarrow>
                  map_option (\<lambda>v. (v, mapTestPool', cache'))
                    (check_fees L D files txdb pindexBlock fBlock tx nValueIn))))"

section \<open>ClientConnectInputs and DisconnectInputs\<close>

fun client_loop ::
  "openssl \<Rightarrow> int \<Rightarrow> (uint256 \<rightharpoonup> CTransaction) \<Rightarrow> CTransaction \<Rightarrow> CTxIn list \<Rightarrow> nat \<Rightarrow> int \<Rightarrow>
     CSignatureCache \<Rightarrow> (int option \<times> CSignatureCache) option" where
  "client_loop L nMax pool tx [] k nValueIn cache = Some (Some nValueIn, cache)"
| "client_loop L nMax pool tx (txin # ins) k nValueIn cache =
     (let n = unat (op_n (prevout txin))
      in case pool (op_hash (prevout txin)) of
           None \<Rightarrow> Some (None, cache)
         | Some txPrev \<Rightarrow>
             if n \<ge> length (vout txPrev) then Some (None, cache)
             else
               (case VerifySignature L nMax txPrev tx k True 0 cache of
                  None \<Rightarrow> None
                | Some (False, cache') \<Rightarrow> Some (None, cache')
                | Some (True, cache') \<Rightarrow>
                    (let v = nValue (vout txPrev ! n); nValueIn' = wrap64 (nValueIn + v)
                     in if \<not> MoneyRange v \<or> \<not> MoneyRange nValueIn' then Some (None, cache')
                        else client_loop L nMax pool tx ins (Suc k) nValueIn' cache')))"

definition ClientConnectInputs ::
  "openssl \<Rightarrow> int \<Rightarrow> (uint256 \<rightharpoonup> CTransaction) \<Rightarrow> CTransaction \<Rightarrow> CSignatureCache \<Rightarrow>
     (bool \<times> CSignatureCache) option" where
  "ClientConnectInputs L nMax pool tx cache =
     (if IsCoinBase tx then Some (False, cache)
      else
        (case client_loop L nMax pool tx (vin tx) 0 0 cache of
           None \<Rightarrow> None
         | Some (None, cache') \<Rightarrow> Some (False, cache')
         | Some (Some nValueIn, cache') \<Rightarrow>
             map_option (\<lambda>nValueOut. (\<not> nValueOut > nValueIn, cache')) (GetValueOut tx)))"

fun disconnect_loop :: "CTxIn list \<Rightarrow> CTxDB \<Rightarrow> bool \<times> CTxDB" where
  "disconnect_loop [] txdb = (True, txdb)"
| "disconnect_loop (txin # ins) txdb =
     (let h = op_hash (prevout txin); n = unat (op_n (prevout txin))
      in case ReadTxIndex txdb h of
           None \<Rightarrow> (False, txdb)
         | Some txindex \<Rightarrow>
             if n \<ge> length (vSpent txindex) then (False, txdb)
             else
               (case UpdateTxIndex txdb h (txindex\<lparr>vSpent := (vSpent txindex)[n := CDiskTxPos_SetNull]\<rparr>) of
                  (ok, txdb') \<Rightarrow> if \<not> ok then (False, txdb') else disconnect_loop ins txdb'))"

definition DisconnectInputs :: "openssl \<Rightarrow> CTransaction \<Rightarrow> CTxDB \<Rightarrow> bool \<times> CTxDB" where
  "DisconnectInputs L tx txdb =
     (case (if \<not> IsCoinBase tx then disconnect_loop (vin tx) txdb else (True, txdb)) of
        (ok, txdb') \<Rightarrow>
          if \<not> ok then (False, txdb') else (True, snd (EraseTxIndex L txdb' tx)))"

end
