(* ===== verification/Connect_Facts.thy ===== *)
theory Connect_Facts
  imports Connect
begin

text \<open>
  What connecting a transaction guarantees: the inputs existed, were unspent, are signed for and cover
  the outputs; outpoints are spent once; and disconnecting restores the database.
\<close>

section \<open>The first loop\<close>

definition out_hash :: "CTxIn \<Rightarrow> uint256" where "out_hash txin = op_hash (prevout txin)"
definition out_n :: "CTxIn \<Rightarrow> nat" where "out_n txin = unat (op_n (prevout txin))"

definition input_value :: "MapPrevTx \<Rightarrow> CTxIn \<Rightarrow> int" where
  "input_value inputs txin =
     (case map_of inputs (out_hash txin) of None \<Rightarrow> 0 | Some (_, txPrev) \<Rightarrow> nValue (vout txPrev ! out_n txin))"

text \<open>The input exists, is not older than what it spends, has matured and is in the money range.\<close>

definition input_plausible :: "CBlockIndex list \<Rightarrow> CTransaction \<Rightarrow> MapPrevTx \<Rightarrow> CTxIn \<Rightarrow> bool" where
  "input_plausible pindexBlock tx inputs txin \<longleftrightarrow>
     (\<exists>txindex txPrev. map_of inputs (out_hash txin) = Some (txindex, txPrev) \<and>
        out_n txin < length (vout txPrev) \<and> out_n txin < length (vSpent txindex) \<and>
        nTime txPrev \<le> nTime tx \<and> MoneyRange (nValue (vout txPrev ! out_n txin)) \<and>
        \<not> ((IsCoinBase txPrev \<or> IsCoinStake txPrev) \<and>
           immature (case pindexBlock of [] \<Rightarrow> 0 | i # _ \<Rightarrow> nHeight i) (ti_pos txindex) pindexBlock))"

lemma check_inputs_valid:
  assumes "check_inputs chain tx inputs ins v = Some (Valid, w)" and "MoneyRange v"
  shows "(\<forall>txin \<in> set ins. input_plausible chain tx inputs txin) \<and>
    w = v + (\<Sum>txin \<leftarrow> ins. input_value inputs txin) \<and> MoneyRange w"
  using assms
proof (induction ins arbitrary: v)
  case (Cons txin ins)
  obtain idx txPrev where m: "map_of inputs (out_hash txin) = Some (idx, txPrev)"
    using Cons.prems(1) by (auto simp: out_hash_def split: option.splits)
  let ?v = "nValue (vout txPrev ! out_n txin)"
  from Cons.prems(1) m have r: "MoneyRange ?v" "MoneyRange (wrap64 (v + ?v))"
    and rec: "check_inputs chain tx inputs ins (wrap64 (v + ?v)) = Some (Valid, w)"
    and p: "input_plausible chain tx inputs txin"
    by (auto simp: input_plausible_def out_hash_def out_n_def Let_def split: if_splits)
  have "wrap64 (v + ?v) = v + ?v" using r(1) Cons.prems(2) by (simp add: MoneyRange_add)
  with Cons.IH [OF rec r(2)] p m show ?case by (auto simp: input_value_def add.assoc)
qed simp

section \<open>The second loop\<close>

definition set_all :: "'a \<Rightarrow> nat list \<Rightarrow> 'a list \<Rightarrow> 'a list" where
  "set_all x ns xs = fold (\<lambda>n xs. xs[n := x]) ns xs"

lemma set_all_simps [simp]:
  "set_all x [] xs = xs" "set_all x (n # ns) xs = set_all x ns (xs[n := x])"
  by (simp_all add: set_all_def)

lemma length_set_all [simp]: "length (set_all x ns xs) = length xs"
  by (induction ns arbitrary: xs) simp_all

lemma nth_set_all: "m < length xs \<Longrightarrow> set_all x ns xs ! m = (if m \<in> set ns then x else xs ! m)"
  by (induction ns arbitrary: xs) (auto simp: nth_list_update)

lemma set_all_undo:
  assumes "\<forall>n \<in> set ns. n < length xs \<longrightarrow> xs ! n = y"
  shows "set_all y ns (set_all x ns xs) = xs"
  by (rule nth_equalityI) (use assms in \<open>auto simp: nth_set_all\<close>)

text \<open>The outputs of transaction \<open>h\<close> some inputs spend, and its index after they are marked.\<close>

definition outs_of :: "uint256 \<Rightarrow> CTxIn list \<Rightarrow> nat list" where
  "outs_of h ins = map out_n (filter (\<lambda>txin. out_hash txin = h) ins)"

definition mark :: "CDiskTxPos \<Rightarrow> uint256 \<Rightarrow> CTxIn list \<Rightarrow> CTxIndex \<Rightarrow> CTxIndex" where
  "mark p h ins idx = idx\<lparr>vSpent := set_all p (outs_of h ins) (vSpent idx)\<rparr>"

definition input_signed :: "openssl \<Rightarrow> CTransaction \<Rightarrow> bool \<Rightarrow> MapPrevTx \<Rightarrow> CTxIn \<Rightarrow> nat \<Rightarrow> bool" where
  "input_signed L tx fStrict inputs txin k \<longleftrightarrow>
     (\<exists>txindex txPrev. map_of inputs (out_hash txin) = Some (txindex, txPrev) \<and>
        CTransaction_GetHash L txPrev = out_hash txin \<and>
        script_ok L (sig_valid L tx k 0) (scriptSig txin) (scriptPubKey (vout txPrev ! out_n txin)) fStrict)"

definition input_unspent :: "MapPrevTx \<Rightarrow> CTxIn \<Rightarrow> bool" where
  "input_unspent inputs txin \<longleftrightarrow>
     (\<exists>txindex txPrev. map_of inputs (out_hash txin) = Some (txindex, txPrev) \<and>
        CDiskTxPos_IsNull (vSpent txindex ! out_n txin))"

lemma connect_loop_Cons:
  assumes "connect_loop L nMax tx p w v f (txin # ins) k inputs pool cache = Some (Valid, pool', cache')"
  obtains idx txPrev cache1 where
    "map_of inputs (out_hash txin) = Some (idx, txPrev)"
    and "CDiskTxPos_IsNull (vSpent idx ! out_n txin)"
    and "if v then VerifySignature L nMax txPrev tx k f 0 cache = Some (True, cache1) else cache1 = cache"
    and "connect_loop L nMax tx p w v f ins (Suc k)
      ((out_hash txin, (mark p (out_hash txin) [txin] idx, txPrev)) # inputs)
      (if w then map_put (out_hash txin) (mark p (out_hash txin) [txin] idx) pool else pool) cache1 =
      Some (Valid, pool', cache')"
  using assms
  by (auto simp: out_hash_def out_n_def mark_def outs_of_def Let_def split: option.splits if_splits bool.splits prod.splits)

lemma VerifySignature_sound:
  assumes "VerifySignature L nMax txPrev tx k f 0 cache = Some (b, cache')" and "cache_inv L cache"
  shows "cache_inv L cache' \<and>
    (b \<longrightarrow> k < length (vin tx) \<and> CTransaction_GetHash L txPrev = out_hash (vin tx ! k) \<and>
       script_ok L (sig_valid L tx k 0) (scriptSig (vin tx ! k))
         (scriptPubKey (vout txPrev ! out_n (vin tx ! k))) f)"
  using assms(1)
    VerifyScript_cached [OF assms(2), of nMax "scriptSig (vin tx ! k)"
      "scriptPubKey (vout txPrev ! out_n (vin tx ! k))" tx k f 0] assms(2)
  by (auto simp: VerifySignature_def out_hash_def out_n_def Let_def split: if_splits)

text \<open>Every input has its index in the list and in range.\<close>

definition inputs_there :: "MapPrevTx \<Rightarrow> CTxIn list \<Rightarrow> bool" where
  "inputs_there inputs ins \<longleftrightarrow>
     (\<forall>txin \<in> set ins. \<exists>txindex txPrev. map_of inputs (out_hash txin) = Some (txindex, txPrev) \<and>
        out_n txin < length (vSpent txindex))"

lemma inputs_there_step:
  assumes "inputs_there inputs (txin # ins)" and "map_of inputs (out_hash txin) = Some (idx, txPrev)"
  shows "inputs_there ((out_hash txin, (mark p (out_hash txin) [txin] idx, txPrev)) # inputs) ins"
  using assms by (fastforce simp: inputs_there_def mark_def)

lemma connect_loop_unspent:
  assumes "connect_loop L nMax tx p w v f ins k inputs pool cache = Some (Valid, pool', cache')"
    and "inputs_there inputs ins" and "\<not> CDiskTxPos_IsNull p"
  shows "distinct (map prevout ins) \<and> (\<forall>txin \<in> set ins. input_unspent inputs txin)"
  using assms
proof (induction ins arbitrary: k inputs pool cache)
  case (Cons txin ins)
  from Cons.prems(1) obtain idx txPrev cache1 where
    m: "map_of inputs (out_hash txin) = Some (idx, txPrev)"
    and n: "CDiskTxPos_IsNull (vSpent idx ! out_n txin)"
    and rec: "connect_loop L nMax tx p w v f ins (Suc k)
      ((out_hash txin, (mark p (out_hash txin) [txin] idx, txPrev)) # inputs)
      (if w then map_put (out_hash txin) (mark p (out_hash txin) [txin] idx) pool else pool) cache1 =
      Some (Valid, pool', cache')" by (rule connect_loop_Cons)
  note IH = Cons.IH [OF rec inputs_there_step [OF Cons.prems(2) m] Cons.prems(3)]
  have r: "out_n txin < length (vSpent idx)" using Cons.prems(2) m by (auto simp: inputs_there_def)
  have later: "prevout t \<noteq> prevout txin \<and> input_unspent inputs t" if t: "t \<in> set ins" for t
  proof (cases "out_hash t = out_hash txin")
    case True
    have "input_unspent ((out_hash txin, (mark p (out_hash txin) [txin] idx, txPrev)) # inputs) t"
      using IH t by blast
    then have u: "CDiskTxPos_IsNull (set_all p [out_n txin] (vSpent idx) ! out_n t)"
      by (auto simp: input_unspent_def True mark_def outs_of_def)
    with Cons.prems(3) r have "out_n t \<noteq> out_n txin" by auto
    with u True m show ?thesis by (auto simp: input_unspent_def out_n_def)
  next
    case False
    with IH t show ?thesis by (auto simp: input_unspent_def out_hash_def)
  qed
  have "prevout txin \<notin> prevout ` set ins" using later by (metis imageE)
  moreover have "input_unspent inputs txin" using m n by (simp add: input_unspent_def)
  ultimately show ?case using IH later by simp
qed simp

lemma connect_loop_signed:
  assumes "connect_loop L nMax tx p w True f ins k inputs pool cache = Some (Valid, pool', cache')"
    and "ins = drop k (vin tx)" and "cache_inv L cache"
  shows "cache_inv L cache' \<and> (\<forall>j < length ins. input_signed L tx f inputs (ins ! j) (k + j))"
  using assms
proof (induction ins arbitrary: k inputs pool cache)
  case (Cons txin ins)
  from Cons.prems(1) obtain idx txPrev cache1 where
    m: "map_of inputs (out_hash txin) = Some (idx, txPrev)"
    and s: "VerifySignature L nMax txPrev tx k f 0 cache = Some (True, cache1)"
    and rec: "connect_loop L nMax tx p w True f ins (Suc k)
      ((out_hash txin, (mark p (out_hash txin) [txin] idx, txPrev)) # inputs)
      (if w then map_put (out_hash txin) (mark p (out_hash txin) [txin] idx) pool else pool) cache1 =
      Some (Valid, pool', cache')" by (rule connect_loop_Cons) simp
  have k: "k < length (vin tx)" "vin tx ! k = txin" "ins = drop (Suc k) (vin tx)"
    using Cons.prems(2) by (metis drop_eq_Nil linorder_not_less list.discI,
        metis drop_eq_Nil linorder_not_less list.discI nth_via_drop,
        metis drop_Suc list.sel(3) tl_drop)
  note v = VerifySignature_sound [OF s Cons.prems(3)]
  have now: "input_signed L tx f inputs txin k" using v m k by (auto simp: input_signed_def)
  have same: "input_signed L tx f ((out_hash txin, (mark p (out_hash txin) [txin] idx, txPrev)) # inputs) t j =
      input_signed L tx f inputs t j" for t j
    using m by (auto simp: input_signed_def)
  show ?case
    using Cons.IH [OF rec k(3)] v now unfolding same by (auto simp: nth_Cons split: nat.splits)
qed simp

lemma mark_mark: "mark p h ins (mark p h [txin] idx) = mark p h (txin # ins) idx"
  by (simp add: mark_def outs_of_def)

lemma mark_other: "h \<notin> out_hash ` set ins \<Longrightarrow> mark p h ins idx = idx"
proof -
  assume "h \<notin> out_hash ` set ins"
  then have "filter (\<lambda>txin. out_hash txin = h) ins = []" by (auto simp: filter_empty_conv)
  then show ?thesis by (simp add: mark_def outs_of_def)
qed

text \<open>The pending changes afterwards: exactly the spent transactions' indices, with the marks.\<close>

lemma connect_loop_pool:
  assumes "connect_loop L nMax tx p True v f ins k inputs pool cache = Some (Valid, pool', cache')"
    and "sorted_map pool"
  shows "sorted_map pool' \<and>
    map_of pool' h = (if h \<in> out_hash ` set ins then map_option (mark p h ins \<circ> fst) (map_of inputs h)
                      else map_of pool h)"
  using assms
proof (induction ins arbitrary: k inputs pool cache)
  case (Cons txin ins)
  from Cons.prems(1) obtain idx txPrev cache1 where
    m: "map_of inputs (out_hash txin) = Some (idx, txPrev)"
    and rec: "connect_loop L nMax tx p True v f ins (Suc k)
      ((out_hash txin, (mark p (out_hash txin) [txin] idx, txPrev)) # inputs)
      (map_put (out_hash txin) (mark p (out_hash txin) [txin] idx) pool) cache1 =
      Some (Valid, pool', cache')" by (rule connect_loop_Cons) simp
  note IH = Cons.IH [OF rec sorted_map_put [OF Cons.prems(2)]]
  have new: "mark p h (txin # ins) idx = mark p h ins (mark p h [txin] idx)" by (rule mark_mark [symmetric])
  show ?case
  proof (cases "h = out_hash txin")
    case True
    have "map_of pool' h = Some (mark p h ins (mark p h [txin] idx))"
    proof (cases "h \<in> out_hash ` set ins")
      case True
      with IH \<open>h = out_hash txin\<close> show ?thesis by simp
    next
      case False
      with IH \<open>h = out_hash txin\<close> show ?thesis
        by (simp add: map_of_put [OF Cons.prems(2)] mark_other)
    qed
    with True IH m new show ?thesis by simp
  next
    case False
    then have "mark p h (txin # ins) = mark p h ins" by (auto simp: mark_def outs_of_def fun_eq_iff)
    with IH m False show ?thesis by (auto simp: map_of_put [OF Cons.prems(2)])
  qed
qed simp

section \<open>A connected transaction\<close>

lemma GetMinFee_default: "GetMinFee tx 1 False GMF_BLOCK 0 = MIN_TX_FEE"
proof -
  have "wrap64 10000 = 10000" by (simp add: in_i64_def i64_min_def i64_max_def)
  then show ?thesis by (simp add: GetMinFee_def Let_def MoneyRange_def amount_defs)
qed

lemma GetValueOut_range: "GetValueOut tx = Some v \<Longrightarrow> MoneyRange v \<and> v = (\<Sum>t \<leftarrow> vout tx. nValue t)"
  using GetValueOut_loop_iff [of 0 "vout tx" v] by (simp add: GetValueOut_def MoneyRange_def amount_defs)

lemma ConnectInputs_valid_parts:
  assumes "ConnectInputs L D files nMax best est txdb inputs pool p chain fBlock fMiner f tx cache =
      Some (Valid, pool', cache')"
    and "\<not> IsCoinBase tx"
  obtains v where "check_inputs chain tx inputs (vin tx) 0 = Some (Valid, v)"
    and "connect_loop L nMax tx p (fBlock \<or> fMiner) (\<not> (fBlock \<and> best < est)) f (vin tx) 0 inputs pool cache =
      Some (Valid, pool', cache')"
    and "check_fees L D files txdb chain fBlock tx v = Some Valid"
  using assms by (auto simp: ConnectInputs_def split: option.splits verdict.splits)

lemma check_fees_valid:
  assumes "check_fees L D files txdb chain fBlock tx v = Some Valid" and "MoneyRange v"
  shows "if IsCoinStake tx then
      \<exists>age reward. GetCoinAge L D files txdb tx = Some age \<and>
        GetProofOfStakeReward (sint age) chain False = Some reward \<and>
        (0 \<le> reward \<longrightarrow> (\<Sum>t \<leftarrow> vout tx. nValue t) \<le> v + reward)
    else (\<Sum>t \<leftarrow> vout tx. nValue t) + MIN_TX_FEE \<le> v"
proof (cases "IsCoinStake tx")
  case True
  with assms(1) obtain age out reward where
    a: "GetCoinAge L D files txdb tx = Some age" and o: "GetValueOut tx = Some out"
    and r: "GetProofOfStakeReward (sint age) chain False = Some reward"
    and c: "wrap64 (out - v) \<le> wrap64 (wrap64 (reward - MIN_TX_FEE) + MIN_TX_FEE)"
    by (auto simp: check_fees_def Let_def GetMinFee_default not_less split: option.splits if_splits)
  have out: "MoneyRange out" "out = (\<Sum>t \<leftarrow> vout tx. nValue t)" using GetValueOut_range [OF o] by blast+
  have "in_i64 reward"
    using r by (auto simp: GetProofOfStakeReward_def Let_def split: list.splits option.splits)
  then have "out \<le> v + reward" if "0 \<le> reward"
  proof -
    have "in_i64 (out - v)" "in_i64 (reward - MIN_TX_FEE)"
      using out(1) assms(2) \<open>in_i64 reward\<close> that
      by (simp_all add: MoneyRange_def in_i64_def i64_min_def i64_max_def amount_defs)
    then show ?thesis using c \<open>in_i64 reward\<close> by simp
  qed
  with True a r out show ?thesis by auto
next
  case False
  with assms(1) obtain out where o: "GetValueOut tx = Some out"
    and c: "v \<ge> out" "wrap64 (v - out) \<ge> MIN_TX_FEE"
    by (auto simp: check_fees_def Let_def GetMinFee_default not_less split: option.splits if_splits)
  have out: "MoneyRange out" "out = (\<Sum>t \<leftarrow> vout tx. nValue t)" using GetValueOut_range [OF o] by blast+
  have "in_i64 (v - out)"
    using out(1) assms(2) by (simp add: MoneyRange_def in_i64_def i64_min_def i64_max_def amount_defs)
  with False c out show ?thesis by simp
qed

lemma plausible_there:
  "\<forall>txin \<in> set ins. input_plausible chain tx inputs txin \<Longrightarrow> inputs_there inputs ins"
  by (fastforce simp: input_plausible_def inputs_there_def)

section \<open>A concrete run\<close>

text \<open>A digest that is constant, one output, a transaction spending it, and an empty cache.\<close>

definition sample_digest :: openssl where
  "sample_digest = sample_openssl\<lparr>SHA256 := (\<lambda>_. [])\<rparr>"

definition sample_prev :: CTransaction where
  "sample_prev = \<lparr>nVersion = 1, nTime = 1, vin = [\<lparr>prevout = COutPoint 9 0, scriptSig = [], nSequence = 0\<rparr>],
     vout = [\<lparr>nValue = 50000, scriptPubKey = [0x51]\<rparr>], nLockTime = 0\<rparr>"

definition sample_spend :: "uint256 \<Rightarrow> u32 \<Rightarrow> CTransaction" where
  "sample_spend h t = \<lparr>nVersion = 1, nTime = t, vin = [\<lparr>prevout = COutPoint h 0, scriptSig = [], nSequence = 0\<rparr>],
     vout = [\<lparr>nValue = 30000, scriptPubKey = [0x51]\<rparr>], nLockTime = 0\<rparr>"

definition sample_index :: CTxIndex where
  "sample_index = \<lparr>ti_pos = \<lparr>nFile = 1, nBlockPos = 100, nTxPos = 200\<rparr>, vSpent = [CDiskTxPos_SetNull]\<rparr>"

definition sample_pos :: CDiskTxPos where
  "sample_pos = \<lparr>nFile = 1, nBlockPos = 500, nTxPos = 600\<rparr>"

definition sample_cache :: CSignatureCache where
  "sample_cache = \<lparr>setValid = [], rand_tape = (\<lambda>_. 0), rand_pos = 0\<rparr>"

definition sample_db :: CTxDB where
  "sample_db = \<lparr>tx_index = [7 \<mapsto> sample_index], refuses = (\<lambda>_. False)\<rparr>"

definition sample_files :: blockfiles where
  "sample_files = \<lparr>file_tx = (\<lambda>_. Some sample_prev), file_block = (\<lambda>_. None)\<rparr>"

lemmas sample_defs = sample_prev_def sample_spend_def sample_index_def sample_pos_def sample_db_def
  sample_files_def

definition sample_sphlib :: sphlib where
  "sample_sphlib = \<lparr>keccak512 = id, groestl512 = rev, skein512 = id, blake512 = rev, jh512 = id\<rparr>"

lemma sample_parts:
  "vin (sample_spend h t) = [\<lparr>prevout = COutPoint h 0, scriptSig = [], nSequence = 0\<rparr>]"
  "vout sample_prev = [\<lparr>nValue = 50000, scriptPubKey = [0x51]\<rparr>]"
  "\<not> CDiskTxPos_IsNull sample_pos"
  by (simp_all add: sample_spend_def sample_prev_def sample_pos_def CDiskTxPos_IsNull_def)

lemma sample_hash: "CTransaction_GetHash sample_digest tx = 0"
  by (simp add: CTransaction_GetHash_def SerializeHash_def Hash_def sample_digest_def le_word_def)

lemma sample_script: "fst (VerifyScript sample_digest 10 [] [0x51] (sample_spend 0 2) 0 True 0 sample_cache)"
  by code_simp

lemma sample_fees: "check_fees L D files txdb chain b (sample_spend h t) 50000 = Some Valid"
  by (simp add: check_fees_def GetMinFee_default sample_spend_def IsCoinStake_def GetValueOut_def
      MoneyRange_def amount_defs in_i64_def i64_min_def i64_max_def Let_def)

lemma sample_check:
  assumes "t = 2 \<or> t = 3"
  shows "check_inputs [] (sample_spend h t) [(h, (sample_index, sample_prev))]
     (vin (sample_spend h t)) 0 = Some (Valid, 50000)"
  using assms
  by (auto simp: sample_defs Let_def MoneyRange_def amount_defs in_i64_def i64_min_def i64_max_def
      IsCoinBase_def IsCoinStake_def COutPoint_IsNull_def)

lemma sample_not_coinbase: "\<not> IsCoinBase (sample_spend h t)"
  by (simp add: sample_spend_def IsCoinBase_def COutPoint_IsNull_def)

lemma sample_connect_block:
  assumes "t = 2 \<or> t = 3"
  shows "ConnectInputs sample_digest D sample_files 10 0 1 sample_db [(7, (sample_index, sample_prev))] []
      sample_pos [] True False True (sample_spend 7 t) sample_cache =
    Some (Valid, [(7, sample_index\<lparr>vSpent := [sample_pos]\<rparr>)], sample_cache)"
proof -
  have "connect_loop sample_digest 10 (sample_spend 7 t) sample_pos True False True (vin (sample_spend 7 t)) 0
      [(7, (sample_index, sample_prev))] [] sample_cache =
    Some (Valid, [(7, sample_index\<lparr>vSpent := [sample_pos]\<rparr>)], sample_cache)"
    by (simp add: sample_defs CDiskTxPos_IsNull_def CDiskTxPos_SetNull_def Let_def)
  then show ?thesis
    using sample_check [OF assms, of 7] sample_not_coinbase [of 7 t] sample_fees [of sample_digest D sample_files sample_db "[]" True 7 t]
    by (simp add: ConnectInputs_def)
qed

lemma sample_fetch:
  "FetchInputs sample_files pl sample_db [] True False (sample_spend 7 t) [] =
     Fetched [(7, (sample_index, sample_prev))]"
  "FetchInputs sample_files pl sample_db [(7, sample_index\<lparr>vSpent := [sample_pos]\<rparr>)] True False (sample_spend 7 t) [] =
     Fetched [(7, (sample_index\<lparr>vSpent := [sample_pos]\<rparr>, sample_prev))]"
  using sample_not_coinbase [of 7 t]
  by (simp_all add: FetchInputs_def fetch_one_def sample_defs pos_111_def ReadTxIndex_def input_in_range_def
      CDiskTxPos_SetNull_def Let_def)

section \<open>What connecting guarantees\<close>

lemma ConnectInputs_valid_facts:
  assumes "ConnectInputs L D files nMax best est txdb inputs pool p chain fBlock fMiner f tx cache =
      Some (Valid, pool', cache')"
    and "\<not> IsCoinBase tx" and "\<not> CDiskTxPos_IsNull p" and "cache_inv L cache"
  shows "distinct (map prevout (vin tx)) \<and>
    (\<forall>k < length (vin tx). input_plausible chain tx inputs (vin tx ! k) \<and> input_unspent inputs (vin tx ! k) \<and>
       (\<not> (fBlock \<and> best < est) \<longrightarrow> input_signed L tx f inputs (vin tx ! k) k)) \<and>
    (let v = (\<Sum>txin \<leftarrow> vin tx. input_value inputs txin); out = (\<Sum>t \<leftarrow> vout tx. nValue t)
     in if IsCoinStake tx then
          \<exists>age reward. GetCoinAge L D files txdb tx = Some age \<and>
            GetProofOfStakeReward (sint age) chain False = Some reward \<and> (0 \<le> reward \<longrightarrow> out \<le> v + reward)
        else out + MIN_TX_FEE \<le> v)"
proof -
  from assms(1, 2) obtain v where 1: "check_inputs chain tx inputs (vin tx) 0 = Some (Valid, v)"
    and 2: "connect_loop L nMax tx p (fBlock \<or> fMiner) (\<not> (fBlock \<and> best < est)) f (vin tx) 0 inputs pool cache =
      Some (Valid, pool', cache')"
    and 3: "check_fees L D files txdb chain fBlock tx v = Some Valid" by (rule ConnectInputs_valid_parts)
  have "MoneyRange 0" by (simp add: MoneyRange_def amount_defs)
  note v = check_inputs_valid [OF 1 this]
  have u: "distinct (map prevout (vin tx)) \<and> (\<forall>txin \<in> set (vin tx). input_unspent inputs txin)"
    using connect_loop_unspent [OF 2 plausible_there assms(3)] v by blast
  have s: "input_signed L tx f inputs (vin tx ! k) k" if "\<not> (fBlock \<and> best < est)" "k < length (vin tx)" for k
    using connect_loop_signed [of L nMax tx p "fBlock \<or> fMiner" f "vin tx" 0 inputs pool cache] 2 that assms(4)
    by simp
  show ?thesis using v u s check_fees_valid [OF 3] by (auto simp: Let_def)
qed



section \<open>Outpoints are spent once\<close>

text \<open>The indices a block sees: the pending changes over the database.\<close>

definition view :: "CTxDB \<Rightarrow> (uint256 \<times> CTxIndex) list \<Rightarrow> uint256 \<Rightarrow> CTxIndex option" where
  "view txdb pool = tx_index txdb ++ map_of pool"

lemma fetch_one_view: "fetch_one files pl txdb pool True fMiner h = Some x \<Longrightarrow> view txdb pool h = Some (fst x)"
  by (auto simp: fetch_one_def view_def ReadTxIndex_def map_add_def Let_def split: option.splits if_splits)

lemma fetch_loop_from:
  "fetch_loop fetch ins inputs0 = Some inputs \<Longrightarrow> map_of inputs h = Some x \<Longrightarrow>
     map_of inputs0 h = Some x \<or> fetch h = Some x"
proof (induction ins arbitrary: inputs0)
  case (Cons txin ins)
  show ?case
  proof (cases "map_of inputs0 (op_hash (prevout txin))")
    case None
    with Cons.prems(1) obtain y where y: "fetch (op_hash (prevout txin)) = Some y"
      and rec: "fetch_loop fetch ins ((op_hash (prevout txin), y) # inputs0) = Some inputs"
      by (auto simp: Let_def split: option.splits)
    from Cons.IH [OF rec Cons.prems(2)] y show ?thesis by (auto split: if_splits)
  next
    case (Some y)
    with Cons.prems have "fetch_loop fetch ins inputs0 = Some inputs" by (simp add: Let_def)
    with Cons.IH Cons.prems(2) show ?thesis by blast
  qed
qed simp

lemma FetchInputs_view:
  assumes "FetchInputs files pl txdb pool True fMiner tx [] = Fetched inputs"
    and "map_of inputs h = Some x"
  shows "view txdb pool h = Some (fst x)"
proof -
  let ?f = "fetch_one files pl txdb pool True fMiner"
  have "\<not> IsCoinBase tx" using assms by (auto simp: FetchInputs_def)
  with assms(1) have "fetch_loop ?f (vin tx) [] = Some inputs"
    by (simp add: FetchInputs_def split: option.splits if_splits)
  from fetch_loop_from [OF this assms(2)] show ?thesis by (simp add: fetch_one_view)
qed

lemma ConnectInputs_pool:
  assumes "ConnectInputs L D files nMax best est txdb inputs pool p chain True fMiner f tx cache =
      Some (Valid, pool', cache')"
    and "\<not> IsCoinBase tx" and "sorted_map pool"
  shows "sorted_map pool' \<and> inputs_there inputs (vin tx) \<and>
    map_of pool' h = (if h \<in> out_hash ` set (vin tx) then map_option (mark p h (vin tx) \<circ> fst) (map_of inputs h)
                      else map_of pool h)"
proof -
  from assms(1, 2) obtain v where 1: "check_inputs chain tx inputs (vin tx) 0 = Some (Valid, v)"
    and 2: "connect_loop L nMax tx p (True \<or> fMiner) (\<not> (True \<and> best < est)) f (vin tx) 0 inputs pool cache =
      Some (Valid, pool', cache')" by (rule ConnectInputs_valid_parts)
  have "MoneyRange 0" by (simp add: MoneyRange_def amount_defs)
  note v = check_inputs_valid [OF 1 this]
  show ?thesis using connect_loop_pool [OF 2 [unfolded simp_thms] assms(3)] plausible_there v by blast
qed

text \<open>
  C8.  No double spending within a block: once a transaction of the block is connected, a later one that
  shares an outpoint with it and fetches its inputs from the updated pending changes does not connect.
\<close>

theorem no_double_spend:
  assumes "ConnectInputs L D files nMax best est txdb inputs pool p chain True False f tx cache =
      Some (Valid, pool1, cache1)"
    and "sorted_map pool" and "\<not> CDiskTxPos_IsNull p" and "\<not> CDiskTxPos_IsNull p2"
    and "\<not> IsCoinBase tx" and "\<not> IsCoinBase tx2"
    and "out \<in> prevout ` set (vin tx)" and "out \<in> prevout ` set (vin tx2)"
    and "FetchInputs files pl txdb pool1 True False tx2 [] = Fetched inputs2"
  shows "ConnectInputs L D files nMax best est txdb inputs2 pool1 p2 chain True False f tx2 cache2 \<noteq>
    Some (Valid, pool2, cache3)"
proof
  assume c2: "ConnectInputs L D files nMax best est txdb inputs2 pool1 p2 chain True False f tx2 cache2 =
    Some (Valid, pool2, cache3)"
  obtain t1 t2 where t: "t1 \<in> set (vin tx)" "t2 \<in> set (vin tx2)" "prevout t1 = out" "prevout t2 = out"
    using assms(7, 8) by (metis imageE)
  let ?h = "op_hash out" and ?n = "unat (op_n out)"
  note P = ConnectInputs_pool [OF assms(1, 5, 2), of ?h]
  obtain idx txPrev where i: "map_of inputs ?h = Some (idx, txPrev)" "?n < length (vSpent idx)"
    using P t by (auto simp: inputs_there_def out_hash_def out_n_def)
  have "?h \<in> out_hash ` set (vin tx)" using t by (auto simp: out_hash_def)
  then have m: "map_of pool1 ?h = Some (mark p ?h (vin tx) idx)" using P i by simp
  have n: "?n \<in> set (outs_of ?h (vin tx))"
    using t(1, 3) by (auto simp: outs_of_def out_hash_def out_n_def intro!: image_eqI [of _ _ t1])
  from c2 assms(6) obtain v where c: "check_inputs chain tx2 inputs2 (vin tx2) 0 = Some (Valid, v)"
    and l: "connect_loop L nMax tx2 p2 (True \<or> False) (\<not> (True \<and> best < est)) f (vin tx2) 0 inputs2 pool1 cache2 =
      Some (Valid, pool2, cache3)" by (rule ConnectInputs_valid_parts)
  have "MoneyRange 0" by (simp add: MoneyRange_def amount_defs)
  note v = check_inputs_valid [OF c this]
  have "input_unspent inputs2 t2"
    using connect_loop_unspent [OF l plausible_there assms(4)] v t(2) by blast
  then obtain idx2 txPrev2 where i2: "map_of inputs2 ?h = Some (idx2, txPrev2)"
      "CDiskTxPos_IsNull (vSpent idx2 ! ?n)"
    using t(4) by (auto simp: input_unspent_def out_hash_def out_n_def)
  have "view txdb pool1 ?h = Some idx2" using FetchInputs_view [OF assms(9) i2(1)] by simp
  with m have "idx2 = mark p ?h (vin tx) idx" by (simp add: view_def)
  then have "vSpent idx2 ! ?n = p" using i(2) n by (simp add: mark_def nth_set_all)
  with i2(2) assms(3) show False by simp
qed

theorem no_double_spend_witness:
  "ConnectInputs sample_digest sample_sphlib sample_files 10 0 1 sample_db
      [(7, (sample_index\<lparr>vSpent := [sample_pos]\<rparr>, sample_prev))]
      [(7, sample_index\<lparr>vSpent := [sample_pos]\<rparr>)] sample_pos [] True False True (sample_spend 7 3) sample_cache \<noteq>
    Some (Valid, [], sample_cache)"
proof (rule no_double_spend [where out = "COutPoint 7 0"])
  show "ConnectInputs sample_digest sample_sphlib sample_files 10 0 1 sample_db [(7, (sample_index, sample_prev))] []
      sample_pos [] True False True (sample_spend 7 2) sample_cache =
    Some (Valid, [(7, sample_index\<lparr>vSpent := [sample_pos]\<rparr>)], sample_cache)"
    by (rule sample_connect_block) simp
  show "FetchInputs sample_files Map.empty sample_db [(7, sample_index\<lparr>vSpent := [sample_pos]\<rparr>)] True False
      (sample_spend 7 3) [] = Fetched [(7, (sample_index\<lparr>vSpent := [sample_pos]\<rparr>, sample_prev))]"
    by (rule sample_fetch(2))
qed (simp_all add: sample_parts sample_not_coinbase)

section \<open>Disconnecting undoes connecting\<close>

lemma mark_Cons_other: "out_hash txin \<noteq> h \<Longrightarrow> mark p h (txin # ins) = mark p h ins"
  by (simp add: mark_def outs_of_def fun_eq_iff)

lemma disconnect_loop_marks:
  assumes "\<forall>h. \<not> refuses txdb h"
    and "\<forall>txin \<in> set ins. \<exists>idx. tx_index txdb (out_hash txin) = Some idx \<and> out_n txin < length (vSpent idx)"
  shows "disconnect_loop ins txdb =
    (True, txdb\<lparr>tx_index := \<lambda>h. map_option (mark CDiskTxPos_SetNull h ins) (tx_index txdb h)\<rparr>)"
  using assms
proof (induction ins arbitrary: txdb)
  case Nil
  then show ?case by (simp add: mark_def outs_of_def option.map_ident)
next
  case (Cons txin ins)
  let ?m = "mark CDiskTxPos_SetNull" and ?h = "out_hash txin"
  obtain idx where i: "tx_index txdb ?h = Some idx" "out_n txin < length (vSpent idx)"
    using Cons.prems(2) by auto
  define db where "db = txdb\<lparr>tx_index := (tx_index txdb)(?h \<mapsto> ?m ?h [txin] idx)\<rparr>"
  have step: "disconnect_loop (txin # ins) txdb = disconnect_loop ins db"
    using i Cons.prems(1)
    by (simp add: ReadTxIndex_def UpdateTxIndex_def out_hash_def out_n_def db_def mark_def outs_of_def Let_def)
  have there: "\<forall>t \<in> set ins. \<exists>idx. tx_index db (out_hash t) = Some idx \<and> out_n t < length (vSpent idx)"
    using Cons.prems(2) i by (auto simp: db_def mark_def)
  have "map_option (?m h ins) (tx_index db h) = map_option (?m h (txin # ins)) (tx_index txdb h)" for h
    using i by (cases "h = ?h") (simp_all add: db_def mark_mark mark_Cons_other)
  with Cons.IH [OF _ there] Cons.prems(1) step show ?case by (simp add: db_def)
qed

text \<open>Null positions are the canonical one, as \<open>SetNull\<close> writes it.\<close>

definition nulls_canonical :: "(uint256 \<Rightarrow> CTxIndex option) \<Rightarrow> bool" where
  "nulls_canonical db \<longleftrightarrow>
     (\<forall>h idx. db h = Some idx \<longrightarrow> (\<forall>q \<in> set (vSpent idx). CDiskTxPos_IsNull q \<longrightarrow> q = CDiskTxPos_SetNull))"

lemma mark_undo:
  assumes "\<forall>txin \<in> set ins. out_hash txin = h \<longrightarrow> vSpent idx ! out_n txin = CDiskTxPos_SetNull"
  shows "mark CDiskTxPos_SetNull h ins (mark p h ins idx) = idx"
  using assms by (simp add: mark_def) (subst set_all_undo, auto simp: outs_of_def)

lemma ConnectInputs_view:
  assumes "FetchInputs files pl txdb pool True False tx [] = Fetched inputs"
    and "ConnectInputs L D files nMax best est txdb inputs pool p chain True False f tx cache =
      Some (Valid, pool', cache')"
    and "\<not> IsCoinBase tx" and "sorted_map pool"
  shows "t \<in> set (vin tx) \<Longrightarrow> \<exists>idx. view txdb pool (out_hash t) = Some idx \<and> out_n t < length (vSpent idx) \<and>
      (\<exists>txPrev. map_of inputs (out_hash t) = Some (idx, txPrev))"
    and "view txdb pool' h = map_option (mark p h (vin tx)) (view txdb pool h)"
proof -
  let ?v = "view txdb pool"
  note P = ConnectInputs_pool [OF assms(2, 3, 4)]
  have seen: "\<exists>idx. ?v (out_hash t) = Some idx \<and> out_n t < length (vSpent idx) \<and>
      (\<exists>txPrev. map_of inputs (out_hash t) = Some (idx, txPrev))" if "t \<in> set (vin tx)" for t
    using P that FetchInputs_view [OF assms(1)] by (fastforce simp: inputs_there_def)
  then show "t \<in> set (vin tx) \<Longrightarrow> \<exists>idx. ?v (out_hash t) = Some idx \<and> out_n t < length (vSpent idx) \<and>
      (\<exists>txPrev. map_of inputs (out_hash t) = Some (idx, txPrev))" .
  show "view txdb pool' h = map_option (mark p h (vin tx)) (?v h)"
  proof (cases "h \<in> out_hash ` set (vin tx)")
    case True
    then obtain t where t: "t \<in> set (vin tx)" "h = out_hash t" by blast
    with seen obtain idx txPrev where "?v h = Some idx" "map_of inputs h = Some (idx, txPrev)" by blast
    with True P [of h] show ?thesis by (simp add: view_def)
  next
    case False
    with P [of h] show ?thesis
      by (simp add: view_def map_add_def mark_other map_option_idI split: option.splits)
  qed
qed

text \<open>
  Disconnecting undoes connecting: if a transaction not yet indexed connects on the indices a block
  sees, then \<open>DisconnectInputs\<close>, run on those indices as they are afterwards with the transaction's own
  entry added, restores exactly the indices from before, for coinbases too.
\<close>

lemma disconnect_undoes_connect:
  assumes "FetchInputs files pl txdb pool True False tx [] = Fetched inputs"
    and "ConnectInputs L D files nMax best est txdb inputs pool p chain True False f tx cache =
      Some (Valid, pool', cache')"
    and "sorted_map pool" and "\<not> CDiskTxPos_IsNull p" and "\<forall>h. \<not> refuses txdb h"
    and "view txdb pool (CTransaction_GetHash L tx) = None" and "nulls_canonical (view txdb pool)"
  shows "DisconnectInputs L tx
      (txdb\<lparr>tx_index := (view txdb pool')(CTransaction_GetHash L tx \<mapsto> CTxIndex_new p (length (vout tx)))\<rparr>) =
    (True, txdb\<lparr>tx_index := view txdb pool\<rparr>)"
proof (cases "IsCoinBase tx")
  case True
  with assms(2) have "pool' = pool" by (simp add: ConnectInputs_def)
  with True assms(5, 6) show ?thesis
    by (simp add: DisconnectInputs_def EraseTxIndex_def Let_def fun_upd_idem)
next
  case False
  let ?hx = "CTransaction_GetHash L tx" and ?v = "view txdb pool" and ?v' = "view txdb pool'"
  let ?db = "txdb\<lparr>tx_index := ?v'(?hx \<mapsto> CTxIndex_new p (length (vout tx)))\<rparr>"
  note P = ConnectInputs_pool [OF assms(2) False assms(3)]
  note seen = ConnectInputs_view(1) [OF assms(1, 2) False assms(3)]
  note v' = ConnectInputs_view(2) [OF assms(1, 2) False assms(3)]
  have ne: "out_hash t \<noteq> ?hx" if "t \<in> set (vin tx)" for t using seen [OF that] assms(6) by auto
  have there: "\<forall>t \<in> set (vin tx). \<exists>idx. tx_index ?db (out_hash t) = Some idx \<and> out_n t < length (vSpent idx)"
    using seen ne by (fastforce simp: v' mark_def)
  have unspent: "input_unspent inputs t" if "t \<in> set (vin tx)" for t
  proof -
    from assms(2) False obtain w where
      l: "connect_loop L nMax tx p (True \<or> False) (\<not> (True \<and> best < est)) f (vin tx) 0 inputs pool cache =
        Some (Valid, pool', cache')" by (rule ConnectInputs_valid_parts)
    show ?thesis using connect_loop_unspent [OF l _ assms(4)] P that by blast
  qed
  have restored: "map_option (mark CDiskTxPos_SetNull h (vin tx)) (?v' h) = ?v h" for h
  proof (cases "?v h")
    case (Some idx)
    have "vSpent idx ! out_n t = CDiskTxPos_SetNull" if "t \<in> set (vin tx)" "out_hash t = h" for t
      using seen [OF that(1)] unspent [OF that(1)] that(2) Some assms(7)
      by (auto simp: input_unspent_def nulls_canonical_def)
    with Some show ?thesis by (simp add: v' mark_undo)
  qed (simp add: v')
  have "disconnect_loop (vin tx) ?db =
      (True, ?db\<lparr>tx_index := \<lambda>h. map_option (mark CDiskTxPos_SetNull h (vin tx)) (tx_index ?db h)\<rparr>)"
    by (rule disconnect_loop_marks [OF _ there]) (use assms(5) in simp)
  moreover have "(\<lambda>h. map_option (mark CDiskTxPos_SetNull h (vin tx)) (tx_index ?db h))(?hx := None) = ?v"
    using restored assms(6) by (auto simp: fun_eq_iff)
  ultimately show ?thesis
    using False assms(5) by (simp add: DisconnectInputs_def EraseTxIndex_def Let_def)
qed

end
