(* ===== verification/Kernel.thy ===== *)
theory Kernel
  imports TxDB
begin

text \<open>
  The proof-of-stake kernel of \<open>src/src/kernel.cpp\<close> on the main network: the stake modifier and how it is
  renewed, the kernel hash, and the checks of a coinstake.  \<open>mapBlockIndex\<close> gives a block index entry
  with its ancestors, newest first; following \<open>pnext\<close> is walking the list of the blocks after one in
  the main chain.  Debug output is left out.
\<close>

type_synonym block_index = "uint256 \<rightharpoonup> (CBlockIndex \<times> CBlockIndex list)"

definition nModifierInterval :: int where "nModifierInterval = 10 * 60"
definition MODIFIER_INTERVAL_RATIO :: int where "MODIFIER_INTERVAL_RATIO = 3"
definition nStakeMaxAge :: int where "nStakeMaxAge = 60 * 60 * 24 * 30"

definition GetWeight :: "int \<Rightarrow> int \<Rightarrow> int" where
  "GetWeight nIntervalBeginning nIntervalEnd =
     min (nIntervalEnd - nIntervalBeginning - nStakeMinAge) nStakeMaxAge"

section \<open>Selecting blocks\<close>

text \<open>\<open>None\<close> is \<open>false\<close>; otherwise the modifier and the time it was generated.\<close>

fun GetLastStakeModifier :: "CBlockIndex list \<Rightarrow> (u64 \<times> int) option" where
  "GetLastStakeModifier [] = None"
| "GetLastStakeModifier (i # chain) =
     (if chain \<noteq> [] \<and> \<not> GeneratedStakeModifier i then GetLastStakeModifier chain
      else if \<not> GeneratedStakeModifier i then None
      else Some (nStakeModifier i, GetBlockTime i))"

text \<open>The assertion \<open>0 \<le> nSection < 64\<close> holds at both calls.\<close>

definition GetStakeModifierSelectionIntervalSection :: "nat \<Rightarrow> int" where
  "GetStakeModifierSelectionIntervalSection nSection =
     nModifierInterval * 63 div (63 + (63 - int nSection) * (MODIFIER_INTERVAL_RATIO - 1))"

definition GetStakeModifierSelectionInterval :: int where
  "GetStakeModifierSelectionInterval = (\<Sum>n \<leftarrow> [0..<64]. GetStakeModifierSelectionIntervalSection n)"

definition selection_hash :: "openssl \<Rightarrow> u64 \<Rightarrow> CBlockIndex \<Rightarrow> uint256" where
  "selection_hash L nStakeModifierPrev i =
     (let hashProof = (if IsProofOfStake i then hashProofOfStake i else phashBlock i);
          hashSelection = Hash L (ser_u256 hashProof @ nat_le 8 (unat nStakeModifierPrev))
      in if IsProofOfStake i then drop_bit 32 hashSelection else hashSelection)"

text \<open>
  The loop over the candidates; the best so far is \<open>None\<close> while \<open>fSelected\<close> is false.  The outer
  \<open>None\<close> is a candidate missing from \<open>mapBlockIndex\<close>.
\<close>

fun select_loop ::
  "openssl \<Rightarrow> block_index \<Rightarrow> uint256 list \<Rightarrow> int \<Rightarrow> u64 \<Rightarrow> (int \<times> uint256) list \<Rightarrow>
     (uint256 \<times> CBlockIndex) option \<Rightarrow> (uint256 \<times> CBlockIndex) option option" where
  "select_loop L mapBlockIndex selected nStop nPrev [] best = Some best"
| "select_loop L mapBlockIndex selected nStop nPrev ((_, h) # items) best =
     (case mapBlockIndex h of
        None \<Rightarrow> None
      | Some (i, _) \<Rightarrow>
          if best \<noteq> None \<and> GetBlockTime i > nStop then Some best
          else if phashBlock i \<in> set selected then select_loop L mapBlockIndex selected nStop nPrev items best
          else
            (let hashSelection = selection_hash L nPrev i
             in select_loop L mapBlockIndex selected nStop nPrev items
                  (case best of
                     None \<Rightarrow> Some (hashSelection, i)
                   | Some (hashBest, _) \<Rightarrow>
                       if hashSelection < hashBest then Some (hashSelection, i) else best)))"

definition SelectBlockFromCandidates ::
  "openssl \<Rightarrow> block_index \<Rightarrow> (int \<times> uint256) list \<Rightarrow> uint256 list \<Rightarrow> int \<Rightarrow> u64 \<Rightarrow> CBlockIndex option" where
  "SelectBlockFromCandidates L mapBlockIndex vSortedByTimestamp selected nStop nPrev =
     (case select_loop L mapBlockIndex selected nStop nPrev vSortedByTimestamp None of
        Some (Some (_, i)) \<Rightarrow> Some i
      | _ \<Rightarrow> None)"

section \<open>The stake modifier\<close>

fun modifier_rounds ::
  "openssl \<Rightarrow> block_index \<Rightarrow> (int \<times> uint256) list \<Rightarrow> u64 \<Rightarrow> nat \<Rightarrow> nat \<Rightarrow> int \<Rightarrow> uint256 list \<Rightarrow> u64 \<Rightarrow>
     u64 option" where
  "modifier_rounds L mapBlockIndex cands nPrev nRound 0 nStop selected nNew = Some nNew"
| "modifier_rounds L mapBlockIndex cands nPrev nRound (Suc k) nStop selected nNew =
     (let nStop' = nStop + GetStakeModifierSelectionIntervalSection nRound
      in case SelectBlockFromCandidates L mapBlockIndex cands selected nStop' nPrev of
           None \<Rightarrow> None
         | Some i \<Rightarrow>
             modifier_rounds L mapBlockIndex cands nPrev (Suc nRound) k nStop' (phashBlock i # selected)
               (nNew OR push_bit nRound (ucast (Index_GetStakeEntropyBit i))))"

definition candidates :: "CBlockIndex list \<Rightarrow> int \<Rightarrow> (int \<times> uint256) list" where
  "candidates pindexPrev nStart =
     sort (map (\<lambda>i. (GetBlockTime i, phashBlock i)) (takeWhile (\<lambda>i. GetBlockTime i \<ge> nStart) pindexPrev))"

text \<open>The verdict, \<open>nStakeModifier\<close> and \<open>fGeneratedStakeModifier\<close>.\<close>

definition ComputeNextStakeModifier ::
  "openssl \<Rightarrow> block_index \<Rightarrow> CBlockIndex list \<Rightarrow> bool \<times> u64 \<times> bool" where
  "ComputeNextStakeModifier L mapBlockIndex pindexPrev =
     (if pindexPrev = [] then (True, 0, True)
      else
        (case GetLastStakeModifier pindexPrev of
           None \<Rightarrow> (False, 0, False)
         | Some (nPrev, nModifierTime) \<Rightarrow>
             (let nTimePrev = GetBlockTime (hd pindexPrev)
              in if nModifierTime div nModifierInterval \<ge> nTimePrev div nModifierInterval
                 then (True, nPrev, False)
                 else
                   (let nStart = nTimePrev div nModifierInterval * nModifierInterval -
                          GetStakeModifierSelectionInterval;
                        vSortedByTimestamp = candidates pindexPrev nStart
                    in case modifier_rounds L mapBlockIndex vSortedByTimestamp nPrev 0
                              (min 64 (length vSortedByTimestamp)) nStart [] 0 of
                         None \<Rightarrow> (False, nPrev, False)
                       | Some nNew \<Rightarrow> (True, nNew, True)))))"

section \<open>The kernel\<close>

text \<open>The blocks after block \<open>h\<close> in the main chain, by following \<open>pnext\<close>; none off the main chain.\<close>

definition successors :: "CBlockIndex list \<Rightarrow> uint256 \<Rightarrow> CBlockIndex list" where
  "successors main h =
     (if h \<in> phashBlock ` set main then rev (takeWhile (\<lambda>j. phashBlock j \<noteq> h) main) else [])"

fun kernel_walk :: "int \<Rightarrow> CBlockIndex \<Rightarrow> CBlockIndex list \<Rightarrow> int \<Rightarrow> int \<Rightarrow> (u64 \<times> int \<times> int) option" where
  "kernel_walk nTarget i [] nModHeight nModTime =
     (if nModTime < nTarget then None else Some (nStakeModifier i, nModHeight, nModTime))"
| "kernel_walk nTarget i (j # succs) nModHeight nModTime =
     (if nModTime < nTarget then
        (if GeneratedStakeModifier j then kernel_walk nTarget j succs (nHeight j) (GetBlockTime j)
         else kernel_walk nTarget j succs nModHeight nModTime)
      else Some (nStakeModifier i, nModHeight, nModTime))"

definition GetKernelStakeModifier ::
  "block_index \<Rightarrow> CBlockIndex list \<Rightarrow> uint256 \<Rightarrow> (u64 \<times> int \<times> int) option" where
  "GetKernelStakeModifier mapBlockIndex main hashBlockFrom =
     (case mapBlockIndex hashBlockFrom of
        None \<Rightarrow> None
      | Some (pindexFrom, _) \<Rightarrow>
          kernel_walk (GetBlockTime pindexFrom + GetStakeModifierSelectionInterval) pindexFrom
            (successors main hashBlockFrom) (nHeight pindexFrom) (GetBlockTime pindexFrom))"

definition coin_day_weight :: "int \<Rightarrow> u32 \<Rightarrow> u32 \<Rightarrow> CBigNum" where
  "coin_day_weight nValueIn nTimeTx nTimePrev =
     (let nTimeWeight = min (uint nTimeTx - uint nTimePrev) nStakeMaxAge - nStakeMinAge
      in nValueIn * nTimeWeight sdiv COIN sdiv (24 * 60 * 60))"

text \<open>The verdict, and \<open>hashProofOfStake\<close> where it was computed.\<close>

definition CheckStakeKernelHash ::
  "openssl \<Rightarrow> sphlib \<Rightarrow> block_index \<Rightarrow> CBlockIndex list \<Rightarrow> u32 \<Rightarrow> CBlock \<Rightarrow> u32 \<Rightarrow> CTransaction \<Rightarrow> COutPoint \<Rightarrow>
     u32 \<Rightarrow> bool \<times> uint256 option" where
  "CheckStakeKernelHash L D mapBlockIndex main bits blockFrom nTxPrevOffset txPrev out nTimeTx =
     (if nTimeTx < nTime txPrev then (False, None)
      else
        (let nTimeBlockFrom = b_nTime blockFrom
         in if nTimeBlockFrom + word_of_int nStakeMinAge > nTimeTx then (False, None)
            else
              (let bnTargetPerCoinDay = SetCompact bits;
                   nValueIn = nValue (vout txPrev ! unat (op_n out));
                   bnCoinDayWeight = coin_day_weight nValueIn nTimeTx (nTime txPrev)
               in case GetKernelStakeModifier mapBlockIndex main (CBlock_GetHash D blockFrom) of
                    None \<Rightarrow> (False, None)
                  | Some (nModifier, _, _) \<Rightarrow>
                      (let hashProof = Hash L (nat_le 8 (unat nModifier) @ ser_u32 nTimeBlockFrom @
                             ser_u32 nTxPrevOffset @ ser_u32 (nTime txPrev) @ ser_u32 (op_n out) @
                             ser_u32 nTimeTx)
                       in (\<not> setuint256 L hashProof > bnCoinDayWeight * bnTargetPerCoinDay, Some hashProof)))))"

definition CheckProofOfStake ::
  "openssl \<Rightarrow> sphlib \<Rightarrow> blockfiles \<Rightarrow> int \<Rightarrow> CTxDB \<Rightarrow> block_index \<Rightarrow> CBlockIndex list \<Rightarrow> CTransaction \<Rightarrow> u32 \<Rightarrow>
     CSignatureCache \<Rightarrow> (verdict \<times> uint256 option \<times> CSignatureCache) option" where
  "CheckProofOfStake L D files nMax txdb mapBlockIndex main tx bits cache =
     (if \<not> IsCoinStake tx then Some (Invalid 0, None, cache)
      else
        (let txin = vin tx ! 0
         in case ReadFromDisk files txdb (prevout txin) of
              None \<Rightarrow> Some (Invalid 1, None, cache)
            | Some (txPrev, txindex) \<Rightarrow>
                (case VerifySignature L nMax txPrev tx 0 True 0 cache of
                   None \<Rightarrow> None
                 | Some (ok, cache') \<Rightarrow>
                     if \<not> ok then Some (Invalid 100, None, cache')
                     else
                       (case Block_ReadFromDisk L D files (nFile (ti_pos txindex))
                               (nBlockPos (ti_pos txindex)) False of
                          None \<Rightarrow> Some (Invalid 0, None, cache')
                        | Some block \<Rightarrow>
                            (case CheckStakeKernelHash L D mapBlockIndex main bits block
                                    (nTxPos (ti_pos txindex) - nBlockPos (ti_pos txindex)) txPrev
                                    (prevout txin) (nTime tx) of
                               (good, h) \<Rightarrow> Some (if good then Valid else Invalid 1, h, cache'))))))"

definition CheckCoinStakeTimestamp :: "int \<Rightarrow> int \<Rightarrow> bool" where
  "CheckCoinStakeTimestamp nTimeBlock nTimeTx \<longleftrightarrow> nTimeBlock = nTimeTx"

section \<open>Checksums\<close>

definition hashGenesisBlockOfficial :: uint256 where
  "hashGenesisBlockOfficial = 0x8b6d9062479865e08c9d1218a3b9dfbd2ecf42e9b5d710e909b6ecb7e3ac1175"

text \<open>\<open>None\<close> is the failed assertion.\<close>

definition GetStakeModifierChecksum :: "openssl \<Rightarrow> CBlockIndex \<times> CBlockIndex list \<Rightarrow> u32 option" where
  "GetStakeModifierChecksum L p =
     (case p of
        (i, pprev) \<Rightarrow>
          if pprev = [] \<and> phashBlock i \<noteq> hashGenesisBlockOfficial then None
          else
            (let ss = (case pprev of [] \<Rightarrow> [] | j # _ \<Rightarrow> ser_u32 (nStakeModifierChecksum j)) @
                   ser_u32 (nFlags i) @ ser_u256 (hashProofOfStake i) @ nat_le 8 (unat (nStakeModifier i))
             in Some (ucast (drop_bit 224 (Hash L ss)))))"

definition mapStakeModifierCheckpoints :: "(int \<times> u32) list" where
  "mapStakeModifierCheckpoints =
     [(0, 0x0e00670b), (1001, 0xfc258f54), (10011, 0x6f01954b), (100001, 0x7a965716), (150001, 0xf901006d),
      (184001, 0x86191c79), (200001, 0x8cbb46fc), (300001, 0x5d2caf58), (400001, 0xacd6bdfe),
      (500001, 0x656fb6e3), (600001, 0x8b00b6f2)]"

definition CheckStakeModifierCheckpoints :: "int \<Rightarrow> u32 \<Rightarrow> bool" where
  "CheckStakeModifierCheckpoints h nChecksum =
     (case map_of mapStakeModifierCheckpoints h of None \<Rightarrow> True | Some c \<Rightarrow> nChecksum = c)"

section \<open>Selecting never fails\<close>

text \<open>Every candidate is indexed as a block of that hash and time.\<close>

definition cands_ok :: "block_index \<Rightarrow> (int \<times> uint256) list \<Rightarrow> bool" where
  "cands_ok mapBlockIndex cands \<longleftrightarrow> sorted (map fst cands) \<and> distinct (map snd cands) \<and>
     (\<forall>(t, h) \<in> set cands. \<exists>i anc. mapBlockIndex h = Some (i, anc) \<and> phashBlock i = h \<and> GetBlockTime i = t)"

text \<open>
  Block \<open>i\<close> is a fair choice: not yet selected, of least selection hash among the blocks not selected and
  not after \<open>nStop\<close>, and itself not after \<open>nStop\<close> unless all the others are later still.
\<close>

definition fair_choice ::
  "openssl \<Rightarrow> block_index \<Rightarrow> uint256 list \<Rightarrow> int \<Rightarrow> u64 \<Rightarrow> (int \<times> uint256) list \<Rightarrow> CBlockIndex \<Rightarrow> bool" where
  "fair_choice L mapBlockIndex selected nStop nPrev cands i \<longleftrightarrow>
     (GetBlockTime i, phashBlock i) \<in> set cands \<and> phashBlock i \<notin> set selected \<and>
     (\<forall>(t, h) \<in> set cands. h \<notin> set selected \<longrightarrow>
        (t \<le> nStop \<longrightarrow> (\<exists>j anc. mapBlockIndex h = Some (j, anc) \<and>
           selection_hash L nPrev i \<le> selection_hash L nPrev j)) \<and>
        (GetBlockTime i \<le> nStop \<or> GetBlockTime i \<le> t))"

lemma select_loop_some:
  assumes "cands_ok m cands" and "GetBlockTime b \<le> nStop \<or> (\<forall>(t, h) \<in> set cands. GetBlockTime b \<le> t)"
  shows "\<exists>i. select_loop L m sel nStop nPrev cands (Some (selection_hash L nPrev b, b)) =
      Some (Some (selection_hash L nPrev i, i)) \<and>
    (i = b \<or> (GetBlockTime i, phashBlock i) \<in> set cands \<and> phashBlock i \<notin> set sel \<and> GetBlockTime i \<le> nStop) \<and>
    selection_hash L nPrev i \<le> selection_hash L nPrev b \<and>
    (\<forall>(t, h) \<in> set cands. h \<notin> set sel \<longrightarrow> t \<le> nStop \<longrightarrow>
       (\<exists>j anc. m h = Some (j, anc) \<and> selection_hash L nPrev i \<le> selection_hash L nPrev j))"
  using assms
proof (induction cands arbitrary: b)
  case (Cons c cands)
  obtain t h where c: "c = (t, h)" by (cases c)
  from Cons.prems(1) c obtain j anc where j: "m h = Some (j, anc)" "phashBlock j = h" "GetBlockTime j = t"
    by (auto simp: cands_ok_def)
  have ok: "cands_ok m cands" using Cons.prems(1) by (auto simp: cands_ok_def)
  have later: "\<forall>(t', h') \<in> set cands. t \<le> t'" using Cons.prems(1) c by (auto simp: cands_ok_def)
  show ?case
  proof (cases "t > nStop")
    case True
    with later j c show ?thesis by (intro exI [of _ b]) auto
  next
    case False
    define b' where "b' = (if h \<notin> set sel \<and> selection_hash L nPrev j < selection_hash L nPrev b then j else b)"
    have step: "select_loop L m sel nStop nPrev (c # cands) (Some (selection_hash L nPrev b, b)) =
        select_loop L m sel nStop nPrev cands (Some (selection_hash L nPrev b', b'))"
      using False j c by (simp add: b'_def Let_def)
    have "GetBlockTime b' \<le> nStop \<or> (\<forall>(t, h) \<in> set cands. GetBlockTime b' \<le> t)"
      using Cons.prems(2) False j c by (auto simp: b'_def)
    from Cons.IH [OF ok this] obtain i where i: "select_loop L m sel nStop nPrev cands
        (Some (selection_hash L nPrev b', b')) = Some (Some (selection_hash L nPrev i, i))"
      "i = b' \<or> (GetBlockTime i, phashBlock i) \<in> set cands \<and> phashBlock i \<notin> set sel \<and> GetBlockTime i \<le> nStop"
      "selection_hash L nPrev i \<le> selection_hash L nPrev b'"
      "\<forall>(t, h) \<in> set cands. h \<notin> set sel \<longrightarrow> t \<le> nStop \<longrightarrow>
         (\<exists>j anc. m h = Some (j, anc) \<and> selection_hash L nPrev i \<le> selection_hash L nPrev j)" by blast
    have "selection_hash L nPrev b' \<le> selection_hash L nPrev b"
      "h \<notin> set sel \<longrightarrow> selection_hash L nPrev b' \<le> selection_hash L nPrev j"
      by (auto simp: b'_def)
    with i(3) have "selection_hash L nPrev i \<le> selection_hash L nPrev b"
      "h \<notin> set sel \<longrightarrow> selection_hash L nPrev i \<le> selection_hash L nPrev j" by auto
    moreover have "i = b \<or> (GetBlockTime i, phashBlock i) \<in> set (c # cands) \<and> phashBlock i \<notin> set sel \<and>
        GetBlockTime i \<le> nStop"
      using i(2) False j c by (auto simp: b'_def split: if_splits)
    ultimately show ?thesis using step i(1, 4) j c by (intro exI [of _ i]) auto
  qed
qed auto

lemma select_fair:
  assumes "cands_ok m cands" and "\<exists>(t, h) \<in> set cands. h \<notin> set sel"
  shows "\<exists>i. SelectBlockFromCandidates L m cands sel nStop nPrev = Some i \<and>
    fair_choice L m sel nStop nPrev cands i"
  using assms
proof (induction cands)
  case (Cons c cands)
  obtain t h where c: "c = (t, h)" by (cases c)
  from Cons.prems(1) c obtain j anc where j: "m h = Some (j, anc)" "phashBlock j = h" "GetBlockTime j = t"
    by (auto simp: cands_ok_def)
  have ok: "cands_ok m cands" using Cons.prems(1) by (auto simp: cands_ok_def)
  have later: "\<forall>(t', h') \<in> set cands. t \<le> t'" using Cons.prems(1) c by (auto simp: cands_ok_def)
  show ?case
  proof (cases "h \<in> set sel")
    case True
    with Cons.prems(2) c Cons.IH [OF ok] j show ?thesis
      by (auto simp: SelectBlockFromCandidates_def fair_choice_def)
  next
    case False
    from select_loop_some [OF ok, of j nStop L sel nPrev] later j obtain i where
      i: "select_loop L m sel nStop nPrev cands (Some (selection_hash L nPrev j, j)) =
        Some (Some (selection_hash L nPrev i, i))"
      "i = j \<or> (GetBlockTime i, phashBlock i) \<in> set cands \<and> phashBlock i \<notin> set sel \<and> GetBlockTime i \<le> nStop"
      "selection_hash L nPrev i \<le> selection_hash L nPrev j"
      "\<forall>(t, h) \<in> set cands. h \<notin> set sel \<longrightarrow> t \<le> nStop \<longrightarrow>
         (\<exists>j anc. m h = Some (j, anc) \<and> selection_hash L nPrev i \<le> selection_hash L nPrev j)" by blast
    have "fair_choice L m sel nStop nPrev (c # cands) i"
      unfolding fair_choice_def using i(2, 3, 4) j c False later by fastforce
    with i(1) j c False show ?thesis by (auto simp: SelectBlockFromCandidates_def Let_def)
  qed
qed simp

lemma entropy_bit: "Index_GetStakeEntropyBit i = (if bit (nFlags i) 1 then 1 else 0)"
proof (rule bit_word_eqI)
  show "bit (Index_GetStakeEntropyBit i) n = bit (if bit (nFlags i) 1 then 1 else 0 :: u32) n"
    if "n < LENGTH(32)" for n
    using that by (cases n) (auto simp: Index_GetStakeEntropyBit_def BLOCK_STAKE_ENTROPY_def bit_simps bit_1_iff bit_2_iff)
qed

lemma entropy_pushed:
  "bit (push_bit n (ucast (Index_GetStakeEntropyBit i)) :: u64) k \<longleftrightarrow> k = n \<and> n < 64 \<and> bit (nFlags i) 1"
  by (auto simp: entropy_bit bit_simps bit_1_iff)

text \<open>The end of the selection interval of a round.\<close>

definition round_stop :: "int \<Rightarrow> nat \<Rightarrow> nat \<Rightarrow> int" where
  "round_stop nStop nRound k = nStop + (\<Sum>n \<leftarrow> [nRound..<Suc (nRound + k)]. GetStakeModifierSelectionIntervalSection n)"

lemma round_stop_Suc:
  "round_stop nStop nRound (Suc k) =
     round_stop (nStop + GetStakeModifierSelectionIntervalSection nRound) (Suc nRound) k"
proof -
  have "[nRound..<Suc (nRound + Suc k)] = nRound # [Suc nRound..<Suc (Suc nRound + k)]"
    by (subst upt_conv_Cons) simp_all
  then show ?thesis by (simp add: round_stop_def del: upt_Suc)
qed

lemma rounds_select:
  assumes "cands_ok m cands" and "distinct sel" and "set sel \<subseteq> snd ` set cands"
    and "length sel + k \<le> length cands"
  shows "\<exists>bs nMod. modifier_rounds L m cands nPrev nRound k nStop sel nNew = Some nMod \<and> length bs = k \<and>
    distinct (map phashBlock bs @ sel) \<and>
    (\<forall>j < k. fair_choice L m (rev (map phashBlock (take j bs)) @ sel) (round_stop nStop nRound j) nPrev cands (bs ! j)) \<and>
    (\<forall>n. bit nMod n \<longleftrightarrow> bit nNew n \<or> nRound \<le> n \<and> n < nRound + k \<and> n < 64 \<and> bit (nFlags (bs ! (n - nRound))) 1)"
  using assms(2-)
proof (induction k arbitrary: nRound nStop sel nNew)
  case (Suc k)
  let ?stop = "nStop + GetStakeModifierSelectionIntervalSection nRound"
  have "card (set sel) = length sel" using Suc.prems(1) by (rule distinct_card)
  moreover have "card (snd ` set cands) = length cands"
    using assms(1) distinct_card [of "map snd cands"] by (simp add: cands_ok_def)
  ultimately have "card (set sel) < card (snd ` set cands)" using Suc.prems(3) by simp
  then have "\<not> snd ` set cands \<subseteq> set sel"
    by (metis List.finite_set card_mono linorder_not_less)
  then have "\<exists>(t, h) \<in> set cands. h \<notin> set sel" by fastforce
  from select_fair [OF assms(1) this] obtain i where
    i: "SelectBlockFromCandidates L m cands sel ?stop nPrev = Some i"
    and fair: "fair_choice L m sel ?stop nPrev cands i" by blast
  have "distinct (phashBlock i # sel)" "set (phashBlock i # sel) \<subseteq> snd ` set cands"
    using fair Suc.prems(1, 2) image_eqI [of "phashBlock i" snd "(GetBlockTime i, phashBlock i)" "set cands"]
    by (auto simp: fair_choice_def)
  from Suc.IH [OF this, of "Suc nRound" ?stop "nNew OR push_bit nRound (ucast (Index_GetStakeEntropyBit i))"] Suc.prems(3)
  obtain bs nMod where
    bs: "modifier_rounds L m cands nPrev (Suc nRound) k ?stop (phashBlock i # sel)
        (nNew OR push_bit nRound (ucast (Index_GetStakeEntropyBit i))) = Some nMod"
      "length bs = k" "distinct (map phashBlock bs @ phashBlock i # sel)"
    and f: "\<forall>j < k. fair_choice L m (rev (map phashBlock (take j bs)) @ phashBlock i # sel)
        (round_stop ?stop (Suc nRound) j) nPrev cands (bs ! j)"
    and b: "\<forall>n. bit nMod n \<longleftrightarrow> bit (nNew OR push_bit nRound (ucast (Index_GetStakeEntropyBit i))) n \<or>
        Suc nRound \<le> n \<and> n < Suc nRound + k \<and> n < 64 \<and> bit (nFlags (bs ! (n - Suc nRound))) 1"
    by auto
  have "bit nMod n \<longleftrightarrow> bit nNew n \<or>
      nRound \<le> n \<and> n < nRound + Suc k \<and> n < 64 \<and> bit (nFlags ((i # bs) ! (n - nRound))) 1" for n
  proof (cases "Suc nRound \<le> n")
    case True
    then obtain d where "n = Suc nRound + d" using le_Suc_ex by blast
    then show ?thesis unfolding b [rule_format] bit_or_iff entropy_pushed by simp
  next
    case False
    then show ?thesis unfolding b [rule_format] bit_or_iff entropy_pushed by (cases "n = nRound") auto
  qed
  moreover have "fair_choice L m (rev (map phashBlock (take j (i # bs))) @ sel) (round_stop nStop nRound j) nPrev cands
      ((i # bs) ! j)" if "j < Suc k" for j
  proof (cases j)
    case 0
    with fair show ?thesis by (simp add: round_stop_def)
  next
    case (Suc j')
    with f that show ?thesis by (simp add: round_stop_Suc)
  qed
  moreover have "modifier_rounds L m cands nPrev nRound (Suc k) nStop sel nNew = Some nMod"
    using i bs(1) by (simp add: Let_def)
  moreover have "length (i # bs) = Suc k" "distinct (map phashBlock (i # bs) @ sel)" using bs(2, 3) by auto
  ultimately show ?case by blast
qed (auto intro: exI [of _ "[]"])

section \<open>The next stake modifier\<close>

text \<open>The blocks of a chain are indexed, under different hashes, and the genesis block generated one.\<close>

definition chain_indexed :: "block_index \<Rightarrow> CBlockIndex list \<Rightarrow> bool" where
  "chain_indexed m chain \<longleftrightarrow> chain \<noteq> [] \<and> GeneratedStakeModifier (last chain) \<and>
     distinct (map phashBlock chain) \<and> (\<forall>i \<in> set chain. \<exists>anc. m (phashBlock i) = Some (i, anc))"

lemma GetLastStakeModifier_some:
  "chain \<noteq> [] \<Longrightarrow> GeneratedStakeModifier (last chain) \<Longrightarrow>
     \<exists>i \<in> set chain. GeneratedStakeModifier i \<and> GetLastStakeModifier chain = Some (nStakeModifier i, GetBlockTime i)"
  by (induction chain rule: GetLastStakeModifier.induct) auto

lemma candidates_ok:
  assumes "chain_indexed m chain"
  shows "cands_ok m (candidates chain nStart)"
proof -
  have sorted: "sorted (map fst xs)" if "sorted xs" for xs :: "(int \<times> uint256) list"
    using that unfolding sorted_iff_nth_mono less_eq_prod_def by simp (meson less_imp_le)
  let ?tw = "takeWhile (\<lambda>i. GetBlockTime i \<ge> nStart) chain"
  have "distinct (map phashBlock ?tw)"
    using assms by (subst takeWhile_eq_take) (simp add: chain_indexed_def flip: take_map)
  then have "distinct (map snd (candidates chain nStart))"
    by (auto simp: candidates_def distinct_map inj_on_def)
  then show ?thesis
    using assms by (fastforce simp: cands_ok_def candidates_def sorted chain_indexed_def dest!: set_takeWhileD)
qed


text \<open>A genesis block and a block of the next interval.\<close>

definition sample_block :: "int \<Rightarrow> uint256 \<Rightarrow> u32 \<Rightarrow> u32 \<Rightarrow> CBlockIndex" where
  "sample_block height h fl t =
     \<lparr>phashBlock = h, bi_nFile = 0, bi_nBlockPos = 0, bnChainTrust = 0, nHeight = height, nMint = 0,
      nMoneySupply = 0, nFlags = fl, nStakeModifier = 0, nStakeModifierChecksum = 0,
      prevoutStake = COutPoint_SetNull, nStakeTime = 0, hashProofOfStake = 0, bi_nVersion = 4,
      hashMerkleRoot = 0, bi_nTime = t, nBits = 0, nNonce = 0, nSuperBlock = 0, nRoundMask = 8\<rparr>"

definition sample_chain :: "CBlockIndex list" where
  "sample_chain = [sample_block 1 11 2 700, sample_block 0 10 6 0]"

definition sample_block_index :: block_index where
  "sample_block_index = (\<lambda>h. if h = 11 then Some (hd sample_chain, tl sample_chain)
     else if h = 10 then Some (last sample_chain, []) else None)"


section \<open>The kernel test\<close>



text \<open>
  The weight the wallet computes with \<open>GetWeight\<close> is capped after the minimum age is taken off, the
  kernel's before: for coins older than 30 days the wallet counts up to a day too much.
\<close>

theorem GetWeight_overstates:
  "GetWeight nTimePrev nTimeTx =
     min (nTimeTx - nTimePrev) nStakeMaxAge - nStakeMinAge +
     max 0 (min (nTimeTx - nTimePrev - nStakeMaxAge) nStakeMinAge)"
  by (simp add: GetWeight_def nStakeMaxAge_def nStakeMinAge_def)

end
