(* ===== verification/BlockRules.thy ===== *)
theory BlockRules
  imports Connect_Facts Kernel
begin

text \<open>
  Whole blocks (\<open>src/src/main.cpp\<close>): the block signature, \<open>CheckBlock\<close>, \<open>ConnectBlock\<close> and
  \<open>DisconnectBlock\<close>.  A rejection carries what it adds to the \<open>nDoS\<close> of the block.  Of the database only
  the transaction index is modelled; the block index entries \<open>WriteBlockIndex\<close> stores and the calls that
  tell the wallets are left out.  \<open>None\<close> is an exception or a failed assertion.
\<close>

section \<open>The block signature\<close>

text \<open>Proof of work: some output to a public key of the coinbase.  A \<open>false\<close> stops the search.\<close>

fun check_pow_signature :: "openssl \<Rightarrow> uint256 \<Rightarrow> valtype \<Rightarrow> CTxOut list \<Rightarrow> bool" where
  "check_pow_signature L h sig [] = False"
| "check_pow_signature L h sig (txout # outs) =
     (case Solver (scriptPubKey txout) of
        (ok, whichType, vSolutions) \<Rightarrow>
          (if \<not> ok then False
           else if whichType = TX_PUBKEY then
             (case SetPubKey L CKey_new (vSolutions ! 0) of
                (good, key) \<Rightarrow>
                  (if \<not> good then check_pow_signature L h sig outs
                   else if sig = [] then check_pow_signature L h sig outs
                   else if \<not> CKey_Verify L key h sig then check_pow_signature L h sig outs
                   else True))
           else check_pow_signature L h sig outs))"

definition CheckBlockSignature :: "openssl \<Rightarrow> sphlib \<Rightarrow> CBlock \<Rightarrow> bool" where
  "CheckBlockSignature L D b =
     (let h = CBlock_GetHash D b
      in if h = hashGenesisBlockOfficial then vchBlockSig b = []
         else if Block_IsProofOfStake b then
           (case Solver (scriptPubKey (vout (vtx b ! 1) ! 1)) of
              (ok, whichType, vSolutions) \<Rightarrow>
                (if \<not> ok then False
                 else if whichType = TX_PUBKEY then
                   (case SetPubKey L CKey_new (vSolutions ! 0) of
                      (good, key) \<Rightarrow>
                        (if \<not> good then False
                         else if vchBlockSig b = [] then False
                         else CKey_Verify L key h (vchBlockSig b)))
                 else False))
         else check_pow_signature L h (vchBlockSig b) (vout (vtx b ! 0)))"

section \<open>CheckBlock\<close>

definition nMaxClockDrift :: int where "nMaxClockDrift = 2 * 60 * 60"

fun check_txs :: "u32 \<Rightarrow> CTransaction list \<Rightarrow> verdict" where
  "check_txs nBlockTime [] = Valid"
| "check_txs nBlockTime (tx # txs) =
     (case CheckTransaction tx of
        Invalid d \<Rightarrow> Invalid d
      | Valid \<Rightarrow> if nBlockTime < nTime tx then Invalid 50 else check_txs nBlockTime txs)"

text \<open>\<open>nAdjustedTime\<close> is \<open>GetAdjustedTime()\<close>.\<close>

definition CheckBlock :: "openssl \<Rightarrow> sphlib \<Rightarrow> int \<Rightarrow> CBlock \<Rightarrow> bool \<Rightarrow> bool \<Rightarrow> verdict" where
  "CheckBlock L D nAdjustedTime b fCheckPOW fCheckMerkleRoot =
     (if vtx b = [] \<or> length (vtx b) > MAX_BLOCK_SIZE \<or> size_CBlock b > MAX_BLOCK_SIZE then Invalid 100
      else if fCheckPOW \<and> Block_IsProofOfWork b \<and> \<not> CheckProofOfWork L (CBlock_GetHash D b) (b_nBits b)
      then Invalid 50
      else if uint (b_nTime b) > nAdjustedTime + nMaxClockDrift then Invalid 0
      else if vtx b = [] \<or> \<not> IsCoinBase (vtx b ! 0) then Invalid 100
      else if \<exists>tx \<in> set (drop (if Block_IsProofOfStake b then 3 else 2) (vtx b)). IsCoinBase tx then Invalid 100
      else if \<exists>tx \<in> set (drop 2 (vtx b)). IsCoinStake tx then Invalid 100
      else if Block_IsProofOfStake b \<and>
              (length (vout (vtx b ! 0)) \<noteq> 1 \<or> \<not> CTxOut_IsEmpty (vout (vtx b ! 0) ! 0)) then Invalid 0
      else if uint (b_nTime b) > uint (nTime (vtx b ! 0)) + nMaxClockDrift then Invalid 50
      else if Block_IsProofOfStake b \<and>
              \<not> CheckCoinStakeTimestamp (uint (b_nTime b)) (uint (nTime (vtx b ! 1))) then Invalid 50
      else
        (case check_txs (b_nTime b) (vtx b) of
           Invalid d \<Rightarrow> Invalid d
         | Valid \<Rightarrow>
             if card (set (map (CTransaction_GetHash L) (vtx b))) \<noteq> length (vtx b) then Invalid 100
             else if (\<Sum>tx \<leftarrow> vtx b. GetLegacySigOpCount tx) > MAX_BLOCK_SIGOPS then Invalid 100
             else if fCheckMerkleRoot \<and> b_hashMerkleRoot b \<noteq> fst (BuildMerkleTree L b) then Invalid 100
             else if \<not> CheckBlockSignature L D b then Invalid 100
             else Valid))"

section \<open>ConnectBlock\<close>

text \<open>The variables of the loop over the transactions.\<close>

record connecting =
  c_nTxPos :: u32
  mapQueuedChanges :: "(uint256 \<times> CTxIndex) list"
  c_nFees :: int
  c_nValueIn :: int
  c_nValueOut :: int
  c_nSigOps :: nat
  c_cache :: CSignatureCache

text \<open>What a node brings to connecting: OpenSSL, digests, files, the cache bound, heights.\<close>

record node_env =
  env_L :: openssl
  env_D :: sphlib
  env_files :: blockfiles
  env_pool :: "uint256 \<rightharpoonup> CTransaction"
  env_nMaxCacheSize :: int
  env_nBestHeight :: int
  env_nBlocksEstimate :: int
  env_nAdjustedTime :: int

text \<open>The body of the loop for one transaction; \<open>chain\<close> starts with the block itself.\<close>

definition connect_tx ::
  "node_env \<Rightarrow> CTxDB \<Rightarrow> CBlockIndex list \<Rightarrow> bool \<Rightarrow> CTransaction \<Rightarrow> connecting \<Rightarrow> (verdict \<times> connecting) option" where
  "connect_tx E txdb chain fJustCheck tx s =
     (let L = env_L E; hashTx = CTransaction_GetHash L tx;
          nSigOps = c_nSigOps s + GetLegacySigOpCount tx;
          posThisTx = \<lparr>nFile = bi_nFile (hd chain), nBlockPos = bi_nBlockPos (hd chain), nTxPos = c_nTxPos s\<rparr>;
          nPos' = (if fJustCheck then c_nTxPos s else c_nTxPos s + word_of_nat (size_CTransaction tx));
          queue = (\<lambda>pool. map_put hashTx (CTxIndex_new posThisTx (length (vout tx))) pool)
      in if (case ReadTxIndex txdb hashTx of
               None \<Rightarrow> False
             | Some txindexOld \<Rightarrow> \<exists>pos \<in> set (vSpent txindexOld). CDiskTxPos_IsNull pos)
         then Some (Invalid 0, s)
         else if nSigOps > MAX_BLOCK_SIGOPS then Some (Invalid 100, s)
         else if IsCoinBase tx then
           map_option (\<lambda>v. (Valid, s\<lparr>c_nTxPos := nPos', c_nSigOps := nSigOps,
               c_nValueOut := wrap64 (c_nValueOut s + v), mapQueuedChanges := queue (mapQueuedChanges s)\<rparr>))
             (GetValueOut tx)
         else
           (case FetchInputs (env_files E) (env_pool E) txdb (mapQueuedChanges s) True False tx [] of
              Fetched mapInputs \<Rightarrow>
                (case (GetP2SHSigOpCount tx mapInputs, GetValueIn tx mapInputs, GetValueOut tx) of
                   (Some nP2SH, Some nTxValueIn, Some nTxValueOut) \<Rightarrow>
                     if nSigOps + nP2SH > MAX_BLOCK_SIGOPS then Some (Invalid 100, s)
                     else
                       (case ConnectInputs L (env_D E) (env_files E) (env_nMaxCacheSize E) (env_nBestHeight E)
                               (env_nBlocksEstimate E) txdb mapInputs (mapQueuedChanges s) posThisTx chain
                               True False True tx (c_cache s) of
                          None \<Rightarrow> None
                        | Some (Invalid _, pool', cache') \<Rightarrow>
                            Some (Invalid 0, s\<lparr>mapQueuedChanges := pool', c_cache := cache'\<rparr>)
                        | Some (Valid, pool', cache') \<Rightarrow>
                            Some (Valid, s\<lparr>c_nTxPos := nPos', mapQueuedChanges := queue pool',
                              c_nFees := (if IsCoinStake tx then c_nFees s
                                          else wrap64 (c_nFees s + wrap64 (nTxValueIn - nTxValueOut))),
                              c_nValueIn := wrap64 (c_nValueIn s + nTxValueIn),
                              c_nValueOut := wrap64 (c_nValueOut s + nTxValueOut),
                              c_nSigOps := nSigOps + nP2SH, c_cache := cache'\<rparr>))
                 | (None, _) \<Rightarrow> None
                 | (Some nP2SH, _) \<Rightarrow>
                     if nSigOps + nP2SH > MAX_BLOCK_SIGOPS then Some (Invalid 100, s) else None)
            | _ \<Rightarrow> Some (Invalid 0, s)))"

fun connect_txs ::
  "node_env \<Rightarrow> CTxDB \<Rightarrow> CBlockIndex list \<Rightarrow> bool \<Rightarrow> CTransaction list \<Rightarrow> connecting \<Rightarrow>
     (verdict \<times> connecting) option" where
  "connect_txs E txdb chain fJustCheck [] s = Some (Valid, s)"
| "connect_txs E txdb chain fJustCheck (tx # txs) s =
     (case connect_tx E txdb chain fJustCheck tx s of
        None \<Rightarrow> None
      | Some (Invalid d, s') \<Rightarrow> Some (Invalid d, s')
      | Some (Valid, s') \<Rightarrow> connect_txs E txdb chain fJustCheck txs s')"

fun write_queued :: "(uint256 \<times> CTxIndex) list \<Rightarrow> CTxDB \<Rightarrow> bool \<times> CTxDB" where
  "write_queued [] txdb = (True, txdb)"
| "write_queued ((h, txindex) # q) txdb =
     (case UpdateTxIndex txdb h txindex of
        (ok, txdb') \<Rightarrow> if \<not> ok then (False, txdb') else write_queued q txdb')"

definition first_tx_pos :: "CBlockIndex \<Rightarrow> CBlock \<Rightarrow> bool \<Rightarrow> u32" where
  "first_tx_pos pindex b fJustCheck =
     (if fJustCheck then 1
      else bi_nBlockPos pindex + word_of_nat (size_CBlock CBlock_SetNull - 2 * GetSizeOfCompactSize 0 +
             GetSizeOfCompactSize (length (vtx b))))"

text \<open>The verdict, the database, the block's index entry with \<open>nMint\<close> and \<open>nMoneySupply\<close>, the cache.\<close>

definition ConnectBlock ::
  "node_env \<Rightarrow> CTxDB \<Rightarrow> CBlockIndex \<Rightarrow> CBlockIndex list \<Rightarrow> bool \<Rightarrow> CBlock \<Rightarrow> CSignatureCache \<Rightarrow>
     (verdict \<times> CTxDB \<times> CBlockIndex \<times> CSignatureCache) option" where
  "ConnectBlock E txdb pindex pprev fJustCheck b cache =
     (case CheckBlock (env_L E) (env_D E) (env_nAdjustedTime E) b (\<not> fJustCheck) (\<not> fJustCheck) of
        Invalid d \<Rightarrow> Some (Invalid d, txdb, pindex, cache)
      | Valid \<Rightarrow>
          (case connect_txs E txdb (pindex # pprev) fJustCheck (vtx b)
                  \<lparr>c_nTxPos = first_tx_pos pindex b fJustCheck, mapQueuedChanges = [], c_nFees = 0,
                   c_nValueIn = 0, c_nValueOut = 0, c_nSigOps = 0, c_cache = cache\<rparr> of
             None \<Rightarrow> None
           | Some (Invalid d, s) \<Rightarrow> Some (Invalid d, txdb, pindex, c_cache s)
           | Some (Valid, s) \<Rightarrow>
               (let pindex' = pindex\<lparr>nMint := wrap64 (wrap64 (c_nValueOut s - c_nValueIn s) + c_nFees s),
                      nMoneySupply := wrap64 (wrap64 ((case pprev of [] \<Rightarrow> 0 | p # _ \<Rightarrow> nMoneySupply p) +
                        c_nValueOut s) - c_nValueIn s)\<rparr>
                in if fJustCheck then Some (Valid, txdb, pindex', c_cache s)
                   else
                     (case write_queued (mapQueuedChanges s) txdb of
                        (False, txdb') \<Rightarrow> Some (Invalid 0, txdb', pindex', c_cache s)
                      | (True, txdb') \<Rightarrow>
                          (case (GetValueOut (vtx b ! 0), GetProofOfWorkReward (nHeight pindex) (c_nFees s) pprev) of
                             (Some v, Some r) \<Rightarrow>
                               Some (if v > r then Invalid 0 else Valid, txdb', pindex', c_cache s)
                           | _ \<Rightarrow> None)))))"

section \<open>DisconnectBlock\<close>

fun disconnect_txs :: "openssl \<Rightarrow> CTransaction list \<Rightarrow> CTxDB \<Rightarrow> bool \<times> CTxDB" where
  "disconnect_txs L [] txdb = (True, txdb)"
| "disconnect_txs L (tx # txs) txdb =
     (case DisconnectInputs L tx txdb of
        (ok, txdb') \<Rightarrow> if \<not> ok then (False, txdb') else disconnect_txs L txs txdb')"

definition DisconnectBlock :: "openssl \<Rightarrow> CBlock \<Rightarrow> CTxDB \<Rightarrow> bool \<times> CTxDB" where
  "DisconnectBlock L b txdb = disconnect_txs L (rev (vtx b)) txdb"

end
