(* ===== verification/BlockRules_Facts.thy ===== *)
theory BlockRules_Facts
  imports BlockRules
begin

text \<open>
  What connecting a block does to the transaction index: it can be undone, and every transaction of the
  block is recorded at the place where it lies in the block file.
\<close>

section \<open>One transaction of a block\<close>

lemma view_put: "sorted_map pool \<Longrightarrow> view txdb (map_put h x pool) = (view txdb pool)(h \<mapsto> x)"
  by (simp add: view_def map_of_put)

lemma set_set_all: "set (set_all x ns xs) \<subseteq> insert x (set xs)"
  by (induction ns arbitrary: xs) (auto dest: set_update_subset_insert [THEN subsetD])

lemma nulls_canonical_mark:
  assumes "nulls_canonical v" and "\<not> CDiskTxPos_IsNull p" and "\<And>h. v' h = map_option (mark p h ins) (v h)"
  shows "nulls_canonical v'"
  using assms set_set_all [of p] by (fastforce simp: nulls_canonical_def mark_def)

lemma nulls_canonical_new:
  "nulls_canonical v \<Longrightarrow> nulls_canonical (v(h \<mapsto> CTxIndex_new p n))"
  by (auto simp: nulls_canonical_def CTxIndex_new_def)

text \<open>How a state of the loop relates to the next one.\<close>

definition tx_connected ::
  "node_env \<Rightarrow> CTxDB \<Rightarrow> CBlockIndex \<Rightarrow> CTransaction \<Rightarrow> connecting \<Rightarrow> connecting \<Rightarrow> bool" where
  "tx_connected E txdb pindex tx s s' \<longleftrightarrow>
     (let h = CTransaction_GetHash (env_L E) tx;
          v = view txdb (mapQueuedChanges s); v' = view txdb (mapQueuedChanges s');
          p = \<lparr>nFile = bi_nFile pindex, nBlockPos = bi_nBlockPos pindex, nTxPos = c_nTxPos s\<rparr>
      in sorted_map (mapQueuedChanges s') \<and> nulls_canonical v' \<and>
         c_nTxPos s' = c_nTxPos s + word_of_nat (size_CTransaction tx) \<and>
         v' h = Some (CTxIndex_new p (length (vout tx))) \<and>
         (\<forall>g. g \<noteq> h \<longrightarrow> map_option ti_pos (v' g) = map_option ti_pos (v g)) \<and>
         DisconnectInputs (env_L E) tx (txdb\<lparr>tx_index := v'\<rparr>) = (True, txdb\<lparr>tx_index := v\<rparr>))"

lemma connect_tx_connected:
  assumes "connect_tx E txdb (pindex # pprev) False tx s = Some (Valid, s')"
    and "sorted_map (mapQueuedChanges s)" and "nulls_canonical (view txdb (mapQueuedChanges s))"
    and "bi_nFile pindex \<noteq> - 1" and "\<forall>h. \<not> refuses txdb h"
    and "view txdb (mapQueuedChanges s) (CTransaction_GetHash (env_L E) tx) = None"
  shows "tx_connected E txdb pindex tx s s'"
proof -
  let ?h = "CTransaction_GetHash (env_L E) tx" and ?pool = "mapQueuedChanges s"
  let ?p = "\<lparr>nFile = bi_nFile pindex, nBlockPos = bi_nBlockPos pindex, nTxPos = c_nTxPos s\<rparr>"
  let ?new = "CTxIndex_new ?p (length (vout tx))"
  have p: "\<not> CDiskTxPos_IsNull ?p" using assms(4) by (simp add: CDiskTxPos_IsNull_def)
  show ?thesis
  proof (cases "IsCoinBase tx")
    case True
    then have s': "mapQueuedChanges s' = map_put ?h ?new ?pool"
      "c_nTxPos s' = c_nTxPos s + word_of_nat (size_CTransaction tx)"
      using assms(1) by (auto simp: connect_tx_def Let_def split: if_splits)
    have v': "view txdb (mapQueuedChanges s') = (view txdb ?pool)(?h \<mapsto> ?new)"
      unfolding s' using assms(2) by (rule view_put)
    have "DisconnectInputs (env_L E) tx (txdb\<lparr>tx_index := view txdb (mapQueuedChanges s')\<rparr>) =
        (True, txdb\<lparr>tx_index := view txdb ?pool\<rparr>)"
      using True assms(5, 6) by (simp add: DisconnectInputs_def EraseTxIndex_def Let_def v' fun_upd_idem)
    then show ?thesis
      using s' v' assms(2, 3) nulls_canonical_new
      by (simp add: tx_connected_def sorted_map_put Let_def)
  next
    case False
    then obtain inputs pool' cache' where
      f: "FetchInputs (env_files E) (env_pool E) txdb ?pool True False tx [] = Fetched inputs"
      and c: "ConnectInputs (env_L E) (env_D E) (env_files E) (env_nMaxCacheSize E) (env_nBestHeight E)
        (env_nBlocksEstimate E) txdb inputs ?pool ?p (pindex # pprev) True False True tx (c_cache s) =
        Some (Valid, pool', cache')"
      and s': "mapQueuedChanges s' = map_put ?h ?new pool'"
        "c_nTxPos s' = c_nTxPos s + word_of_nat (size_CTransaction tx)"
      using assms(1)
      by (auto simp: connect_tx_def Let_def split: if_splits option.splits fetched.splits verdict.splits)
    have sorted: "sorted_map pool'" using ConnectInputs_pool [OF c False assms(2)] by blast
    have v': "view txdb (mapQueuedChanges s') = (view txdb pool')(?h \<mapsto> ?new)"
      unfolding s' using sorted by (rule view_put)
    note m = ConnectInputs_view(2) [OF f c False assms(2)]
    have "nulls_canonical (view txdb pool')" using assms(3) p m by (rule nulls_canonical_mark)
    moreover have "map_option ti_pos (view txdb pool' g) = map_option ti_pos (view txdb ?pool g)" for g
      unfolding m by (simp add: option.map_comp comp_def mark_def)
    moreover have "DisconnectInputs (env_L E) tx (txdb\<lparr>tx_index := view txdb (mapQueuedChanges s')\<rparr>) =
        (True, txdb\<lparr>tx_index := view txdb ?pool\<rparr>)"
      unfolding v' by (rule disconnect_undoes_connect [OF f c assms(2) p assms(5, 6, 3)])
    ultimately show ?thesis
      using s' v' sorted nulls_canonical_new by (simp add: tx_connected_def sorted_map_put Let_def)
  qed
qed

section \<open>The transactions of a block\<close>

lemma disconnect_txs_append:
  "disconnect_txs L (xs @ ys) txdb =
     (case disconnect_txs L xs txdb of
        (ok, txdb') \<Rightarrow> if ok then disconnect_txs L ys txdb' else (False, txdb'))"
  by (induction L xs txdb rule: disconnect_txs.induct) (auto split: prod.splits)

lemma connect_txs_connected:
  assumes "connect_txs E txdb (pindex # pprev) False txs s = Some (Valid, s')"
    and "sorted_map (mapQueuedChanges s)" and "nulls_canonical (view txdb (mapQueuedChanges s))"
    and "bi_nFile pindex \<noteq> - 1" and "\<forall>h. \<not> refuses txdb h"
    and "distinct (map (CTransaction_GetHash (env_L E)) txs)"
    and "\<forall>tx \<in> set txs. view txdb (mapQueuedChanges s) (CTransaction_GetHash (env_L E) tx) = None"
  shows "sorted_map (mapQueuedChanges s') \<and>
    disconnect_txs (env_L E) (rev txs) (txdb\<lparr>tx_index := view txdb (mapQueuedChanges s')\<rparr>) =
      (True, txdb\<lparr>tx_index := view txdb (mapQueuedChanges s)\<rparr>) \<and>
    (\<forall>g. g \<notin> CTransaction_GetHash (env_L E) ` set txs \<longrightarrow>
       map_option ti_pos (view txdb (mapQueuedChanges s') g) = map_option ti_pos (view txdb (mapQueuedChanges s) g)) \<and>
    (\<forall>k < length txs. map_option ti_pos
       (view txdb (mapQueuedChanges s') (CTransaction_GetHash (env_L E) (txs ! k))) =
       Some \<lparr>nFile = bi_nFile pindex, nBlockPos = bi_nBlockPos pindex,
         nTxPos = c_nTxPos s + word_of_nat (\<Sum>tx \<leftarrow> take k txs. size_CTransaction tx)\<rparr>)"
  using assms(1-3, 6, 7)
proof (induction txs arbitrary: s)
  case (Cons tx txs)
  let ?H = "CTransaction_GetHash (env_L E)"
  from Cons.prems(1) obtain s1 where 1: "connect_tx E txdb (pindex # pprev) False tx s = Some (Valid, s1)"
    and rec: "connect_txs E txdb (pindex # pprev) False txs s1 = Some (Valid, s')"
    by (auto split: option.splits verdict.splits)
  have "view txdb (mapQueuedChanges s) (?H tx) = None" using Cons.prems(5) by simp
  from connect_tx_connected [OF 1 Cons.prems(2, 3) assms(4, 5) this]
  have c: "sorted_map (mapQueuedChanges s1)" "nulls_canonical (view txdb (mapQueuedChanges s1))"
    "c_nTxPos s1 = c_nTxPos s + word_of_nat (size_CTransaction tx)"
    "map_option ti_pos (view txdb (mapQueuedChanges s1) (?H tx)) =
       Some \<lparr>nFile = bi_nFile pindex, nBlockPos = bi_nBlockPos pindex, nTxPos = c_nTxPos s\<rparr>"
    "\<forall>g. g \<noteq> ?H tx \<longrightarrow> map_option ti_pos (view txdb (mapQueuedChanges s1) g) =
       map_option ti_pos (view txdb (mapQueuedChanges s) g)"
    "DisconnectInputs (env_L E) tx (txdb\<lparr>tx_index := view txdb (mapQueuedChanges s1)\<rparr>) =
       (True, txdb\<lparr>tx_index := view txdb (mapQueuedChanges s)\<rparr>)"
    by (simp_all add: tx_connected_def CTxIndex_new_def Let_def)
  have ne: "?H t \<noteq> ?H tx" if "t \<in> set txs" for t
    using Cons.prems(4) image_eqI [OF refl that, of ?H] by fastforce
  have "\<forall>t \<in> set txs. view txdb (mapQueuedChanges s1) (?H t) = None"
    using c(5) ne Cons.prems(5) by fastforce
  with Cons.IH [OF rec c(1, 2)] Cons.prems(4) have IH:
    "sorted_map (mapQueuedChanges s')"
    "disconnect_txs (env_L E) (rev txs) (txdb\<lparr>tx_index := view txdb (mapQueuedChanges s')\<rparr>) =
      (True, txdb\<lparr>tx_index := view txdb (mapQueuedChanges s1)\<rparr>)"
    "\<forall>g. g \<notin> ?H ` set txs \<longrightarrow>
       map_option ti_pos (view txdb (mapQueuedChanges s') g) = map_option ti_pos (view txdb (mapQueuedChanges s1) g)"
    "\<forall>k < length txs. map_option ti_pos (view txdb (mapQueuedChanges s') (?H (txs ! k))) =
       Some \<lparr>nFile = bi_nFile pindex, nBlockPos = bi_nBlockPos pindex,
         nTxPos = c_nTxPos s1 + word_of_nat (\<Sum>tx \<leftarrow> take k txs. size_CTransaction tx)\<rparr>"
    by auto
  have "map_option ti_pos (view txdb (mapQueuedChanges s') (?H ((tx # txs) ! k))) =
      Some \<lparr>nFile = bi_nFile pindex, nBlockPos = bi_nBlockPos pindex,
        nTxPos = c_nTxPos s + word_of_nat (\<Sum>tx \<leftarrow> take k (tx # txs). size_CTransaction tx)\<rparr>"
    if "k < length (tx # txs)" for k
  proof (cases k)
    case 0
    have "?H tx \<notin> ?H ` set txs" using ne by force
    with IH(3) c(4) 0 show ?thesis by simp
  next
    case (Suc j)
    with IH(4) that c(3) show ?thesis by (simp add: add.assoc)
  qed
  with IH c(5, 6) show ?case by (simp add: disconnect_txs_append)
qed simp

section \<open>Whole blocks\<close>

lemma write_queued_view:
  "\<forall>h. \<not> refuses txdb h \<Longrightarrow> sorted_map q \<Longrightarrow> write_queued q txdb = (True, txdb\<lparr>tx_index := view txdb q\<rparr>)"
proof (induction q arbitrary: txdb)
  case (Cons hx q)
  obtain h x where hx: "hx = (h, x)" by (cases hx)
  with Cons.prems(2) have q: "sorted_map q" "map_of q h = None"
    by (auto simp: sorted_map_def map_of_eq_None_iff)
  let ?db = "txdb\<lparr>tx_index := (tx_index txdb)(h \<mapsto> x)\<rparr>"
  have "view ?db q = view txdb (hx # q)"
    using q(2) by (auto simp: view_def hx map_add_def fun_eq_iff split: option.splits)
  with Cons.IH [of ?db] Cons.prems(1) q(1) show ?case by (simp add: hx UpdateTxIndex_def)
qed (simp add: view_def)

lemma CheckBlock_valid_parts:
  assumes "CheckBlock L D t b pow root = Valid"
  shows "distinct (map (CTransaction_GetHash L) (vtx b))" and "size_CBlock b \<le> MAX_BLOCK_SIZE"
  using assms by (auto simp: CheckBlock_def intro: card_distinct split: if_splits verdict.splits)

lemma ConnectBlock_valid_parts:
  assumes "ConnectBlock E txdb pindex pprev False b cache = Some (Valid, txdb', pindex', cache')"
    and "\<forall>h. \<not> refuses txdb h" and "nulls_canonical (tx_index txdb)" and "bi_nFile pindex \<noteq> - 1"
    and "\<forall>tx \<in> set (vtx b). tx_index txdb (CTransaction_GetHash (env_L E) tx) = None"
  shows "DisconnectBlock (env_L E) b txdb' = (True, txdb)"
    and "k < length (vtx b) \<Longrightarrow>
      map_option ti_pos (ReadTxIndex txdb' (CTransaction_GetHash (env_L E) (vtx b ! k))) =
        Some \<lparr>nFile = bi_nFile pindex, nBlockPos = bi_nBlockPos pindex,
          nTxPos = first_tx_pos pindex b False + word_of_nat (\<Sum>tx \<leftarrow> take k (vtx b). size_CTransaction tx)\<rparr>"
    and "size_CBlock b \<le> MAX_BLOCK_SIZE"
proof -
  let ?s = "\<lparr>c_nTxPos = first_tx_pos pindex b False, mapQueuedChanges = [], c_nFees = 0,
    c_nValueIn = 0, c_nValueOut = 0, c_nSigOps = 0, c_cache = cache\<rparr>"
  from assms(1) have c: "CheckBlock (env_L E) (env_D E) (env_nAdjustedTime E) b True True = Valid"
    by (simp add: ConnectBlock_def split: verdict.splits)
  with assms(1) obtain s' where
    s': "connect_txs E txdb (pindex # pprev) False (vtx b) ?s = Some (Valid, s')"
    and w: "write_queued (mapQueuedChanges s') txdb = (True, txdb')"
    by (auto simp: ConnectBlock_def Let_def split: option.splits verdict.splits prod.splits bool.splits)
  have v: "view txdb (mapQueuedChanges ?s) = tx_index txdb" by (simp add: view_def)
  have "sorted_map (mapQueuedChanges ?s)" by simp
  from connect_txs_connected [OF s' this _ assms(4, 2) CheckBlock_valid_parts(1) [OF c], unfolded v, OF assms(3, 5)]
  have p: "sorted_map (mapQueuedChanges s')"
    "disconnect_txs (env_L E) (rev (vtx b)) (txdb\<lparr>tx_index := view txdb (mapQueuedChanges s')\<rparr>) =
      (True, txdb\<lparr>tx_index := tx_index txdb\<rparr>)"
    "\<forall>k < length (vtx b). map_option ti_pos
       (view txdb (mapQueuedChanges s') (CTransaction_GetHash (env_L E) (vtx b ! k))) =
       Some \<lparr>nFile = bi_nFile pindex, nBlockPos = bi_nBlockPos pindex,
         nTxPos = first_tx_pos pindex b False + word_of_nat (\<Sum>tx \<leftarrow> take k (vtx b). size_CTransaction tx)\<rparr>"
    by simp_all
  have db: "txdb' = txdb\<lparr>tx_index := view txdb (mapQueuedChanges s')\<rparr>"
    using write_queued_view [OF assms(2) p(1)] w by simp
  show "DisconnectBlock (env_L E) b txdb' = (True, txdb)"
    using p(2) by (simp add: DisconnectBlock_def db)
  show "size_CBlock b \<le> MAX_BLOCK_SIZE" by (rule CheckBlock_valid_parts(2) [OF c])
  show "map_option ti_pos (ReadTxIndex txdb' (CTransaction_GetHash (env_L E) (vtx b ! k))) =
        Some \<lparr>nFile = bi_nFile pindex, nBlockPos = bi_nBlockPos pindex,
          nTxPos = first_tx_pos pindex b False + word_of_nat (\<Sum>tx \<leftarrow> take k (vtx b). size_CTransaction tx)\<rparr>"
    if "k < length (vtx b)"
    using p(3) that by (simp add: db ReadTxIndex_def)
qed


lemma drop_ser_CBlock:
  assumes "wf_CBlock b" and "k < length (vtx b)"
  shows "unser_CTransaction (drop (88 + GetSizeOfCompactSize (length (vtx b)) +
      (\<Sum>tx \<leftarrow> take k (vtx b). size_CTransaction tx)) (ser_CBlock b)) =
    Some (vtx b ! k, concat (map ser_CTransaction (drop (Suc k) (vtx b))) @ ser_bytes (vchBlockSig b))"
proof -
  let ?pre = "concat (map ser_CTransaction (take k (vtx b)))"
    and ?post = "concat (map ser_CTransaction (drop (Suc k) (vtx b))) @ ser_bytes (vchBlockSig b)"
  have wf: "\<forall>tx \<in> set (vtx b). wf_CTransaction tx" using assms(1) by (simp add: wf_CBlock_def)
  then have "\<forall>tx \<in> set (take k (vtx b)). wf_CTransaction tx" by (meson in_set_takeD)
  then have len: "length ?pre = (\<Sum>tx \<leftarrow> take k (vtx b). size_CTransaction tx)" by (rule transaction.sum_size)
  have "vtx b = take k (vtx b) @ vtx b ! k # drop (Suc k) (vtx b)"
    using assms(2) by (rule id_take_nth_drop)
  then have "concat (map ser_CTransaction (vtx b)) = ?pre @ ser_CTransaction (vtx b ! k) @
      concat (map ser_CTransaction (drop (Suc k) (vtx b)))"
    by (metis concat.simps(2) concat_append list.simps(9) map_append)
  then have "ser_CBlock b = (ser_header b @ WriteCompactSize (length (vtx b)) @ ?pre) @
      ser_CTransaction (vtx b ! k) @ ?post"
    by (simp add: ser_CBlock_def ser_vector_def)
  moreover have "length (ser_header b @ WriteCompactSize (length (vtx b)) @ ?pre) =
      88 + GetSizeOfCompactSize (length (vtx b)) + (\<Sum>tx \<leftarrow> take k (vtx b). size_CTransaction tx)"
    by (simp add: length_ser_header len)
  ultimately have "drop (88 + GetSizeOfCompactSize (length (vtx b)) +
      (\<Sum>tx \<leftarrow> take k (vtx b). size_CTransaction tx)) (ser_CBlock b) = ser_CTransaction (vtx b ! k) @ ?post"
    by (metis append_eq_conv_conj)
  then show ?thesis using transaction.read_back wf assms(2) by simp
qed

lemma tx_offset_bound:
  assumes "k < length (vtx b)"
  shows "88 + GetSizeOfCompactSize (length (vtx b)) + (\<Sum>tx \<leftarrow> take k (vtx b). size_CTransaction tx) \<le> size_CBlock b"
proof -
  have "(\<Sum>tx \<leftarrow> vtx b. size_CTransaction tx) =
      (\<Sum>tx \<leftarrow> take k (vtx b). size_CTransaction tx) + (\<Sum>tx \<leftarrow> drop k (vtx b). size_CTransaction tx)"
    by (metis append_take_drop_id map_append sum_list_append)
  then show ?thesis by (simp add: size_CBlock_def size_vector_def)
qed

text \<open>
  C10.  The positions \<open>ConnectBlock\<close> records are right: for every transaction of a connected block the
  index holds the block's file and position, and reading the serialised block at the recorded offset
  gives back that transaction.
\<close>

theorem ConnectBlock_positions:
  assumes "ConnectBlock E txdb pindex pprev False b cache = Some (Valid, txdb', pindex', cache')"
    and "\<forall>h. \<not> refuses txdb h" and "nulls_canonical (tx_index txdb)" and "bi_nFile pindex \<noteq> - 1"
    and "\<forall>tx \<in> set (vtx b). tx_index txdb (CTransaction_GetHash (env_L E) tx) = None"
    and "wf_CBlock b" and "k < length (vtx b)"
  shows "\<exists>txindex rest. ReadTxIndex txdb' (CTransaction_GetHash (env_L E) (vtx b ! k)) = Some txindex \<and>
    nFile (ti_pos txindex) = bi_nFile pindex \<and> nBlockPos (ti_pos txindex) = bi_nBlockPos pindex \<and>
    unser_CTransaction (drop (unat (nTxPos (ti_pos txindex) - bi_nBlockPos pindex)) (ser_CBlock b)) =
      Some (vtx b ! k, rest)"
proof -
  let ?off = "88 + GetSizeOfCompactSize (length (vtx b)) + (\<Sum>tx \<leftarrow> take k (vtx b). size_CTransaction tx)"
  note parts = ConnectBlock_valid_parts [OF assms(1-5)]
  from parts(2) [OF assms(7)] obtain txindex where
    i: "ReadTxIndex txdb' (CTransaction_GetHash (env_L E) (vtx b ! k)) = Some txindex"
    and p: "ti_pos txindex = \<lparr>nFile = bi_nFile pindex, nBlockPos = bi_nBlockPos pindex,
      nTxPos = first_tx_pos pindex b False + word_of_nat (\<Sum>tx \<leftarrow> take k (vtx b). size_CTransaction tx)\<rparr>"
    by auto
  obtain off where off: "off = ?off" by simp
  have "nTxPos (ti_pos txindex) - bi_nBlockPos pindex = word_of_nat off"
    by (simp add: off p first_tx_pos_def size_CBlock_def size_vector_def size_bytes_def CBlock_SetNull_def
        GetSizeOfCompactSize_def)
  moreover have "off < 2 ^ 32"
    using tx_offset_bound [OF assms(7)] parts(3) by (simp add: off MAX_BLOCK_SIZE_def)
  ultimately have "unat (nTxPos (ti_pos txindex) - bi_nBlockPos pindex) = ?off"
    by (simp add: unat_of_nat off [symmetric])
  with i p drop_ser_CBlock [OF assms(6, 7)] show ?thesis by simp
qed

section \<open>A block that connects\<close>

definition sample_coinbase :: CTransaction where
  "sample_coinbase = \<lparr>nVersion = 1, nTime = 5, vin = [\<lparr>prevout = COutPoint_SetNull, scriptSig = [1, 2], nSequence = 0\<rparr>],
     vout = [\<lparr>nValue = 50000, scriptPubKey = 33 # replicate 33 2 @ [0xac]\<rparr>], nLockTime = 0\<rparr>"

definition sample_mined :: CBlock where
  "sample_mined = CBlock_SetNull\<lparr>b_nVersion := 0, hashPrevBlock := 11, b_nTime := 5, b_nBits := 0x03000007, vtx := [sample_coinbase],
     vchBlockSig := replicate 32 2 @ bytes256 0\<rparr>"

definition sample_const :: sphlib where
  "sample_const = \<lparr>keccak512 = take 1, groestl512 = id, skein512 = id, blake512 = id, jh512 = id\<rparr>"

definition sample_env :: node_env where
  "sample_env = \<lparr>env_L = sample_digest, env_D = sample_const, env_files = sample_files,
     env_pool = Map.empty, env_nMaxCacheSize = 10, env_nBestHeight = 0, env_nBlocksEstimate = 0,
     env_nAdjustedTime = 100\<rparr>"

lemma sample_coinbase_facts:
  "IsCoinBase sample_coinbase"
  "GetValueOut sample_coinbase = Some 50000" "size_CTransaction sample_coinbase = 101"
  "nTime sample_coinbase = 5" "length (vout sample_coinbase) = 1"
  by (simp_all add: sample_coinbase_def IsCoinBase_def COutPoint_IsNull_def COutPoint_SetNull_def
      GetValueOut_def MoneyRange_def amount_defs wrap64_def size_CTransaction_def size_vector_def size_bytes_def
      size_CTxIn_def size_CTxOut_def GetSizeOfCompactSize_def)

lemma sample_coinbase_checked: "CheckTransaction sample_coinbase = Valid"
  by (simp add: CheckTransaction_def sample_coinbase_facts MAX_BLOCK_SIZE_def)
    (simp add: sample_coinbase_def Let_def MoneyRange_def amount_defs wrap64_def CTxOut_IsEmpty_def)

lemma sample_coinbase_sigops: "GetLegacySigOpCount sample_coinbase = 1"
  by code_simp

lemma sample_coinbase_solved:
  "Solver (scriptPubKey (vout sample_coinbase ! 0)) = (True, TX_PUBKEY, [replicate 33 2])"
  by code_simp

lemma mpi_documented_digest: "mpi_documented sample_digest"
  using mpi_documented_sample by (simp add: mpi_documented_def sample_digest_def)

lemma sample_mined_parts:
  "vtx sample_mined = [sample_coinbase]" "b_nTime sample_mined = 5" "b_nBits sample_mined = 0x03000007"
  "\<not> Block_IsProofOfStake sample_mined" "Block_IsProofOfWork sample_mined" "b_hashMerkleRoot sample_mined = 0"
  "vchBlockSig sample_mined = replicate 32 2 @ bytes256 0" "size_CBlock sample_mined = 255"
  by (simp_all add: sample_mined_def CBlock_SetNull_def Block_IsProofOfStake_def Block_IsProofOfWork_def
      size_CBlock_def size_vector_def size_bytes_def sample_coinbase_facts GetSizeOfCompactSize_def)

lemma nat_le_Cons: "0 < k \<Longrightarrow> nat_le k n = word_of_nat n # nat_le (k - 1) (n div 256)"
  by (cases k) simp_all

lemma sample_const_hash: "CBlock_GetHash sample_const b = le_word (take 1 (ser_i32 (b_nVersion b)))"
proof -
  have "sha3v1_round sample_const = id" "sha3v2_round sample_const = id"
    by (simp_all add: fun_eq_iff sha3v1_round_def sha3v2_round_def sample_const_def Let_def)
  moreover have "take 1 (ser_header b) = take 1 (ser_i32 (b_nVersion b))"
    by (simp add: ser_header_def ser_i32_def)
  ultimately show ?thesis
    by (simp add: CBlock_GetHash_def HashSHA3_def HashSHA3V2_def HashSHA3V1_def trim256_def Let_def)
      (simp add: sample_const_def)
qed

lemma sample_block_hash: "CBlock_GetHash sample_const sample_mined = 0"
  by (simp add: sample_const_hash sample_mined_def ser_i32_def le_word_def nat_le_Cons [of 4])

lemma sample_signature: "CheckBlockSignature sample_digest sample_const sample_mined"
proof -
  have outs: "vout sample_coinbase = [vout sample_coinbase ! 0]"
    by (simp add: sample_coinbase_def)
  have "check_pow_signature sample_digest 0 (replicate 32 2 @ bytes256 0) (vout sample_coinbase)"
    by (subst outs) (simp add: sample_coinbase_solved SetPubKey_def CKey_Verify_def GetPubKey_def SetCompressedPubKey_def sample_digest_def
        sample_openssl_def CKey_new_def)
  then show ?thesis
    by (simp add: CheckBlockSignature_def sample_block_hash hashGenesisBlockOfficial_def sample_mined_parts)
qed

lemma sample_proof_of_work: "CheckProofOfWork sample_digest 0 0x03000007"
  unfolding CheckProofOfWork_iff [OF mpi_documented_digest] by (simp add: SetCompact_def Let_def)

lemma sample_checked: "CheckBlock sample_digest sample_const 100 sample_mined True True = Valid"
proof -
  note sample_proof_of_work
  moreover have "fst (BuildMerkleTree sample_digest sample_mined) = 0"
    by (simp add: BuildMerkleTree_def sample_mined_parts sample_hash merkle_build.simps)
  ultimately show ?thesis
    by (simp add: CheckBlock_def sample_block_hash sample_mined_parts sample_coinbase_facts sample_coinbase_checked
        sample_coinbase_sigops sample_signature MAX_BLOCK_SIZE_def MAX_BLOCK_SIGOPS_def nMaxClockDrift_def)
qed

lemma sample_block_connects_at:
  "\<exists>pindex' cache'. ConnectBlock (sample_env\<lparr>env_files := F, env_nBestHeight := n, env_pool := pool\<rparr>) sample_db (sample_block 2 h 0 5\<lparr>bnChainTrust := w\<rparr>)
       sample_chain False sample_mined sample_cache =
     Some (Valid, sample_db\<lparr>tx_index := [7 \<mapsto> sample_index,
       0 \<mapsto> CTxIndex_new \<lparr>nFile = 0, nBlockPos = 0, nTxPos = 89\<rparr> 1]\<rparr>, pindex', cache')"
proof -
  let ?i = "sample_block 2 h 0 5\<lparr>bnChainTrust := w\<rparr>"
  have pos: "first_tx_pos ?i sample_mined False = 89"
    by (simp add: first_tx_pos_def sample_mined_parts sample_block_def size_CBlock_def CBlock_SetNull_def
        size_vector_def size_bytes_def GetSizeOfCompactSize_def)
  have reward: "GetProofOfWorkReward 2 0 sample_chain = Some (100000 * COIN)"
    by code_simp
  have h: "nHeight ?i = 2" "bi_nFile ?i = 0" "bi_nBlockPos ?i = 0"
    by (simp_all add: sample_block_def)
  have idx: "tx_index sample_db 0 = None" "\<not> refuses sample_db h" "tx_index sample_db = [7 \<mapsto> sample_index]" for h
    by (simp_all add: sample_db_def)
  show ?thesis
    by (simp add: ConnectBlock_def sample_env_def sample_checked sample_mined_parts connect_tx_def Let_def
        sample_hash ReadTxIndex_def pos reward sample_coinbase_facts sample_coinbase_sigops idx
        MAX_BLOCK_SIGOPS_def MAX_BLOCK_SIZE_def UpdateTxIndex_def COIN_def h)
qed

lemma sample_block_connects:
  "\<exists>pindex' cache'. ConnectBlock sample_env sample_db (sample_block 2 5 0 5) sample_chain False sample_mined sample_cache =
     Some (Valid, sample_db\<lparr>tx_index := [7 \<mapsto> sample_index,
       0 \<mapsto> CTxIndex_new \<lparr>nFile = 0, nBlockPos = 0, nTxPos = 89\<rparr> 1]\<rparr>, pindex', cache')"
proof -
  have "sample_env = sample_env\<lparr>env_files := sample_files, env_nBestHeight := 0, env_pool := Map.empty\<rparr>"
    and "sample_block 2 5 0 5 = sample_block 2 5 0 5\<lparr>bnChainTrust := 0\<rparr>"
    by (simp_all add: sample_env_def sample_block_def)
  then show ?thesis using sample_block_connects_at [where F = sample_files and n = 0 and pool = Map.empty and h = 5 and w = 0] by metis
qed

lemma sample_connect_hyps:
  "\<forall>h. \<not> refuses sample_db h" "nulls_canonical (tx_index sample_db)" "bi_nFile (sample_block 2 5 0 5) \<noteq> - 1"
  "\<forall>tx \<in> set (vtx sample_mined). tx_index sample_db (CTransaction_GetHash (env_L sample_env) tx) = None"
  by (simp_all add: sample_db_def nulls_canonical_def sample_index_def sample_block_def sample_mined_parts
      sample_env_def sample_hash)


theorem ConnectBlock_positions_witness:
  "\<exists>txdb' pindex' cache' txindex rest.
     ConnectBlock sample_env sample_db (sample_block 2 5 0 5) sample_chain False sample_mined sample_cache =
       Some (Valid, txdb', pindex', cache') \<and>
     ReadTxIndex txdb' 0 = Some txindex \<and>
     unser_CTransaction (drop (unat (nTxPos (ti_pos txindex))) (ser_CBlock sample_mined)) = Some (sample_coinbase, rest)"
proof -
  obtain txdb' pindex' cache' where run: "ConnectBlock sample_env sample_db (sample_block 2 5 0 5) sample_chain False
      sample_mined sample_cache = Some (Valid, txdb', pindex', cache')"
    using sample_block_connects by blast
  have "wf_CTransaction sample_coinbase"
    by (simp add: sample_coinbase_def wf_CTransaction_def wf_CTxIn_def wf_CTxOut_def MAX_SIZE_def in_i64_def
        i64_min_def i64_max_def)
  then have "wf_CBlock sample_mined"
    by (simp add: wf_CBlock_def sample_mined_def CBlock_SetNull_def MAX_SIZE_def)
  then obtain txindex rest where "ReadTxIndex txdb' (CTransaction_GetHash (env_L sample_env) (vtx sample_mined ! 0)) = Some txindex \<and>
      nFile (ti_pos txindex) = bi_nFile (sample_block 2 5 0 5) \<and>
      nBlockPos (ti_pos txindex) = bi_nBlockPos (sample_block 2 5 0 5) \<and>
      unser_CTransaction (drop (unat (nTxPos (ti_pos txindex) - bi_nBlockPos (sample_block 2 5 0 5))) (ser_CBlock sample_mined)) =
        Some (vtx sample_mined ! 0, rest)"
    using ConnectBlock_positions [OF run sample_connect_hyps, of 0] by (auto simp: sample_mined_parts)
  with run show ?thesis
    by (auto simp: sample_env_def sample_hash sample_mined_parts sample_block_def)
qed

end
