(* ===== verification/Mempool.thy ===== *)
theory Mempool
  imports BlockRules_Facts
begin

text \<open>
  The memory pool \<open>CTxMemPool\<close> (\<open>src/src/main.h\<close>, \<open>src/src/main.cpp\<close>): accepting a loose transaction,
  removing one, and the invariant of the pool.  A pointer to a transaction of the pool is its key in
  \<open>mapTx\<close>.
\<close>

section \<open>The pool\<close>

record CInPoint =
  ptx :: "uint256 option"
  in_n :: u32

definition CInPoint_SetNull :: CInPoint where
  "CInPoint_SetNull = \<lparr>ptx = None, in_n = - 1\<rparr>"

definition CInPoint_IsNull :: "CInPoint \<Rightarrow> bool" where
  "CInPoint_IsNull p \<longleftrightarrow> ptx p = None \<and> in_n p = - 1"

record CTxMemPool =
  mapTx :: "(uint256 \<times> CTransaction) list"
  mapNextTx :: "COutPoint \<rightharpoonup> CInPoint"
  nTransactionsUpdated :: u32

definition pool_exists :: "CTxMemPool \<Rightarrow> uint256 \<Rightarrow> bool" where
  "pool_exists mp h \<longleftrightarrow> map_of (mapTx mp) h \<noteq> None"

fun add_inpoints :: "uint256 \<Rightarrow> CTxIn list \<Rightarrow> u32 \<Rightarrow> (COutPoint \<rightharpoonup> CInPoint) \<Rightarrow> (COutPoint \<rightharpoonup> CInPoint)" where
  "add_inpoints h [] i next = next"
| "add_inpoints h (txin # ins) i next =
     add_inpoints h ins (i + 1) (next(prevout txin \<mapsto> \<lparr>ptx = Some h, in_n = i\<rparr>))"

definition addUnchecked :: "uint256 \<Rightarrow> CTransaction \<Rightarrow> CTxMemPool \<Rightarrow> CTxMemPool" where
  "addUnchecked h tx mp =
     mp\<lparr>mapTx := map_put h tx (mapTx mp), mapNextTx := add_inpoints h (vin tx) 0 (mapNextTx mp),
        nTransactionsUpdated := nTransactionsUpdated mp + 1\<rparr>"

definition pool_remove :: "openssl \<Rightarrow> CTransaction \<Rightarrow> CTxMemPool \<Rightarrow> CTxMemPool" where
  "pool_remove L tx mp =
     (let h = CTransaction_GetHash L tx
      in if pool_exists mp h then
           mp\<lparr>mapTx := map_erase h (mapTx mp),
              mapNextTx := fold (\<lambda>txin next. next(prevout txin := None)) (vin tx) (mapNextTx mp),
              nTransactionsUpdated := nTransactionsUpdated mp + 1\<rparr>
         else mp)"

definition pool_clear :: "CTxMemPool \<Rightarrow> CTxMemPool" where
  "pool_clear mp =
     mp\<lparr>mapTx := [], mapNextTx := Map.empty, nTransactionsUpdated := nTransactionsUpdated mp + 1\<rparr>"

definition queryHashes :: "CTxMemPool \<Rightarrow> uint256 list" where
  "queryHashes mp = map fst (mapTx mp)"

section \<open>Accepting a transaction\<close>

text \<open>
  The part under \<open>fCheckInputs\<close>: a verdict, whether inputs are missing, and the signature cache.
  \<open>limited\<close> is the answer of the rate limiter for free transactions, which is computed from the clock in
  floating point and from the wallets.  \<open>None\<close> is an exception.
\<close>

definition accept_inputs ::
  "node_env \<Rightarrow> CTxDB \<Rightarrow> CBlockIndex list \<Rightarrow> (CTransaction \<Rightarrow> bool) \<Rightarrow> CTransaction \<Rightarrow> CTxMemPool \<Rightarrow> CSignatureCache \<Rightarrow>
     (verdict \<times> bool \<times> CSignatureCache) option" where
  "accept_inputs E txdb pindexBest limited tx mp cache =
     (case FetchInputs (env_files E) (map_of (mapTx mp)) txdb [] False False tx [] of
        InvalidInputs \<Rightarrow> Some (Invalid 100, False, cache)
      | NotFound \<Rightarrow> Some (Invalid 0, True, cache)
      | Fetched mapInputs \<Rightarrow>
          (case AreInputsStandard (env_L E) (env_nMaxCacheSize E) tx mapInputs cache of
             None \<Rightarrow> None
           | Some (False, cache1) \<Rightarrow> Some (Invalid 0, False, cache1)
           | Some (True, cache1) \<Rightarrow>
               (case (GetValueIn tx mapInputs, GetValueOut tx) of
                  (Some nValueIn, Some nValueOut) \<Rightarrow>
                    (let nFees = wrap64 (nValueIn - nValueOut);
                         txMinFee = GetMinFee tx 1000 False GMF_RELAY (word_of_nat (size_CTransaction tx))
                     in if nFees < txMinFee then Some (Invalid 0, False, cache1)
                        else if nFees < MIN_RELAY_TX_FEE \<and> limited tx then Some (Invalid 0, False, cache1)
                        else
                          map_option (\<lambda>(v, _, cache2). (v, False, cache2))
                            (ConnectInputs (env_L E) (env_D E) (env_files E) (env_nMaxCacheSize E)
                               (env_nBestHeight E) (env_nBlocksEstimate E) txdb mapInputs [] pos_111 pindexBest
                               False False True tx cache1))
                | _ \<Rightarrow> None)))"

text \<open>Replacement is disabled: a conflict with the pool always rejects.\<close>

definition accept ::
  "node_env \<Rightarrow> CTxDB \<Rightarrow> CBlockIndex list \<Rightarrow> (CTransaction \<Rightarrow> bool) \<Rightarrow> CTransaction \<Rightarrow> bool \<Rightarrow> CTxMemPool \<Rightarrow>
     CSignatureCache \<Rightarrow> (verdict \<times> bool \<times> CTxMemPool \<times> CSignatureCache) option" where
  "accept E txdb pindexBest limited tx fCheckInputs mp cache =
     (let reject = (\<lambda>d. Some (Invalid d, False, mp, cache)); h = CTransaction_GetHash (env_L E) tx
      in case CheckTransaction tx of
           Invalid d \<Rightarrow> reject d
         | Valid \<Rightarrow>
             if IsCoinBase tx then reject 100
             else if IsCoinStake tx then reject 100
             else if uint (nLockTime tx) > 2 ^ 31 - 1 then reject 0
             else if \<not> CTransaction_IsStandard tx then reject 0
             else if pool_exists mp h then reject 0
             else if fCheckInputs \<and> ContainsTx txdb h then reject 0
             else if \<exists>txin \<in> set (vin tx). mapNextTx mp (prevout txin) \<noteq> None then reject 0
             else if fCheckInputs then
               (case accept_inputs E txdb pindexBest limited tx mp cache of
                  None \<Rightarrow> None
                | Some (Invalid d, missing, cache') \<Rightarrow> Some (Invalid d, missing, mp, cache')
                | Some (Valid, _, cache') \<Rightarrow> Some (Valid, False, addUnchecked h tx mp, cache'))
             else Some (Valid, False, addUnchecked h tx mp, cache))"

section \<open>The invariant\<close>

text \<open>Input \<open>n\<close> of the pool's transaction \<open>h\<close> spends \<open>out\<close>, and the pointer to that input.\<close>

definition spends :: "(uint256 \<times> CTransaction) list \<Rightarrow> COutPoint \<Rightarrow> uint256 \<Rightarrow> nat \<Rightarrow> bool" where
  "spends m out h n \<longleftrightarrow> (\<exists>tx. map_of m h = Some tx \<and> n < length (vin tx) \<and> prevout (vin tx ! n) = out)"

definition point :: "uint256 \<Rightarrow> nat \<Rightarrow> CInPoint" where
  "point h n = \<lparr>ptx = Some h, in_n = word_of_nat n\<rparr>"

text \<open>
  Keys are hashes, every transaction passed \<open>CheckTransaction\<close> and is loose, and \<open>mapNextTx\<close> is exactly
  the relation \<open>spends\<close>.
\<close>

definition pool_inv :: "openssl \<Rightarrow> CTxMemPool \<Rightarrow> bool" where
  "pool_inv L mp \<longleftrightarrow> sorted_map (mapTx mp) \<and>
     (\<forall>h tx. map_of (mapTx mp) h = Some tx \<longrightarrow>
        h = CTransaction_GetHash L tx \<and> CheckTransaction tx = Valid \<and> \<not> IsCoinBase tx \<and> \<not> IsCoinStake tx) \<and>
     (\<forall>out p. mapNextTx mp out = Some p \<longleftrightarrow> (\<exists>h n. spends (mapTx mp) out h n \<and> p = point h n))"

lemma add_inpoints_other:
  "out \<notin> prevout ` set ins \<Longrightarrow> add_inpoints h ins i next out = next out"
  by (induction h ins i "next" rule: add_inpoints.induct) auto

lemma add_inpoints_nth:
  "distinct (map prevout ins) \<Longrightarrow> k < length ins \<Longrightarrow>
     add_inpoints h ins i next (prevout (ins ! k)) = Some \<lparr>ptx = Some h, in_n = i + word_of_nat k\<rparr>"
proof (induction h ins i "next" arbitrary: k rule: add_inpoints.induct)
  case (2 h txin ins i "next")
  show ?case
  proof (cases k)
    case 0
    with 2 show ?thesis by (simp add: add_inpoints_other)
  next
    case (Suc j)
    with 2 have "add_inpoints h ins (i + 1) (next(prevout txin \<mapsto> \<lparr>ptx = Some h, in_n = i\<rparr>)) (prevout (ins ! j)) =
        Some \<lparr>ptx = Some h, in_n = (i + 1) + word_of_nat j\<rparr>"
      by (intro "2.IH") simp_all
    with Suc show ?thesis by (simp add: ac_simps)
  qed
qed simp

lemma add_inpoints_eq:
  assumes "distinct (map prevout ins)"
  shows "add_inpoints h ins 0 next out = Some p \<longleftrightarrow>
    (\<exists>n < length ins. prevout (ins ! n) = out \<and> p = point h n) \<or>
    out \<notin> prevout ` set ins \<and> next out = Some p"
proof (cases "out \<in> prevout ` set ins")
  case True
  then obtain k where k: "k < length ins" "prevout (ins ! k) = out" by (metis imageE in_set_conv_nth)
  have one: "n = k" if "n < length ins" "prevout (ins ! n) = out" for n
    using assms k that nth_eq_iff_index_eq [of "map prevout ins" n k] by simp
  have "add_inpoints h ins 0 next out = Some (point h k)"
    using add_inpoints_nth [OF assms k(1), of h 0 "next"] k(2) by (simp add: point_def)
  then have "add_inpoints h ins 0 next out = Some p \<longleftrightarrow> p = point h k"
    by (metis option.inject)
  moreover have "(\<exists>n < length ins. prevout (ins ! n) = out \<and> p = point h n) \<longleftrightarrow> p = point h k"
    using k one by metis
  ultimately show ?thesis using True by blast
next
  case False
  then have "prevout (ins ! n) \<noteq> out" if "n < length ins" for n using that by auto
  with False show ?thesis by (auto simp: add_inpoints_other)
qed

lemma fold_erase: "fold (\<lambda>txin m. m(prevout txin := None)) ins m out = (if out \<in> prevout ` set ins then None else m out)"
  by (induction ins arbitrary: m) auto

lemma spends_put:
  assumes "sorted_map m" and "map_of m h = None"
  shows "spends (map_put h tx m) out g n \<longleftrightarrow>
    g = h \<and> n < length (vin tx) \<and> prevout (vin tx ! n) = out \<or> spends m out g n"
  using assms(2) by (auto simp: spends_def map_of_put [OF assms(1)])

lemma spends_erase: "spends (map_erase h m) out g n \<longleftrightarrow> g \<noteq> h \<and> spends m out g n"
  by (auto simp: spends_def map_of_erase)

text \<open>No outpoint is spent by two transactions of the pool.\<close>

lemma pool_no_conflict:
  assumes "pool_inv L mp" and "spends (mapTx mp) out h n" and "spends (mapTx mp) out g k"
  shows "h = g"
proof -
  have "mapNextTx mp out = Some (point h n)" "mapNextTx mp out = Some (point g k)"
    using assms by (auto simp: pool_inv_def)
  then show ?thesis by (simp add: point_def)
qed

lemma CheckTransaction_distinct: "CheckTransaction tx = Valid \<Longrightarrow> distinct (map prevout (vin tx))"
  by (auto simp: CheckTransaction_def dup_inputs_iff split: if_splits verdict.splits)

lemma pool_inv_add:
  assumes "pool_inv L mp" and "CheckTransaction tx = Valid" and "\<not> IsCoinBase tx" and "\<not> IsCoinStake tx"
    and "\<not> pool_exists mp (CTransaction_GetHash L tx)"
    and "\<forall>txin \<in> set (vin tx). mapNextTx mp (prevout txin) = None"
  shows "pool_inv L (addUnchecked (CTransaction_GetHash L tx) tx mp)"
proof -
  let ?h = "CTransaction_GetHash L tx"
  note d = CheckTransaction_distinct [OF assms(2)]
  have s: "sorted_map (mapTx mp)" using assms(1) by (simp add: pool_inv_def)
  have new: "map_of (mapTx mp) ?h = None" using assms(5) by (simp add: pool_exists_def)
  have old: "mapNextTx mp out = Some p \<longleftrightarrow> (\<exists>h n. spends (mapTx mp) out h n \<and> p = point h n)" for out p
    using assms(1) by (simp add: pool_inv_def)
  have none: "mapNextTx mp out = None" if "out \<in> prevout ` set (vin tx)" for out using assms(6) that by auto
  have "add_inpoints ?h (vin tx) 0 (mapNextTx mp) out = Some p \<longleftrightarrow>
      (\<exists>h n. spends (map_put ?h tx (mapTx mp)) out h n \<and> p = point h n)" for out p
    unfolding add_inpoints_eq [OF d] spends_put [OF s new] using old none
    by (metis option.distinct(1))
  moreover have "h = ?h \<or> map_of (mapTx mp) h = Some t" if "map_of (map_put ?h tx (mapTx mp)) h = Some t" for h t
    using that by (auto simp: map_of_put [OF s] split: if_splits)
  ultimately show ?thesis
    using assms(1-4) by (auto simp: pool_inv_def addUnchecked_def sorted_map_put map_of_put [OF s] split: if_splits)
qed

lemma pool_inv_remove:
  assumes "pool_inv L mp" and "map_of (mapTx mp) (CTransaction_GetHash L tx) \<in> {None, Some tx}"
  shows "pool_inv L (pool_remove L tx mp)"
proof (cases "map_of (mapTx mp) (CTransaction_GetHash L tx)")
  case None
  with assms(1) show ?thesis by (simp add: pool_remove_def pool_exists_def)
next
  case (Some t)
  let ?h = "CTransaction_GetHash L tx"
  have old: "mapNextTx mp out = Some p \<longleftrightarrow> (\<exists>h n. spends (mapTx mp) out h n \<and> p = point h n)" for out p
    using assms(1) by (simp add: pool_inv_def)
  have tx: "map_of (mapTx mp) ?h = Some tx" using Some assms(2) by auto
  have mine: "out \<in> prevout ` set (vin tx) \<longleftrightarrow> (\<exists>k. spends (mapTx mp) out ?h k)" for out
    using tx by (auto simp: spends_def set_conv_nth)
  have "(if out \<in> prevout ` set (vin tx) then None else mapNextTx mp out) = Some p \<longleftrightarrow>
      (\<exists>h n. spends (map_erase ?h (mapTx mp)) out h n \<and> p = point h n)" for out p
    unfolding mine spends_erase using old pool_no_conflict [OF assms(1)]
    by (metis option.distinct(1))
  with Some assms(1) show ?thesis
    by (auto simp: pool_inv_def pool_remove_def pool_exists_def Let_def fold_erase map_of_erase sorted_map_erase)
qed

section \<open>Accepted transactions\<close>

lemma accept_Some:
  assumes "accept E txdb chain limited tx f mp cache = Some (v, missing, mp', cache')"
  obtains d where "v = Invalid d" and "mp' = mp"
  | "v = Valid" and "mp' = addUnchecked (CTransaction_GetHash (env_L E) tx) tx mp"
    and "CheckTransaction tx = Valid" and "\<not> IsCoinBase tx" and "\<not> IsCoinStake tx"
    and "\<not> pool_exists mp (CTransaction_GetHash (env_L E) tx)"
    and "\<forall>txin \<in> set (vin tx). mapNextTx mp (prevout txin) = None"
    and "f \<Longrightarrow> \<not> ContainsTx txdb (CTransaction_GetHash (env_L E) tx)"
    and "f \<Longrightarrow> accept_inputs E txdb chain limited tx mp cache = Some (Valid, False, cache')"
proof -
  have no_missing: "accept_inputs E txdb chain limited tx mp cache = Some (Valid, m, c) \<Longrightarrow> \<not> m" for m c
    by (auto simp: accept_inputs_def Let_def split: fetched.splits option.splits bool.splits if_splits)
  show thesis
  proof (cases v)
    case Valid
    with assms that(2) show thesis
      by (auto simp: accept_def Let_def split: verdict.splits if_splits option.splits prod.splits dest: no_missing)
  next
    case (Invalid d)
    with assms have "mp' = mp"
      by (auto simp: accept_def Let_def split: verdict.splits if_splits option.splits prod.splits)
    with Invalid show thesis by (rule that(1))
  qed
qed

lemma pool_inv_accept:
  "accept E txdb chain limited tx f mp cache = Some (v, missing, mp', cache') \<Longrightarrow> pool_inv (env_L E) mp \<Longrightarrow>
     pool_inv (env_L E) mp'"
  by (erule accept_Some) (simp_all add: pool_inv_add)

text \<open>
  The pools that accepting, removing and clearing lead to.  A removal is of a transaction of the pool
  itself: the caller's one with the same hash is the same transaction.
\<close>

inductive pool_reachable :: "openssl \<Rightarrow> CTxMemPool \<Rightarrow> bool" for L where
  start: "pool_reachable L \<lparr>mapTx = [], mapNextTx = Map.empty, nTransactionsUpdated = n\<rparr>"
| accepted: "pool_reachable L mp \<Longrightarrow> env_L E = L \<Longrightarrow>
    accept E txdb chain limited tx f mp cache = Some (v, missing, mp', cache') \<Longrightarrow> pool_reachable L mp'"
| removed: "pool_reachable L mp \<Longrightarrow> map_of (mapTx mp) (CTransaction_GetHash L tx) \<in> {None, Some tx} \<Longrightarrow>
    pool_reachable L (pool_remove L tx mp)"
| cleared: "pool_reachable L mp \<Longrightarrow> pool_reachable L (pool_clear mp)"

lemma pool_reachable_inv: "pool_reachable L mp \<Longrightarrow> pool_inv L mp"
proof (induction rule: pool_reachable.induct)
  case (start n)
  show ?case by (simp add: pool_inv_def spends_def)
next
  case (accepted mp E txdb chain limited tx f cache v missing mp' cache')
  then show ?case using pool_inv_accept by blast
next
  case (removed mp tx)
  then show ?case by (simp add: pool_inv_remove)
next
  case (cleared mp)
  show ?case by (simp add: pool_inv_def spends_def pool_clear_def)
qed

text \<open>
  C20.  Every pool that accepting, removing and clearing lead to holds, under their hashes, loose
  transactions that pass \<open>CheckTransaction\<close>; no two of them spend the same outpoint; and \<open>mapNextTx\<close>
  leads from an outpoint to the transaction and input that spend it, and nowhere else.
\<close>

theorem mempool_invariant:
  assumes "pool_reachable L mp"
  shows "(\<forall>h tx. map_of (mapTx mp) h = Some tx \<longrightarrow>
      h = CTransaction_GetHash L tx \<and> CheckTransaction tx = Valid \<and> \<not> IsCoinBase tx \<and> \<not> IsCoinStake tx) \<and>
    (\<forall>out h n g k. spends (mapTx mp) out h n \<and> spends (mapTx mp) out g k \<longrightarrow> h = g \<and> n = k) \<and>
    (\<forall>out p. mapNextTx mp out = Some p \<longleftrightarrow> (\<exists>h n. spends (mapTx mp) out h n \<and> p = point h n)) \<and>
    sorted_wrt (<) (queryHashes mp)"
proof -
  have inv: "pool_inv L mp" using assms by (rule pool_reachable_inv)
  have "h = g \<and> n = k" if s: "spends (mapTx mp) out h n" "spends (mapTx mp) out g k" for out h n g k
  proof -
    have "h = g" using pool_no_conflict [OF inv s] .
    with s obtain tx where tx: "map_of (mapTx mp) h = Some tx" "n < length (vin tx)" "k < length (vin tx)"
      "prevout (vin tx ! n) = prevout (vin tx ! k)"
      by (auto simp: spends_def)
    then have "distinct (map prevout (vin tx))"
      using inv by (auto simp: pool_inv_def intro: CheckTransaction_distinct)
    with tx have "n = k" by (metis length_map nth_eq_iff_index_eq nth_map)
    with \<open>h = g\<close> show ?thesis by simp
  qed
  with inv show ?thesis by (auto simp: pool_inv_def queryHashes_def sorted_map_def)
qed

section \<open>What an accepted transaction satisfies\<close>

lemma input_standard_cached:
  "cache_inv L c \<Longrightarrow> cache_inv L (snd (input_standard L (CheckSig L nMax tx i ht) prev txin c))"
proof -
  assume c: "cache_inv L c"
  from cached.EvalScript_pure [OF c, where scr = "scriptSig txin" and st = "[]"]
  obtain c' where "cache_inv L c'"
    and "EvalScript L (CheckSig L nMax tx i ht) [] (scriptSig txin) c =
      (case EvalScript L (pure_checker (sig_valid L tx i ht)) [] (scriptSig txin) () of (b, st', _) \<Rightarrow> (b, st', c'))" .
  with c show ?thesis
    by (auto simp: input_standard_def Let_def split: prod.splits)
qed

lemma inputs_standard_cached:
  "inputs_standard L (\<lambda>i. CheckSig L nMax tx i ht) inputs ins i c = Some (b, c') \<Longrightarrow> cache_inv L c \<Longrightarrow> cache_inv L c'"
proof (induction ins arbitrary: i c)
  case (Cons txin ins)
  then obtain prev where prev: "GetOutputFor txin inputs = Some prev" by (auto split: option.splits)
  let ?r = "input_standard L (CheckSig L nMax tx i ht) prev txin c"
  from Cons.prems(1) prev have "if fst ?r then inputs_standard L (\<lambda>i. CheckSig L nMax tx i ht) inputs ins (Suc i) (snd ?r) = Some (b, c')
      else c' = snd ?r"
    by (auto split: prod.splits if_splits)
  with Cons.IH input_standard_cached [OF Cons.prems(2)] show ?case by (auto split: if_splits)
qed simp

lemma wrap64_add_left: "wrap64 (wrap64 a + b) = wrap64 (a + b)"
  by (simp add: wrap64_def mod_simps algebra_simps)

lemma GetValueIn_loop_value:
  "GetValueIn_loop ins inputs v = Some w \<Longrightarrow> in_i64 v \<Longrightarrow> w = wrap64 (v + (\<Sum>txin \<leftarrow> ins. input_value inputs txin))"
proof (induction ins arbitrary: v)
  case (Cons txin ins)
  from Cons.prems(1) obtain prev where prev: "GetOutputFor txin inputs = Some prev"
    and rec: "GetValueIn_loop ins inputs (wrap64 (v + nValue prev)) = Some w" by (auto split: option.splits)
  have "nValue prev = input_value inputs txin"
    using prev by (auto simp: GetOutputFor_def input_value_def out_hash_def out_n_def Let_def split: option.splits if_splits)
  moreover have "w = wrap64 (wrap64 (v + nValue prev) + (\<Sum>txin \<leftarrow> ins. input_value inputs txin))"
    by (rule Cons.IH [OF rec in_i64_wrap64])
  ultimately show ?case by (simp add: wrap64_add_left add.assoc)
qed simp

lemma GetValueIn_value:
  "GetValueIn tx inputs = Some w \<Longrightarrow> \<not> IsCoinBase tx \<Longrightarrow>
     w = wrap64 (\<Sum>txin \<leftarrow> vin tx. input_value inputs txin)"
  using GetValueIn_loop_value [of "vin tx" inputs 0 w]
  by (simp add: GetValueIn_def in_i64_def i64_min_def i64_max_def)

text \<open>The parts of a valid run of \<open>accept_inputs\<close>.\<close>

lemma accept_inputs_valid:
  assumes "accept_inputs E txdb chain limited tx mp cache = Some (Valid, missing, cache')"
  obtains inputs cache1 pool nValueIn nValueOut where
    "FetchInputs (env_files E) (map_of (mapTx mp)) txdb [] False False tx [] = Fetched inputs"
    and "AreInputsStandard (env_L E) (env_nMaxCacheSize E) tx inputs cache = Some (True, cache1)"
    and "GetValueIn tx inputs = Some nValueIn" and "GetValueOut tx = Some nValueOut"
    and "GetMinFee tx 1000 False GMF_RELAY (word_of_nat (size_CTransaction tx)) \<le> wrap64 (nValueIn - nValueOut)"
    and "ConnectInputs (env_L E) (env_D E) (env_files E) (env_nMaxCacheSize E) (env_nBestHeight E)
      (env_nBlocksEstimate E) txdb inputs [] pos_111 chain False False True tx cache1 = Some (Valid, pool, cache')"
  using assms
  by (auto simp: accept_inputs_def Let_def not_less split: fetched.splits option.splits bool.splits if_splits)


text \<open>
  The rate limiter for free transactions never has a say: a transaction whose fee is below
  \<open>MIN_RELAY_TX_FEE\<close> has already been rejected for too low a fee.
\<close>

theorem free_limiter_irrelevant:
  "accept E txdb chain limited tx f mp cache = accept E txdb chain limited' tx f mp cache"
proof -
  have "MIN_RELAY_TX_FEE \<le> GetMinFee tx 1000 False GMF_RELAY n" for n
    using GetMinFee_bounds [of n tx 1000 False GMF_RELAY tx] pos_imp_zdiv_nonneg_iff [of 1000 "uint n"]
    by (simp add: amount_defs)
  then have "\<not> x < GetMinFee tx 1000 False GMF_RELAY n \<Longrightarrow> \<not> x < MIN_RELAY_TX_FEE" for x n
    by (metis not_less order_trans)
  then have "accept_inputs E txdb chain limited tx mp cache = accept_inputs E txdb chain limited' tx mp cache"
    by (simp add: accept_inputs_def Let_def split: fetched.splits option.splits bool.splits)
  then show ?thesis by (simp only: accept_def)
qed

section \<open>A transaction that is accepted\<close>

text \<open>Digests that keep the first byte: the hash of a transaction is the low byte of its version.\<close>

definition sample_first :: openssl where
  "sample_first = sample_openssl\<lparr>SHA256 := take 1, RIPEMD160 := take 1\<rparr>"

definition sample_pub :: valtype where "sample_pub = replicate 33 2"
definition sample_sig :: valtype where "sample_sig = replicate 32 2 @ bytes256 1 @ [1]"

definition sample_paid :: CTransaction where
  "sample_paid = \<lparr>nVersion = 0, nTime = 1, vin = [\<lparr>prevout = COutPoint 9 0, scriptSig = [], nSequence = 0\<rparr>],
     vout = [\<lparr>nValue = 50000, scriptPubKey = p2pkh_script 2\<rparr>], nLockTime = 0\<rparr>"

definition sample_pay :: CTransaction where
  "sample_pay = \<lparr>nVersion = 1, nTime = 2,
     vin = [\<lparr>prevout = COutPoint 0 0, scriptSig = push_data sample_sig @ push_data sample_pub, nSequence = 0\<rparr>],
     vout = [\<lparr>nValue = 30000, scriptPubKey = p2pkh_script 3\<rparr>], nLockTime = 0\<rparr>"

definition sample_pool_env :: node_env where
  "sample_pool_env = \<lparr>env_L = sample_first, env_D = sample_const,
     env_files = \<lparr>file_tx = (\<lambda>_. Some sample_paid), file_block = (\<lambda>_. None)\<rparr>, env_pool = Map.empty,
     env_nMaxCacheSize = 10, env_nBestHeight = 0, env_nBlocksEstimate = 0, env_nAdjustedTime = 100\<rparr>"

definition sample_pool_db :: CTxDB where
  "sample_pool_db = \<lparr>tx_index = [0 \<mapsto> sample_index], refuses = (\<lambda>_. False)\<rparr>"

definition sample_pool :: CTxMemPool where
  "sample_pool = \<lparr>mapTx = [], mapNextTx = Map.empty, nTransactionsUpdated = 0\<rparr>"

lemma sample_first_hash: "b \<le> 1 \<Longrightarrow> Hash sample_first (word_of_nat b # bs) = word_of_nat b"
proof -
  assume "b \<le> 1"
  then have "b = 0 \<or> b = 1" by arith
  then show ?thesis
    by (auto simp: Hash_def sample_first_def bytes256_def nat_le_Cons [of 32] le_word_def)
qed

lemma sample_first_tx:
  assumes "nVersion tx \<in> {0, 1}"
  shows "Hash sample_first (ser_CTransaction tx @ r) = word_of_int (nVersion tx)"
proof -
  obtain b where b: "nVersion tx = int b" "b \<le> 1" 
    using assms by (metis (no_types) insertE int_ops(1, 2) le_numeral_extra(4) singletonD zero_le_one)
  then have "nat (nVersion tx mod 2 ^ 32) = b" by simp
  then have "\<exists>bs. ser_CTransaction tx @ r = word_of_nat b # bs"
    by (simp add: ser_CTransaction_def ser_i32_def nat_le_Cons [of 4])
  with b show ?thesis using sample_first_hash [OF b(2)] by auto
qed

lemma sample_versions: "nVersion sample_paid = 0" "nVersion sample_pay = 1"
  by (simp_all add: sample_paid_def sample_pay_def)

lemma sample_hashes:
  "CTransaction_GetHash sample_first sample_paid = 0" "CTransaction_GetHash sample_first sample_pay = 1"
  using sample_first_tx [of sample_paid "[]"] sample_first_tx [of sample_pay "[]"]
  by (simp_all add: CTransaction_GetHash_def SerializeHash_def sample_versions)

lemma sample_sighash: "SignatureHash sample_first code sample_pay 0 1 = 1"
proof -
  obtain t where t: "SignatureHash_tx code sample_pay 0 1 = Some t" "nVersion t = 1"
    by (simp add: SignatureHash_tx_def sample_pay_def Let_def)
  with sample_first_tx [of t] show ?thesis by (simp add: SignatureHash_def)
qed

lemma sample_sig_facts: "length sample_sig = 65" "length sample_pub = 33" "last sample_sig = 1"
  "butlast sample_sig = replicate 32 2 @ bytes256 1" "sample_sig \<noteq> []"
  by (simp_all add: sample_sig_def sample_pub_def butlast_append)

lemma sample_sig_valid: "sig_valid sample_first sample_pay 0 0 sample_sig sample_pub code"
proof -
  have "take 32 (tl sample_pub) = replicate 32 2" by (simp add: sample_pub_def)
  then show ?thesis
    by (simp add: sig_valid_def sample_sig_facts ecdsa_valid_def sample_sighash)
      (simp add: sample_first_def sample_openssl_def sample_sig_facts)
qed

lemma sample_pub_hash: "Hash160 sample_first sample_pub = 2"
  by (simp add: Hash160_def sample_first_def sample_pub_def le_word_def bytes256_def nat_le_Cons [of 32])

lemma sample_pool_verified:
  "\<exists>c. VerifySignature sample_first 10 sample_paid sample_pay 0 True 0 sample_cache = Some (True, c)"
proof -
  let ?s = "push_data sample_sig @ push_data sample_pub"
  have "script_ok sample_first (sig_valid sample_first sample_pay 0 0) ?s (p2pkh_script 2) True"
    by (subst verify_p2pkh_iff) (simp_all add: sample_sig_facts sample_pub_hash sample_sig_valid)
  moreover have "cache_inv sample_first sample_cache" by (simp add: cache_inv_def sample_cache_def)
  ultimately obtain c where "VerifyScript sample_first 10 ?s (p2pkh_script 2) sample_pay 0 True 0 sample_cache = (True, c)"
    using VerifyScript_cached [of sample_first sample_cache 10 ?s "p2pkh_script 2" sample_pay 0 True 0]
    by (metis prod.collapse)
  then show ?thesis
    by (simp add: VerifySignature_def sample_hashes Let_def) (simp add: sample_pay_def sample_paid_def sample_hashes)
qed

lemma sample_pay_parts:
  "\<not> IsCoinBase sample_pay" "\<not> IsCoinStake sample_pay" "GetValueOut sample_pay = Some 30000"
  "vin sample_pay = [\<lparr>prevout = COutPoint 0 0, scriptSig = push_data sample_sig @ push_data sample_pub, nSequence = 0\<rparr>]"
  "vout sample_paid = [\<lparr>nValue = 50000, scriptPubKey = p2pkh_script 2\<rparr>]"
  "\<not> IsCoinBase sample_paid" "\<not> IsCoinStake sample_paid" "nTime sample_paid = 1" "nTime sample_pay = 2"
  by (simp_all add: sample_pay_def sample_paid_def IsCoinBase_def IsCoinStake_def COutPoint_IsNull_def GetValueOut_def
      MoneyRange_def amount_defs in_i64_def i64_min_def i64_max_def)

lemma length_sample_scripts: "length (push_data sample_sig) = 66" "length (push_data sample_pub) = 34"
    "length (p2pkh_script h) = 25"
  by (simp_all add: push_data_def sample_sig_facts p2pkh_script_def)

lemma sample_pay_checked: "CheckTransaction sample_pay = Valid" "size_CTransaction sample_pay = 189"
proof -
  show s: "size_CTransaction sample_pay = 189"
    by (simp add: size_CTransaction_def sample_pay_def size_vector_def size_CTxIn_def size_CTxOut_def size_bytes_def
        GetSizeOfCompactSize_def length_sample_scripts)
  show "CheckTransaction sample_pay = Valid"
    by (simp add: CheckTransaction_def s sample_pay_parts MAX_BLOCK_SIZE_def)
      (simp add: sample_pay_def CTxOut_IsEmpty_def COutPoint_IsNull_def MoneyRange_def amount_defs in_i64_def i64_min_def i64_max_def)
qed

lemma sample_pay_standard: "CTransaction_IsStandard sample_pay"
proof -
  have "IsPushOnly (push_data sample_sig @ push_data sample_pub)"
    using IsPushOnly_pushes [of "[sample_sig, sample_pub]"] by (simp add: sample_sig_facts)
  then show ?thesis
    by (simp add: CTransaction_IsStandard_def sample_versions sample_pay_parts length_sample_scripts)
      (simp add: sample_pay_def IsStandard_def Solver_p2pkh)
qed

lemma sample_inputs_standard:
  "AreInputsStandard sample_first 10 sample_pay [(0, (sample_index, sample_paid))] sample_cache = Some (True, sample_cache)"
proof -
  have "EvalScript L chk [] (push_data sample_sig @ push_data sample_pub) c = (True, [sample_pub, sample_sig], c)" for L and chk :: "CSignatureCache sigcheck" and c
    using EvalScript_pushes_run [of "[sample_sig, sample_pub]" "[]" L chk c] by (simp add: sample_sig_facts length_sample_scripts)
  then show ?thesis
    by (simp add: AreInputsStandard_def sample_pay_parts GetOutputFor_def input_standard_def Solver_p2pkh ScriptSigArgsExpected_def)
qed

lemma sample_accept_inputs:
  "\<exists>c. accept_inputs sample_pool_env sample_pool_db [] (\<lambda>_. False) sample_pay sample_pool sample_cache = Some (Valid, False, c)"
proof -
  let ?in = "[(0, (sample_index, sample_paid))]"
  have idx: "\<lparr>nFile = 1, nBlockPos = 100, nTxPos = 200\<rparr> \<noteq> pos_111" "ti_pos sample_index = \<lparr>nFile = 1, nBlockPos = 100, nTxPos = 200\<rparr>"
    "vSpent sample_index = [CDiskTxPos_SetNull]"
    by (simp_all add: sample_index_def pos_111_def)
  have f: "FetchInputs (env_files sample_pool_env) (map_of (mapTx sample_pool)) sample_pool_db [] False False sample_pay [] =
      Fetched ?in"
    by (simp add: FetchInputs_def sample_pay_parts fetch_one_def ReadTxIndex_def sample_pool_db_def idx
        sample_pool_env_def input_in_range_def Let_def)
  obtain c where ver: "VerifySignature sample_first 10 sample_paid sample_pay 0 True 0 sample_cache = Some (True, c)"
    using sample_pool_verified by blast
  have loop: "connect_loop sample_first 10 sample_pay pos_111 False True True (vin sample_pay) 0 ?in [] sample_cache =
      Some (Valid, [], c)"
    using ver by (simp add: sample_pay_parts idx CDiskTxPos_IsNull_def CDiskTxPos_SetNull_def Let_def)
  have check: "check_inputs [] sample_pay ?in (vin sample_pay) 0 = Some (Valid, 50000)"
    by (simp add: sample_pay_parts idx Let_def MoneyRange_def amount_defs in_i64_def i64_min_def i64_max_def)
  have fees: "check_fees sample_first D fl db [] False sample_pay 50000 = Some Valid" for D fl db
    by (simp add: check_fees_def sample_pay_parts GetMinFee_default Let_def MoneyRange_def amount_defs
        in_i64_def i64_min_def i64_max_def)
  have "GetMinFee sample_pay 1000 False GMF_RELAY 189 = 10000"
    by (simp add: GetMinFee_def Let_def MoneyRange_def amount_defs in_i64_def i64_min_def i64_max_def)
  moreover have "GetValueIn sample_pay ?in = Some 50000"
    by (simp add: GetValueIn_def sample_pay_parts GetOutputFor_def in_i64_def i64_min_def i64_max_def)
  ultimately show ?thesis
    using loop check fees
    by (simp add: accept_inputs_def f, simp add: sample_pool_env_def sample_inputs_standard sample_pay_parts
        sample_pay_checked ConnectInputs_def in_i64_def i64_min_def i64_max_def amount_defs)
qed

lemma sample_accepted:
  "\<exists>c. accept sample_pool_env sample_pool_db [] (\<lambda>_. False) sample_pay True sample_pool sample_cache =
     Some (Valid, False, addUnchecked 1 sample_pay sample_pool, c)"
proof -
  obtain c where "accept_inputs sample_pool_env sample_pool_db [] (\<lambda>_. False) sample_pay sample_pool sample_cache =
      Some (Valid, False, c)"
    using sample_accept_inputs by blast
  moreover have lock: "nLockTime sample_pay = 0" by (simp add: sample_pay_def)
  ultimately show ?thesis
    by (simp add: accept_def sample_pay_checked sample_pay_parts sample_pay_standard [simplified])
      (simp add: lock sample_pool_env_def sample_hashes sample_pool_def
        pool_exists_def ContainsTx_def sample_pool_db_def)
qed

theorem mempool_invariant_witness:
  "\<exists>mp. pool_reachable sample_first mp \<and> spends (mapTx mp) (COutPoint 0 0) 1 0 \<and>
     mapNextTx mp (COutPoint 0 0) = Some (point 1 0)"
proof -
  obtain c where a: "accept sample_pool_env sample_pool_db [] (\<lambda>_. False) sample_pay True sample_pool sample_cache =
     Some (Valid, False, addUnchecked 1 sample_pay sample_pool, c)" using sample_accepted by blast
  have "pool_reachable sample_first sample_pool"
    unfolding sample_pool_def by (rule pool_reachable.start)
  then have r: "pool_reachable sample_first (addUnchecked 1 sample_pay sample_pool)"
    by (rule pool_reachable.accepted [OF _ _ a]) (simp add: sample_pool_env_def)
  have s: "spends (mapTx (addUnchecked 1 sample_pay sample_pool)) (COutPoint 0 0) 1 0"
    by (simp add: spends_def addUnchecked_def sample_pool_def sample_pay_parts)
  with mempool_invariant [OF r] r show ?thesis by blast
qed


end
