(* ===== verification/Orphans.thy ===== *)
theory Orphans
  imports Mempool
begin

text \<open>
  Orphan transactions (\<open>src/src/main.cpp\<close>): messages kept until the transactions they spend arrive, by
  their hash and by the hashes they wait for.  A stored \<open>CDataStream\<close> is its bytes.  \<open>None\<close> is the exception
  of a message that does not parse.
\<close>

section \<open>The two maps\<close>

record orphans =
  mapOrphanTransactions :: "(uint256 \<times> byte list) list"
  mapOrphanTransactionsByPrev :: "(uint256 \<times> (uint256 \<times> byte list) list) list"

text \<open>\<open>operator[]\<close> of the second map: a missing entry is created empty.\<close>

definition by_prev :: "uint256 \<Rightarrow> (uint256 \<times> (uint256 \<times> byte list) list) list \<Rightarrow> (uint256 \<times> byte list) list" where
  "by_prev p m = (case map_of m p of None \<Rightarrow> [] | Some e \<Rightarrow> e)"

text \<open>\<open>insert\<close> keeps an entry that is already there.\<close>

definition map_insert :: "'a::linorder \<Rightarrow> 'b \<Rightarrow> ('a \<times> 'b) list \<Rightarrow> ('a \<times> 'b) list" where
  "map_insert k v m = (if map_of m k = None then map_put k v m else m)"

definition AddOrphanTx :: "openssl \<Rightarrow> byte list \<Rightarrow> orphans \<Rightarrow> (bool \<times> orphans) option" where
  "AddOrphanTx L vMsg s =
     (case unser_CTransaction vMsg of
        None \<Rightarrow> None
      | Some (tx, _) \<Rightarrow>
          (let h = CTransaction_GetHash L tx
           in if map_of (mapOrphanTransactions s) h \<noteq> None then Some (False, s)
              else if length vMsg > 5000 then Some (False, s)
              else Some (True, s\<lparr>mapOrphanTransactions := map_put h vMsg (mapOrphanTransactions s),
                mapOrphanTransactionsByPrev :=
                  fold (\<lambda>txin m. let p = op_hash (prevout txin) in map_put p (map_insert h vMsg (by_prev p m)) m)
                    (vin tx) (mapOrphanTransactionsByPrev s)\<rparr>)))"

definition erase_by_prev ::
  "uint256 \<Rightarrow> CTxIn \<Rightarrow> (uint256 \<times> (uint256 \<times> byte list) list) list \<Rightarrow> (uint256 \<times> (uint256 \<times> byte list) list) list" where
  "erase_by_prev h txin m =
     (let p = op_hash (prevout txin); e = map_erase h (by_prev p m)
      in if e = [] then map_erase p m else map_put p e m)"

definition EraseOrphanTx :: "uint256 \<Rightarrow> orphans \<Rightarrow> orphans option" where
  "EraseOrphanTx h s =
     (case map_of (mapOrphanTransactions s) h of
        None \<Rightarrow> Some s
      | Some vMsg \<Rightarrow>
          (case unser_CTransaction vMsg of
             None \<Rightarrow> None
           | Some (tx, _) \<Rightarrow>
               Some (s\<lparr>mapOrphanTransactionsByPrev := fold (erase_by_prev h) (vin tx) (mapOrphanTransactionsByPrev s),
                       mapOrphanTransactions := map_erase h (mapOrphanTransactions s)\<rparr>)))"

text \<open>The entry to evict: the first one at or after a random hash, wrapping around.\<close>

definition evict_key :: "uint256 \<Rightarrow> (uint256 \<times> 'a) list \<Rightarrow> uint256" where
  "evict_key randomhash m =
     (case dropWhile (\<lambda>x. fst x < randomhash) m of [] \<Rightarrow> fst (hd m) | x # _ \<Rightarrow> fst x)"

lemma evict_key_mem: "m \<noteq> [] \<Longrightarrow> evict_key r m \<in> fst ` set m"
  by (auto simp: evict_key_def split: list.splits dest: set_dropWhileD [of _ _ m] arg_cong [of _ _ set])
    (metis image_eqI list.set_intros(1) prod.sel(1) set_dropWhileD)

lemma EraseOrphanTx_shorter:
  assumes "EraseOrphanTx h s = Some s'" and "h \<in> fst ` set (mapOrphanTransactions s)"
  shows "length (mapOrphanTransactions s') < length (mapOrphanTransactions s)"
proof -
  have "map_of (mapOrphanTransactions s) h \<noteq> None" using assms(2) by (simp add: map_of_eq_None_iff)
  with assms(1) have "mapOrphanTransactions s' = map_erase h (mapOrphanTransactions s)"
    by (auto simp: EraseOrphanTx_def split: option.splits prod.splits)
  with assms(2) show ?thesis by (auto simp: map_erase_def intro!: length_filter_less)
qed

text \<open>\<open>GetRandHash\<close> reads from a tape; the number of evictions counts the draws.\<close>

function LimitOrphanTxSize ::
  "(nat \<Rightarrow> uint256) \<Rightarrow> nat \<Rightarrow> nat \<Rightarrow> orphans \<Rightarrow> (nat \<times> orphans) option" where
  "LimitOrphanTxSize tape nMaxOrphans nEvicted s =
     (if length (mapOrphanTransactions s) > nMaxOrphans then
        (case EraseOrphanTx (evict_key (tape nEvicted) (mapOrphanTransactions s)) s of
           None \<Rightarrow> None
         | Some s' \<Rightarrow> LimitOrphanTxSize tape nMaxOrphans (nEvicted + 1) s')
      else Some (nEvicted, s))"
  by pat_completeness auto
termination
proof (relation "measure (\<lambda>(_, _, _, s). length (mapOrphanTransactions s))")
  show "((tape, n, k + 1, s'), (tape, n, k, s)) \<in> measure (\<lambda>(_, _, _, s). length (mapOrphanTransactions s))"
    if "n < length (mapOrphanTransactions s)"
      "EraseOrphanTx (evict_key (tape k) (mapOrphanTransactions s)) s = Some s'" for tape n k s s'
    using EraseOrphanTx_shorter [OF that(2) evict_key_mem] that(1) by force
qed simp

declare LimitOrphanTxSize.simps [simp del]

section \<open>The invariant\<close>

text \<open>An orphan \<open>h\<close> stored as \<open>v\<close> has an input from transaction \<open>p\<close>.\<close>

definition waits :: "(uint256 \<times> byte list) list \<Rightarrow> uint256 \<Rightarrow> uint256 \<Rightarrow> byte list \<Rightarrow> bool" where
  "waits m p h v \<longleftrightarrow> map_of m h = Some v \<and>
     (\<exists>tx r. unser_CTransaction v = Some (tx, r) \<and> p \<in> out_hash ` set (vin tx))"

text \<open>The second map is a map of maps without empty ones.\<close>

definition nested :: "(uint256 \<times> (uint256 \<times> byte list) list) list \<Rightarrow> bool" where
  "nested m \<longleftrightarrow> sorted_map m \<and> (\<forall>p e. map_of m p = Some e \<longrightarrow> e \<noteq> [] \<and> sorted_map e)"

definition orphans_inv :: "openssl \<Rightarrow> orphans \<Rightarrow> bool" where
  "orphans_inv L s \<longleftrightarrow>
     sorted_map (mapOrphanTransactions s) \<and> nested (mapOrphanTransactionsByPrev s) \<and>
     (\<forall>h v. map_of (mapOrphanTransactions s) h = Some v \<longrightarrow>
        length v \<le> 5000 \<and> (\<exists>tx r. unser_CTransaction v = Some (tx, r) \<and> CTransaction_GetHash L tx = h)) \<and>
     (\<forall>p h v. map_of (by_prev p (mapOrphanTransactionsByPrev s)) h = Some v \<longleftrightarrow>
        waits (mapOrphanTransactions s) p h v)"

lemma nested_by_prev: "nested m \<Longrightarrow> sorted_map (by_prev p m)"
  by (auto simp: nested_def by_prev_def split: option.splits)

lemma map_insert_facts:
  "sorted_map m \<Longrightarrow> sorted_map (map_insert k v m) \<and> map_insert k v m \<noteq> [] \<and>
     map_of (map_insert k v m) = (map_of m)(k \<mapsto> (case map_of m k of None \<Rightarrow> v | Some w \<Rightarrow> w))"
  by (auto simp: map_insert_def sorted_map_put map_of_put fun_upd_idem split: option.splits)

lemma insert_prev_step:
  assumes "nested m"
  shows "nested (map_put p (map_insert h v (by_prev p m)) m) \<and>
    map_of (by_prev q (map_put p (map_insert h v (by_prev p m)) m)) g =
      (if q = p \<and> g = h \<and> map_of (by_prev p m) h = None then Some v else map_of (by_prev q m) g)"
proof -
  have s: "sorted_map m" using assms by (simp add: nested_def)
  note f = map_insert_facts [OF nested_by_prev [OF assms], of h v p]
  have "by_prev q (map_put p (map_insert h v (by_prev p m)) m) =
      (if q = p then map_insert h v (by_prev p m) else by_prev q m)"
    by (simp add: by_prev_def map_of_put [OF s])
  with assms f show ?thesis
    by (auto simp: nested_def map_of_put [OF s] sorted_map_put split: option.splits)
qed

lemma insert_prev_fold:
  "nested m \<Longrightarrow>
     nested (fold (\<lambda>txin m. let p = op_hash (prevout txin) in map_put p (map_insert h v (by_prev p m)) m) ins m) \<and>
     map_of (by_prev q (fold (\<lambda>txin m. let p = op_hash (prevout txin) in map_put p (map_insert h v (by_prev p m)) m) ins m)) g =
      (if q \<in> out_hash ` set ins \<and> g = h \<and> map_of (by_prev q m) h = None then Some v else map_of (by_prev q m) g)"
proof (induction ins arbitrary: m)
  case (Cons txin ins)
  let ?p = "op_hash (prevout txin)"
  note s = insert_prev_step [OF Cons.prems, of ?p h v]
  then have "nested (map_put ?p (map_insert h v (by_prev ?p m)) m)" by blast
  from Cons.IH [OF this] s show ?case by (auto simp: Let_def out_hash_def)
qed simp

lemma erase_prev_step:
  assumes "nested m"
  shows "nested (erase_by_prev h txin m) \<and>
    map_of (by_prev q (erase_by_prev h txin m)) g =
      (if q = out_hash txin \<and> g = h then None else map_of (by_prev q m) g)"
proof -
  let ?p = "out_hash txin"
  have s: "sorted_map m" using assms by (simp add: nested_def)
  have e: "by_prev q (erase_by_prev h txin m) = (if q = ?p then map_erase h (by_prev ?p m) else by_prev q m)"
    by (simp add: by_prev_def [of q] erase_by_prev_def Let_def out_hash_def map_of_put [OF s] map_of_erase)
  have "nested (erase_by_prev h txin m)"
    using assms nested_by_prev [OF assms]
    by (auto simp: nested_def erase_by_prev_def Let_def map_of_put [OF s] map_of_erase sorted_map_erase sorted_map_put
        split: if_splits)
  with e show ?thesis by (simp add: map_of_erase)
qed

lemma erase_prev_fold:
  "nested m \<Longrightarrow> nested (fold (erase_by_prev h) ins m) \<and>
     map_of (by_prev q (fold (erase_by_prev h) ins m)) g =
      (if q \<in> out_hash ` set ins \<and> g = h then None else map_of (by_prev q m) g)"
proof (induction ins arbitrary: m)
  case (Cons txin ins)
  note s = erase_prev_step [OF Cons.prems, of h txin]
  then have "nested (erase_by_prev h txin m)" by blast
  from Cons.IH [OF this] s show ?case by auto
qed simp

lemma AddOrphanTx_inv:
  assumes "orphans_inv L s" and "AddOrphanTx L vMsg s = Some (ok, s')"
  shows "orphans_inv L s' \<and>
    (ok \<longrightarrow> (\<exists>tx r. unser_CTransaction vMsg = Some (tx, r) \<and>
       map_of (mapOrphanTransactions s') = (map_of (mapOrphanTransactions s))(CTransaction_GetHash L tx \<mapsto> vMsg)))"
proof (cases ok)
  case True
  with assms(2) obtain tx r where tx: "unser_CTransaction vMsg = Some (tx, r)" "length vMsg \<le> 5000"
    and new: "map_of (mapOrphanTransactions s) (CTransaction_GetHash L tx) = None"
    and s': "s' = s\<lparr>mapOrphanTransactions := map_put (CTransaction_GetHash L tx) vMsg (mapOrphanTransactions s),
                mapOrphanTransactionsByPrev :=
                  fold (\<lambda>txin m. let p = op_hash (prevout txin) in map_put p (map_insert (CTransaction_GetHash L tx) vMsg (by_prev p m)) m)
                    (vin tx) (mapOrphanTransactionsByPrev s)\<rparr>"
    by (auto simp: AddOrphanTx_def Let_def split: option.splits prod.splits if_splits)
  let ?h = "CTransaction_GetHash L tx"
  have s: "sorted_map (mapOrphanTransactions s)" and n: "nested (mapOrphanTransactionsByPrev s)"
    using assms(1) by (auto simp: orphans_inv_def)
  have w: "map_of (by_prev p (mapOrphanTransactionsByPrev s)) h = Some v \<longleftrightarrow> waits (mapOrphanTransactions s) p h v" for p h v
    using assms(1) by (simp add: orphans_inv_def)
  have "map_of (by_prev p (mapOrphanTransactionsByPrev s)) ?h = None" for p
    using w [of p ?h] new by (auto simp: waits_def)
  then have "map_of (by_prev p (mapOrphanTransactionsByPrev s')) h = Some v \<longleftrightarrow> waits (mapOrphanTransactions s') p h v" for p h v
    using insert_prev_fold [OF n, of ?h vMsg "vin tx" p h] w [of p h v] tx new
    by (auto simp: s' waits_def map_of_put [OF s])
  moreover have "nested (mapOrphanTransactionsByPrev s')" using insert_prev_fold [OF n] by (simp add: s')
  ultimately show ?thesis
    using assms(1) tx by (auto simp: orphans_inv_def s' map_of_put [OF s] sorted_map_put)
next
  case False
  with assms show ?thesis by (auto simp: AddOrphanTx_def Let_def split: option.splits prod.splits if_splits)
qed

lemma EraseOrphanTx_inv:
  assumes "orphans_inv L s"
  shows "\<exists>s'. EraseOrphanTx h s = Some s' \<and> orphans_inv L s' \<and>
    mapOrphanTransactions s' = map_erase h (mapOrphanTransactions s)"
proof (cases "map_of (mapOrphanTransactions s) h")
  case None
  then have "map_erase h (mapOrphanTransactions s) = mapOrphanTransactions s"
    by (auto simp: map_erase_def filter_id_conv map_of_eq_None_iff)
  with None assms show ?thesis by (simp add: EraseOrphanTx_def)
next
  case (Some v)
  then obtain tx r where tx: "unser_CTransaction v = Some (tx, r)" using assms unfolding orphans_inv_def by blast
  have n: "nested (mapOrphanTransactionsByPrev s)" using assms by (simp add: orphans_inv_def)
  have w: "map_of (by_prev p (mapOrphanTransactionsByPrev s)) g = Some v \<longleftrightarrow> waits (mapOrphanTransactions s) p g v" for p g v
    using assms by (simp add: orphans_inv_def)
  let ?s = "s\<lparr>mapOrphanTransactionsByPrev := fold (erase_by_prev h) (vin tx) (mapOrphanTransactionsByPrev s),
                       mapOrphanTransactions := map_erase h (mapOrphanTransactions s)\<rparr>"
  have "map_of (by_prev p (mapOrphanTransactionsByPrev ?s)) g = Some v' \<longleftrightarrow> waits (mapOrphanTransactions ?s) p g v'" for p g v'
    using erase_prev_fold [OF n, of h "vin tx" p g] w [of p g v'] Some tx
    by (auto simp: waits_def map_of_erase)
  then have "orphans_inv L ?s"
    using assms erase_prev_fold [OF n] by (auto simp: orphans_inv_def map_of_erase sorted_map_erase)
  with Some tx show ?thesis by (simp add: EraseOrphanTx_def)
qed

lemma LimitOrphanTxSize_inv:
  "orphans_inv L s \<Longrightarrow>
     \<exists>s'. LimitOrphanTxSize tape n k s = Some (k + (length (mapOrphanTransactions s) - n), s') \<and> orphans_inv L s' \<and>
       length (mapOrphanTransactions s') = min n (length (mapOrphanTransactions s)) \<and>
       map_of (mapOrphanTransactions s') \<subseteq>\<^sub>m map_of (mapOrphanTransactions s)"
proof (induction tape n k s rule: LimitOrphanTxSize.induct)
  case (1 tape n k s)
  let ?m = "mapOrphanTransactions s" and ?h = "evict_key (tape k) (mapOrphanTransactions s)"
  show ?case
  proof (cases "length ?m > n")
    case True
    then have m: "?m \<noteq> []" by auto
    obtain s1 where s1: "EraseOrphanTx ?h s = Some s1" "orphans_inv L s1" "mapOrphanTransactions s1 = map_erase ?h ?m"
      using EraseOrphanTx_inv [OF "1.prems"] by blast
    have "sorted_map ?m" using "1.prems" by (simp add: orphans_inv_def)
    then have "length (mapOrphanTransactions s1) = length ?m - 1"
      using evict_key_mem [OF m] by (simp add: s1(3) length_map_erase)
    moreover have "map_of (mapOrphanTransactions s1) \<subseteq>\<^sub>m map_of ?m"
      by (auto simp: s1(3) map_of_erase map_le_def)
    ultimately show ?thesis
      using "1.IH" [OF True s1(1,2)] True
      by (subst LimitOrphanTxSize.simps) (auto simp: s1(1) min_def intro: map_le_trans)
  next
    case False
    with "1.prems" show ?thesis by (subst LimitOrphanTxSize.simps) auto
  qed
qed

inductive orphans_reachable :: "openssl \<Rightarrow> orphans \<Rightarrow> bool" for L where
  none: "orphans_reachable L \<lparr>mapOrphanTransactions = [], mapOrphanTransactionsByPrev = []\<rparr>"
| added: "orphans_reachable L s \<Longrightarrow> AddOrphanTx L vMsg s = Some (ok, s') \<Longrightarrow> orphans_reachable L s'"
| erased: "orphans_reachable L s \<Longrightarrow> EraseOrphanTx h s = Some s' \<Longrightarrow> orphans_reachable L s'"
| limited: "orphans_reachable L s \<Longrightarrow> LimitOrphanTxSize tape n 0 s = Some (k, s') \<Longrightarrow> orphans_reachable L s'"

lemma orphans_reachable_inv: "orphans_reachable L s \<Longrightarrow> orphans_inv L s"
proof (induction rule: orphans_reachable.induct)
  case none
  show ?case by (simp add: orphans_inv_def nested_def by_prev_def waits_def)
next
  case (added s vMsg ok s')
  with AddOrphanTx_inv show ?case by blast
next
  case (erased s h s')
  with EraseOrphanTx_inv [of L s h] show ?case by auto
next
  case (limited s tape n k s')
  with LimitOrphanTxSize_inv [of L s tape n 0] show ?case by auto
qed

text \<open>
  C22.  The orphan pool stays within bounds: from every state the operations lead to, limiting it to \<open>n\<close>
  entries returns, evicts exactly the excess whatever the random hashes, keeps only old entries, each of
  at most 5,000 bytes, and leaves the second map exact: an orphan is listed under the hashes its inputs
  wait for, and nowhere else.
\<close>

theorem orphan_pool_bounded:
  assumes "orphans_reachable L s"
  shows "\<exists>s'. LimitOrphanTxSize tape n 0 s = Some (length (mapOrphanTransactions s) - n, s') \<and>
    length (mapOrphanTransactions s') = min n (length (mapOrphanTransactions s)) \<and>
    map_of (mapOrphanTransactions s') \<subseteq>\<^sub>m map_of (mapOrphanTransactions s) \<and>
    (\<forall>h v. map_of (mapOrphanTransactions s') h = Some v \<longrightarrow> length v \<le> 5000) \<and>
    (\<forall>p h v. map_of (by_prev p (mapOrphanTransactionsByPrev s')) h = Some v \<longleftrightarrow>
       waits (mapOrphanTransactions s') p h v)"
proof -
  have "orphans_inv L s" using assms by (rule orphans_reachable_inv)
  from LimitOrphanTxSize_inv [OF this, of tape n 0] show ?thesis by (auto simp: orphans_inv_def)
qed

theorem orphan_pool_bounded_witness:
  "\<exists>s s'. AddOrphanTx sample_first (ser_CTransaction sample_pay) \<lparr>mapOrphanTransactions = [], mapOrphanTransactionsByPrev = []\<rparr> =
       Some (True, s) \<and>
     length (mapOrphanTransactions s) = 1 \<and> LimitOrphanTxSize (\<lambda>_. 7) 0 0 s = Some (1, s') \<and> mapOrphanTransactions s' = []"
proof -
  let ?s0 = "\<lparr>mapOrphanTransactions = [], mapOrphanTransactionsByPrev = []\<rparr>"
  have wf: "wf_CTransaction sample_pay"
    by (simp add: sample_pay_def wf_CTransaction_def wf_CTxIn_def wf_CTxOut_def MAX_SIZE_def in_i64_def
        i64_min_def i64_max_def length_sample_scripts)
  have u: "unser_CTransaction (ser_CTransaction sample_pay) = Some (sample_pay, [])"
    using transaction.read_back [OF wf, of "[]"] by simp
  obtain s where s: "AddOrphanTx sample_first (ser_CTransaction sample_pay) ?s0 = Some (True, s)"
    "length (mapOrphanTransactions s) = 1"
    using transaction.size_ok [OF wf] by (simp add: AddOrphanTx_def u Let_def sample_pay_checked)
  have "orphans_reachable sample_first ?s0" by (rule orphans_reachable.none)
  then have "orphans_reachable sample_first s" using s(1) by (rule orphans_reachable.added)
  from orphan_pool_bounded [OF this, of "\<lambda>_. 7" 0] s show ?thesis by auto
qed

end
