(* ===== verification/Chain.thy ===== *)
theory Chain
  imports Mempool
begin

text \<open>
  Choosing the best chain (\<open>src/src/main.cpp\<close>): \<open>Reorganize\<close>, \<open>SetBestChain\<close> and what they work on.
  A \<open>CBlockIndex*\<close> kept in the state is its key in \<open>mapBlockIndex\<close>; the entry there is the block with its
  ancestors, newest first, and changing an object through one pointer changes it in every list
  (\<open>set_entry\<close>).  The database inside a transaction is a value of its own, which committing stores and
  aborting forgets; whether an operation on it succeeds comes from a tape.  Notifying wallets and the
  user interface is left out.  \<open>None\<close> is an exception or a failed assertion.
\<close>

section \<open>The state\<close>

record chain_state =
  mapBlockIndex :: block_index
  pnext :: "uint256 \<rightharpoonup> uint256"
  pindexGenesisBlock :: "uint256 option"
  pindexBest :: "uint256 option"
  hashBestChain :: uint256
  nBestHeight :: int
  bnBestChainTrust :: CBigNum
  bnBestInvalidTrust :: CBigNum
  pblockindexFBBHLast :: "uint256 option"
  cs_txdb :: CTxDB
  txn_tape :: "nat \<Rightarrow> bool"
  txn_pos :: nat
  mempool :: CTxMemPool
  cs_cache :: CSignatureCache

definition chain_at :: "chain_state \<Rightarrow> uint256 \<Rightarrow> CBlockIndex list" where
  "chain_at s h = (case mapBlockIndex s h of None \<Rightarrow> [] | Some (i, ancestors) \<Rightarrow> i # ancestors)"

definition best_chain :: "chain_state \<Rightarrow> CBlockIndex list" where
  "best_chain s = (case pindexBest s of None \<Rightarrow> [] | Some h \<Rightarrow> chain_at s h)"

definition set_entry :: "CBlockIndex \<Rightarrow> block_index \<Rightarrow> block_index" where
  "set_entry i m =
     (let upd = (\<lambda>j. if phashBlock j = phashBlock i then i else j)
      in (\<lambda>h. map_option (\<lambda>(j, ancestors). (upd j, map upd ancestors)) (m h)))"

text \<open>One database operation: does it succeed?\<close>

definition db_try :: "chain_state \<Rightarrow> bool \<times> chain_state" where
  "db_try s = (txn_tape s (txn_pos s), s\<lparr>txn_pos := txn_pos s + 1\<rparr>)"

definition chain_env :: "node_env \<Rightarrow> chain_state \<Rightarrow> node_env" where
  "chain_env E s = E\<lparr>env_nBestHeight := nBestHeight s, env_pool := map_of (mapTx (mempool s))\<rparr>"

definition IsInMainChain :: "chain_state \<Rightarrow> uint256 \<Rightarrow> bool" where
  "IsInMainChain s h \<longleftrightarrow> pnext s h \<noteq> None \<or> pindexBest s = Some h"

text \<open>\<open>CBlock::ReadFromDisk(pindex)\<close>.\<close>

definition Index_ReadFromDisk :: "node_env \<Rightarrow> CBlockIndex \<Rightarrow> CBlock option" where
  "Index_ReadFromDisk E i =
     (case Block_ReadFromDisk (env_L E) (env_D E) (env_files E) (bi_nFile i) (bi_nBlockPos i) True of
        None \<Rightarrow> None
      | Some b \<Rightarrow> if CBlock_GetHash (env_D E) b \<noteq> phashBlock i then None else Some b)"

definition InvalidChainFound :: "CBlockIndex \<Rightarrow> chain_state \<Rightarrow> chain_state" where
  "InvalidChainFound pindexNew s =
     (if bnChainTrust pindexNew > bnBestInvalidTrust s
      then snd (db_try (s\<lparr>bnBestInvalidTrust := bnChainTrust pindexNew\<rparr>)) else s)"

section \<open>Reorganize\<close>

fun descend :: "int \<Rightarrow> CBlockIndex list \<Rightarrow> CBlockIndex list option" where
  "descend h [] = None"
| "descend h (i # chain) = (if nHeight i > h then descend h chain else Some (i # chain))"

fun find_fork :: "CBlockIndex list \<Rightarrow> CBlockIndex list \<Rightarrow> CBlockIndex list option" where
  "find_fork [] plonger = None"
| "find_fork (f # fs) plonger =
     (if plonger \<noteq> [] \<and> phashBlock (hd plonger) = phashBlock f then Some (f # fs)
      else
        (case descend (nHeight f) plonger of
           None \<Rightarrow> None
         | Some plonger' \<Rightarrow>
             if phashBlock (hd plonger') = phashBlock f then Some (f # fs) else find_fork fs plonger'))"

text \<open>The blocks from a tip down to the fork, which is not among them.\<close>

definition down_to :: "CBlockIndex list \<Rightarrow> CBlockIndex list \<Rightarrow> CBlockIndex list" where
  "down_to pfork chain = takeWhile (\<lambda>i. phashBlock i \<noteq> phashBlock (hd pfork)) chain"

fun disconnect_blocks ::
  "node_env \<Rightarrow> CBlockIndex list \<Rightarrow> CTxDB \<Rightarrow> CTransaction list \<Rightarrow> bool \<times> CTxDB \<times> CTransaction list" where
  "disconnect_blocks E [] txdb vResurrect = (True, txdb, vResurrect)"
| "disconnect_blocks E (i # is) txdb vResurrect =
     (case Index_ReadFromDisk E i of
        None \<Rightarrow> (False, txdb, vResurrect)
      | Some b \<Rightarrow>
          (case DisconnectBlock (env_L E) b txdb of
             (ok, txdb') \<Rightarrow>
               (if \<not> ok then (False, txdb', vResurrect)
                else disconnect_blocks E is txdb'
                       (vResurrect @ filter (\<lambda>tx. \<not> (IsCoinBase tx \<or> IsCoinStake tx)) (vtx b)))))"

text \<open>\<open>ConnectBlock\<close> on the block of an entry, with its effects on the entry and the signature cache.\<close>

definition connect_entry ::
  "node_env \<Rightarrow> uint256 \<Rightarrow> CBlock \<Rightarrow> CTxDB \<Rightarrow> chain_state \<Rightarrow> (bool \<times> CTxDB \<times> chain_state) option" where
  "connect_entry E h b txdb s =
     (case mapBlockIndex s h of
        None \<Rightarrow> None
      | Some (i, ancestors) \<Rightarrow>
          (case ConnectBlock (chain_env E s) txdb i ancestors False b (cs_cache s) of
             None \<Rightarrow> None
           | Some (v, txdb', i', cache') \<Rightarrow>
               Some (v = Valid, txdb', s\<lparr>mapBlockIndex := set_entry i' (mapBlockIndex s), cs_cache := cache'\<rparr>)))"

fun connect_blocks ::
  "node_env \<Rightarrow> CBlockIndex list \<Rightarrow> CTxDB \<Rightarrow> CTransaction list \<Rightarrow> chain_state \<Rightarrow>
     (bool \<times> CTxDB \<times> CTransaction list \<times> chain_state) option" where
  "connect_blocks E [] txdb vDelete s = Some (True, txdb, vDelete, s)"
| "connect_blocks E (i # is) txdb vDelete s =
     (case Index_ReadFromDisk E i of
        None \<Rightarrow> Some (False, txdb, vDelete, s)
      | Some b \<Rightarrow>
          (case connect_entry E (phashBlock i) b txdb s of
             None \<Rightarrow> None
           | Some (ok, txdb', s') \<Rightarrow>
               if \<not> ok then Some (False, txdb', vDelete, s')
               else connect_blocks E is txdb' (vDelete @ vtx b) s'))"

text \<open>The links along the branches: cut below the disconnected blocks, set below the connected ones.\<close>

definition prev_hash :: "chain_state \<Rightarrow> uint256 \<Rightarrow> uint256 option" where
  "prev_hash s h = (case chain_at s h of _ # p # _ \<Rightarrow> Some (phashBlock p) | _ \<Rightarrow> None)"

definition unlink :: "chain_state \<Rightarrow> uint256 \<Rightarrow> (uint256 \<rightharpoonup> uint256) \<Rightarrow> (uint256 \<rightharpoonup> uint256)" where
  "unlink s h m = (case prev_hash s h of None \<Rightarrow> m | Some p \<Rightarrow> m(p := None))"

definition link :: "chain_state \<Rightarrow> uint256 \<Rightarrow> (uint256 \<rightharpoonup> uint256) \<Rightarrow> (uint256 \<rightharpoonup> uint256)" where
  "link s h m = (case prev_hash s h of None \<Rightarrow> m | Some p \<Rightarrow> m(p \<mapsto> h))"

text \<open>\<open>AcceptToMemoryPool(txdb, false)\<close> for each transaction.\<close>

fun resurrect ::
  "node_env \<Rightarrow> CTxDB \<Rightarrow> CBlockIndex list \<Rightarrow> CTransaction list \<Rightarrow> CTxMemPool \<times> CSignatureCache \<Rightarrow>
     (CTxMemPool \<times> CSignatureCache) option" where
  "resurrect E txdb chain [] mc = Some mc"
| "resurrect E txdb chain (tx # txs) mc =
     (case accept E txdb chain (\<lambda>_. False) tx False (fst mc) (snd mc) of
        None \<Rightarrow> None
      | Some (_, _, mp', cache') \<Rightarrow> resurrect E txdb chain txs (mp', cache'))"

definition Reorganize ::
  "node_env \<Rightarrow> uint256 \<Rightarrow> CTxDB \<Rightarrow> chain_state \<Rightarrow> (bool \<times> chain_state) option" where
  "Reorganize E pindexNew txdb s =
     (case find_fork (best_chain s) (chain_at s pindexNew) of
        None \<Rightarrow> Some (False, s)
      | Some pfork \<Rightarrow>
          (let vDisconnect = down_to pfork (best_chain s);
               vConnect = rev (down_to pfork (chain_at s pindexNew))
           in case disconnect_blocks E vDisconnect txdb [] of
                (False, _, _) \<Rightarrow> Some (False, s)
              | (True, txdb1, vResurrect) \<Rightarrow>
                  (case connect_blocks E vConnect txdb1 [] s of
                     None \<Rightarrow> None
                   | Some (False, _, _, s1) \<Rightarrow> Some (False, s1)
                   | Some (True, txdb2, vDelete, s1) \<Rightarrow>
                       (case db_try s1 of
                          (False, s2) \<Rightarrow> Some (False, s2)
                        | (True, s2) \<Rightarrow>
                            (case db_try s2 of
                               (False, s3) \<Rightarrow> Some (False, s3)
                             | (True, s3) \<Rightarrow>
                                 (let s4 = s3\<lparr>cs_txdb := txdb2,
                                        pnext := fold (link s3) (map phashBlock vConnect)
                                          (fold (unlink s3) (map phashBlock vDisconnect) (pnext s3))\<rparr>
                                  in case resurrect (chain_env E s4) txdb2 (best_chain s4) vResurrect
                                            (mempool s4, cs_cache s4) of
                                       None \<Rightarrow> None
                                     | Some (mp, cache) \<Rightarrow>
                                         Some (True, s4\<lparr>mempool := fold (pool_remove (env_L E)) vDelete mp,
                                                         cs_cache := cache\<rparr>)))))))"

section \<open>SetBestChain\<close>

text \<open>The two flags: whether it succeeded, and whether that was a failed commit.\<close>

definition SetBestChainInner ::
  "node_env \<Rightarrow> CBlock \<Rightarrow> uint256 \<Rightarrow> chain_state \<Rightarrow> (bool \<times> chain_state) option" where
  "SetBestChainInner E b pindexNew s =
     (case connect_entry E pindexNew b (cs_txdb s) s of
        None \<Rightarrow> None
      | Some (ok, txdb', s1) \<Rightarrow>
          (case (if ok then db_try s1 else (False, s1)) of
             (False, s2) \<Rightarrow> Some (False, InvalidChainFound (hd (chain_at s2 pindexNew)) s2)
           | (True, s2) \<Rightarrow>
               (case db_try s2 of
                  (False, s3) \<Rightarrow> Some (False, s3)
                | (True, s3) \<Rightarrow>
                    (case prev_hash s3 pindexNew of
                       None \<Rightarrow> None
                     | Some p \<Rightarrow>
                         Some (True, s3\<lparr>cs_txdb := txdb', pnext := (pnext s3)(p \<mapsto> pindexNew),
                           mempool := fold (pool_remove (env_L E)) (vtx b) (mempool s3)\<rparr>)))))"

text \<open>The walk from the new block to the first one that beats the best chain, the others postponed.\<close>

fun postpone :: "CBigNum \<Rightarrow> CBlockIndex list \<Rightarrow> CBlockIndex list \<Rightarrow> CBlockIndex list \<times> CBlockIndex list" where
  "postpone bestTrust (i # p # chain) vpindexSecondary =
     (if bnChainTrust p > bestTrust then postpone bestTrust (p # chain) (vpindexSecondary @ [i])
      else (i # p # chain, vpindexSecondary))"
| "postpone bestTrust chain vpindexSecondary = (chain, vpindexSecondary)"

text \<open>The postponed blocks, oldest first; the flag says whether all were connected.\<close>

fun connect_postponed :: "node_env \<Rightarrow> CBlockIndex list \<Rightarrow> chain_state \<Rightarrow> (bool \<times> chain_state) option" where
  "connect_postponed E [] s = Some (True, s)"
| "connect_postponed E (i # is) s =
     (case Index_ReadFromDisk E i of
        None \<Rightarrow> Some (False, s)
      | Some b \<Rightarrow>
          (case db_try s of
             (False, s1) \<Rightarrow> Some (False, s1)
           | (True, s1) \<Rightarrow>
               (case SetBestChainInner E b (phashBlock i) s1 of
                  None \<Rightarrow> None
                | Some (False, s2) \<Rightarrow> Some (False, s2)
                | Some (True, s2) \<Rightarrow> connect_postponed E is s2)))"

definition new_best :: "uint256 \<Rightarrow> uint256 \<Rightarrow> chain_state \<Rightarrow> chain_state" where
  "new_best h pindexNew s =
     s\<lparr>hashBestChain := h, pindexBest := Some pindexNew, pblockindexFBBHLast := None,
       nBestHeight := nHeight (hd (chain_at s pindexNew)),
       bnBestChainTrust := bnChainTrust (hd (chain_at s pindexNew)),
       mempool := (mempool s)\<lparr>nTransactionsUpdated := nTransactionsUpdated (mempool s) + 1\<rparr>\<rparr>"

definition SetBestChain ::
  "node_env \<Rightarrow> CBlock \<Rightarrow> uint256 \<Rightarrow> chain_state \<Rightarrow> (bool \<times> chain_state) option" where
  "SetBestChain E b pindexNew s =
     (let h = CBlock_GetHash (env_D E) b
      in case db_try s of
           (False, s0) \<Rightarrow> Some (False, s0)
         | (True, s0) \<Rightarrow>
             if pindexGenesisBlock s0 = None \<and> h = hashGenesisBlockOfficial then
               (case db_try (snd (db_try s0)) of
                  (False, s1) \<Rightarrow> Some (False, s1)
                | (True, s1) \<Rightarrow> Some (True, new_best h pindexNew (s1\<lparr>pindexGenesisBlock := Some pindexNew\<rparr>)))
             else if hashPrevBlock b = hashBestChain s0 then
               (case SetBestChainInner E b pindexNew s0 of
                  None \<Rightarrow> None
                | Some (False, s1) \<Rightarrow> Some (False, s1)
                | Some (True, s1) \<Rightarrow> Some (True, new_best h pindexNew s1))
             else
               (case postpone (bnChainTrust (hd (best_chain s0))) (chain_at s0 pindexNew) [] of
                  (pindexIntermediate, vpindexSecondary) \<Rightarrow>
                    (case Reorganize E (phashBlock (hd pindexIntermediate)) (cs_txdb s0) s0 of
                       None \<Rightarrow> None
                     | Some (False, s1) \<Rightarrow> Some (False, InvalidChainFound (hd (chain_at s1 pindexNew)) s1)
                     | Some (True, s1) \<Rightarrow>
                         map_option (\<lambda>(_, s2). (True, new_best h pindexNew s2))
                           (connect_postponed E (rev vpindexSecondary) s1))))"

end
