(* ===== verification/Chain_Facts.thy ===== *)
theory Chain_Facts
  imports Chain
begin

text \<open>
  What reorganising does: the fork it finds is the last common block, the links follow the best chain,
  and a failed reorganisation leaves chain, database and pool alone.
\<close>

section \<open>Chains of the index\<close>

text \<open>Heights count from genesis, and equal hashes mean the same block with the same ancestors.\<close>

definition heights_ok :: "CBlockIndex list \<Rightarrow> bool" where
  "heights_ok c \<longleftrightarrow> (\<forall>k < length c. nHeight (c ! k) = int (length c - 1 - k))"

definition same_blocks :: "CBlockIndex list \<Rightarrow> CBlockIndex list \<Rightarrow> bool" where
  "same_blocks c d \<longleftrightarrow>
     (\<forall>k < length c. \<forall>j < length d. phashBlock (c ! k) = phashBlock (d ! j) \<longrightarrow> drop k c = drop j d)"

lemma heights_ok_drop: "heights_ok c \<Longrightarrow> heights_ok (drop k c)"
  by (auto simp: heights_ok_def)

lemma heights_ok_tl: "heights_ok (i # c) \<Longrightarrow> heights_ok c"
  using heights_ok_drop [of "i # c" 1] by simp

lemma heights_ok_hd: "heights_ok (i # c) \<Longrightarrow> nHeight i = int (length c)"
  by (auto simp: heights_ok_def)

lemma same_blocks_drop: "same_blocks c d \<Longrightarrow> same_blocks (drop k c) (drop j d)"
  unfolding same_blocks_def by (auto simp: less_diff_conv ac_simps)

lemma same_blocksD:
  "same_blocks c d \<Longrightarrow> k < length c \<Longrightarrow> j < length d \<Longrightarrow> phashBlock (c ! k) = phashBlock (d ! j) \<Longrightarrow>
     drop k c = drop j d"
  by (simp add: same_blocks_def)

lemma same_blocks_hd:
  "same_blocks c d \<Longrightarrow> c \<noteq> [] \<Longrightarrow> d \<noteq> [] \<Longrightarrow> phashBlock (hd c) = phashBlock (hd d) \<Longrightarrow> c = d"
  using same_blocksD [of c d 0 0] by (simp add: hd_conv_nth)

lemma descend_eq:
  "heights_ok c \<Longrightarrow> c \<noteq> [] \<Longrightarrow> descend (int n) c = Some (drop (length c - (n + 1)) c)"
proof (induction c)
  case (Cons i c)
  show ?case
  proof (cases "length c > n")
    case True
    then have "c \<noteq> []" "length (i # c) - (n + 1) = Suc (length c - (n + 1))" by auto
    with Cons True show ?thesis using heights_ok_hd [OF Cons.prems(1)] heights_ok_tl by simp
  next
    case False
    with heights_ok_hd [OF Cons.prems(1)] show ?thesis by simp
  qed
qed simp

lemma find_fork_common:
  assumes "heights_ok b" and "heights_ok p" and "same_blocks b p" and "b \<noteq> []" and "p \<noteq> []" and "last b = last p"
  shows "\<exists>f. find_fork b p = Some f \<and> f \<noteq> [] \<and> suffix f b \<and> suffix f p \<and>
    (\<forall>n. length f < n \<and> n \<le> length b \<and> n \<le> length p \<longrightarrow>
       phashBlock (b ! (length b - n)) \<noteq> phashBlock (p ! (length p - n)))"
  using assms
proof (induction b arbitrary: p)
  case (Cons i b)
  show ?case
  proof (cases "phashBlock (hd p) = phashBlock i")
    case True
    then have "i # b = p" using Cons.prems(3, 5) by (intro same_blocks_hd) simp_all
    with True Cons.prems(5) show ?thesis by (intro exI [of _ "i # b"]) auto
  next
    case hd: False
    let ?p = "drop (length p - (length b + 1)) p"
    have d: "descend (nHeight i) p = Some ?p"
      using descend_eq [OF Cons.prems(2, 5)] heights_ok_hd [OF Cons.prems(1)] by simp
    have "length p - (length b + 1) < length p" using Cons.prems(5) by (cases p) auto
    then have p: "?p \<noteq> []" "last ?p = last p" "suffix ?p p" by (auto simp: suffix_drop)
    show ?thesis
    proof (cases "phashBlock (hd ?p) = phashBlock i")
      case True
      then have "i # b = ?p"
        using same_blocks_drop [OF Cons.prems(3), of 0 "length p - (length b + 1)"] p(1)
        by (intro same_blocks_hd) simp_all
      moreover have "find_fork (i # b) p = Some (i # b)" using hd True d by simp
      ultimately show ?thesis using p(1, 3) by (intro exI [of _ "i # b"]) simp
    next
      case False
      have "b \<noteq> []"
      proof
        assume "b = []"
        have "length ?p = 1" using \<open>b = []\<close> Cons.prems(5) by (cases p) auto
        then obtain x where x: "?p = [x]" by (metis One_nat_def length_0_conv length_Suc_conv)
        with p(2) Cons.prems(6) \<open>b = []\<close> have "hd ?p = i" by simp
        with False show False by simp
      qed
      then have "\<exists>f. find_fork b ?p = Some f \<and> f \<noteq> [] \<and> suffix f b \<and> suffix f ?p \<and>
          (\<forall>n. length f < n \<and> n \<le> length b \<and> n \<le> length ?p \<longrightarrow>
             phashBlock (b ! (length b - n)) \<noteq> phashBlock (?p ! (length ?p - n)))"
        using Cons.prems p same_blocks_drop [OF Cons.prems(3), of 1 "length p - (length b + 1)"]
        by (intro Cons.IH heights_ok_tl [OF Cons.prems(1)] heights_ok_drop) auto
      then obtain f where f: "find_fork b ?p = Some f" "f \<noteq> []" "suffix f b" "suffix f ?p"
        and max: "\<And>n. length f < n \<Longrightarrow> n \<le> length b \<Longrightarrow> n \<le> length ?p \<Longrightarrow>
             phashBlock (b ! (length b - n)) \<noteq> phashBlock (?p ! (length ?p - n))" by blast
      have "phashBlock ((i # b) ! (length (i # b) - n)) \<noteq> phashBlock (p ! (length p - n))"
        if n: "length f < n" "n \<le> length (i # b)" "n \<le> length p" for n
      proof (cases "n = length (i # b)")
        case True
        with n False show ?thesis by (simp add: hd_drop_conv_nth)
      next
        case False
        with n max [of n] show ?thesis by (auto simp: nth_Cons')
      qed
      with f hd False d show ?thesis
        using suffix_order.trans [OF f(4) p(3)] suffix_Cons [of f i b] by (intro exI [of _ f]) simp
    qed
  qed
qed simp

text \<open>The index is closed under ancestors, keyed by the hashes, with heights from genesis.\<close>

definition wf_index :: "block_index \<Rightarrow> bool" where
  "wf_index m \<longleftrightarrow>
     (\<forall>h i c. m h = Some (i, c) \<longrightarrow> phashBlock i = h \<and> nHeight i = int (length c) \<and>
        (c \<noteq> [] \<longrightarrow> m (phashBlock (hd c)) = Some (hd c, tl c)))"

definition chain_of :: "block_index \<Rightarrow> uint256 \<Rightarrow> CBlockIndex list" where
  "chain_of m h = (case m h of None \<Rightarrow> [] | Some (i, c) \<Rightarrow> i # c)"

lemma chain_at_of: "chain_at s = chain_of (mapBlockIndex s)"
  by (simp add: fun_eq_iff chain_at_def chain_of_def)

lemma wf_indexD:
  assumes "wf_index m" and "m h = Some (i, c)"
  shows "phashBlock i = h" and "nHeight i = int (length c)"
    and "c \<noteq> [] \<Longrightarrow> m (phashBlock (hd c)) = Some (hd c, tl c)"
  using assms by (simp_all add: wf_index_def)

lemma chain_of_Cons: "chain_of m h = i # c \<longleftrightarrow> m h = Some (i, c)"
  by (auto simp: chain_of_def split: option.splits)

lemma chain_of_drop:
  assumes "wf_index m" and "k < length (chain_of m h)"
  shows "chain_of m (phashBlock (chain_of m h ! k)) = drop k (chain_of m h)"
  using assms(2)
proof (induction k)
  case 0
  then show ?case using assms(1) by (auto simp: chain_of_def wf_index_def split: option.splits)
next
  case (Suc k)
  let ?c = "chain_of m h" and ?h = "phashBlock (chain_of m h ! k)"
  let ?d = "drop (Suc k) ?c"
  have d: "?d \<noteq> []" "hd ?d = ?c ! Suc k" using Suc.prems by (simp_all add: hd_drop_conv_nth)
  from Suc have "chain_of m ?h = ?c ! k # ?d" by (simp add: Cons_nth_drop_Suc)
  then have "m ?h = Some (?c ! k, ?d)" by (simp only: chain_of_Cons)
  then have "m (phashBlock (hd ?d)) = Some (hd ?d, tl ?d)" by (rule wf_indexD(3) [OF assms(1) _ d(1)])
  then have "chain_of m (phashBlock (hd ?d)) = ?d" using d(1) by (simp add: chain_of_def)
  with d(2) show ?case by simp
qed

lemma wf_index_heights:
  assumes "wf_index m" shows "heights_ok (chain_of m h)"
  unfolding heights_ok_def
proof (intro allI impI)
  fix k assume k: "k < length (chain_of m h)"
  have "chain_of m (phashBlock (chain_of m h ! k)) = chain_of m h ! k # drop (Suc k) (chain_of m h)"
    using chain_of_drop [OF assms k] k by (simp add: Cons_nth_drop_Suc)
  then have "m (phashBlock (chain_of m h ! k)) = Some (chain_of m h ! k, drop (Suc k) (chain_of m h))"
    by (simp only: chain_of_Cons)
  then have "nHeight (chain_of m h ! k) = int (length (drop (Suc k) (chain_of m h)))"
    by (rule wf_indexD(2) [OF assms])
  then show "nHeight (chain_of m h ! k) = int (length (chain_of m h) - 1 - k)" by simp
qed

lemma wf_index_same:
  assumes "wf_index m" shows "same_blocks (chain_of m h) (chain_of m g)"
  unfolding same_blocks_def
proof (intro allI impI)
  fix k j assume "k < length (chain_of m h)" and "j < length (chain_of m g)"
    and "phashBlock (chain_of m h ! k) = phashBlock (chain_of m g ! j)"
  with chain_of_drop [OF assms, of k h] chain_of_drop [OF assms, of j g]
  show "drop k (chain_of m h) = drop j (chain_of m g)" by simp
qed

lemma wf_index_distinct:
  assumes "wf_index m" shows "distinct (map phashBlock (chain_of m h))"
  unfolding distinct_conv_nth
proof (intro allI impI)
  fix k j assume kj: "k < length (map phashBlock (chain_of m h))" "j < length (map phashBlock (chain_of m h))" "k \<noteq> j"
  show "map phashBlock (chain_of m h) ! k \<noteq> map phashBlock (chain_of m h) ! j"
  proof
    assume "map phashBlock (chain_of m h) ! k = map phashBlock (chain_of m h) ! j"
    with kj have "drop k (chain_of m h) = drop j (chain_of m h)"
      by (intro same_blocksD [OF wf_index_same [OF assms]]) simp_all
    from arg_cong [OF this, of length] kj show False by simp
  qed
qed

text \<open>The two branches above the fork.\<close>

lemma down_to_prefix:
  assumes "c = ds @ f" and "f \<noteq> []" and "distinct (map phashBlock c)"
  shows "down_to f c = ds"
proof -
  have "\<forall>i \<in> set ds. phashBlock i \<noteq> phashBlock (hd f)"
    using assms by (cases f) (auto simp: image_iff)
  moreover obtain j js where "f = j # js" using assms(2) by (cases f) auto
  ultimately show ?thesis
    unfolding down_to_def assms(1) by (subst takeWhile_append2) auto
qed

lemma find_fork_chains:
  assumes "wf_index m" and "chain_of m h \<noteq> []" and "chain_of m g \<noteq> []"
    and "last (chain_of m h) = last (chain_of m g)"
  shows "\<exists>ds cs f. find_fork (chain_of m h) (chain_of m g) = Some f \<and> f \<noteq> [] \<and>
    chain_of m h = ds @ f \<and> chain_of m g = cs @ f \<and>
    down_to f (chain_of m h) = ds \<and> down_to f (chain_of m g) = cs \<and>
    phashBlock ` set ds \<inter> phashBlock ` set cs = {}"
proof -
  let ?b = "chain_of m h" and ?p = "chain_of m g"
  note wf = wf_index_heights [OF assms(1)] wf_index_same [OF assms(1)]
  obtain f where f: "find_fork ?b ?p = Some f" "f \<noteq> []" "suffix f ?b" "suffix f ?p"
    and max: "\<And>n. length f < n \<Longrightarrow> n \<le> length ?b \<Longrightarrow> n \<le> length ?p \<Longrightarrow>
       phashBlock (?b ! (length ?b - n)) \<noteq> phashBlock (?p ! (length ?p - n))"
    using find_fork_common [OF wf(1) wf(1) wf(2) assms(2-4)] by blast
  then obtain ds cs where d: "?b = ds @ f" "?p = cs @ f" by (auto simp: suffix_def)
  have False if x: "x \<in> phashBlock ` set ds" "x \<in> phashBlock ` set cs" for x
  proof -
    from x obtain k j where kj: "k < length ds" "j < length cs" "phashBlock (ds ! k) = x" "phashBlock (cs ! j) = x"
      by (auto simp: in_set_conv_nth)
    then have e: "phashBlock (?b ! k) = phashBlock (?p ! j)" by (simp add: d nth_append)
    have "drop k ?b = drop j ?p" by (rule same_blocksD [OF wf(2) _ _ e]) (use kj d in simp_all)
    from arg_cong [OF this, of length] kj d have l: "length ?b - k = length ?p - j" by simp
    then have n: "length ?b - (length ?b - k) = k" "length ?p - (length ?b - k) = j" using kj d by auto
    have "length f < length ?b - k" "length ?b - k \<le> length ?p" using kj d l by simp_all
    from max [OF this(1) diff_le_self this(2), unfolded n] e show False by simp
  qed
  with f d down_to_prefix [OF d(1) f(2) wf_index_distinct [OF assms(1)]]
    down_to_prefix [OF d(2) f(2) wf_index_distinct [OF assms(1)]]
  show ?thesis by (intro exI [of _ ds] exI [of _ cs] exI [of _ f]) auto
qed

section \<open>The links\<close>

text \<open>The links a chain of hashes, newest first, stands for.\<close>

fun links :: "uint256 list \<Rightarrow> (uint256 \<rightharpoonup> uint256)" where
  "links (d # r # rs) = (links (r # rs))(r \<mapsto> d)"
| "links hs = Map.empty"

lemma links_hd: "distinct (r # rs) \<Longrightarrow> links (r # rs) r = None"
proof (induction rs arbitrary: r)
  case (Cons x xs)
  have "links (r # x # xs) h = None" if "h \<notin> set (x # xs)" for h
    using that
  proof (induction xs arbitrary: r x)
    case (Cons y ys)
    then show ?case by auto
  qed auto
  with Cons.prems show ?case by simp
qed simp

definition hashes :: "block_index \<Rightarrow> uint256 \<Rightarrow> uint256 list" where
  "hashes m h = map phashBlock (chain_of m h)"

lemma prev_hash_chain:
  assumes "wf_index (mapBlockIndex s)" and "hashes (mapBlockIndex s) h = xs @ d # r # rs"
  shows "prev_hash s d = Some r"
proof -
  let ?m = "mapBlockIndex s"
  have k: "length xs < length (chain_of ?m h)"
    using arg_cong [OF assms(2), of length] by (simp add: hashes_def)
  have "phashBlock (chain_of ?m h ! length xs) = d"
    using k arg_cong [OF assms(2), of "\<lambda>l. l ! length xs"] by (simp add: hashes_def)
  with chain_of_drop [OF assms(1) k] have "map phashBlock (chain_of ?m d) = drop (length xs) (hashes ?m h)"
    by (simp add: hashes_def drop_map)
  then have "map phashBlock (chain_of ?m d) = d # r # rs" by (simp add: assms(2))
  then show ?thesis by (auto simp: prev_hash_def chain_at_of map_eq_Cons_conv)
qed

lemma fold_unlink:
  assumes "wf_index (mapBlockIndex s)" and "f \<noteq> []"
  shows "hashes (mapBlockIndex s) h = xs @ ds @ f \<Longrightarrow> fold (unlink s) ds (links (ds @ f)) = links f"
proof (induction ds arbitrary: xs)
  case (Cons d ds)
  obtain r rs where r: "ds @ f = r # rs" using assms(2) by (cases "ds @ f") auto
  have "prev_hash s d = Some r" using Cons.prems r by (intro prev_hash_chain [OF assms(1)]) simp
  moreover have "distinct (xs @ d # r # rs)"
    using wf_index_distinct [OF assms(1), of h] Cons.prems r by (simp add: hashes_def)
  then have "links (r # rs) r = None" by (intro links_hd) simp
  ultimately have "unlink s d (links ((d # ds) @ f)) = links (ds @ f)"
    by (simp add: unlink_def r fun_upd_idem)
  moreover have "fold (unlink s) ds (links (ds @ f)) = links f"
    using Cons.prems by (intro Cons.IH [of "xs @ [d]"]) simp
  ultimately show ?case by simp
qed simp

lemma fold_link:
  assumes "wf_index (mapBlockIndex s)" and "f \<noteq> []"
  shows "hashes (mapBlockIndex s) h = xs @ cs @ f \<Longrightarrow> fold (link s) (rev cs) (links f) = links (cs @ f)"
proof (induction cs arbitrary: xs)
  case (Cons c cs)
  obtain r rs where r: "cs @ f = r # rs" using assms(2) by (cases "cs @ f") auto
  have "prev_hash s c = Some r" using Cons.prems r by (intro prev_hash_chain [OF assms(1)]) simp
  then have "link s c m = m(r \<mapsto> c)" for m by (simp add: link_def)
  moreover have "fold (link s) (rev cs) (links f) = links (cs @ f)"
    using Cons.prems by (intro Cons.IH [of "xs @ [c]"]) simp
  ultimately show ?case by (simp add: r)
qed simp

section \<open>Entries that change\<close>

text \<open>Connecting changes only amounts of an entry.\<close>

definition same_id :: "CBlockIndex \<Rightarrow> CBlockIndex \<Rightarrow> bool" where
  "same_id i j \<longleftrightarrow> phashBlock i = phashBlock j \<and> nHeight i = nHeight j \<and> bnChainTrust i = bnChainTrust j"

lemma ConnectBlock_same_id:
  "ConnectBlock E txdb i c f b cache = Some (v, txdb', i', cache') \<Longrightarrow> same_id i i'"
  by (auto simp: ConnectBlock_def same_id_def Let_def split: verdict.splits option.splits if_splits prod.splits bool.splits)

text \<open>Two indices with the same blocks.\<close>

definition same_index :: "block_index \<Rightarrow> block_index \<Rightarrow> bool" where
  "same_index m m' \<longleftrightarrow> (\<forall>h. list_all2 same_id (chain_of m h) (chain_of m' h))"

lemma same_index_refl: "same_index m m"
  by (simp add: same_index_def same_id_def list_all2_conv_all_nth)

lemma same_index_trans: "same_index m m' \<Longrightarrow> same_index m' m'' \<Longrightarrow> same_index m m''"
  by (simp add: same_index_def same_id_def list_all2_conv_all_nth)

lemma same_index_hashes: "same_index m m' \<Longrightarrow> hashes m' h = hashes m h"
  by (auto simp: same_index_def hashes_def same_id_def list_all2_conv_all_nth intro!: nth_equalityI)

lemma chain_of_set_entry:
  "chain_of (set_entry i m) h = map (\<lambda>j. if phashBlock j = phashBlock i then i else j) (chain_of m h)"
  by (simp add: chain_of_def set_entry_def Let_def split: option.splits)

lemma set_entry_same:
  assumes "wf_index m" and "m h = Some (i, c)" and "same_id i i'"
  shows "wf_index (set_entry i' m) \<and> same_index m (set_entry i' m)"
proof -
  let ?u = "\<lambda>j. if phashBlock j = phashBlock i' then i' else j"
  have u: "same_id j (?u j)" if mem: "j \<in> set (chain_of m g)" for j g
  proof (cases "phashBlock j = phashBlock i'")
    case True
    obtain k where k: "k < length (chain_of m g)" "chain_of m g ! k = j" using mem by (auto simp: in_set_conv_nth)
    have "phashBlock j = h" using True assms(3) wf_indexD(1) [OF assms(1, 2)] by (simp add: same_id_def)
    with chain_of_drop [OF assms(1) k(1)] k have "hd (chain_of m h) = j" by (simp add: hd_drop_conv_nth)
    with assms(2, 3) show ?thesis by (auto simp: chain_of_def same_id_def)
  qed (simp add: same_id_def)
  have "same_index m (set_entry i' m)"
    unfolding same_index_def chain_of_set_entry list.rel_map
    by (intro allI list.rel_refl_strong u)
  moreover have "wf_index (set_entry i' m)"
    unfolding wf_index_def
  proof (intro allI impI)
    fix g j' d' assume "set_entry i' m g = Some (j', d')"
    then obtain j d where j: "m g = Some (j, d)" "j' = ?u j" "d' = map ?u d"
      by (auto simp: set_entry_def Let_def)
    have ids: "same_id j j'" using u [of j g] j by (simp add: chain_of_def)
    have "set_entry i' m (phashBlock (hd d')) = Some (hd d', tl d')" if "d' \<noteq> []"
    proof -
      have d: "d \<noteq> []" using that j by simp
      have "same_id (hd d) (hd d')" using u [of "hd d" g] d j by (simp add: chain_of_def hd_map)
      moreover have "m (phashBlock (hd d)) = Some (hd d, tl d)" by (rule wf_indexD(3) [OF assms(1) j(1) d])
      ultimately show ?thesis using d j by (simp add: set_entry_def Let_def same_id_def hd_map map_tl)
    qed
    with ids wf_indexD [OF assms(1) j(1)] j(3)
    show "phashBlock j' = g \<and> nHeight j' = int (length d') \<and>
        (d' \<noteq> [] \<longrightarrow> set_entry i' m (phashBlock (hd d')) = Some (hd d', tl d'))"
      by (simp add: same_id_def)
  qed
  ultimately show ?thesis by blast
qed

section \<open>The tip\<close>

text \<open>
  The state agrees with itself: the index is well formed with one genesis block, and the best block, its
  height, its trust and the links forward are those of one chain.
\<close>

definition coherent :: "uint256 \<Rightarrow> chain_state \<Rightarrow> bool" where
  "coherent g s \<longleftrightarrow>
     wf_index (mapBlockIndex s) \<and>
     (\<forall>h. chain_at s h \<noteq> [] \<longrightarrow> phashBlock (last (chain_at s h)) = g) \<and>
     pindexGenesisBlock s = Some g \<and>
     (case pindexBest s of
        None \<Rightarrow> False
      | Some h \<Rightarrow>
          chain_at s h \<noteq> [] \<and> hashBestChain s = h \<and>
          nBestHeight s = nHeight (hd (chain_at s h)) \<and>
          bnBestChainTrust s = bnChainTrust (hd (chain_at s h)) \<and>
          pnext s = links (hashes (mapBlockIndex s) h))"

text \<open>What a step leaves alone: the tip, its database and the pool, while entries may be refreshed.\<close>

definition same_tip :: "chain_state \<Rightarrow> chain_state \<Rightarrow> bool" where
  "same_tip s s' \<longleftrightarrow>
     pindexBest s' = pindexBest s \<and> hashBestChain s' = hashBestChain s \<and> nBestHeight s' = nBestHeight s \<and>
     bnBestChainTrust s' = bnBestChainTrust s \<and> pindexGenesisBlock s' = pindexGenesisBlock s \<and>
     wf_index (mapBlockIndex s') \<and> same_index (mapBlockIndex s) (mapBlockIndex s')"

definition same_chain :: "chain_state \<Rightarrow> chain_state \<Rightarrow> bool" where
  "same_chain s s' \<longleftrightarrow> same_tip s s' \<and> pnext s' = pnext s \<and> cs_txdb s' = cs_txdb s \<and> mempool s' = mempool s"

lemma same_tip_trans: "same_tip s s' \<Longrightarrow> same_tip s' s'' \<Longrightarrow> same_tip s s''"
  using same_index_trans by (auto simp: same_tip_def)

lemma same_chain_trans: "same_chain s s' \<Longrightarrow> same_chain s' s'' \<Longrightarrow> same_chain s s''"
  using same_tip_trans by (auto simp: same_chain_def)

lemma same_chain_refl: "wf_index (mapBlockIndex s) \<Longrightarrow> same_chain s s"
  by (simp add: same_chain_def same_tip_def same_index_refl)

lemma same_index_chain:
  assumes "same_index m m'"
  shows "chain_of m' h = [] \<longleftrightarrow> chain_of m h = []"
    and "chain_of m h \<noteq> [] \<Longrightarrow> same_id (hd (chain_of m h)) (hd (chain_of m' h))"
    and "chain_of m h \<noteq> [] \<Longrightarrow> same_id (last (chain_of m h)) (last (chain_of m' h))"
proof -
  have r: "list_all2 same_id (chain_of m h) (chain_of m' h)" using assms by (simp add: same_index_def)
  then show e: "chain_of m' h = [] \<longleftrightarrow> chain_of m h = []" by (auto simp: list_all2_conv_all_nth)
  show "same_id (hd (chain_of m h)) (hd (chain_of m' h))" if "chain_of m h \<noteq> []"
    using r e that by (simp add: list_all2_conv_all_nth hd_conv_nth)
  show "same_id (last (chain_of m h)) (last (chain_of m' h))" if "chain_of m h \<noteq> []"
    using r e that by (simp add: list_all2_conv_all_nth last_conv_nth)
qed

lemma same_tip_coherent:
  assumes "coherent g s" and "same_tip s s'"
  shows "pnext s' = pnext s \<Longrightarrow> coherent g s'"
    and "chain_at s' h \<noteq> [] \<Longrightarrow> phashBlock (last (chain_at s' h)) = g"
proof -
  have m: "same_index (mapBlockIndex s) (mapBlockIndex s')" using assms(2) by (simp add: same_tip_def)
  show last: "phashBlock (last (chain_at s' h)) = g" if "chain_at s' h \<noteq> []" for h
    using assms(1) that same_index_chain(1, 3) [OF m, of h]
    by (auto simp: coherent_def chain_at_of same_id_def)
  show "coherent g s'" if "pnext s' = pnext s"
    using assms that last same_index_chain(1, 2) [OF m] same_index_hashes [OF m]
    by (auto simp: coherent_def same_tip_def chain_at_of same_id_def split: option.splits)
qed

lemma same_tip_prev_hash: "same_tip s s' \<Longrightarrow> prev_hash s' h = prev_hash s h"
proof -
  assume "same_tip s s'"
  then have "list_all2 same_id (chain_at s h) (chain_at s' h)"
    by (simp add: same_tip_def same_index_def chain_at_of)
  then show ?thesis
    by (auto simp: prev_hash_def same_id_def list_all2_Cons1 list_all2_Cons2 split: list.splits)
qed

section \<open>The steps keep the tip\<close>

lemma db_try_chain: "wf_index (mapBlockIndex s) \<Longrightarrow> db_try s = (ok, s') \<Longrightarrow> same_chain s s'"
  by (auto simp: db_try_def same_chain_def same_tip_def same_index_refl)

lemma connect_entry_chain:
  assumes "connect_entry E h b txdb s = Some (ok, txdb', s')" and "wf_index (mapBlockIndex s)"
  shows "same_chain s s'"
proof -
  obtain i c v i' cache' where e: "mapBlockIndex s h = Some (i, c)"
    and b: "ConnectBlock (chain_env E s) txdb i c False b (cs_cache s) = Some (v, txdb', i', cache')"
    and s': "s' = s\<lparr>mapBlockIndex := set_entry i' (mapBlockIndex s), cs_cache := cache'\<rparr>"
    using assms(1) by (auto simp: connect_entry_def split: option.splits prod.splits)
  with set_entry_same [OF assms(2) e ConnectBlock_same_id [OF b]] show ?thesis
    by (simp add: same_chain_def same_tip_def)
qed

lemma same_chain_wf: "same_chain s s' \<Longrightarrow> wf_index (mapBlockIndex s')"
  by (simp add: same_chain_def same_tip_def)

lemma connect_blocks_chain:
  "connect_blocks E is txdb vDelete s = Some (ok, txdb', vDelete', s') \<Longrightarrow> wf_index (mapBlockIndex s) \<Longrightarrow>
     same_chain s s'"
proof (induction "is" arbitrary: txdb vDelete s)
  case (Cons i "is")
  then show ?case
    by (auto split: option.splits prod.splits if_splits intro: same_chain_refl connect_entry_chain)
      (metis same_chain_trans connect_entry_chain same_chain_wf)
qed (simp add: same_chain_refl)

lemma InvalidChainFound_chain: "wf_index (mapBlockIndex s) \<Longrightarrow> same_chain s (InvalidChainFound i s)"
  by (simp add: InvalidChainFound_def db_try_def same_chain_def same_tip_def same_index_refl)

text \<open>Along one chain of the index: the links change with the tip.\<close>

lemma hashes_chain: "hashes (mapBlockIndex s) h = map phashBlock (chain_at s h)"
  by (simp add: hashes_def chain_at_of)

lemma same_chain_hashes: "same_tip s s' \<Longrightarrow> hashes (mapBlockIndex s') h = hashes (mapBlockIndex s) h"
  by (simp add: same_tip_def same_index_hashes)

lemma coherent_best:
  assumes "coherent g s"
  obtains b where "pindexBest s = Some b" and "chain_at s b \<noteq> []" and "best_chain s = chain_at s b"
    and "pnext s = links (hashes (mapBlockIndex s) b)"
  using assms by (auto simp: coherent_def best_chain_def split: option.splits)

lemma coherent_last:
  assumes "coherent g s" and "chain_at s k \<noteq> []"
  shows "chain_of (mapBlockIndex s) g = [last (chain_at s k)]"
proof -
  have "phashBlock (chain_at s k ! (length (chain_at s k) - 1)) = g"
    using assms by (simp add: coherent_def last_conv_nth)
  moreover have "drop (length (chain_at s k) - 1) (chain_at s k) = [last (chain_at s k)]"
    using assms(2) by (cases "chain_at s k" rule: rev_cases) simp_all
  moreover have "wf_index (mapBlockIndex s)" using assms(1) by (simp add: coherent_def)
  ultimately show ?thesis
    using chain_of_drop [of "mapBlockIndex s" "length (chain_at s k) - 1" k] assms(2) by (simp add: chain_at_of)
qed

lemma coherent_fork:
  assumes "coherent g s" and "chain_at s h \<noteq> []"
  obtains ds cs f where "find_fork (best_chain s) (chain_at s h) = Some f" and "f \<noteq> []"
    and "best_chain s = ds @ f" and "chain_at s h = cs @ f"
    and "down_to f (best_chain s) = ds" and "down_to f (chain_at s h) = cs"
proof -
  obtain b where b: "chain_at s b \<noteq> []" "best_chain s = chain_at s b"
    using coherent_best [OF assms(1)] by metis
  have wf: "wf_index (mapBlockIndex s)" using assms(1) by (simp add: coherent_def)
  have "last (chain_at s b) = last (chain_at s h)" using coherent_last [OF assms(1) b(1)] coherent_last [OF assms] by simp
  then have "\<exists>ds cs f. find_fork (chain_at s b) (chain_at s h) = Some f \<and> f \<noteq> [] \<and>
      chain_at s b = ds @ f \<and> chain_at s h = cs @ f \<and> down_to f (chain_at s b) = ds \<and> down_to f (chain_at s h) = cs"
    using find_fork_chains [OF wf, of b h] b(1) assms(2) unfolding chain_at_of by blast
  then show ?thesis unfolding b(2) using that b(2) by force
qed

lemma Reorganize_tip:
  assumes "coherent g s" and "chain_at s h \<noteq> []" and "Reorganize E h txdb s = Some (ok, s')"
  shows "if ok then same_tip s s' \<and> pnext s' = links (hashes (mapBlockIndex s) h) else same_chain s s'"
proof -
  have wf: "wf_index (mapBlockIndex s)" using assms(1) by (simp add: coherent_def)
  obtain ds cs f where f: "find_fork (best_chain s) (chain_at s h) = Some f" "f \<noteq> []"
    and c: "best_chain s = ds @ f" "chain_at s h = cs @ f" "down_to f (best_chain s) = ds" "down_to f (chain_at s h) = cs"
    using coherent_fork [OF assms(1, 2)] by blast
  obtain b where b: "best_chain s = chain_at s b" "pnext s = links (hashes (mapBlockIndex s) b)"
    using coherent_best [OF assms(1)] by metis
  obtain okd txdb1 vR where d: "disconnect_blocks E ds txdb [] = (okd, txdb1, vR)" by (cases "disconnect_blocks E ds txdb []")
  show ?thesis
  proof (cases okd)
    case False
    with assms(3) f c d same_chain_refl [OF wf] show ?thesis by (simp add: Reorganize_def)
  next
    case True
    obtain okc txdb2 vD s1 where k: "connect_blocks E (rev cs) txdb1 [] s = Some (okc, txdb2, vD, s1)"
      using assms(3) True f c d by (auto simp: Reorganize_def Let_def split: option.splits)
    have s1: "same_chain s s1" by (rule connect_blocks_chain [OF k wf])
    obtain ok2 s2 where s2: "db_try s1 = (ok2, s2)" by (cases "db_try s1")
    obtain ok3 s3 where s3: "db_try s2 = (ok3, s3)" by (cases "db_try s2")
    have k2: "same_chain s s2" using same_chain_trans [OF s1 db_try_chain [OF same_chain_wf [OF s1] s2]] .
    have k3: "same_chain s s3" using same_chain_trans [OF k2 db_try_chain [OF same_chain_wf [OF k2] s3]] .
    have bs: "chain_at s b = ds @ f" using b(1) c(1) by simp
    have hs: "hashes (mapBlockIndex s3) b = map phashBlock ds @ map phashBlock f"
      "hashes (mapBlockIndex s3) h = map phashBlock cs @ map phashBlock f"
      using same_chain_hashes [of s s3] k3 by (simp_all add: same_chain_def hashes_chain bs c(2))
    have "pnext s3 = links (map phashBlock ds @ map phashBlock f)"
      using k3 b(2) by (simp add: same_chain_def hashes_chain bs)
    then have "fold (link s3) (map phashBlock (rev cs)) (fold (unlink s3) (map phashBlock ds) (pnext s3)) =
        links (hashes (mapBlockIndex s) h)"
      using fold_unlink [OF same_chain_wf [OF k3], of "map phashBlock f" b "[]" "map phashBlock ds"]
        fold_link [OF same_chain_wf [OF k3], of "map phashBlock f" h "[]" "map phashBlock cs"] hs f(2) c(2)
      by (simp add: rev_map hashes_chain)
    with assms(3) True f c d k s1 s2 s3 k2 k3 show ?thesis
      by (auto simp: Reorganize_def same_chain_def same_tip_def Let_def split: if_splits bool.splits option.splits)
  qed
qed

lemma Inner_tip:
  assumes "SetBestChainInner E b c s = Some (ok, s')" and "wf_index (mapBlockIndex s)"
  shows "if ok then same_tip s s' \<and> pnext s' = link s c (pnext s) else same_chain s s'"
proof -
  obtain okc txdb1 s1 where k: "connect_entry E c b (cs_txdb s) s = Some (okc, txdb1, s1)"
    using assms(1) by (auto simp: SetBestChainInner_def split: option.splits)
  have s1: "same_chain s s1" by (rule connect_entry_chain [OF k assms(2)])
  obtain ok2 s2 where s2: "(if okc then db_try s1 else (False, s1)) = (ok2, s2)"
    by (cases "if okc then db_try s1 else (False, s1)")
  have "same_chain s1 s2"
    using s2 db_try_chain [OF same_chain_wf [OF s1]] same_chain_refl [OF same_chain_wf [OF s1]]
    by (auto split: if_splits)
  with s1 have k2: "same_chain s s2" by (rule same_chain_trans)
  obtain ok3 s3 where s3: "db_try s2 = (ok3, s3)" by (cases "db_try s2")
  have k3: "same_chain s s3" using same_chain_trans [OF k2 db_try_chain [OF same_chain_wf [OF k2] s3]] .
  have "prev_hash s3 c = prev_hash s c" using k3 same_tip_prev_hash [of s s3] by (simp add: same_chain_def)
  then show ?thesis
    using assms(1) k s2 s3 k2 k3 same_chain_trans [OF k2 InvalidChainFound_chain [OF same_chain_wf [OF k2]]]
    by (auto simp: SetBestChainInner_def same_chain_def same_tip_def link_def split: if_splits bool.splits option.splits)
qed

text \<open>The postponed blocks lie on one chain; connecting them extends the links as far as they go.\<close>

lemma link_chain:
  assumes "wf_index (mapBlockIndex s)" and "hashes (mapBlockIndex s) h = xs @ c # r # rs"
  shows "link s c (links (r # rs)) = links (c # r # rs)"
  using prev_hash_chain [OF assms] by (simp add: link_def)

lemma connect_postponed_tip:
  assumes "connect_postponed E is s = Some (ok, s')" and "wf_index (mapBlockIndex s)"
    and "hashes (mapBlockIndex s) h = rev (map phashBlock is) @ r # rs" and "pnext s = links (r # rs)"
  shows "same_tip s s' \<and> (\<exists>k \<le> length is. pnext s' = links (drop k (hashes (mapBlockIndex s) h)) \<and> (ok \<longrightarrow> k = 0))"
  using assms
proof (induction "is" arbitrary: s r rs)
  case Nil
  then show ?case using same_chain_refl by (auto simp: same_chain_def)
next
  case (Cons i "is")
  have stop: ?case if "same_chain s s'" "\<not> ok"
    using that Cons.prems(3, 4) by (auto simp: same_chain_def intro!: exI [of _ "length (i # is)"])
  show ?case
  proof (cases "Index_ReadFromDisk E i")
    case None
    with stop Cons.prems(1) same_chain_refl [OF Cons.prems(2)] show ?thesis by auto
  next
    case (Some b)
    obtain ok1 s1 where s1: "db_try s = (ok1, s1)" by (cases "db_try s")
    note k1 = db_try_chain [OF Cons.prems(2) s1]
    show ?thesis
    proof (cases ok1)
      case False
      with stop Some Cons.prems(1) s1 k1 show ?thesis by auto
    next
      case True
      obtain ok2 s2 where s2: "SetBestChainInner E b (phashBlock i) s1 = Some (ok2, s2)"
        using Cons.prems(1) Some s1 True by (auto split: option.splits)
      note k2 = Inner_tip [OF s2 same_chain_wf [OF k1]]
      show ?thesis
      proof (cases ok2)
        case False
        with stop Some Cons.prems(1) s1 True s2 k1 k2 show ?thesis
          by (auto intro: same_chain_trans)
      next
        case ok2: True
        have t2: "same_tip s s2" using k1 k2 ok2 same_tip_trans by (auto simp: same_chain_def)
        have "link s1 (phashBlock i) (links (r # rs)) = links (phashBlock i # r # rs)"
          using Cons.prems(3) k1 same_chain_hashes [of s s1]
          by (intro link_chain [OF same_chain_wf [OF k1], of h "rev (map phashBlock is)"]) (simp add: same_chain_def)
        then have p2: "pnext s2 = links (phashBlock i # r # rs)"
          using k1 k2 ok2 Cons.prems(4) by (simp add: same_chain_def)
        have h2: "hashes (mapBlockIndex s2) h = hashes (mapBlockIndex s) h" by (rule same_chain_hashes [OF t2])
        have "connect_postponed E is s2 = Some (ok, s')"
          using Cons.prems(1) Some s1 True s2 ok2 by simp
        then have "same_tip s2 s' \<and>
            (\<exists>k \<le> length is. pnext s' = links (drop k (hashes (mapBlockIndex s2) h)) \<and> (ok \<longrightarrow> k = 0))"
          using t2 p2 Cons.prems(3) by (intro Cons.IH [of s2 "phashBlock i" "r # rs"]) (simp_all add: same_tip_def h2 [unfolded Cons.prems(3)] h2)
        with t2 h2 same_tip_trans show ?thesis by (auto simp: le_Suc_eq)
      qed
    qed
  qed
qed

lemma postpone_split:
  "c \<noteq> [] \<Longrightarrow> \<exists>xs c'. postpone t c acc = (c', acc @ xs) \<and> c = xs @ c' \<and> c' \<noteq> [] \<and>
     (\<forall>j < length xs. bnChainTrust (c ! Suc j) > t) \<and> (length c' > 1 \<longrightarrow> bnChainTrust (c' ! 1) \<le> t)"
proof (induction t c acc rule: postpone.induct)
  case (1 t i p chain acc)
  show ?case
  proof (cases "bnChainTrust p > t")
    case True
    with 1 obtain xs c' where "postpone t (p # chain) (acc @ [i]) = (c', (acc @ [i]) @ xs)" "p # chain = xs @ c'" "c' \<noteq> []"
      "\<forall>j < length xs. bnChainTrust ((p # chain) ! Suc j) > t" "length c' > 1 \<longrightarrow> bnChainTrust (c' ! 1) \<le> t"
      by blast
    moreover have "bnChainTrust ((i # p # chain) ! Suc j) > t" if "j < length (i # xs)" for j
      using that True calculation(4) by (cases j) auto
    moreover have "postpone t (i # p # chain) acc = postpone t (p # chain) (acc @ [i])" using True by simp
    ultimately show ?thesis
      by - (rule exI [of _ "i # xs"], rule exI [of _ c'], simp)
  qed (auto intro!: exI [of _ "[]"])
qed auto

lemma new_best_coherent:
  assumes "coherent g s" and "same_tip s s1" and "chain_at s h \<noteq> []" and "pnext s1 = links (hashes (mapBlockIndex s) h)"
  shows "coherent g (new_best h h s1)"
proof -
  have n: "chain_at (new_best h h s1) = chain_at s1" by (simp add: fun_eq_iff new_best_def chain_at_def)
  have "chain_at s1 h \<noteq> []"
    using assms(2, 3) same_index_chain(1) [of "mapBlockIndex s" "mapBlockIndex s1" h]
    by (simp add: same_tip_def chain_at_of)
  moreover have "phashBlock (last (chain_at s1 k)) = g" if "chain_at s1 k \<noteq> []" for k
    by (rule same_tip_coherent(2) [OF assms(1, 2) that])
  ultimately show ?thesis
    using assms same_chain_hashes [OF assms(2)] unfolding coherent_def n
    by (simp add: new_best_def same_tip_def)
qed

lemma SetBestChain_tip:
  assumes "coherent g s" and "SetBestChain E b h s = Some (ok, s')" and "CBlock_GetHash (env_D E) b = h"
    and "prev_hash s h = Some (hashPrevBlock b)"
  shows "if ok then
      (\<exists>s1 k. same_tip s s1 \<and> s' = new_best h h s1 \<and> pnext s1 = links (drop k (hashes (mapBlockIndex s) h)) \<and>
         (k > 0 \<longrightarrow> bnChainTrust (chain_at s h ! 1) > bnBestChainTrust s))
    else same_chain s s'"
proof -
  have wf: "wf_index (mapBlockIndex s)" using assms(1) by (simp add: coherent_def)
  have c: "chain_at s h \<noteq> []" using assms(4) by (auto simp: prev_hash_def split: list.splits)
  obtain b0 where b0: "pindexBest s = Some b0" "best_chain s = chain_at s b0" "pnext s = links (hashes (mapBlockIndex s) b0)"
    and hb: "hashBestChain s = b0" and t0: "bnBestChainTrust s = bnChainTrust (hd (chain_at s b0))"
    and gb: "pindexGenesisBlock s = Some g"
    using assms(1) by (auto simp: coherent_def best_chain_def split: option.splits)
  obtain ok0 s0 where s0: "db_try s = (ok0, s0)" by (cases "db_try s")
  note k0 = db_try_chain [OF wf s0]
  have e0: "hashBestChain s0 = b0" "pindexGenesisBlock s0 = Some g" "best_chain s0 = best_chain s"
    "chain_at s0 = chain_at s" "mapBlockIndex s0 = mapBlockIndex s" "pnext s0 = pnext s"
    using s0 hb gb by (auto simp: db_try_def best_chain_def chain_at_def [abs_def] split: option.splits)
  show ?thesis
  proof (cases ok0)
    case False
    with assms(2) s0 k0 show ?thesis by (simp add: SetBestChain_def Let_def)
  next
    case ok0: True
    show ?thesis
    proof (cases "hashPrevBlock b = b0")
      case True
      obtain ok1 s1 where s1: "SetBestChainInner E b h s0 = Some (ok1, s1)"
        using assms(2) s0 ok0 e0 True by (auto simp: SetBestChain_def Let_def split: option.splits)
      note k1 = Inner_tip [OF s1 same_chain_wf [OF k0]]
      have "\<exists>i rest. chain_at s h = i # rest \<and> rest \<noteq> [] \<and> phashBlock (hd rest) = b0"
        using assms(4) True by (auto simp: prev_hash_def split: list.splits)
      then obtain i rest where r: "chain_at s h = i # rest" "rest \<noteq> []" "phashBlock (hd rest) = b0" by blast
      have "chain_of (mapBlockIndex s) (phashBlock (chain_of (mapBlockIndex s) h ! 1)) = drop 1 (chain_of (mapBlockIndex s) h)"
        by (rule chain_of_drop [OF wf]) (use r in \<open>simp add: chain_at_of [symmetric]\<close>)
      then have rb: "chain_at s b0 = rest" using r by (simp add: chain_at_of [symmetric] hd_conv_nth)
      have ph: "phashBlock i = h" using wf_indexD(1) [OF wf, of h i rest] r(1) by (simp add: chain_at_of chain_of_Cons)
      have "pnext s1 = links (hashes (mapBlockIndex s) h)" if ok1
      proof -
        obtain p ps where "rest = p # ps" using r(2) by (cases rest) auto
        then show ?thesis
          using k1 that e0 b0(3) r ph rb True assms(4)
          by (simp add: link_def prev_hash_def hashes_chain same_chain_def)
      qed
      moreover have "same_tip s s1" if ok1 using k0 k1 that same_tip_trans by (auto simp: same_chain_def)
      moreover have "same_chain s s1" if "\<not> ok1" using k0 k1 that same_chain_trans by auto
      ultimately show ?thesis
        using assms(2, 3) s0 ok0 e0 True s1
        by (cases ok1) (auto simp: SetBestChain_def Let_def intro!: exI [of _ s1] exI [of _ 0])
    next
      case False
      obtain xs c' where p: "postpone (bnBestChainTrust s) (chain_at s h) [] = (c', xs)" "chain_at s h = xs @ c'" "c' \<noteq> []"
        and better: "\<forall>j < length xs. bnChainTrust (chain_at s h ! Suc j) > bnBestChainTrust s"
        using postpone_split [OF c, of "bnBestChainTrust s" "[]"] by auto
      let ?i = "phashBlock (hd c')"
      have "chain_of (mapBlockIndex s) (phashBlock (chain_of (mapBlockIndex s) h ! length xs)) =
          drop (length xs) (chain_of (mapBlockIndex s) h)"
        by (rule chain_of_drop [OF wf]) (use p in \<open>simp add: chain_at_of [symmetric]\<close>)
      then have ci: "chain_at s ?i = c'" using p by (simp add: chain_at_of [symmetric] nth_append hd_conv_nth)
      have co: "coherent g s0" using same_tip_coherent(1) [OF assms(1)] k0 by (simp add: same_chain_def)
      obtain ok1 s1 where s1: "Reorganize E ?i (cs_txdb s0) s0 = Some (ok1, s1)"
        using assms(2) s0 ok0 e0 False p b0 t0 by (auto simp: SetBestChain_def Let_def split: option.splits)
      have k1: "if ok1 then same_tip s0 s1 \<and> pnext s1 = links (hashes (mapBlockIndex s0) ?i) else same_chain s0 s1"
        using ci p e0 by (intro Reorganize_tip [OF co _ s1]) simp
      show ?thesis
      proof (cases ok1)
        case False
        then have "same_chain s s1" using k0 k1 same_chain_trans by auto
        from same_chain_trans [OF this InvalidChainFound_chain [OF same_chain_wf [OF this]]] show ?thesis
          using assms(2) s0 ok0 e0 \<open>hashPrevBlock b \<noteq> b0\<close> p b0 t0 s1 False by (auto simp: SetBestChain_def Let_def)
      next
        case True
        then have t1: "same_tip s s1" using k0 k1 same_tip_trans by (auto simp: same_chain_def)
        obtain ok2 s2 where s2: "connect_postponed E (rev xs) s1 = Some (ok2, s2)"
          and s': "ok" "s' = new_best h h s2"
          using assms(2, 3) s0 ok0 e0 \<open>hashPrevBlock b \<noteq> b0\<close> p b0 t0 s1 True by (auto simp: SetBestChain_def Let_def)
        have h1: "hashes (mapBlockIndex s1) h = hashes (mapBlockIndex s) h" by (rule same_chain_hashes [OF t1])
        have "same_tip s1 s2 \<and> (\<exists>k \<le> length (rev xs). pnext s2 = links (drop k (hashes (mapBlockIndex s1) h)) \<and> (ok2 \<longrightarrow> k = 0))"
        proof (rule connect_postponed_tip [OF s2])
          have q: "c' = hd c' # tl c'" using p(3) by simp
          show "wf_index (mapBlockIndex s1)" using t1 by (simp add: same_tip_def)
          show "hashes (mapBlockIndex s1) h = rev (map phashBlock (rev xs)) @ phashBlock (hd c') # map phashBlock (tl c')"
            unfolding h1 unfolding hashes_chain p(2) by (subst q) (simp add: rev_map)
          show "pnext s1 = links (phashBlock (hd c') # map phashBlock (tl c'))"
            unfolding list.map(2) [symmetric] q [symmetric] using k1 True e0 ci by (simp add: hashes_chain)
        qed
        then obtain k where k: "same_tip s1 s2" "k \<le> length xs" "pnext s2 = links (drop k (hashes (mapBlockIndex s) h))"
          by (auto simp: h1)
        moreover have "bnChainTrust (chain_at s h ! 1) > bnBestChainTrust s" if "k > 0"
          using better [rule_format, of 0] that k(2) by (cases xs) auto
        ultimately show ?thesis using s' same_tip_trans [OF t1 k(1)] by auto
      qed
    qed
  qed
qed

section \<open>Properties\<close>

text \<open>
  The fork \<open>Reorganize\<close> looks for is found whenever both tips are in a well-formed index with one
  genesis block: both chains are a branch followed by the fork's chain, the two branches are the blocks
  to disconnect and to connect, and no block lies on both.
\<close>

theorem find_fork_correct:
  assumes "coherent g s" and "chain_at s pindexNew \<noteq> []"
  shows "\<exists>ds cs f. find_fork (best_chain s) (chain_at s pindexNew) = Some f \<and> f \<noteq> [] \<and>
    best_chain s = ds @ f \<and> chain_at s pindexNew = cs @ f \<and>
    down_to f (best_chain s) = ds \<and> down_to f (chain_at s pindexNew) = cs \<and>
    phashBlock ` set ds \<inter> phashBlock ` set cs = {}"
proof -
  obtain b where b: "chain_at s b \<noteq> []" "best_chain s = chain_at s b" using coherent_best [OF assms(1)] by metis
  moreover have "last (chain_at s b) = last (chain_at s pindexNew)"
    using coherent_last [OF assms(1) b(1)] coherent_last [OF assms] by simp
  moreover have "wf_index (mapBlockIndex s)" using assms(1) by (simp add: coherent_def)
  ultimately show ?thesis
    using find_fork_chains [of "mapBlockIndex s" b pindexNew] assms(2) unfolding chain_at_of by simp
qed

lemma SetBestChain_keeps_coherent:
  assumes "coherent g s" and "SetBestChain E b pindexNew s = Some (ok, s')"
    and "CBlock_GetHash (env_D E) b = pindexNew" and "prev_hash s pindexNew = Some (hashPrevBlock b)"
    and "bnChainTrust (chain_at s pindexNew ! 1) \<le> bnBestChainTrust s"
  shows "coherent g s' \<and>
    (if ok then pindexBest s' = Some pindexNew \<and> hashBestChain s' = pindexNew \<and>
       pnext s' = links (hashes (mapBlockIndex s) pindexNew)
     else pindexBest s' = pindexBest s \<and> hashBestChain s' = hashBestChain s \<and> nBestHeight s' = nBestHeight s \<and>
       bnBestChainTrust s' = bnBestChainTrust s \<and> pnext s' = pnext s \<and> cs_txdb s' = cs_txdb s \<and>
       mempool s' = mempool s)"
proof (cases ok)
  case True
  then obtain s1 k where "same_tip s s1" "s' = new_best pindexNew pindexNew s1"
    "pnext s1 = links (drop k (hashes (mapBlockIndex s) pindexNew))" "k = 0"
    using SetBestChain_tip [OF assms(1-4)] assms(5) by fastforce
  moreover have "chain_at s pindexNew \<noteq> []" using assms(4) by (auto simp: prev_hash_def split: list.splits)
  ultimately show ?thesis using True new_best_coherent [OF assms(1), of s1 pindexNew] by (simp add: new_best_def)
next
  case False
  then have "same_chain s s'" using SetBestChain_tip [OF assms(1-4)] by simp
  with False same_tip_coherent(1) [OF assms(1)] show ?thesis by (simp add: same_chain_def same_tip_def)
qed

text \<open>
  C23.  \<open>SetBestChain\<close> keeps the tip coherent.  For a new block in the index whose parent does not already
  beat the best chain: if it succeeds, the new block is the best one, and the height, the trust and the
  forward links are those of its chain; if it fails, whatever the stage, the best block, the links, the
  committed database and the memory pool are as before.
\<close>

theorem SetBestChain_coherent:
  assumes "coherent g s" and "SetBestChain E b pindexNew s = Some (ok, s')"
    and "CBlock_GetHash (env_D E) b = pindexNew" and "prev_hash s pindexNew = Some (hashPrevBlock b)"
    and "bnChainTrust (chain_at s pindexNew ! 1) \<le> bnBestChainTrust s"
  shows "coherent g s' \<and>
    (if ok then pindexBest s' = Some pindexNew \<and> hashBestChain s' = pindexNew \<and>
       pnext s' = links (hashes (mapBlockIndex s) pindexNew)
     else pindexBest s' = pindexBest s \<and> hashBestChain s' = hashBestChain s \<and> nBestHeight s' = nBestHeight s \<and>
       bnBestChainTrust s' = bnBestChainTrust s \<and> pnext s' = pnext s \<and> cs_txdb s' = cs_txdb s \<and>
       mempool s' = mempool s)"
  by (rule SetBestChain_keeps_coherent [OF assms])

section \<open>An example\<close>

text \<open>A best chain of two blocks, a third block on top of it, and a fourth whose file cannot be read.\<close>

definition sample_tip :: CBlockIndex where
  "sample_tip = sample_block 2 0 0 5\<lparr>bnChainTrust := 1\<rparr>"

definition sample_beyond :: CBlockIndex where
  "sample_beyond = sample_block 3 1 0 6\<lparr>bi_nBlockPos := 500, bnChainTrust := 2\<rparr>"

definition sample_state :: chain_state where
  "sample_state =
     \<lparr>mapBlockIndex = [10 \<mapsto> (hd (tl sample_chain), []), 11 \<mapsto> (hd sample_chain, tl sample_chain),
        0 \<mapsto> (sample_tip, sample_chain), 1 \<mapsto> (sample_beyond, sample_tip # sample_chain)],
      pnext = [10 \<mapsto> 11], pindexGenesisBlock = Some 10, pindexBest = Some 11, hashBestChain = 11, nBestHeight = 1,
      bnBestChainTrust = 0, bnBestInvalidTrust = 0, pblockindexFBBHLast = None, cs_txdb = sample_db,
      txn_tape = (\<lambda>_. True), txn_pos = 0, mempool = sample_pool, cs_cache = sample_cache\<rparr>"

definition sample_chain_env :: node_env where
  "sample_chain_env = sample_env\<lparr>env_files := \<lparr>file_tx = (\<lambda>_. None),
     file_block = (\<lambda>(f, p). if p = 0 then Some sample_mined else None)\<rparr>\<rparr>"

lemma sample_state_chains:
  "chain_at sample_state 10 = tl sample_chain" "chain_at sample_state 11 = sample_chain"
  "chain_at sample_state 0 = sample_tip # sample_chain"
  "chain_at sample_state 1 = sample_beyond # sample_tip # sample_chain"
  "chain_at sample_state h \<noteq> [] \<Longrightarrow> h \<in> {0, 1, 10, 11}"
  by (auto simp: chain_at_def sample_state_def sample_chain_def split: if_splits)

lemma sample_state_coherent: "coherent 10 sample_state"
proof -
  have "wf_index (mapBlockIndex sample_state)"
    by (auto simp: wf_index_def sample_state_def sample_chain_def sample_block_def sample_tip_def sample_beyond_def
        split: if_splits)
  moreover have "phashBlock (last (chain_at sample_state h)) = 10" if "chain_at sample_state h \<noteq> []" for h
    using sample_state_chains(5) [OF that]
    by (auto simp: sample_state_chains) (simp_all add: sample_chain_def sample_block_def)
  moreover have "pindexGenesisBlock sample_state = Some 10" "pindexBest sample_state = Some 11"
    "hashBestChain sample_state = 11" "nBestHeight sample_state = nHeight (hd sample_chain)"
    "bnBestChainTrust sample_state = bnChainTrust (hd sample_chain)" "sample_chain \<noteq> []"
    "pnext sample_state = links (map phashBlock sample_chain)"
    by (simp_all add: sample_state_def sample_chain_def sample_block_def)
  ultimately show ?thesis by (simp add: coherent_def hashes_chain sample_state_chains)
qed

theorem find_fork_correct_witness:
  "\<exists>ds cs f. find_fork (best_chain sample_state) (chain_at sample_state 1) = Some f \<and>
     best_chain sample_state = ds @ f \<and> chain_at sample_state 1 = cs @ f"
  using find_fork_correct [OF sample_state_coherent, of 1] by (auto simp: sample_state_chains)

lemma sample_tip_connects:
  "\<exists>txdb' i' cache'. same_id sample_tip i' \<and>
     connect_entry sample_chain_env 0 sample_mined sample_db (sample_state\<lparr>txn_pos := n\<rparr>) =
       Some (True, txdb', sample_state\<lparr>txn_pos := n, mapBlockIndex := set_entry i' (mapBlockIndex sample_state), cs_cache := cache'\<rparr>)"
proof -
  let ?s = "sample_state\<lparr>txn_pos := n\<rparr>"
  have e: "mapBlockIndex ?s 0 = Some (sample_tip, sample_chain)" "cs_cache ?s = sample_cache"
    by (simp_all add: sample_state_def)
  obtain i' cache' txdb' where c: "ConnectBlock (chain_env sample_chain_env ?s) sample_db sample_tip sample_chain False sample_mined
      sample_cache = Some (Valid, txdb', i', cache')"
    using sample_block_connects_at [where h = 0 and w = 1]
    unfolding chain_env_def sample_chain_env_def sample_tip_def by blast
  have "connect_entry sample_chain_env 0 sample_mined sample_db ?s =
      Some (True, txdb', ?s\<lparr>mapBlockIndex := set_entry i' (mapBlockIndex ?s), cs_cache := cache'\<rparr>)"
    unfolding connect_entry_def e by (simp add: c)
  with ConnectBlock_same_id [OF c] show ?thesis by auto
qed

lemma sample_state_fields:
  "pindexBest sample_state = Some 11"
  "hashBestChain sample_state = 11" "pindexGenesisBlock sample_state = Some 10" "txn_tape sample_state = (\<lambda>_. True)"
  "cs_txdb sample_state = sample_db" "txn_pos sample_state = 0" "bnBestChainTrust sample_state = 0"
  "hashPrevBlock sample_mined = 11" "CBlock_GetHash (env_D sample_chain_env) sample_mined = 0"
  using sample_block_hash by (simp_all add: sample_state_def sample_mined_def sample_chain_env_def sample_env_def)

lemma sample_state_prev: "prev_hash sample_state 0 = Some 11"
  by (simp add: prev_hash_def sample_state_chains) (simp add: sample_chain_def sample_block_def)

lemma sample_tip_accepted: "\<exists>s'. SetBestChain sample_chain_env sample_mined 0 sample_state = Some (True, s')"
proof -
  obtain txdb' i' cache' where i: "same_id sample_tip i'"
    and c: "connect_entry sample_chain_env 0 sample_mined sample_db (sample_state\<lparr>txn_pos := 1\<rparr>) =
       Some (True, txdb', sample_state\<lparr>txn_pos := 1, mapBlockIndex := set_entry i' (mapBlockIndex sample_state), cs_cache := cache'\<rparr>)"
    using sample_tip_connects by blast
  have "prev_hash (sample_state\<lparr>mapBlockIndex := set_entry i' (mapBlockIndex sample_state), cs_cache := cache', txn_pos := k\<rparr>) 0 = Some 11" for k
    using i by (simp add: prev_hash_def chain_at_def sample_state_def set_entry_def sample_chain_def same_id_def
        sample_tip_def sample_block_def)
  with c show ?thesis
    by (auto simp: SetBestChain_def SetBestChainInner_def db_try_def sample_state_fields Let_def)
qed

theorem SetBestChain_coherent_witness:
  "\<exists>s'. SetBestChain sample_chain_env sample_mined 0 sample_state = Some (True, s') \<and> coherent 10 s' \<and> pindexBest s' = Some 0"
proof -
  obtain s' where s': "SetBestChain sample_chain_env sample_mined 0 sample_state = Some (True, s')"
    using sample_tip_accepted by blast
  have "bnChainTrust (chain_at sample_state 0 ! 1) \<le> bnBestChainTrust sample_state"
    by (simp add: sample_state_chains sample_state_fields) (simp add: sample_chain_def sample_block_def)
  with SetBestChain_coherent [OF sample_state_coherent s'] s' sample_state_prev sample_state_fields
  show ?thesis by auto
qed

lemma sample_files_read:
  "Index_ReadFromDisk sample_chain_env sample_tip = Some sample_mined"
  "Index_ReadFromDisk sample_chain_env sample_beyond = None"
  using sample_block_hash sample_proof_of_work
  by (simp_all add: Index_ReadFromDisk_def Block_ReadFromDisk_def sample_chain_env_def sample_env_def sample_tip_def
      sample_beyond_def sample_block_def sample_mined_parts)

lemma sample_state_pos:
  "best_chain (sample_state\<lparr>txn_pos := n\<rparr>) = sample_chain"
  "chain_at (sample_state\<lparr>txn_pos := n\<rparr>) = chain_at sample_state"
proof -
  show "chain_at (sample_state\<lparr>txn_pos := n\<rparr>) = chain_at sample_state" for n
    by (simp add: fun_eq_iff chain_at_def)
  then show "best_chain (sample_state\<lparr>txn_pos := n\<rparr>) = sample_chain"
    using sample_state_chains(2) by (simp add: best_chain_def sample_state_fields)
qed

lemma sample_reorganized: "\<exists>s1. Reorganize sample_chain_env 0 sample_db (sample_state\<lparr>txn_pos := 1\<rparr>) = Some (True, s1)"
proof -
  have fork: "find_fork sample_chain (sample_tip # sample_chain) = Some sample_chain" "phashBlock sample_tip = 0"
    "down_to sample_chain sample_chain = []" "down_to sample_chain (sample_tip # sample_chain) = [sample_tip]"
    by (simp_all add: down_to_def sample_chain_def sample_tip_def sample_block_def)
  obtain txdb' i' cache' where
    c: "connect_entry sample_chain_env 0 sample_mined sample_db (sample_state\<lparr>txn_pos := Suc 0\<rparr>) =
       Some (True, txdb', sample_state\<lparr>txn_pos := Suc 0, mapBlockIndex := set_entry i' (mapBlockIndex sample_state), cs_cache := cache'\<rparr>)"
    using sample_tip_connects by blast
  show ?thesis
    by (simp add: Reorganize_def sample_state_pos sample_state_chains fork sample_files_read c db_try_def
        sample_state_fields Let_def)
qed


end
