(* ===== verification/Checkpoints.thy ===== *)
theory Checkpoints
  imports Chain_Facts
begin

text \<open>
  Checkpoints (\<open>src/src/checkpoints.cpp\<close>, \<open>checkpoints.h\<close>): the compiled-in ones and the synchronised one,
  broadcast with a signature.  The state of a node adds to the chain the checkpoint variables and what
  \<open>main.cpp\<close> keeps about orphan blocks and stakes; a block held through a pointer is the block itself.
  Main network; relaying to peers is left out.  \<open>None\<close> is a failed assertion or a thrown exception.
\<close>

section \<open>Messages\<close>

record CSyncCheckpoint =
  sc_nVersion :: int
  hashCheckpoint :: uint256
  vchMsg :: valtype
  vchSig :: valtype

definition CSyncCheckpoint_SetNull :: CSyncCheckpoint where
  "CSyncCheckpoint_SetNull = \<lparr>sc_nVersion = 1, hashCheckpoint = 0, vchMsg = [], vchSig = []\<rparr>"

definition CSyncCheckpoint_IsNull :: "CSyncCheckpoint \<Rightarrow> bool" where
  "CSyncCheckpoint_IsNull c \<longleftrightarrow> hashCheckpoint c = 0"

text \<open>\<open>CUnsignedSyncCheckpoint\<close> is the signed part, \<open>CSyncCheckpoint\<close> travels as the message and its signature.\<close>

definition ser_unsigned :: "CSyncCheckpoint \<Rightarrow> byte list" where
  "ser_unsigned c = ser_i32 (sc_nVersion c) @ ser_u256 (hashCheckpoint c)"

definition unser_unsigned :: "CSyncCheckpoint \<Rightarrow> byte list \<Rightarrow> CSyncCheckpoint option" where
  "unser_unsigned c bs =
     (case unser_i32 bs of
        None \<Rightarrow> None
      | Some (v, r) \<Rightarrow>
          (case unser_u256 r of None \<Rightarrow> None | Some (h, _) \<Rightarrow> Some (c\<lparr>sc_nVersion := v, hashCheckpoint := h\<rparr>)))"

definition ser_CSyncCheckpoint :: "CSyncCheckpoint \<Rightarrow> byte list" where
  "ser_CSyncCheckpoint c = ser_bytes (vchMsg c) @ ser_bytes (vchSig c)"

definition strMasterPubKey :: valtype where
  "strMasterPubKey =
     [0x04, 0xf4, 0x21, 0x59, 0xdf, 0x86, 0x31, 0x06, 0x62, 0x9b, 0xd3, 0xe3, 0xbc, 0x65, 0x07, 0xd1, 0x0c,
      0xf6, 0x13, 0x75, 0xe8, 0x89, 0x2e, 0xa4, 0xdc, 0xc2, 0x73, 0xae, 0xf6, 0x5e, 0x39, 0xc6, 0x02, 0x20,
      0x44, 0x47, 0xdc, 0x02, 0xa9, 0x35, 0xad, 0x06, 0x6d, 0x0a, 0x85, 0x76, 0xd1, 0xbc, 0x62, 0x48, 0x90,
      0xd9, 0xfb, 0x50, 0x80, 0x1b, 0xd4, 0xb6, 0x0a, 0xa7, 0x89, 0x2c, 0x6b, 0x16, 0xb7]"

text \<open>The message with its fields read from the signed bytes; the flag is the verdict.\<close>

definition Sync_CheckSignature :: "openssl \<Rightarrow> CSyncCheckpoint \<Rightarrow> (bool \<times> CSyncCheckpoint) option" where
  "Sync_CheckSignature L c =
     (case SetPubKey L CKey_new strMasterPubKey of
        (ok, key) \<Rightarrow>
          if \<not> ok then Some (False, c)
          else if \<not> CKey_Verify L key (Hash L (vchMsg c)) (vchSig c) then Some (False, c)
          else map_option (\<lambda>c'. (True, c')) (unser_unsigned c (vchMsg c)))"

section \<open>The state of a node\<close>

record node_state =
  ns_chain :: chain_state
  hashSyncCheckpoint :: uint256
  hashPendingCheckpoint :: uint256
  checkpointMessage :: CSyncCheckpoint
  checkpointMessagePending :: CSyncCheckpoint
  hashInvalidCheckpoint :: uint256
  mapOrphanBlocks :: "uint256 \<rightharpoonup> CBlock"
  mapOrphanBlocksByPrev :: "(uint256 \<times> CBlock) list"
  setStakeSeen :: "(COutPoint \<times> u32) set"
  setStakeSeenOrphan :: "(COutPoint \<times> u32) set"
  mapProofOfStake :: "uint256 \<rightharpoonup> uint256"

abbreviation block_at :: "node_state \<Rightarrow> uint256 \<Rightarrow> CBlockIndex list" where
  "block_at s \<equiv> chain_at (ns_chain s)"

abbreviation has_block :: "node_state \<Rightarrow> uint256 \<Rightarrow> bool" where
  "has_block s h \<equiv> mapBlockIndex (ns_chain s) h \<noteq> None"

section \<open>Compiled-in checkpoints\<close>

definition mapCheckpoints :: "(int \<times> uint256) list" where
  "mapCheckpoints =
     [(0, hashGenesisBlockOfficial),
      (1001, 0x0000000000d32caf989751749fbdbf5acd6db8eeb50b30c7f9ebc712a467a688),
      (10011, 0xfe03bc65a1cb456f2160794d03857683027129556640fe97558b5cf88d9d8490),
      (100001, 0x617ca93a457f15e9c76a669e864f5eaa314c89cad8a4cc3b92e133b6b4c0b745),
      (150001, 0x936a6c5ffe987dfb3d6ada997063e799f6aad0c52a0ed01d2907a40644347d63),
      (184001, 0xe8738405a01d2924a0f70b249ecdceaec22d8c12416084d3f5c0a57f8358ed8b),
      (250001, 0xefb5e113931d6ce197fe05af3b552983c349af562c0c5cb18106b2c0cf885119),
      (370001, 0x9e68c44b4d3f99b4b5a7d8367ae9fd2500bc79a7814970f5b16c6def99ce2ab1),
      (448650, 0x000000000005edf95d598f925586364013fc143ee31044fc7cc598b321b499e5),
      (500001, 0x49b3e63d4f092c6bab8dc938fe3ba6b0316d866dc3e6f3331c0ff29640f8ed54),
      (550001, 0x65cba891ff6ffd4b6ac3955b1ee722f321dc77567fdd190f6a415998e7f2cf04),
      (600001, 0xacd60c624540af2e1b03c98b021cbd7ec1802b3fffe25a349130a7b95fb09ed6)]"

definition CheckHardened :: "int \<Rightarrow> uint256 \<Rightarrow> bool" where
  "CheckHardened h hash = (case map_of mapCheckpoints h of None \<Rightarrow> True | Some c \<Rightarrow> hash = c)"

definition GetTotalBlocksEstimate :: int where
  "GetTotalBlocksEstimate = fst (last mapCheckpoints)"

definition GetLastCheckpoint :: "block_index \<Rightarrow> CBlockIndex list option" where
  "GetLastCheckpoint m =
     map_option (\<lambda>(_, hash). case m hash of None \<Rightarrow> [] | Some (i, ancestors) \<Rightarrow> i # ancestors)
       (find (\<lambda>(_, hash). m hash \<noteq> None) (rev mapCheckpoints))"

section \<open>The synchronised checkpoint\<close>

definition GetLastSyncCheckpoint :: "node_state \<Rightarrow> CBlockIndex list" where
  "GetLastSyncCheckpoint s = block_at s (hashSyncCheckpoint s)"

text \<open>
  Only a descendant of the current checkpoint is allowed.  The walks back to a height are \<open>descend\<close>;
  the flag is the verdict, and a conflict is remembered in \<open>hashInvalidCheckpoint\<close>.
\<close>

definition ValidateSyncCheckpoint :: "uint256 \<Rightarrow> node_state \<Rightarrow> bool \<times> node_state" where
  "ValidateSyncCheckpoint h s =
     (case (block_at s (hashSyncCheckpoint s), block_at s h) of
        (sync # cs, recv # cr) \<Rightarrow>
          if nHeight recv \<le> nHeight sync then
            (case descend (nHeight recv) (sync # cs) of
               Some (i # _) \<Rightarrow>
                 if phashBlock i \<noteq> h then (False, s\<lparr>hashInvalidCheckpoint := h\<rparr>) else (False, s)
             | _ \<Rightarrow> (False, s))
          else
            (case descend (nHeight sync) (recv # cr) of
               Some (i # _) \<Rightarrow>
                 if phashBlock i \<noteq> hashSyncCheckpoint s then (False, s\<lparr>hashInvalidCheckpoint := h\<rparr>) else (True, s)
             | _ \<Rightarrow> (False, s))
      | _ \<Rightarrow> (False, s))"

text \<open>The database transaction: what \<open>TxnBegin\<close> returns is not looked at.\<close>

definition WriteSyncCheckpoint :: "uint256 \<Rightarrow> node_state \<Rightarrow> bool \<times> node_state" where
  "WriteSyncCheckpoint h s =
     (case db_try (snd (db_try (ns_chain s))) of
        (False, c) \<Rightarrow> (False, s\<lparr>ns_chain := c\<rparr>)
      | (True, c) \<Rightarrow>
          (case db_try c of
             (False, c') \<Rightarrow> (False, s\<lparr>ns_chain := c'\<rparr>)
           | (True, c') \<Rightarrow> (True, s\<lparr>ns_chain := c', hashSyncCheckpoint := h\<rparr>)))"

text \<open>The block of an accepted checkpoint is made the best one when it is not in the main chain yet.\<close>

definition checkpoint_to_main :: "node_env \<Rightarrow> uint256 \<Rightarrow> node_state \<Rightarrow> (bool \<times> node_state) option" where
  "checkpoint_to_main E h s =
     (if IsInMainChain (ns_chain s) h then Some (True, s)
      else
        (case Index_ReadFromDisk E (hd (block_at s h)) of
           None \<Rightarrow> Some (False, s)
         | Some b \<Rightarrow>
             (case SetBestChain E b h (ns_chain s) of
                None \<Rightarrow> None
              | Some (ok, c) \<Rightarrow>
                  Some (ok, if ok then s\<lparr>ns_chain := c\<rparr> else s\<lparr>ns_chain := c, hashInvalidCheckpoint := h\<rparr>))))"

definition AcceptPendingSyncCheckpoint :: "node_env \<Rightarrow> node_state \<Rightarrow> (bool \<times> node_state) option" where
  "AcceptPendingSyncCheckpoint E s =
     (let h = hashPendingCheckpoint s
      in if h \<noteq> 0 \<and> has_block s h then
           (case ValidateSyncCheckpoint h s of
              (False, s1) \<Rightarrow>
                Some (False, s1\<lparr>hashPendingCheckpoint := 0, checkpointMessagePending := CSyncCheckpoint_SetNull\<rparr>)
            | (True, s1) \<Rightarrow>
                (case checkpoint_to_main E h s1 of
                   None \<Rightarrow> None
                 | Some (False, s2) \<Rightarrow> Some (False, s2)
                 | Some (True, s2) \<Rightarrow>
                     (case WriteSyncCheckpoint h s2 of
                        (False, s3) \<Rightarrow> Some (False, s3)
                      | (True, s3) \<Rightarrow>
                          Some (True, s3\<lparr>hashPendingCheckpoint := 0, checkpointMessage := checkpointMessagePending s3,
                                        checkpointMessagePending := CSyncCheckpoint_SetNull\<rparr>))))
         else Some (False, s))"

definition ProcessSyncCheckpoint :: "node_env \<Rightarrow> CSyncCheckpoint \<Rightarrow> node_state \<Rightarrow> (bool \<times> node_state) option" where
  "ProcessSyncCheckpoint E msg s =
     (case Sync_CheckSignature (env_L E) msg of
        None \<Rightarrow> None
      | Some (False, _) \<Rightarrow> Some (False, s)
      | Some (True, c) \<Rightarrow>
          (let h = hashCheckpoint c
           in if \<not> has_block s h then
                Some (False, s\<lparr>hashPendingCheckpoint := h, checkpointMessagePending := c\<rparr>)
              else
                (case ValidateSyncCheckpoint h s of
                   (False, s1) \<Rightarrow> Some (False, s1)
                 | (True, s1) \<Rightarrow>
                     (case checkpoint_to_main E h s1 of
                        None \<Rightarrow> None
                      | Some (False, s2) \<Rightarrow> Some (False, s2)
                      | Some (True, s2) \<Rightarrow>
                          (case WriteSyncCheckpoint h s2 of
                             (False, s3) \<Rightarrow> Some (False, s3)
                           | (True, s3) \<Rightarrow>
                               Some (True, s3\<lparr>checkpointMessage := c, hashPendingCheckpoint := 0,
                                             checkpointMessagePending := CSyncCheckpoint_SetNull\<rparr>))))))"

text \<open>The walk forward along the links, which might not end.\<close>

partial_function (option) auto_walk :: "chain_state \<Rightarrow> CBlockIndex \<Rightarrow> uint256 \<Rightarrow> uint256 option" where
  "auto_walk s best h =
     (case (chain_at s h, pnext s h) of
        (i # _, Some n) \<Rightarrow>
          if GetBlockTime i + 60 * 60 * 4 \<le> GetBlockTime best \<or>
             nHeight i + min 6 (nCoinbaseMaturity - 20) \<le> nHeight best
          then auto_walk s best n else Some h
      | (_ # _, None) \<Rightarrow> Some h
      | _ \<Rightarrow> None)"

definition AutoSelectSyncCheckpoint :: "chain_state \<Rightarrow> uint256 option" where
  "AutoSelectSyncCheckpoint s =
     (case best_chain s of
        [] \<Rightarrow> None
      | best # ancestors \<Rightarrow> auto_walk s best (phashBlock (hd (GetLastBlockIndex (best # ancestors) False))))"

definition CheckSync :: "uint256 \<Rightarrow> CBlockIndex list \<Rightarrow> node_state \<Rightarrow> bool option" where
  "CheckSync hashBlock pindexPrev s =
     (case (block_at s (hashSyncCheckpoint s), pindexPrev) of
        (sync # _, p # _) \<Rightarrow>
          (let h = nHeight p + 1
           in if h > nHeight sync \<and>
                 (case descend (nHeight sync) pindexPrev of
                    Some (i # _) \<Rightarrow> nHeight i < nHeight sync \<or> phashBlock i \<noteq> hashSyncCheckpoint s
                  | _ \<Rightarrow> True)
              then Some False
              else if h = nHeight sync \<and> hashBlock \<noteq> hashSyncCheckpoint s then Some False
              else if h < nHeight sync \<and> \<not> has_block s hashBlock then Some False
              else Some True)
      | _ \<Rightarrow> None)"

section \<open>Orphan blocks\<close>

text \<open>Back to the first block of the orphan chain; hashes that form a cycle would never end.\<close>

partial_function (option) orphan_first :: "(uint256 \<rightharpoonup> CBlock) \<Rightarrow> CBlock \<Rightarrow> CBlock option" where
  "orphan_first orphs b =
     (case orphs (hashPrevBlock b) of None \<Rightarrow> Some b | Some p \<Rightarrow> orphan_first orphs p)"

definition GetOrphanRoot :: "sphlib \<Rightarrow> node_state \<Rightarrow> CBlock \<Rightarrow> uint256 option" where
  "GetOrphanRoot D s b = map_option (CBlock_GetHash D) (orphan_first (mapOrphanBlocks s) b)"

definition WantedByOrphan :: "node_state \<Rightarrow> CBlock \<Rightarrow> uint256 option" where
  "WantedByOrphan s b = map_option hashPrevBlock (orphan_first (mapOrphanBlocks s) b)"

definition WantedByPendingSyncCheckpoint :: "uint256 \<Rightarrow> node_state \<Rightarrow> bool option" where
  "WantedByPendingSyncCheckpoint hashBlock s =
     (if hashPendingCheckpoint s = 0 then Some False
      else if hashBlock = hashPendingCheckpoint s then Some True
      else
        (case mapOrphanBlocks s (hashPendingCheckpoint s) of
           None \<Rightarrow> Some False
         | Some b \<Rightarrow> map_option (\<lambda>w. hashBlock = w) (WantedByOrphan s b)))"

section \<open>Resetting and ageing\<close>

definition reset_to_main :: "(int \<times> uint256) list \<Rightarrow> node_state \<Rightarrow> bool \<times> node_state" where
  "reset_to_main cps s =
     (case find (\<lambda>(_, hash). has_block s hash \<and> IsInMainChain (ns_chain s) hash) cps of
        None \<Rightarrow> (False, s)
      | Some (_, hash) \<Rightarrow> WriteSyncCheckpoint hash s)"

definition ResetSyncCheckpoint :: "node_env \<Rightarrow> node_state \<Rightarrow> (bool \<times> node_state) option" where
  "ResetSyncCheckpoint E s =
     (let hash = snd (last mapCheckpoints)
      in if has_block s hash \<and> \<not> IsInMainChain (ns_chain s) hash then
           (case Index_ReadFromDisk E (hd (block_at s hash)) of
              None \<Rightarrow> Some (False, s)
            | Some b \<Rightarrow>
                (case SetBestChain E b hash (ns_chain s) of
                   None \<Rightarrow> None
                 | Some (False, c) \<Rightarrow> Some (False, s\<lparr>ns_chain := c\<rparr>)
                 | Some (True, c) \<Rightarrow> Some (reset_to_main (rev mapCheckpoints) (s\<lparr>ns_chain := c\<rparr>))))
         else if \<not> has_block s hash then
           Some (reset_to_main (rev mapCheckpoints)
             (s\<lparr>hashPendingCheckpoint := hash, checkpointMessagePending := CSyncCheckpoint_SetNull\<rparr>))
         else Some (reset_to_main (rev mapCheckpoints) s))"

definition IsMatureSyncCheckpoint :: "node_state \<Rightarrow> int \<Rightarrow> bool option" where
  "IsMatureSyncCheckpoint s nAdjustedTime =
     (case block_at s (hashSyncCheckpoint s) of
        [] \<Rightarrow> None
      | sync # _ \<Rightarrow>
          Some (nBestHeight (ns_chain s) \<ge> nHeight sync + nCoinbaseMaturity \<or>
                GetBlockTime sync + nStakeMinAge < nAdjustedTime))"

definition IsSyncCheckpointTooOld :: "node_state \<Rightarrow> u32 \<Rightarrow> int \<Rightarrow> bool option" where
  "IsSyncCheckpointTooOld s nSeconds nAdjustedTime =
     (case block_at s (hashSyncCheckpoint s) of
        [] \<Rightarrow> None
      | sync # _ \<Rightarrow> Some (GetBlockTime sync + uint nSeconds < nAdjustedTime))"

section \<open>Walking back\<close>

text \<open>The walk back to the height of another block meets that block exactly if it is an ancestor.\<close>

lemma walk_back:
  assumes "wf_index m" and "chain_of m h = p # ps" and "chain_of m a = q # qs" and "nHeight q \<le> nHeight p"
  shows "\<exists>i r. descend (nHeight q) (p # ps) = Some (i # r) \<and> (phashBlock i = a \<longleftrightarrow> a \<in> set (hashes m h)) \<and>
    nHeight i = nHeight q"
proof -
  let ?c = "p # ps" and ?n = "length qs"
  have n: "nHeight q = int ?n" "nHeight p = int (length ps)"
    using wf_indexD(2) [OF assms(1)] assms(2, 3) by (simp_all add: chain_of_Cons)
  let ?k = "length ps - ?n"
  have ok: "heights_ok ?c" using wf_index_heights [OF assms(1), of h] by (simp add: assms(2))
  have d: "descend (nHeight q) ?c = Some (drop ?k ?c)" using descend_eq [OF ok, of ?n] by (simp add: n)
  have k: "?k < length ?c" by simp
  then have i: "drop ?k ?c = ?c ! ?k # drop (Suc ?k) ?c" by (rule Cons_nth_drop_Suc [symmetric])
  have "nHeight (?c ! ?k) = nHeight q" using ok k assms(4) n by (simp add: heights_ok_def)
  moreover have "phashBlock (?c ! ?k) = a \<longleftrightarrow> a \<in> set (hashes m h)"
  proof
    assume "phashBlock (?c ! ?k) = a"
    then show "a \<in> set (hashes m h)" using nth_mem [OF k] by (auto simp: hashes_def assms(2))
  next
    assume "a \<in> set (hashes m h)"
    then have "a \<in> phashBlock ` set ?c" by (simp add: hashes_def assms(2))
    then obtain j where j: "j < length ?c" "phashBlock (?c ! j) = a" unfolding image_iff by (metis in_set_conv_nth)
    then have "drop j ?c = q # qs" using chain_of_drop [OF assms(1), of j h] assms(2, 3) by simp
    from arg_cong [OF this, of length] j(1) have "j = ?k" by auto
    with j(2) show "phashBlock (?c ! ?k) = a" by simp
  qed
  ultimately show ?thesis using d i by metis
qed

lemma ancestor_height:
  assumes "wf_index m" and "a \<in> set (tl (hashes m h))"
  shows "nHeight (hd (chain_of m a)) < nHeight (hd (chain_of m h))"
proof -
  obtain p ps where p: "chain_of m h = p # ps" using assms(2) by (cases "chain_of m h") (auto simp: hashes_def)
  then obtain j where j: "j < length ps" "phashBlock (ps ! j) = a"
    using assms(2) by (auto simp: hashes_def in_set_conv_nth)
  then have "chain_of m a = drop j ps" using chain_of_drop [OF assms(1), of "Suc j" h] p by simp
  then have "hd (chain_of m a) = (p # ps) ! Suc j" using j by (simp add: hd_drop_conv_nth)
  moreover have "nHeight ((p # ps) ! k) = int (length ps - k)" if "k < length (p # ps)" for k
    using wf_index_heights [OF assms(1), of h] that by (simp add: heights_ok_def p)
  from this [of 0] this [of "Suc j"] have "nHeight ((p # ps) ! Suc j) < nHeight p" using j(1) by simp
  ultimately show ?thesis by (simp add: p)
qed

lemma hashes_Cons: "wf_index m \<Longrightarrow> chain_of m h = p # ps \<Longrightarrow> hashes m h = h # tl (hashes m h)"
  using wf_indexD(1) [of m h p ps] by (simp add: hashes_def chain_of_Cons [THEN iffD1])

section \<open>Properties\<close>

lemma ValidateSyncCheckpoint_value:
  assumes "wf_index (mapBlockIndex (ns_chain s))" and "has_block s (hashSyncCheckpoint s)" and "has_block s h"
  shows "ValidateSyncCheckpoint h s =
    (hashSyncCheckpoint s \<in> set (tl (hashes (mapBlockIndex (ns_chain s)) h)),
     if hashSyncCheckpoint s \<in> set (hashes (mapBlockIndex (ns_chain s)) h) \<or>
        h \<in> set (hashes (mapBlockIndex (ns_chain s)) (hashSyncCheckpoint s))
     then s else s\<lparr>hashInvalidCheckpoint := h\<rparr>)"
proof -
  let ?m = "mapBlockIndex (ns_chain s)" and ?a = "hashSyncCheckpoint s"
  obtain q qs where q: "chain_of ?m ?a = q # qs" using assms(2) by (auto simp: chain_of_def)
  obtain p ps where p: "chain_of ?m h = p # ps" using assms(3) by (auto simp: chain_of_def)
  have hs: "hashes ?m h = h # tl (hashes ?m h)" "hashes ?m ?a = ?a # tl (hashes ?m ?a)"
    using hashes_Cons [OF assms(1)] p q by blast+
  show ?thesis
  proof (cases "nHeight p \<le> nHeight q")
    case True
    from walk_back [OF assms(1) q p True] obtain i r where
      "descend (nHeight p) (q # qs) = Some (i # r)" "phashBlock i = h \<longleftrightarrow> h \<in> set (hashes ?m ?a)" by blast
    moreover have "?a \<notin> set (tl (hashes ?m h))" using ancestor_height [OF assms(1), of ?a h] p q True by auto
    moreover have "?a \<in> set (hashes ?m h) \<Longrightarrow> h \<in> set (hashes ?m ?a)" using hs calculation(3) by (metis list.set_intros(1) set_ConsD)
    ultimately show ?thesis using True p q by (auto simp: ValidateSyncCheckpoint_def chain_at_of)
  next
    case False
    from walk_back [OF assms(1) p q] False obtain i r where
      "descend (nHeight q) (p # ps) = Some (i # r)" "phashBlock i = ?a \<longleftrightarrow> ?a \<in> set (hashes ?m h)" by auto
    moreover have "?a \<noteq> h" using p q False by auto
    then have "?a \<in> set (hashes ?m h) \<longleftrightarrow> ?a \<in> set (tl (hashes ?m h))" using hs by (metis list.set_intros(2) set_ConsD)
    moreover have "h \<notin> set (tl (hashes ?m ?a))" using ancestor_height [OF assms(1), of h ?a] p q False by auto
    then have "h \<notin> set (hashes ?m ?a)" using hs \<open>?a \<noteq> h\<close> by (metis set_ConsD)
    ultimately show ?thesis using False p q by (auto simp: ValidateSyncCheckpoint_def chain_at_of)
  qed
qed

text \<open>
  \<open>ValidateSyncCheckpoint\<close> in a well-formed index: a received checkpoint whose block is known is valid
  exactly if the current one is a proper ancestor of it, and it is remembered as invalid exactly if
  neither lies on the chain of the other.
\<close>

theorem ValidateSyncCheckpoint_iff:
  assumes "wf_index (mapBlockIndex (ns_chain s))" and "has_block s (hashSyncCheckpoint s)" and "has_block s h"
  shows "ValidateSyncCheckpoint h s =
    (hashSyncCheckpoint s \<in> set (tl (hashes (mapBlockIndex (ns_chain s)) h)),
     if hashSyncCheckpoint s \<in> set (hashes (mapBlockIndex (ns_chain s)) h) \<or>
        h \<in> set (hashes (mapBlockIndex (ns_chain s)) (hashSyncCheckpoint s))
     then s else s\<lparr>hashInvalidCheckpoint := h\<rparr>)"
  by (rule ValidateSyncCheckpoint_value [OF assms])

text \<open>
  \<open>CheckSync\<close> in a well-formed index: above the height of the synchronised checkpoint a block passes
  exactly if the checkpoint is on the chain it extends, at that height only the checkpoint itself, and
  below it only a block already known.
\<close>

theorem CheckSync_iff:
  assumes "wf_index (mapBlockIndex (ns_chain s))" and "has_block s (hashSyncCheckpoint s)" and "has_block s prev"
  shows "CheckSync hashBlock (block_at s prev) s = Some
    (let h = nHeight (hd (block_at s prev)) + 1; hSync = nHeight (hd (block_at s (hashSyncCheckpoint s)))
     in if h > hSync then hashSyncCheckpoint s \<in> set (hashes (mapBlockIndex (ns_chain s)) prev)
        else if h = hSync then hashBlock = hashSyncCheckpoint s else has_block s hashBlock)"
proof -
  let ?m = "mapBlockIndex (ns_chain s)" and ?a = "hashSyncCheckpoint s"
  obtain q qs where q: "chain_of ?m ?a = q # qs" using assms(2) by (auto simp: chain_of_def)
  obtain p ps where p: "chain_of ?m prev = p # ps" using assms(3) by (auto simp: chain_of_def)
  show ?thesis
  proof (cases "nHeight p + 1 > nHeight q")
    case True
    with walk_back [OF assms(1) p q] obtain i r where
      "descend (nHeight q) (p # ps) = Some (i # r)" "phashBlock i = ?a \<longleftrightarrow> ?a \<in> set (hashes ?m prev)" "nHeight i = nHeight q"
      by auto
    with True p q show ?thesis by (simp add: CheckSync_def chain_at_of Let_def)
  next
    case False
    with p q show ?thesis by (simp add: CheckSync_def chain_at_of Let_def)
  qed
qed

text \<open>Writing the checkpoint and bringing its block into the main chain.\<close>

lemma WriteSyncCheckpoint_facts:
  assumes "WriteSyncCheckpoint h s = (ok, s')"
  shows "\<exists>n. s' = s\<lparr>ns_chain := ns_chain s\<lparr>txn_pos := n\<rparr>, hashSyncCheckpoint := (if ok then h else hashSyncCheckpoint s)\<rparr>"
  using assms by (cases s) (auto simp: WriteSyncCheckpoint_def db_try_def split: if_splits prod.splits bool.splits)

definition files_match :: "node_env \<Rightarrow> node_state \<Rightarrow> bool" where
  "files_match E s \<longleftrightarrow>
     (\<forall>h b. has_block s h \<longrightarrow> \<not> IsInMainChain (ns_chain s) h \<longrightarrow> Index_ReadFromDisk E (hd (block_at s h)) = Some b \<longrightarrow>
        prev_hash (ns_chain s) h = Some (hashPrevBlock b))"

lemma Index_ReadFromDisk_hash: "Index_ReadFromDisk E i = Some b \<Longrightarrow> CBlock_GetHash (env_D E) b = phashBlock i"
  by (auto simp: Index_ReadFromDisk_def split: option.splits if_splits)

lemma checkpoint_to_main_facts:
  assumes "coherent g (ns_chain s)" and "has_block s h" and "files_match E s" and "checkpoint_to_main E h s = Some (ok, s')"
  shows "hashSyncCheckpoint s' = hashSyncCheckpoint s \<and>
    (\<forall>k. hashes (mapBlockIndex (ns_chain s')) k = hashes (mapBlockIndex (ns_chain s)) k) \<and>
    (ok \<longrightarrow> IsInMainChain (ns_chain s') h)"
proof (cases "IsInMainChain (ns_chain s) h")
  case True
  with assms(4) show ?thesis by (auto simp: checkpoint_to_main_def)
next
  case main: False
  show ?thesis
  proof (cases "Index_ReadFromDisk E (hd (block_at s h))")
    case None
    with main assms(4) show ?thesis by (auto simp: checkpoint_to_main_def)
  next
    case (Some b)
    then obtain c where c: "SetBestChain E b h (ns_chain s) = Some (ok, c)"
      and s': "s' = (if ok then s\<lparr>ns_chain := c\<rparr> else s\<lparr>ns_chain := c, hashInvalidCheckpoint := h\<rparr>)"
      using assms(4) main by (auto simp: checkpoint_to_main_def split: option.splits)
    have "wf_index (mapBlockIndex (ns_chain s))" using assms(1) by (simp add: coherent_def)
    moreover obtain i r where i: "mapBlockIndex (ns_chain s) h = Some (i, r)" using assms(2) by auto
    ultimately have "CBlock_GetHash (env_D E) b = h"
      using Index_ReadFromDisk_hash [OF Some] wf_indexD(1) by (auto simp: chain_at_def)
    moreover have "prev_hash (ns_chain s) h = Some (hashPrevBlock b)" using assms(2, 3) main Some by (simp add: files_match_def)
    ultimately have "if ok then \<exists>s1. same_tip (ns_chain s) s1 \<and> c = new_best h h s1 else same_chain (ns_chain s) c"
      using SetBestChain_tip [OF assms(1) c] by (auto split: if_splits)
    then have "same_index (mapBlockIndex (ns_chain s)) (mapBlockIndex c)" "ok \<longrightarrow> pindexBest c = Some h"
      by (auto simp: new_best_def same_tip_def same_chain_def split: if_splits)
    with s' show ?thesis by (auto simp: IsInMainChain_def same_index_hashes)
  qed
qed

lemma ValidateSyncCheckpoint_keeps:
  "ValidateSyncCheckpoint h s = (ok, s') \<Longrightarrow> \<exists>x. s' = s\<lparr>hashInvalidCheckpoint := x\<rparr>"
  unfolding ValidateSyncCheckpoint_def
  by (auto split: list.splits option.splits if_splits intro: exI [of _ "hashInvalidCheckpoint s"])

text \<open>
  C27.  The synchronised checkpoint only moves forward.  When \<open>ProcessSyncCheckpoint\<close> reports success on a
  coherent chain, the message is signed with the master key, the checkpoint is the block it names, the
  previous checkpoint is a proper ancestor of it, and it is in the main chain; otherwise the checkpoint
  stays.  The block files are assumed to hold the blocks the index entries were made from.
\<close>

theorem ProcessSyncCheckpoint_advances:
  assumes "coherent g (ns_chain s)" and "has_block s (hashSyncCheckpoint s)" and "files_match E s"
    and "ProcessSyncCheckpoint E msg s = Some (ok, s')"
  shows "if ok then
      (\<exists>c. Sync_CheckSignature (env_L E) msg = Some (True, c) \<and> hashSyncCheckpoint s' = hashCheckpoint c) \<and>
      hashSyncCheckpoint s \<in> set (tl (hashes (mapBlockIndex (ns_chain s')) (hashSyncCheckpoint s'))) \<and>
      IsInMainChain (ns_chain s') (hashSyncCheckpoint s') \<and> hashPendingCheckpoint s' = 0
    else hashSyncCheckpoint s' = hashSyncCheckpoint s"
proof -
  obtain sig c where c: "Sync_CheckSignature (env_L E) msg = Some (sig, c)"
    using assms(4) by (auto simp: ProcessSyncCheckpoint_def split: option.splits)
  let ?h = "hashCheckpoint c"
  show ?thesis
  proof (cases "sig \<and> has_block s ?h")
    case False
    with assms(4) c show ?thesis by (auto simp: ProcessSyncCheckpoint_def Let_def split: bool.splits)
  next
    case sig: True
    obtain v s1 where v: "ValidateSyncCheckpoint ?h s = (v, s1)" by (cases "ValidateSyncCheckpoint ?h s")
    then obtain x where s1: "s1 = s\<lparr>hashInvalidCheckpoint := x\<rparr>" using ValidateSyncCheckpoint_keeps by blast
    show ?thesis
    proof (cases v)
      case False
      with assms(4) c sig v s1 show ?thesis by (auto simp: ProcessSyncCheckpoint_def Let_def)
    next
      case True
      have wf: "wf_index (mapBlockIndex (ns_chain s))" using assms(1) by (simp add: coherent_def)
      have anc: "hashSyncCheckpoint s \<in> set (tl (hashes (mapBlockIndex (ns_chain s)) ?h))"
        using ValidateSyncCheckpoint_value [OF wf assms(2)] sig v True by auto
      obtain m s2 where m: "checkpoint_to_main E ?h s1 = Some (m, s2)"
        using assms(4) c sig v True by (auto simp: ProcessSyncCheckpoint_def Let_def split: option.splits)
      have k: "hashSyncCheckpoint s2 = hashSyncCheckpoint s \<and>
          (\<forall>k. hashes (mapBlockIndex (ns_chain s2)) k = hashes (mapBlockIndex (ns_chain s)) k) \<and>
          (m \<longrightarrow> IsInMainChain (ns_chain s2) ?h)"
        using checkpoint_to_main_facts [OF _ _ _ m, of g] assms(1, 3) sig by (simp add: s1 files_match_def)
      obtain w s3 where w: "WriteSyncCheckpoint ?h s2 = (w, s3)" by (cases "WriteSyncCheckpoint ?h s2")
      then obtain n where s3: "s3 = s2\<lparr>ns_chain := ns_chain s2\<lparr>txn_pos := n\<rparr>,
          hashSyncCheckpoint := (if w then ?h else hashSyncCheckpoint s2)\<rparr>"
        using WriteSyncCheckpoint_facts by blast
      show ?thesis
        using assms(4) c sig v True m w k anc
        by (cases m; cases w) (auto simp: ProcessSyncCheckpoint_def Let_def s3 IsInMainChain_def)
    qed
  qed
qed

section \<open>An example\<close>

definition sample_node :: node_state where
  "sample_node =
     \<lparr>ns_chain = sample_state, hashSyncCheckpoint = 10, hashPendingCheckpoint = 0,
      checkpointMessage = CSyncCheckpoint_SetNull, checkpointMessagePending = CSyncCheckpoint_SetNull,
      hashInvalidCheckpoint = 0, mapOrphanBlocks = Map.empty, mapOrphanBlocksByPrev = [], setStakeSeen = {},
      setStakeSeenOrphan = {}, mapProofOfStake = Map.empty\<rparr>"

definition sample_sync :: CSyncCheckpoint where
  "sample_sync = CSyncCheckpoint_SetNull\<lparr>vchMsg := ser_unsigned \<lparr>sc_nVersion = 1, hashCheckpoint = 11, vchMsg = [], vchSig = []\<rparr>,
     vchSig := take 32 (tl strMasterPubKey) @ bytes256 0\<rparr>"

lemma sample_node_parts:
  "ns_chain sample_node = sample_state" "hashSyncCheckpoint sample_node = 10" "has_block sample_node 10"
  "has_block sample_node 11" "wf_index (mapBlockIndex (ns_chain sample_node))" "IsInMainChain sample_state 11"
  "IsInMainChain sample_state 10"
proof -
  show n: "ns_chain sample_node = sample_state" "hashSyncCheckpoint sample_node = 10" by (simp_all add: sample_node_def)
  show "has_block sample_node 10" "has_block sample_node 11" by (simp_all add: n) (simp_all add: sample_state_def)
  show "wf_index (mapBlockIndex (ns_chain sample_node))" using sample_state_coherent by (simp add: n coherent_def)
  show "IsInMainChain sample_state 11" "IsInMainChain sample_state 10"
    by (simp_all add: IsInMainChain_def sample_state_def)
qed

lemma sample_node_hashes: "hashes (mapBlockIndex sample_state) 11 = [11, 10]" "hashes (mapBlockIndex sample_state) 10 = [10]"
  by (simp_all add: hashes_chain sample_state_chains) (simp_all add: sample_chain_def sample_block_def)

theorem ValidateSyncCheckpoint_iff_witness: "ValidateSyncCheckpoint 11 sample_node = (True, sample_node)"
  using ValidateSyncCheckpoint_iff [of sample_node 11] sample_node_parts(2-5)
  by (simp add: sample_node_parts(1) sample_node_hashes)

theorem CheckSync_iff_witness: "CheckSync 0 (block_at sample_node 11) sample_node = Some True"
proof -
  have "nHeight (hd (block_at sample_node 11)) = 1" "nHeight (hd (block_at sample_node 10)) = 0"
    by (simp_all add: sample_node_parts(1) sample_state_chains) (simp_all add: sample_chain_def sample_block_def)
  then show ?thesis
    using CheckSync_iff [of sample_node 11 0] sample_node_parts(2-5)
    by (simp add: sample_node_parts(1) sample_node_hashes)
qed

lemma sample_sync_signed:
  "Sync_CheckSignature sample_digest sample_sync = Some (True, sample_sync\<lparr>hashCheckpoint := 11\<rparr>)"
proof -
  have "length strMasterPubKey = 65" by (simp add: strMasterPubKey_def)
  moreover have "Hash sample_digest bs = 0" for bs by (simp add: Hash_def sample_digest_def le_word_def)
  moreover have "unser_unsigned c (ser_unsigned d) = Some (c\<lparr>sc_nVersion := sc_nVersion d, hashCheckpoint := hashCheckpoint d\<rparr>)"
    if "sc_nVersion d = 1" for c d
    using that i32.read_back [of 1 "ser_u256 (hashCheckpoint d)"] u256.read_back [of "hashCheckpoint d" "[]"] by (simp add: unser_unsigned_def ser_unsigned_def)
  ultimately show ?thesis
    by (simp add: Sync_CheckSignature_def SetPubKey_def CKey_Verify_def GetPubKey_def sample_sync_def
        sample_digest_def sample_openssl_def CKey_new_def CSyncCheckpoint_SetNull_def)
qed

theorem ProcessSyncCheckpoint_advances_witness:
  "\<exists>s'. ProcessSyncCheckpoint sample_chain_env sample_sync sample_node = Some (True, s') \<and> hashSyncCheckpoint s' = 11"
proof -
  have L: "env_L sample_chain_env = sample_digest" by (simp add: sample_chain_env_def sample_env_def)
  have "ValidateSyncCheckpoint 11 sample_node = (True, sample_node)"
    using ValidateSyncCheckpoint_value [of sample_node 11] sample_node_parts(2-5)
    by (simp add: sample_node_parts(1) sample_node_hashes)
  then have run: "\<exists>s'. ProcessSyncCheckpoint sample_chain_env sample_sync sample_node = Some (True, s')"
    using sample_node_parts(4)
    by (simp add: ProcessSyncCheckpoint_def L sample_sync_signed Let_def checkpoint_to_main_def sample_node_parts
        WriteSyncCheckpoint_def db_try_def sample_state_fields)
  have main: "h \<in> {0, 1}" if "has_block sample_node h" "\<not> IsInMainChain sample_state h" for h
    using that sample_state_chains(5) [of h] sample_node_parts(6, 7) by (auto simp: sample_node_parts(1) chain_at_def)
  have "files_match sample_chain_env sample_node"
    unfolding files_match_def sample_node_parts(1)
  proof (intro allI impI)
    fix h b assume h: "mapBlockIndex sample_state h \<noteq> None" "\<not> IsInMainChain sample_state h"
      and b: "Index_ReadFromDisk sample_chain_env (hd (chain_at sample_state h)) = Some b"
    then have "h = 0 \<or> h = 1" using main [of h] by (simp add: sample_node_parts(1))
    with b sample_state_prev show "prev_hash sample_state h = Some (hashPrevBlock b)"
      by (auto simp: sample_state_chains sample_files_read sample_state_fields)
  qed
  then show ?thesis
    using run ProcessSyncCheckpoint_advances [of 10 sample_node sample_chain_env sample_sync True]
      sample_state_coherent sample_node_parts(3)
    by (auto simp: sample_node_parts(1, 2) L sample_sync_signed)
qed

end
