(* ===== verification/Accept.thy ===== *)
theory Accept
  imports Checkpoints
begin

text \<open>
  Accepting blocks (\<open>src/src/main.cpp\<close>): the jackpot bonus, \<open>AddToBlockIndex\<close>, \<open>AcceptBlock\<close>, \<open>ProcessBlock\<close>
  with its orphan blocks.  The pseudo-random generator of boost and the power function
  of the C library are parameters, and so are the disk (is there room, and where the block was written)
  and the clock.  Asking peers for blocks, relaying and misbehaviour scores of peers are left out.
  \<open>None\<close> is undefined behaviour, an exception or a failed assertion.
\<close>

section \<open>The jackpot bonus\<close>

text \<open>
  \<open>mt19937 s n\<close> is the number \<open>generateMTRandom\<close> draws from \<open>1..n\<close> with seed \<open>s\<close>, and \<open>pow_factor d\<close> is
  \<open>(int64)(100 * pow(10.0, d / 720.0 / 3.5 + 1.0) - 100)\<close>, for a delta of at most 7 days.
\<close>

record jackpotlib =
  mt19937 :: "u32 \<Rightarrow> int \<Rightarrow> int"
  pow_factor :: "int \<Rightarrow> int"

definition POW_BLOCKS_PER_DAY :: int where "POW_BLOCKS_PER_DAY = 24 * 3600 div 120"

text \<open>Digits 12 to 18 of the hash in hexadecimal.\<close>

definition jackpot_seed :: "uint256 \<Rightarrow> u32" where
  "jackpot_seed h = ucast (drop_bit 180 h AND 0xFFFFFFF)"

definition jackpot_limits :: "int \<Rightarrow> int \<times> int" where
  "jackpot_limits delta =
     (if delta > 8 * POW_BLOCKS_PER_DAY then
        (let dd = max 0 (5 * (delta - 8 * POW_BLOCKS_PER_DAY))
         in (max 0 (15000 - dd), min 25200 (15011 + dd)))
      else (15000, 15011))"

definition GetProofOfWorkBlockBonusRewardFactor :: "jackpotlib \<Rightarrow> CBlockIndex list \<Rightarrow> int option" where
  "GetProofOfWorkBlockBonusRewardFactor J pindex =
     (case pindex of
        [] \<Rightarrow> None
      | i # pprev \<Rightarrow>
          if \<not> IsProofOfWork i then Some 0
          else if nHeight i < 3 then Some 0
          else
            (case (CountPowDelta pindex (sint (nSuperBlock i)), GetProofOfWorkReward (nHeight i) 0 pprev) of
               (Some delta, Some reward) \<Rightarrow>
                 (let random = mt19937 J (jackpot_seed (phashBlock i)) 25200; (lowerLimit, upperLimit) = jackpot_limits delta
                  in Some (if random > lowerLimit \<and> random < upperLimit
                           then (if delta > 7 * POW_BLOCKS_PER_DAY then 99900 else pow_factor J delta) else 0))
             | _ \<Rightarrow> None))"

section \<open>Adding to the block index\<close>

record accept_env =
  ae_node :: node_env
  ae_J :: jackpotlib
  ae_nosynccheckpoints :: bool
  ae_space :: "CBlock \<Rightarrow> bool"
  ae_write :: "CBlock \<Rightarrow> (u32 \<times> u32) option"

text \<open>The new entry up to the stake modifier; \<open>None\<close> is an error.\<close>

definition new_entry ::
  "node_env \<Rightarrow> u32 \<Rightarrow> u32 \<Rightarrow> CBlock \<Rightarrow> node_state \<Rightarrow> CBlockIndex option" where
  "new_entry E f p b s =
     (let hash = CBlock_GetHash (env_D E) b; pprev = block_at s (hashPrevBlock b);
          i = CBlockIndex_of (env_D E) f p b;
          i = i\<lparr>nHeight := (if pprev = [] then 0 else nHeight (hd pprev) + 1)\<rparr>;
          i = i\<lparr>bnChainTrust := (if pprev = [] then 0 else bnChainTrust (hd pprev)) + GetBlockTrust (env_L E) i\<rparr>
      in case SetStakeEntropyBit i (GetStakeEntropyBit (env_D E) b) of
           (False, _) \<Rightarrow> None
         | (True, i) \<Rightarrow>
             if IsProofOfStake i then
               map_option (\<lambda>h. i\<lparr>hashProofOfStake := h\<rparr>) (mapProofOfStake s hash)
             else Some i)"

definition AddToBlockIndex ::
  "node_env \<Rightarrow> u32 \<Rightarrow> u32 \<Rightarrow> CBlock \<Rightarrow> node_state \<Rightarrow> (bool \<times> node_state) option" where
  "AddToBlockIndex E f p b s =
     (let hash = CBlock_GetHash (env_D E) b; pprev = block_at s (hashPrevBlock b)
      in if has_block s hash then Some (False, s)
         else
           (case new_entry E f p b s of
              None \<Rightarrow> Some (False, s)
            | Some i \<Rightarrow>
                (case ComputeNextStakeModifier (env_L E) (mapBlockIndex (ns_chain s)) pprev of
                   (False, _, _) \<Rightarrow> Some (False, s)
                 | (True, nMod, fGenerated) \<Rightarrow>
                     (let i = SetStakeModifier i nMod fGenerated
                      in case GetStakeModifierChecksum (env_L E) (i, pprev) of
                           None \<Rightarrow> None
                         | Some c \<Rightarrow>
                             (let i = i\<lparr>nStakeModifierChecksum := c\<rparr>
                              in if \<not> CheckStakeModifierCheckpoints (nHeight i) c then Some (False, s)
                                 else
                                   (let s1 = s\<lparr>ns_chain := (ns_chain s)\<lparr>mapBlockIndex := (mapBlockIndex (ns_chain s))(hash \<mapsto> (i, pprev))\<rparr>,
                                          setStakeSeen := (if IsProofOfStake i
                                            then insert (prevoutStake i, nStakeTime i) (setStakeSeen s) else setStakeSeen s)\<rparr>
                                    in case db_try (ns_chain s1) of
                                         (False, c1) \<Rightarrow> Some (False, s1\<lparr>ns_chain := c1\<rparr>)
                                       | (True, c1) \<Rightarrow>
                                           (case db_try (snd (db_try c1)) of
                                              (False, c2) \<Rightarrow> Some (False, s1\<lparr>ns_chain := c2\<rparr>)
                                            | (True, c2) \<Rightarrow>
                                                if bnChainTrust i > bnBestChainTrust c2 then
                                                  map_option (\<lambda>(ok, c3). (ok, s1\<lparr>ns_chain := c3\<rparr>)) (SetBestChain E b hash c2)
                                                else Some (True, s1\<lparr>ns_chain := c2\<rparr>))))))))"

section \<open>AcceptBlock\<close>

definition HASH_ALGO_SWITCH_BLOCK :: int where "HASH_ALGO_SWITCH_BLOCK = 6000"

text \<open>Accepting overwrites the round mask of the block.\<close>

definition with_mask :: "node_state \<Rightarrow> CBlock \<Rightarrow> CBlock" where
  "with_mask s b =
     (case block_at s (hashPrevBlock b) of
        [] \<Rightarrow> b
      | p # _ \<Rightarrow> b\<lparr>b_nRoundMask := (if nHeight p + 1 \<le> HASH_ALGO_SWITCH_BLOCK then 7 else 8)\<rparr>)"

text \<open>The bonus transactions; \<open>prev\<close> is the block before, whatever could be read of it.\<close>

fun bonus_check :: "CBlock option \<Rightarrow> CTransaction list \<Rightarrow> int \<Rightarrow> (verdict \<times> int) option" where
  "bonus_check prev [] nBonusReward = Some (Valid, nBonusReward)"
| "bonus_check prev (tx # txs) nBonusReward =
     (if \<not> IsCoinBase tx then bonus_check prev txs nBonusReward
      else if nBonusReward \<le> 0 then Some (Invalid 100, nBonusReward)
      else
        (case (case prev of None \<Rightarrow> [] | Some p \<Rightarrow> vtx p) of
           [] \<Rightarrow> None
         | pt0 # _ \<Rightarrow>
             if nTime pt0 \<noteq> nTime tx \<or> length (vout pt0) \<noteq> length (vout tx) then Some (Invalid 100, nBonusReward)
             else if \<exists>(po, out) \<in> set (zip (vout pt0) (vout tx)).
                       wrap64 (nValue po * nBonusReward) sdiv 100 \<noteq> nValue out \<or> scriptPubKey po \<noteq> scriptPubKey out
             then Some (Invalid 100, nBonusReward)
             else bonus_check prev txs 0))"

text \<open>\<open>std::equal\<close>, which reads past the end of a shorter second range.\<close>

fun std_equal :: "byte list \<Rightarrow> byte list \<Rightarrow> bool option" where
  "std_equal [] ys = Some True"
| "std_equal (x # xs) [] = None"
| "std_equal (x # xs) (y # ys) = (if x = y then std_equal xs ys else Some False)"

text \<open>The checks up to the write to disk, on a block whose parent is the head of \<open>pindexPrev\<close>.\<close>

definition accept_checks :: "accept_env \<Rightarrow> CBlock \<Rightarrow> CBlockIndex list \<Rightarrow> node_state \<Rightarrow> verdict option" where
  "accept_checks A b pindexPrev s =
     (let E = ae_node A; L = env_L E; h = nHeight (hd pindexPrev) + 1; hash = CBlock_GetHash (env_D E) b;
          t = uint (b_nTime b)
      in if has_block s hash then Some (Invalid 0)
         else if b_nBits b \<noteq> GetNextTargetRequired L pindexPrev (Block_IsProofOfStake b) then Some (Invalid 100)
         else if t \<le> GetMedianTimePast pindexPrev \<or> t + nMaxClockDrift < GetBlockTime (hd pindexPrev) then Some (Invalid 0)
         else
           (case GetProofOfWorkBlockBonusRewardFactor (ae_J A) pindexPrev of
              None \<Rightarrow> None
            | Some nBonusReward \<Rightarrow>
                (case bonus_check (file_block (env_files E) (bi_nFile (hd pindexPrev), bi_nBlockPos (hd pindexPrev)))
                        (tl (vtx b)) nBonusReward of
                   None \<Rightarrow> None
                 | Some (Invalid d, _) \<Rightarrow> Some (Invalid d)
                 | Some (Valid, left) \<Rightarrow>
                     if left > 0 then Some (Invalid 100)
                     else if \<exists>tx \<in> set (vtx b). \<not> IsFinal (nBestHeight (ns_chain s)) (env_nAdjustedTime E) tx h t then Some (Invalid 10)
                     else if \<not> CheckHardened h hash then Some (Invalid 100)
                     else
                       (case CheckSync hash pindexPrev s of
                          None \<Rightarrow> None
                        | Some synced \<Rightarrow>
                            if \<not> synced \<and> \<not> ae_nosynccheckpoints A then Some (Invalid 0)
                            else if b_nVersion b < 3 then Some (Invalid 0)
                            else
                              (case vtx b of
                                 [] \<Rightarrow> None
                               | coinbase # _ \<Rightarrow>
                                   (case vin coinbase of
                                      [] \<Rightarrow> None
                                    | txin # _ \<Rightarrow>
                                        map_option (\<lambda>same. if same then Valid else Invalid 100)
                                          (std_equal (push_int64 L [] h) (scriptSig txin))))))))"

text \<open>The verdict and the state; the block itself becomes \<open>with_mask\<close>.\<close>

definition AcceptBlock :: "accept_env \<Rightarrow> CBlock \<Rightarrow> node_state \<Rightarrow> (verdict \<times> node_state) option" where
  "AcceptBlock A b0 s =
     (let E = ae_node A; pindexPrev = block_at s (hashPrevBlock b0); b = with_mask s b0
      in if pindexPrev = [] then Some (Invalid 10, s)
         else
           (case accept_checks A b pindexPrev s of
              None \<Rightarrow> None
            | Some (Invalid d) \<Rightarrow> Some (Invalid d, s)
            | Some Valid \<Rightarrow>
                if \<not> ae_space A b then Some (Invalid 0, s)
                else
                  (case ae_write A b of
                     None \<Rightarrow> Some (Invalid 0, s)
                   | Some (f, p) \<Rightarrow>
                       (case AddToBlockIndex E f p b s of
                          None \<Rightarrow> None
                        | Some (False, s1) \<Rightarrow> Some (Invalid 0, s1)
                        | Some (True, s1) \<Rightarrow>
                            map_option (\<lambda>(_, s2). (Valid, s2)) (AcceptPendingSyncCheckpoint E s1)))))"

section \<open>ProcessBlock\<close>

text \<open>
  The orphans of one parent in the order of the multimap; the hashes of those accepted are the new work.
  Whatever the outcome, each is erased from \<open>mapOrphanBlocks\<close> under the hash it has by then.
\<close>

fun accept_orphans :: "accept_env \<Rightarrow> CBlock list \<Rightarrow> node_state \<Rightarrow> (uint256 list \<times> node_state) option" where
  "accept_orphans A [] s = Some ([], s)"
| "accept_orphans A (b # bs) s =
     (case AcceptBlock A b s of
        None \<Rightarrow> None
      | Some (v, s1) \<Rightarrow>
          (let b' = with_mask s b; h = CBlock_GetHash (env_D (ae_node A)) b';
               s2 = s1\<lparr>mapOrphanBlocks := (mapOrphanBlocks s1)(h := None),
                       setStakeSeenOrphan := setStakeSeenOrphan s1 - {GetProofOfStake b'}\<rparr>
           in map_option (\<lambda>(hs, s3). (if v = Valid then h # hs else hs, s3)) (accept_orphans A bs s2)))"

text \<open>Accepting leaves the orphans by parent alone, so the queue of work runs dry.\<close>

lemma AddToBlockIndex_orphans:
  "AddToBlockIndex E f p b s = Some (ok, s') \<Longrightarrow>
     mapOrphanBlocksByPrev s' = mapOrphanBlocksByPrev s \<and> mapOrphanBlocks s' = mapOrphanBlocks s \<and>
     hashSyncCheckpoint s' = hashSyncCheckpoint s \<and> hashPendingCheckpoint s' = hashPendingCheckpoint s"
  by (auto simp: AddToBlockIndex_def Let_def split: if_splits option.splits prod.splits bool.splits)

lemma checkpoint_to_main_orphans:
  "checkpoint_to_main E h s = Some (ok, s') \<Longrightarrow>
     mapOrphanBlocksByPrev s' = mapOrphanBlocksByPrev s \<and> mapOrphanBlocks s' = mapOrphanBlocks s"
  by (auto simp: checkpoint_to_main_def split: if_splits option.splits prod.splits)

lemma AcceptPendingSyncCheckpoint_orphans:
  assumes "AcceptPendingSyncCheckpoint E s = Some (ok, s')"
  shows "mapOrphanBlocksByPrev s' = mapOrphanBlocksByPrev s \<and> mapOrphanBlocks s' = mapOrphanBlocks s"
proof -
  let ?h = "hashPendingCheckpoint s"
  obtain v s1 where v: "ValidateSyncCheckpoint ?h s = (v, s1)" by (cases "ValidateSyncCheckpoint ?h s")
  then obtain x where s1: "s1 = s\<lparr>hashInvalidCheckpoint := x\<rparr>" using ValidateSyncCheckpoint_keeps by blast
  show ?thesis
  proof (cases "?h \<noteq> 0 \<and> has_block s ?h \<and> v")
    case False
    with assms v s1 show ?thesis by (auto simp: AcceptPendingSyncCheckpoint_def Let_def split: if_splits)
  next
    case True
    then obtain m s2 where m: "checkpoint_to_main E ?h s1 = Some (m, s2)"
      using assms v by (auto simp: AcceptPendingSyncCheckpoint_def Let_def split: option.splits)
    obtain w s3 where w: "WriteSyncCheckpoint ?h s2 = (w, s3)" by (cases "WriteSyncCheckpoint ?h s2")
    have "mapOrphanBlocksByPrev s2 = mapOrphanBlocksByPrev s \<and> mapOrphanBlocks s2 = mapOrphanBlocks s"
      using checkpoint_to_main_orphans [OF m] by (simp add: s1)
    with assms v True m w WriteSyncCheckpoint_facts [OF w] show ?thesis
      by (cases m; cases w) (auto simp: AcceptPendingSyncCheckpoint_def Let_def)
  qed
qed

lemma AcceptBlock_orphans:
  assumes "AcceptBlock A b s = Some (v, s')"
  shows "mapOrphanBlocksByPrev s' = mapOrphanBlocksByPrev s \<and> mapOrphanBlocks s' = mapOrphanBlocks s"
  using assms unfolding AcceptBlock_def Let_def
  by (auto split: if_splits option.splits prod.splits verdict.splits bool.splits
      dest!: AddToBlockIndex_orphans AcceptPendingSyncCheckpoint_orphans)

lemma accept_orphans_by_prev:
  "accept_orphans A bs s = Some (hs, s') \<Longrightarrow>
     mapOrphanBlocksByPrev s' = mapOrphanBlocksByPrev s \<and> length hs \<le> length bs"
proof (induction bs arbitrary: s hs)
  case (Cons b bs)
  then obtain v s1 where v: "AcceptBlock A b s = Some (v, s1)" by (auto split: option.splits)
  let ?h = "CBlock_GetHash (env_D (ae_node A)) (with_mask s b)"
  let ?s2 = "s1\<lparr>mapOrphanBlocks := (mapOrphanBlocks s1)(?h := None),
                setStakeSeenOrphan := setStakeSeenOrphan s1 - {GetProofOfStake (with_mask s b)}\<rparr>"
  from Cons.prems v obtain hs' where r: "accept_orphans A bs ?s2 = Some (hs', s')"
    and hs: "hs = (if v = Valid then ?h # hs' else hs')"
    by (auto simp: Let_def)
  from Cons.IH [OF r] hs AcceptBlock_orphans [OF v] show ?case by auto
qed simp

definition orphans_of :: "uint256 \<Rightarrow> node_state \<Rightarrow> CBlock list" where
  "orphans_of h s = map snd (filter (\<lambda>(p, _). p = h) (mapOrphanBlocksByPrev s))"

definition drop_orphans :: "uint256 \<Rightarrow> node_state \<Rightarrow> node_state" where
  "drop_orphans h s = s\<lparr>mapOrphanBlocksByPrev := filter (\<lambda>(p, _). p \<noteq> h) (mapOrphanBlocksByPrev s)\<rparr>"

function process_queue :: "accept_env \<Rightarrow> uint256 list \<Rightarrow> node_state \<Rightarrow> node_state option" where
  "process_queue A [] s = Some s"
| "process_queue A (h # q) s =
     (case accept_orphans A (orphans_of h s) s of
        None \<Rightarrow> None
      | Some (hs, s') \<Rightarrow> process_queue A (q @ hs) (drop_orphans h s'))"
  by pat_completeness auto

termination
proof (relation "measures [\<lambda>(A, q, s). length (mapOrphanBlocksByPrev s), \<lambda>(A, q, s). length q]")
  fix A h q s hs s' x
  assume r: "accept_orphans A (orphans_of h s) s = Some x" and x: "(hs, s') = x"
  let ?o = "mapOrphanBlocksByPrev s"
  have e: "mapOrphanBlocksByPrev (drop_orphans h s') = filter (\<lambda>(p, _). p \<noteq> h) ?o" "length hs \<le> length (orphans_of h s)"
    using accept_orphans_by_prev [of A "orphans_of h s" s hs s'] r x [symmetric] by (simp_all add: drop_orphans_def)
  have "length (orphans_of h s) + length (filter (\<lambda>(p, _). p \<noteq> h) ?o) = length ?o"
    using sum_length_filter_compl [of "\<lambda>(p, _). p = h" ?o] by (simp add: orphans_of_def case_prod_unfold)
  with e(2) have "length (filter (\<lambda>(p, _). p \<noteq> h) ?o) < length ?o \<or> hs = [] \<and> length (filter (\<lambda>(p, _). p \<noteq> h) ?o) = length ?o"
    by (cases hs) auto
  with e(1) show "((A, q @ hs, drop_orphans h s'), A, h # q, s) \<in>
      measures [\<lambda>(A, q, s). length (mapOrphanBlocksByPrev s), \<lambda>(A, q, s). length q]"
    by auto
qed simp

text \<open>Too little work for the time since the checkpoint: spam.\<close>

definition too_little_work :: "openssl \<Rightarrow> CBlockIndex list \<Rightarrow> CBlock \<Rightarrow> bool" where
  "too_little_work L pcheckpoint b =
     (let deltaTime = uint (b_nTime b) - uint (bi_nTime (hd pcheckpoint));
          base = nBits (hd (GetLastBlockIndex pcheckpoint (Block_IsProofOfStake b)));
          bnRequired = SetCompact (if Block_IsProofOfStake b then ComputeMinStake L base deltaTime (b_nTime b)
                                   else ComputeMinWork L base deltaTime)
      in SetCompact (b_nBits b) > bnRequired)"

text \<open>A condition for refusing a block, unless the pending checkpoint wants it.\<close>

definition refused_unless_wanted :: "bool \<Rightarrow> uint256 \<Rightarrow> node_state \<Rightarrow> bool option" where
  "refused_unless_wanted c hash s =
     (if \<not> c then Some False else map_option Not (WantedByPendingSyncCheckpoint hash s))"

text \<open>A block whose parent is unknown is kept.\<close>

definition keep_orphan :: "uint256 \<Rightarrow> CBlock \<Rightarrow> node_state \<Rightarrow> (bool \<times> node_state) option" where
  "keep_orphan hash b s =
     (case refused_unless_wanted (Block_IsProofOfStake b \<and> GetProofOfStake b \<in> setStakeSeenOrphan s \<and>
             hash \<notin> set (map fst (mapOrphanBlocksByPrev s))) hash s of
        None \<Rightarrow> None
      | Some True \<Rightarrow> Some (False, s)
      | Some False \<Rightarrow>
          Some (True, s\<lparr>setStakeSeenOrphan :=
              (if Block_IsProofOfStake b then insert (GetProofOfStake b) (setStakeSeenOrphan s) else setStakeSeenOrphan s),
            mapOrphanBlocks := (mapOrphanBlocks s)(hash \<mapsto> b),
            mapOrphanBlocksByPrev := mapOrphanBlocksByPrev s @ [(hashPrevBlock b, b)]\<rparr>))"

text \<open>The proof of stake of the block, remembered under its hash.\<close>

definition check_stake :: "accept_env \<Rightarrow> uint256 \<Rightarrow> CBlock \<Rightarrow> node_state \<Rightarrow> (bool \<times> node_state) option" where
  "check_stake A hash b s =
     (if \<not> Block_IsProofOfStake b then Some (True, s)
      else
        (let E = ae_node A; c = ns_chain s
         in case CheckProofOfStake (env_L E) (env_D E) (env_files E) (env_nMaxCacheSize E) (cs_txdb c)
                   (mapBlockIndex c) (best_chain c) (vtx b ! 1) (b_nBits b) (cs_cache c) of
              None \<Rightarrow> None
            | Some (Valid, Some h, cache) \<Rightarrow>
                Some (True, s\<lparr>ns_chain := c\<lparr>cs_cache := cache\<rparr>,
                  mapProofOfStake := (if mapProofOfStake s hash = None then (mapProofOfStake s)(hash \<mapsto> h) else mapProofOfStake s)\<rparr>)
            | Some (_, _, cache) \<Rightarrow> Some (False, s\<lparr>ns_chain := c\<lparr>cs_cache := cache\<rparr>\<rparr>)))"

definition ProcessBlock :: "accept_env \<Rightarrow> CBlock \<Rightarrow> node_state \<Rightarrow> (bool \<times> node_state) option" where
  "ProcessBlock A b s =
     (let E = ae_node A; hash = CBlock_GetHash (env_D E) b
      in if has_block s hash \<or> mapOrphanBlocks s hash \<noteq> None then Some (False, s)
         else
           (case refused_unless_wanted (Block_IsProofOfStake b \<and> GetProofOfStake b \<in> setStakeSeen s \<and>
                   hash \<notin> set (map fst (mapOrphanBlocksByPrev s))) hash s of
              None \<Rightarrow> None
            | Some True \<Rightarrow> Some (False, s)
            | Some False \<Rightarrow>
                if CheckBlock (env_L E) (env_D E) (env_nAdjustedTime E) b True True \<noteq> Valid then Some (False, s)
                else
                  (case check_stake A hash b s of
                     None \<Rightarrow> None
                   | Some (False, s1) \<Rightarrow> Some (False, s1)
                   | Some (True, s1) \<Rightarrow>
                       (case refused_unless_wanted (GetLastSyncCheckpoint s1 \<noteq> [] \<and>
                               hashPrevBlock b \<noteq> hashBestChain (ns_chain s1)) hash s1 of
                          None \<Rightarrow> None
                        | Some strict \<Rightarrow>
                            if strict \<and> too_little_work (env_L E) (GetLastSyncCheckpoint s1) b then Some (False, s1)
                            else if \<not> has_block s1 (hashPrevBlock b) then keep_orphan hash b s1
                            else
                              (case AcceptBlock A b s1 of
                                 None \<Rightarrow> None
                               | Some (Invalid _, s2) \<Rightarrow> Some (False, s2)
                               | Some (Valid, s2) \<Rightarrow> map_option (\<lambda>s3. (True, s3)) (process_queue A [hash] s2))))))"

end
