(* ===== verification/Accept_Facts.thy ===== *)
theory Accept_Facts
  imports Accept
begin

text \<open>
  What accepting a block guarantees: the rules the block satisfies, the coherence of the tip, the drained
  queue of orphans; and two places where the code reads or keeps what it should not.
\<close>

section \<open>Adding an entry\<close>

lemma insert_coherent:
  assumes "coherent g c" and "mapBlockIndex c h = None" and "chain_at c p \<noteq> []"
    and "phashBlock i = h" and "nHeight i = nHeight (hd (chain_at c p)) + 1"
  defines "c' \<equiv> c\<lparr>mapBlockIndex := (mapBlockIndex c)(h \<mapsto> (i, chain_at c p))\<rparr>"
  shows "coherent g c'" and "chain_at c' h = i # chain_at c p" and "k \<noteq> h \<Longrightarrow> chain_at c' k = chain_at c k"
proof -
  let ?m = "mapBlockIndex c" and ?d = "chain_at c p"
  show h: "chain_at c' h = i # ?d" by (simp add: c'_def chain_at_def)
  show o: "chain_at c' k = chain_at c k" if "k \<noteq> h" for k using that by (simp add: c'_def chain_at_def)
  have wf: "wf_index ?m" using assms(1) by (simp add: coherent_def)
  obtain j r where j: "?m p = Some (j, r)" "?d = j # r" using assms(3) by (auto simp: chain_at_def split: option.splits)
  have "wf_index (mapBlockIndex c')"
    unfolding wf_index_def
  proof (intro allI impI)
    fix k i' d assume e: "mapBlockIndex c' k = Some (i', d)"
    show "phashBlock i' = k \<and> nHeight i' = int (length d) \<and>
        (d \<noteq> [] \<longrightarrow> mapBlockIndex c' (phashBlock (hd d)) = Some (hd d, tl d))"
    proof (cases "k = h")
      case True
      have "phashBlock j = p" "nHeight j = int (length r)" using wf_indexD(1, 2) [OF wf j(1)] .
      moreover have "p \<noteq> h" using assms(2) j(1) by auto
      moreover have "i' = i" "d = j # r" using e True j(2) by (auto simp: c'_def)
      ultimately show ?thesis using True assms(4, 5) j by (simp add: c'_def)
    next
      case False
      then have k: "?m k = Some (i', d)" using e by (simp add: c'_def)
      have "?m (phashBlock (hd d)) = Some (hd d, tl d)" if "d \<noteq> []" by (rule wf_indexD(3) [OF wf k that])
      moreover from this assms(2) have "phashBlock (hd d) \<noteq> h" if "d \<noteq> []" using that by auto
      ultimately show ?thesis using wf_indexD(1, 2) [OF wf k] by (auto simp: c'_def)
    qed
  qed
  moreover have "phashBlock (last (chain_at c' k)) = g" if "chain_at c' k \<noteq> []" for k
    using assms(1, 3) that h o [of k] by (cases "k = h") (auto simp: coherent_def)
  moreover obtain b where b: "pindexBest c = Some b" "chain_at c b \<noteq> []"
    using assms(1) by (auto simp: coherent_def split: option.splits)
  moreover from b(2) assms(2) have "b \<noteq> h" by (auto simp: chain_at_def)
  then have "chain_at c' b = chain_at c b" by (rule o)
  moreover from this have "hashes (mapBlockIndex c') b = hashes ?m b" by (simp add: hashes_chain)
  moreover have "pindexBest c' = pindexBest c" "hashBestChain c' = hashBestChain c" "nBestHeight c' = nBestHeight c"
    "bnBestChainTrust c' = bnBestChainTrust c" "pindexGenesisBlock c' = pindexGenesisBlock c" "pnext c' = pnext c"
    by (simp_all add: c'_def)
  ultimately show "coherent g c'" using assms(1) by (simp add: coherent_def)
qed

lemma GetBlockTrust_cong:
  "nBits i = nBits j \<Longrightarrow> IsProofOfStake i = IsProofOfStake j \<Longrightarrow> GetBlockTrust L i = GetBlockTrust L j"
  by (simp only: GetBlockTrust_def)

lemma SetStakeEntropyBit_keeps:
  assumes "SetStakeEntropyBit i e = (ok, i')"
  shows "phashBlock i' = phashBlock i" and "nHeight i' = nHeight i" and "bnChainTrust i' = bnChainTrust i"
    and "GetBlockTrust L i' = GetBlockTrust L i"
  using assms
  by (auto simp: SetStakeEntropyBit_def IsProofOfStake_def BLOCK_STAKE_ENTROPY_def
      BLOCK_PROOF_OF_STAKE_def word_ao_dist split: if_splits intro: GetBlockTrust_cong)

lemma GetBlockTrust_upd [simp]:
  "GetBlockTrust L (i\<lparr>bnChainTrust := x\<rparr>) = GetBlockTrust L i"
  "GetBlockTrust L (i\<lparr>hashProofOfStake := y\<rparr>) = GetBlockTrust L i"
  by (auto intro!: GetBlockTrust_cong simp: IsProofOfStake_def)

lemma new_entry_facts:
  assumes "new_entry E f p b s = Some i"
  shows "phashBlock i = CBlock_GetHash (env_D E) b"
    and "block_at s (hashPrevBlock b) \<noteq> [] \<Longrightarrow> nHeight i = nHeight (hd (block_at s (hashPrevBlock b))) + 1"
    and "block_at s (hashPrevBlock b) \<noteq> [] \<Longrightarrow>
      bnChainTrust i = bnChainTrust (hd (block_at s (hashPrevBlock b))) + GetBlockTrust (env_L E) i"
proof -
  let ?c = "block_at s (hashPrevBlock b)"
  define i0 where "i0 = (CBlockIndex_of (env_D E) f p b)\<lparr>nHeight := (if ?c = [] then 0 else nHeight (hd ?c) + 1)\<rparr>"
  define i1 where "i1 = i0\<lparr>bnChainTrust := (if ?c = [] then 0 else bnChainTrust (hd ?c)) + GetBlockTrust (env_L E) i0\<rparr>"
  obtain ok i2 where i2: "SetStakeEntropyBit i1 (GetStakeEntropyBit (env_D E) b) = (ok, i2)"
    by (cases "SetStakeEntropyBit i1 (GetStakeEntropyBit (env_D E) b)")
  obtain x where i: "i = i2\<lparr>hashProofOfStake := x\<rparr>"
    using assms i2 unfolding new_entry_def Let_def i0_def [symmetric] i1_def [symmetric]
    by (cases i2) (auto split: bool.splits if_splits)
  have t: "GetBlockTrust L (i2\<lparr>hashProofOfStake := x\<rparr>) = GetBlockTrust L i2"
    "GetBlockTrust L i1 = GetBlockTrust L i0" for L
    by (simp_all add: i1_def)
  have h: "phashBlock i0 = CBlock_GetHash (env_D E) b" by (simp add: i0_def CBlockIndex_of_def SetProofOfStake_def Let_def)
  note k = SetStakeEntropyBit_keeps [OF i2]
  show "phashBlock i = CBlock_GetHash (env_D E) b" using k(1) h by (simp add: i i1_def)
  show "nHeight i = nHeight (hd ?c) + 1" if "?c \<noteq> []" using k(2) that by (simp add: i i1_def i0_def)
  show "bnChainTrust i = bnChainTrust (hd ?c) + GetBlockTrust (env_L E) i" if "?c \<noteq> []"
    using k(3, 4) that t by (simp add: i i1_def)
qed

text \<open>The entry \<open>AddToBlockIndex\<close> inserts, and what follows.\<close>

definition linked_entry :: "node_env \<Rightarrow> CBlock \<Rightarrow> node_state \<Rightarrow> CBlockIndex \<Rightarrow> bool" where
  "linked_entry E b s i \<longleftrightarrow>
     phashBlock i = CBlock_GetHash (env_D E) b \<and>
     (case block_at s (hashPrevBlock b) of
        [] \<Rightarrow> True
      | p # _ \<Rightarrow> nHeight i = nHeight p + 1 \<and> bnChainTrust i = bnChainTrust p + GetBlockTrust (env_L E) i)"

lemma linked_entry_modifier:
  assumes "new_entry E f p b s = Some i"
  shows "linked_entry E b s ((SetStakeModifier i m gen)\<lparr>nStakeModifierChecksum := c\<rparr>)"
proof -
  let ?j = "(SetStakeModifier i m gen)\<lparr>nStakeModifierChecksum := c\<rparr>"
  have "phashBlock ?j = phashBlock i" "nHeight ?j = nHeight i" "bnChainTrust ?j = bnChainTrust i"
    by (simp_all add: SetStakeModifier_def Let_def)
  moreover have "GetBlockTrust L ?j = GetBlockTrust L i" for L
    by (rule GetBlockTrust_cong)
      (simp_all add: SetStakeModifier_def Let_def IsProofOfStake_def BLOCK_STAKE_MODIFIER_def
        BLOCK_PROOF_OF_STAKE_def word_ao_dist)
  ultimately show ?thesis
    using new_entry_facts [OF assms] by (auto simp: linked_entry_def split: list.splits)
qed

definition with_entry :: "uint256 \<Rightarrow> CBlockIndex \<Rightarrow> CBlockIndex list \<Rightarrow> chain_state \<Rightarrow> chain_state" where
  "with_entry h i pprev c = c\<lparr>mapBlockIndex := (mapBlockIndex c)(h \<mapsto> (i, pprev))\<rparr>"

lemma AddToBlockIndex_steps:
  assumes "AddToBlockIndex E f p b s = Some (ok, s')"
  shows "\<not> ok \<and> s' = s \<or>
    \<not> has_block s (CBlock_GetHash (env_D E) b) \<and>
    (\<exists>i n. linked_entry E b s i \<and>
       (let c = with_entry (CBlock_GetHash (env_D E) b) i (block_at s (hashPrevBlock b)) (ns_chain s)\<lparr>txn_pos := n\<rparr>
        in ns_chain s' = c \<and> (ok \<longrightarrow> bnChainTrust i \<le> bnBestChainTrust (ns_chain s)) \<or>
           bnChainTrust i > bnBestChainTrust (ns_chain s) \<and>
           SetBestChain E b (CBlock_GetHash (env_D E) b) c = Some (ok, ns_chain s')))"
proof (cases "\<not> has_block s (CBlock_GetHash (env_D E) b) \<and> \<not> (\<not> ok \<and> s' = s)")
  case False
  with assms show ?thesis by (auto simp: AddToBlockIndex_def Let_def)
next
  case True
  let ?h = "CBlock_GetHash (env_D E) b" and ?d = "block_at s (hashPrevBlock b)"
  obtain i0 where i0: "new_entry E f p b s = Some i0"
    using assms True by (auto simp: AddToBlockIndex_def Let_def split: option.splits)
  obtain m gen where m: "ComputeNextStakeModifier (env_L E) (mapBlockIndex (ns_chain s)) ?d = (True, m, gen)"
    using assms True i0 by (auto simp: AddToBlockIndex_def Let_def split: prod.splits bool.splits)
  obtain c where c: "GetStakeModifierChecksum (env_L E) (SetStakeModifier i0 m gen, ?d) = Some c"
    using assms True i0 m by (auto simp: AddToBlockIndex_def Let_def split: option.splits)
  define i where "i = (SetStakeModifier i0 m gen)\<lparr>nStakeModifierChecksum := c\<rparr>"
  have ok: "CheckStakeModifierCheckpoints (nHeight i) c"
    using assms True i0 m c by (auto simp: AddToBlockIndex_def Let_def i_def split: if_splits)
  have l: "linked_entry E b s i" unfolding i_def by (rule linked_entry_modifier [OF i0])
  have "\<exists>n. let c = with_entry ?h i ?d (ns_chain s)\<lparr>txn_pos := n\<rparr>
      in ns_chain s' = c \<and> (ok \<longrightarrow> bnChainTrust i \<le> bnBestChainTrust (ns_chain s)) \<or>
         bnChainTrust i > bnBestChainTrust (ns_chain s) \<and> SetBestChain E b ?h c = Some (ok, ns_chain s')"
    using assms True i0 m c ok
    by (auto simp: AddToBlockIndex_def Let_def i_def [symmetric] db_try_def with_entry_def
        split: if_splits bool.splits option.splits)
  with True l show ?thesis by blast
qed

lemma chain_at_txn [simp]: "chain_at (c\<lparr>txn_pos := n\<rparr>) = chain_at c"
  by (simp add: fun_eq_iff chain_at_def)

lemma coherent_txn [simp]: "coherent g (c\<lparr>txn_pos := n\<rparr>) \<longleftrightarrow> coherent g c"
  by (auto simp: coherent_def split: option.splits)

lemma AddToBlockIndex_coherent:
  assumes "coherent g (ns_chain s)" and "block_at s (hashPrevBlock b) \<noteq> []"
    and "bnChainTrust (hd (block_at s (hashPrevBlock b))) \<le> bnBestChainTrust (ns_chain s)"
    and "AddToBlockIndex E f p b s = Some (ok, s')"
  defines "h \<equiv> CBlock_GetHash (env_D E) b"
  shows "coherent g (ns_chain s') \<and>
    (ok \<longrightarrow> \<not> has_block s h \<and>
       hashes (mapBlockIndex (ns_chain s')) h = h # hashes (mapBlockIndex (ns_chain s)) (hashPrevBlock b) \<and>
       (\<exists>i. linked_entry E b s i \<and> same_id i (hd (block_at s' h)) \<and>
         pindexBest (ns_chain s') =
           (if bnChainTrust i > bnBestChainTrust (ns_chain s) then Some h else pindexBest (ns_chain s))))"
proof (cases "\<not> ok \<and> s' = s")
  case True
  with assms(1) show ?thesis by simp
next
  case False
  let ?d = "block_at s (hashPrevBlock b)"
  obtain i n where fresh: "\<not> has_block s h" and l: "linked_entry E b s i" and steps:
      "(let c = with_entry h i ?d (ns_chain s)\<lparr>txn_pos := n\<rparr>
        in ns_chain s' = c \<and> (ok \<longrightarrow> bnChainTrust i \<le> bnBestChainTrust (ns_chain s)) \<or>
           bnChainTrust i > bnBestChainTrust (ns_chain s) \<and> SetBestChain E b h c = Some (ok, ns_chain s'))"
    using AddToBlockIndex_steps [OF assms(4)] False unfolding h_def by blast
  let ?c = "with_entry h i ?d (ns_chain s)\<lparr>txn_pos := n\<rparr>"
  have i: "phashBlock i = h" "nHeight i = nHeight (hd ?d) + 1"
    using l assms(2) by (auto simp: linked_entry_def h_def split: list.splits)
  have "mapBlockIndex (ns_chain s) h = None" using fresh by blast
  note ins = insert_coherent [OF assms(1) this assms(2) i, folded with_entry_def]
  have wf: "wf_index (mapBlockIndex (ns_chain s))" using assms(1) by (simp add: coherent_def)
  have c: "coherent g ?c" "chain_at ?c h = i # ?d" using ins(1, 2) by simp_all
  have hs: "hashes (mapBlockIndex ?c) h = h # hashes (mapBlockIndex (ns_chain s)) (hashPrevBlock b)"
    unfolding hashes_chain c(2) using i(1) by (simp add: hashes_chain)
  have best: "bnBestChainTrust ?c = bnBestChainTrust (ns_chain s)" "pindexBest ?c = pindexBest (ns_chain s)"
    by (simp_all add: with_entry_def)
  have hd: "same_id i (hd (chain_at ?c h))" using c(2) by (simp add: same_id_def)
  show ?thesis
  proof (cases "ns_chain s' = ?c \<and> (ok \<longrightarrow> bnChainTrust i \<le> bnBestChainTrust (ns_chain s))")
    case True
    with c(1) hs hd fresh l best show ?thesis by (auto simp: h_def)
  next
    case False
    then have run: "SetBestChain E b h ?c = Some (ok, ns_chain s')" and more: "bnChainTrust i > bnBestChainTrust (ns_chain s)"
      using steps by (auto simp: Let_def)
    have "phashBlock (hd ?d) = hashPrevBlock b"
      using assms(2) wf_indexD(1) [OF wf] by (auto simp: chain_at_def split: option.splits)
    then have prev: "prev_hash ?c h = Some (hashPrevBlock b)"
      using c(2) assms(2) by (cases ?d) (auto simp: prev_hash_def)
    have le: "bnChainTrust (chain_at ?c h ! 1) \<le> bnBestChainTrust ?c"
      using assms(2, 3) ins(2) by (simp add: best hd_conv_nth)
    have "coherent g (ns_chain s')" using SetBestChain_keeps_coherent [OF c(1) run _ prev le] by (simp add: h_def)
    moreover have "hashes (mapBlockIndex (ns_chain s')) h = h # hashes (mapBlockIndex (ns_chain s)) (hashPrevBlock b) \<and>
        same_id i (hd (block_at s' h)) \<and> pindexBest (ns_chain s') = Some h" if ok
    proof -
      have "same_index (mapBlockIndex ?c) (mapBlockIndex (ns_chain s'))" and b: "pindexBest (ns_chain s') = Some h"
        using SetBestChain_tip [OF c(1) run _ prev] that by (auto simp: h_def same_tip_def new_best_def)
      note k = same_index_hashes [OF this(1), of h] same_index_chain(2) [OF this(1), of h]
      have "same_id i (hd (block_at s' h))"
        using k(2) c(2) by (simp add: chain_at_of [symmetric] same_id_def)
      with k(1) hs b show ?thesis by simp
    qed
    ultimately show ?thesis using fresh l more by (metis (no_types, lifting))
  qed
qed

section \<open>What an accepted block satisfies\<close>

lemma bonus_check_count:
  "bonus_check prev txs n = Some (Valid, left) \<Longrightarrow> left \<le> 0 \<Longrightarrow>
     length (filter IsCoinBase txs) = (if n > 0 then 1 else 0)"
  by (induction prev txs n rule: bonus_check.induct) (auto split: if_splits list.splits option.splits)

lemma std_equal_prefix: "std_equal xs ys = Some True \<Longrightarrow> prefix xs ys"
  by (induction xs ys rule: std_equal.induct) (auto split: if_splits)

lemma AcceptBlock_checked:
  assumes "AcceptBlock A b s = Some (v, s')"
  shows "v \<noteq> Valid \<and> s' = s \<or>
    block_at s (hashPrevBlock b) \<noteq> [] \<and>
    accept_checks A (with_mask s b) (block_at s (hashPrevBlock b)) s = Some Valid \<and>
    (\<exists>f p ok s1. AddToBlockIndex (ae_node A) f p (with_mask s b) s = Some (ok, s1) \<and>
      (if ok then v = Valid \<and> (\<exists>x. AcceptPendingSyncCheckpoint (ae_node A) s1 = Some (x, s')) else v \<noteq> Valid \<and> s' = s1))"
proof (cases "block_at s (hashPrevBlock b) = []")
  case True
  with assms show ?thesis by (auto simp: AcceptBlock_def Let_def)
next
  case p: False
  obtain c where c: "accept_checks A (with_mask s b) (block_at s (hashPrevBlock b)) s = Some c"
    using assms p by (cases "accept_checks A (with_mask s b) (block_at s (hashPrevBlock b)) s") (simp_all add: AcceptBlock_def Let_def)
  show ?thesis
  proof (cases c)
    case (Invalid d)
    with assms p c show ?thesis by (auto simp: AcceptBlock_def Let_def)
  next
    case Valid
    show ?thesis
    proof (cases "ae_space A (with_mask s b) \<and> ae_write A (with_mask s b) \<noteq> None")
      case False
      with assms p c Valid show ?thesis
        by (cases "ae_write A (with_mask s b)") (auto simp: AcceptBlock_def Let_def split: if_split_asm)
    next
      case True
      then obtain f q where w: "ae_space A (with_mask s b)" "ae_write A (with_mask s b) = Some (f, q)" by auto
      let ?a = "AddToBlockIndex (ae_node A) f q (with_mask s b) s"
      obtain ok s1 where a: "?a = Some (ok, s1)"
        using assms p c Valid w by (cases ?a) (auto simp: AcceptBlock_def Let_def)
      have "if ok then v = Valid \<and> (\<exists>x. AcceptPendingSyncCheckpoint (ae_node A) s1 = Some (x, s')) else v \<noteq> Valid \<and> s' = s1"
        using assms p c Valid w a by (cases ok) (auto simp: AcceptBlock_def Let_def)
      with p c Valid a show ?thesis by blast
    qed
  qed
qed

text \<open>
  C25.  A block \<open>AcceptBlock\<close> accepts obeys the rules that depend on its place in the chain: its parent is
  known and it is not; the target is the required one; its time is after the median of its ancestors and
  not too far before its parent; every transaction is final at its height; it agrees with the compiled-in
  checkpoints and, unless that is switched off, with the synchronised one; the coinbase script starts with
  the height; and the number of further coinbase transactions is one after a jackpot block and zero otherwise.
\<close>

theorem AcceptBlock_rules:
  assumes "AcceptBlock A b s = Some (Valid, s')"
  defines "b' \<equiv> with_mask s b" and "p \<equiv> block_at s (hashPrevBlock b)"
  shows "p \<noteq> [] \<and> \<not> has_block s (CBlock_GetHash (env_D (ae_node A)) b') \<and>
    b_nBits b' = GetNextTargetRequired (env_L (ae_node A)) p (Block_IsProofOfStake b') \<and>
    GetMedianTimePast p < uint (b_nTime b') \<and> GetBlockTime (hd p) \<le> uint (b_nTime b') + nMaxClockDrift \<and>
    list_all (\<lambda>tx. IsFinal (nBestHeight (ns_chain s)) (env_nAdjustedTime (ae_node A)) tx (nHeight (hd p) + 1) (uint (b_nTime b')))
      (vtx b') \<and>
    CheckHardened (nHeight (hd p) + 1) (CBlock_GetHash (env_D (ae_node A)) b') \<and>
    (ae_nosynccheckpoints A \<or> CheckSync (CBlock_GetHash (env_D (ae_node A)) b') p s = Some True) \<and>
    b_nVersion b' \<ge> 3 \<and>
    prefix (push_int64 (env_L (ae_node A)) [] (nHeight (hd p) + 1)) (scriptSig (hd (vin (hd (vtx b'))))) \<and>
    (case GetProofOfWorkBlockBonusRewardFactor (ae_J A) p of
       None \<Rightarrow> False
     | Some n \<Rightarrow> length (filter IsCoinBase (tl (vtx b'))) = (if n > 0 then 1 else 0))"
proof -
  have p: "p \<noteq> []" and ok: "accept_checks A b' p s = Some Valid"
    using AcceptBlock_checked [OF assms(1)] by (simp_all add: b'_def p_def)
  have early: "\<not> has_block s (CBlock_GetHash (env_D (ae_node A)) b')"
    "b_nBits b' = GetNextTargetRequired (env_L (ae_node A)) p (Block_IsProofOfStake b')"
    "\<not> (uint (b_nTime b') \<le> GetMedianTimePast p \<or> uint (b_nTime b') + nMaxClockDrift < GetBlockTime (hd p))"
    using ok by (simp_all add: accept_checks_def Let_def split: if_split_asm)
  obtain n where n: "GetProofOfWorkBlockBonusRewardFactor (ae_J A) p = Some n"
    using ok early by (cases "GetProofOfWorkBlockBonusRewardFactor (ae_J A) p") (simp_all add: accept_checks_def Let_def)
  let ?r = "bonus_check (file_block (env_files (ae_node A)) (bi_nFile (hd p), bi_nBlockPos (hd p))) (tl (vtx b')) n"
  obtain v left where c: "?r = Some (v, left)"
    using ok early n by (cases ?r) (auto simp: accept_checks_def Let_def)
  have v: "v = Valid" using ok early n c by (cases v) (simp_all add: accept_checks_def Let_def)
  have late: "\<not> left > 0"
    "\<not> (\<exists>tx \<in> set (vtx b'). \<not> IsFinal (nBestHeight (ns_chain s)) (env_nAdjustedTime (ae_node A)) tx (nHeight (hd p) + 1) (uint (b_nTime b')))"
    "CheckHardened (nHeight (hd p) + 1) (CBlock_GetHash (env_D (ae_node A)) b')"
    using ok early n c v by (simp_all add: accept_checks_def Let_def split: if_split_asm)
  obtain y where y: "CheckSync (CBlock_GetHash (env_D (ae_node A)) b') p s = Some y"
    using ok early n c v late
    by (cases "CheckSync (CBlock_GetHash (env_D (ae_node A)) b') p s") (simp_all add: accept_checks_def Let_def)
  have sync: "\<not> (\<not> y \<and> \<not> ae_nosynccheckpoints A)" "\<not> b_nVersion b' < 3"
    using ok early n c v late y by (simp_all add: accept_checks_def Let_def split: if_split_asm)
  obtain coinbase txs where tx: "vtx b' = coinbase # txs"
    using ok early n c v late y sync by (cases "vtx b'") (auto simp: accept_checks_def Let_def split: if_split_asm)
  obtain txin ins where i: "vin coinbase = txin # ins"
    using ok early n c v late y sync tx by (cases "vin coinbase") (auto simp: accept_checks_def Let_def split: if_split_asm)
  let ?e = "std_equal (push_int64 (env_L (ae_node A)) [] (nHeight (hd p) + 1)) (scriptSig txin)"
  have e: "?e = Some True"
    using ok early n c v late y sync tx i
    by (cases ?e) (auto simp: accept_checks_def Let_def split: if_split_asm)
  have count: "length (filter IsCoinBase (tl (vtx b'))) = (if n > 0 then 1 else 0)"
    using bonus_check_count c v late(1) by (metis leI)
  show ?thesis
    using p early late(2, 3) sync y n std_equal_prefix [OF e] tx i count
    by (auto simp: list_all_iff not_le not_less)
qed

text \<open>
  C26.  Accepting a block keeps the tip coherent: with no pending checkpoint and a parent that does not beat
  the best chain, whatever \<open>AcceptBlock\<close> answers, the index stays well formed and the best block, height,
  trust and links stay those of one chain; an accepted block is in the index on top of its parent, one
  higher, its trust added, and is the new tip exactly if it has more trust than the old one had.
\<close>

theorem AcceptBlock_keeps_coherent:
  assumes "coherent g (ns_chain s)" and "AcceptBlock A b s = Some (v, s')" and "hashPendingCheckpoint s = 0"
    and "block_at s (hashPrevBlock b) \<noteq> [] \<Longrightarrow>
      bnChainTrust (hd (block_at s (hashPrevBlock b))) \<le> bnBestChainTrust (ns_chain s)"
  defines "h \<equiv> CBlock_GetHash (env_D (ae_node A)) (with_mask s b)"
  shows "coherent g (ns_chain s') \<and>
    (v = Valid \<longrightarrow>
       hashes (mapBlockIndex (ns_chain s')) h = h # hashes (mapBlockIndex (ns_chain s)) (hashPrevBlock b) \<and>
       (\<exists>i. linked_entry (ae_node A) (with_mask s b) s i \<and> same_id i (hd (block_at s' h)) \<and>
         pindexBest (ns_chain s') =
           (if bnChainTrust i > bnBestChainTrust (ns_chain s) then Some h else pindexBest (ns_chain s))))"
proof (cases "v \<noteq> Valid \<and> s' = s")
  case True
  with assms(1) show ?thesis by simp
next
  case False
  then obtain f q ok s1 where p: "block_at s (hashPrevBlock b) \<noteq> []"
    and a: "AddToBlockIndex (ae_node A) f q (with_mask s b) s = Some (ok, s1)"
    and r: "if ok then v = Valid \<and> (\<exists>x. AcceptPendingSyncCheckpoint (ae_node A) s1 = Some (x, s')) else v \<noteq> Valid \<and> s' = s1"
    using AcceptBlock_checked [OF assms(2)] by blast
  have m: "hashPrevBlock (with_mask s b) = hashPrevBlock b" by (simp add: with_mask_def split: list.splits)
  have "hashPendingCheckpoint s1 = 0" using AddToBlockIndex_orphans [OF a] assms(3) by simp
  then have "AcceptPendingSyncCheckpoint (ae_node A) s1 = Some (False, s1)" by (simp add: AcceptPendingSyncCheckpoint_def)
  with r have "s' = s1" "ok \<longleftrightarrow> v = Valid" by (auto split: if_splits)
  with AddToBlockIndex_coherent [OF assms(1) _ _ a, unfolded m, OF p assms(4) [OF p]] show ?thesis
    unfolding h_def by blast
qed

section \<open>The queue of orphans\<close>

lemma orphans_of_drop: "orphans_of h (drop_orphans k s) = (if h = k then [] else orphans_of h s)"
  by (auto simp: orphans_of_def drop_orphans_def filter_empty_conv intro!: arg_cong [of _ _ "map snd"] filter_cong)

lemma process_queue_shrinks:
  "process_queue A q s = Some s' \<Longrightarrow> subseq (mapOrphanBlocksByPrev s') (mapOrphanBlocksByPrev s)"
proof (induction A q s rule: process_queue.induct)
  case (2 A h q s)
  then obtain hs s1 where r: "accept_orphans A (orphans_of h s) s = Some (hs, s1)"
    by (auto split: option.splits)
  with 2 have "subseq (mapOrphanBlocksByPrev s') (mapOrphanBlocksByPrev (drop_orphans h s1))" by auto
  moreover have "mapOrphanBlocksByPrev (drop_orphans h s1) = filter (\<lambda>(p, _). p \<noteq> h) (mapOrphanBlocksByPrev s)"
    using accept_orphans_by_prev [OF r] by (simp add: drop_orphans_def)
  ultimately show ?case using subseq_order.trans subseq_filter_left by metis
qed simp

lemma orphans_of_subseq:
  "subseq (mapOrphanBlocksByPrev s') (mapOrphanBlocksByPrev s) \<Longrightarrow> orphans_of h s = [] \<Longrightarrow> orphans_of h s' = []"
  by (auto simp: orphans_of_def filter_empty_conv dest: list_emb_set)



section \<open>Examples\<close>

text \<open>A side branch: the best block has much trust, the new block extends genesis.\<close>

definition sample_heavy :: CBlockIndex where
  "sample_heavy = sample_block 1 11 2 700\<lparr>bnChainTrust := 2 ^ 256\<rparr>"

definition sample_genesis :: CBlockIndex where
  "sample_genesis = sample_block 0 10 6 0"

definition sample_fork :: node_state where
  "sample_fork = sample_node\<lparr>ns_chain := sample_state
     \<lparr>mapBlockIndex := [10 \<mapsto> (sample_genesis, []), 11 \<mapsto> (sample_heavy, [sample_genesis])], bnBestChainTrust := 2 ^ 256\<rparr>\<rparr>"

definition sample_side :: CBlock where
  "sample_side = CBlock_SetNull\<lparr>hashPrevBlock := 10, b_nTime := 5, b_nBits := 0x1e0fffff,
     vtx := [sample_coinbase\<lparr>vin := [\<lparr>prevout = COutPoint_SetNull, scriptSig = [0x51, 2], nSequence = 0\<rparr>]\<rparr>]\<rparr>"

definition sample_accept :: accept_env where
  "sample_accept = \<lparr>ae_node = sample_env, ae_J = \<lparr>mt19937 = (\<lambda>_ _. 1), pow_factor = (\<lambda>_. 900)\<rparr>,
     ae_nosynccheckpoints = False, ae_space = (\<lambda>_. True), ae_write = (\<lambda>_. Some (0, 0))\<rparr>"

lemma sample_fork_chains:
  "block_at sample_fork 10 = [sample_genesis]" "block_at sample_fork 11 = [sample_heavy, sample_genesis]"
  "block_at sample_fork h \<noteq> [] \<Longrightarrow> h = 10 \<or> h = 11"
  "hashPendingCheckpoint sample_fork = 0" "hashSyncCheckpoint sample_fork = 10"
  by (auto simp: sample_fork_def chain_at_def sample_node_def split: if_splits)

lemma sample_fork_coherent: "coherent 10 (ns_chain sample_fork)"
proof -
  have "wf_index (mapBlockIndex (ns_chain sample_fork))"
    by (auto simp: wf_index_def sample_fork_def sample_genesis_def sample_heavy_def sample_block_def split: if_splits)
  moreover have "phashBlock (last (block_at sample_fork h)) = 10" if "block_at sample_fork h \<noteq> []" for h
    using sample_fork_chains(3) [OF that] by (auto simp: sample_fork_chains sample_genesis_def sample_block_def)
  moreover have "pindexGenesisBlock (ns_chain sample_fork) = Some 10" "pindexBest (ns_chain sample_fork) = Some 11"
    "hashBestChain (ns_chain sample_fork) = 11" "nBestHeight (ns_chain sample_fork) = nHeight sample_heavy"
    "bnBestChainTrust (ns_chain sample_fork) = bnChainTrust sample_heavy"
    "pnext (ns_chain sample_fork) = links [phashBlock sample_heavy, phashBlock sample_genesis]"
    by (simp_all add: sample_fork_def sample_state_def sample_heavy_def sample_genesis_def sample_block_def)
  ultimately show ?thesis by (simp add: coherent_def hashes_chain sample_fork_chains)
qed

lemma sample_limit: "GetCompact (bnProofOfWorkLimit sample_digest) = 0x1e0fffff"
  by (simp add: limit_value(1) [OF mpi_documented_digest] GetCompact_def BN_num_bytes_def BN_get_word_def Let_def
      min_le.simps)

lemma sample_side_parts:
  "b_nBits sample_side = 0x1e0fffff" "b_nTime sample_side = 5" "b_nVersion sample_side = 4" "hashPrevBlock sample_side = 10"
  "\<not> Block_IsProofOfStake (with_mask sample_fork sample_side)"
  "with_mask sample_fork sample_side = sample_side\<lparr>b_nRoundMask := 7\<rparr>"
  "CBlock_GetHash sample_const (with_mask sample_fork sample_side) = 4"
proof -
  show p: "b_nBits sample_side = 0x1e0fffff" "b_nTime sample_side = 5" "b_nVersion sample_side = 4"
    "hashPrevBlock sample_side = 10" by (simp_all add: sample_side_def CBlock_SetNull_def)
  show m: "with_mask sample_fork sample_side = sample_side\<lparr>b_nRoundMask := 7\<rparr>"
    by (simp add: with_mask_def p(4) sample_fork_chains) (simp add: sample_genesis_def sample_block_def HASH_ALGO_SWITCH_BLOCK_def)
  show "\<not> Block_IsProofOfStake (with_mask sample_fork sample_side)"
    unfolding m by (simp add: sample_side_def Block_IsProofOfStake_def)
  show "CBlock_GetHash sample_const (with_mask sample_fork sample_side) = 4"
    unfolding m by (simp add: sample_const_hash p ser_i32_def le_word_def nat_le_Cons [of 4])
qed

lemma sample_side_checked:
  "accept_checks sample_accept (with_mask sample_fork sample_side) [sample_genesis] sample_fork = Some Valid"
proof -
  let ?b = "with_mask sample_fork sample_side"
  have g: "nHeight sample_genesis = 0" "GetBlockTime sample_genesis = 0" "IsProofOfWork sample_genesis"
    by (simp_all add: sample_genesis_def sample_block_def GetBlockTime_def IsProofOfWork_def IsProofOfStake_def
        BLOCK_PROOF_OF_STAKE_def)
  have b: "b_nBits ?b = 0x1e0fffff" "b_nTime ?b = 5" "b_nVersion ?b = 4"
    "vtx ?b = [sample_coinbase\<lparr>vin := [\<lparr>prevout = COutPoint_SetNull, scriptSig = [0x51, 2], nSequence = 0\<rparr>]\<rparr>]"
    unfolding sample_side_parts(6) by (simp_all add: sample_side_parts) (simp add: sample_side_def)
  have E: "env_L (ae_node sample_accept) = sample_digest" "env_D (ae_node sample_accept) = sample_const"
    by (simp_all add: sample_accept_def sample_env_def)
  have sync: "CheckSync 4 [sample_genesis] sample_fork = Some True"
    by (simp add: CheckSync_def sample_fork_chains g) (simp add: sample_genesis_def sample_block_def)
  have target: "GetNextTargetRequired sample_digest [sample_genesis] False = 0x1e0fffff"
    by (simp add: GetNextTargetRequired_def sample_limit)
  have hardened: "CheckHardened 1 4" by (simp add: CheckHardened_def mapCheckpoints_def)
  have fresh: "mapBlockIndex (ns_chain sample_fork) 4 = None" by (simp add: sample_fork_def)
  show ?thesis
    by (simp add: accept_checks_def Let_def E b g sync target hardened fresh sample_side_parts(5, 7) GetMedianTimePast_def
        nMaxClockDrift_def GetProofOfWorkBlockBonusRewardFactor_def IsFinal_def sample_coinbase_def push_int64_def)
qed

lemma GetBlockTrust_le: "mpi_documented L \<Longrightarrow> GetBlockTrust L i \<le> 2 ^ 256"
proof -
  assume L: "mpi_documented L"
  have d: "a sdiv (t + 1) \<le> a" if "0 < t" "0 \<le> a" for a t :: int
  proof -
    have "a div (t + 1) \<le> a div 1" by (rule zdiv_mono2) (use that in simp_all)
    with that show ?thesis by (simp add: signed_divide_int_def sgn_if)
  qed
  show ?thesis
    using d [of "SetCompact (nBits i)" "2 ^ 256"] d [of "SetCompact (nBits i)" "2 ^ 236 - 1"]
    by (auto simp: GetBlockTrust_def Let_def limit_value(1) [OF L])
qed

lemma sample_side_added:
  "\<exists>s'. AddToBlockIndex sample_env 0 0 (with_mask sample_fork sample_side) sample_fork = Some (True, s') \<and>
     hashPendingCheckpoint s' = 0"
proof -
  let ?b = "with_mask sample_fork sample_side"
  have E: "env_L sample_env = sample_digest" "env_D sample_env = sample_const" by (simp_all add: sample_env_def)
  have b: "hashPrevBlock ?b = 10" unfolding sample_side_parts(6) by (simp add: sample_side_parts)
  have fresh: "mapBlockIndex (ns_chain sample_fork) 4 = None" by (simp add: sample_fork_def)
  obtain i where i: "new_entry sample_env 0 0 ?b sample_fork = Some i"
  proof -
    have "\<not> IsProofOfStake (CBlockIndex_of sample_const 0 0 ?b)"
      using sample_side_parts(5) by (simp add: CBlockIndex_of_def IsProofOfStake_def Let_def)
    then have "new_entry sample_env 0 0 ?b sample_fork \<noteq> None"
      by (simp add: new_entry_def Let_def E SetStakeEntropyBit_def GetStakeEntropyBit_def sample_side_parts(7)
          IsProofOfStake_def)
    with that show ?thesis by auto
  qed
  have h: "nHeight i = 1" "bnChainTrust i \<le> 2 ^ 256"
    using new_entry_facts(2, 3) [OF i] GetBlockTrust_le [OF mpi_documented_digest]
    by (simp_all add: b E sample_fork_chains) (simp_all add: sample_genesis_def sample_block_def)
  have mod: "ComputeNextStakeModifier sample_digest (mapBlockIndex (ns_chain sample_fork)) [sample_genesis] =
      (True, nStakeModifier sample_genesis, False)"
    by (simp add: ComputeNextStakeModifier_def)
      (simp add: sample_genesis_def sample_block_def GeneratedStakeModifier_def BLOCK_STAKE_MODIFIER_def)
  obtain c where c: "GetStakeModifierChecksum sample_digest (SetStakeModifier i (nStakeModifier sample_genesis) False, [sample_genesis]) = Some c"
    by (simp add: GetStakeModifierChecksum_def)
  let ?i = "SetStakeModifier i (nStakeModifier sample_genesis) False\<lparr>nStakeModifierChecksum := c\<rparr>"
  have k: "nHeight ?i = 1" "bnChainTrust ?i \<le> 2 ^ 256" using h by (simp_all add: SetStakeModifier_def Let_def)
  then have "CheckStakeModifierCheckpoints (nHeight ?i) c"
    by (simp add: CheckStakeModifierCheckpoints_def mapStakeModifierCheckpoints_def)
  moreover have "bnBestChainTrust (ns_chain sample_fork) = 2 ^ 256" "txn_tape (ns_chain sample_fork) = (\<lambda>_. True)"
    "hashPendingCheckpoint sample_fork = 0"
    by (simp_all add: sample_fork_def sample_state_def sample_node_def)
  ultimately show ?thesis
    using k unfolding AddToBlockIndex_def Let_def E b sample_side_parts(7) sample_fork_chains(1) i mod
    by (simp add: fresh c db_try_def)
qed

lemma sample_side_accepted:
  "\<exists>s'. AcceptBlock sample_accept sample_side sample_fork = Some (Valid, s')"
proof -
  obtain s' where a: "AddToBlockIndex sample_env 0 0 (with_mask sample_fork sample_side) sample_fork = Some (True, s')"
    and h: "hashPendingCheckpoint s' = 0"
    using sample_side_added by blast
  have "ae_node sample_accept = sample_env" "ae_space sample_accept b" "ae_write sample_accept b = Some (0, 0)" for b
    by (simp_all add: sample_accept_def)
  then show ?thesis
    by (simp add: AcceptBlock_def Let_def sample_side_parts(4) sample_fork_chains(1) sample_side_checked a
        AcceptPendingSyncCheckpoint_def h)
qed

theorem AcceptBlock_rules_witness:
  "b_nBits (with_mask sample_fork sample_side) =
     GetNextTargetRequired sample_digest [sample_genesis] (Block_IsProofOfStake (with_mask sample_fork sample_side)) \<and>
   CheckSync 4 [sample_genesis] sample_fork = Some True"
proof -
  obtain s' where "AcceptBlock sample_accept sample_side sample_fork = Some (Valid, s')"
    using sample_side_accepted by blast
  note k = AcceptBlock_rules [OF this]
  have "env_L (ae_node sample_accept) = sample_digest" "env_D (ae_node sample_accept) = sample_const"
    "ae_nosynccheckpoints sample_accept = False"
    by (simp_all add: sample_accept_def sample_env_def)
  with k show ?thesis by (simp only: sample_side_parts(4, 7) sample_fork_chains(1) simp_thms)
qed

theorem AcceptBlock_keeps_coherent_witness:
  "\<exists>s'. AcceptBlock sample_accept sample_side sample_fork = Some (Valid, s') \<and> coherent 10 (ns_chain s') \<and>
     hashes (mapBlockIndex (ns_chain s')) 4 = [4, 10]"
proof -
  obtain s' where s': "AcceptBlock sample_accept sample_side sample_fork = Some (Valid, s')"
    using sample_side_accepted by blast
  have "bnChainTrust (hd (block_at sample_fork (hashPrevBlock sample_side))) \<le> bnBestChainTrust (ns_chain sample_fork)"
    by (simp add: sample_side_parts sample_fork_chains)
      (simp add: sample_genesis_def sample_block_def sample_fork_def)
  note k = AcceptBlock_keeps_coherent [OF sample_fork_coherent s' sample_fork_chains(4) this]
  have "CBlock_GetHash (env_D (ae_node sample_accept)) (with_mask sample_fork sample_side) = 4"
    using sample_side_parts(7) by (simp add: sample_accept_def sample_env_def)
  moreover have "hashes (mapBlockIndex (ns_chain sample_fork)) 10 = [10]"
    by (simp add: hashes_chain sample_fork_chains) (simp add: sample_genesis_def sample_block_def)
  ultimately show ?thesis using k s' by (auto simp: sample_side_parts(4))
qed

text \<open>An orphan with the wrong mask and no target, under a hash that depends on the mask alone.\<close>

definition sample_len :: sphlib where
  "sample_len = \<lparr>keccak512 = (\<lambda>x. [word_of_nat (length x)]), groestl512 = id, skein512 = id, blake512 = id, jh512 = id\<rparr>"

definition sample_waiting :: CBlock where
  "sample_waiting = CBlock_SetNull\<lparr>hashPrevBlock := 10\<rparr>"

definition sample_waits :: node_state where
  "sample_waits = sample_fork\<lparr>mapOrphanBlocks := [80 \<mapsto> sample_waiting], mapOrphanBlocksByPrev := [(10, sample_waiting)]\<rparr>"

definition sample_accept_len :: accept_env where
  "sample_accept_len = sample_accept\<lparr>ae_node := sample_env\<lparr>env_D := sample_len\<rparr>\<rparr>"

lemma sample_len_hash: "CBlock_GetHash sample_len b = (if b_nRoundMask b = 7 then 88 else 80)"
proof -
  have r: "sha3v1_round sample_len = id" "sha3v2_round sample_len = id"
    by (simp_all add: fun_eq_iff sha3v1_round_def sha3v2_round_def sample_len_def Let_def)
  have "length (ser_header b) = 88" by (simp add: ser_header_def ser_i32_def ser_u32_def ser_u256_def)
  moreover have "le_word (take 4 (drop 84 (ser_header b))) = b_nRoundMask b"
    using unsigned_less [of "b_nRoundMask b", where ?'a = nat]
    by (simp add: ser_header_def ser_i32_def ser_u32_def ser_u256_def le_word_def)
  ultimately show ?thesis
    by (simp add: CBlock_GetHash_def HashSHA3_def HashSHA3V2_def HashSHA3V1_def trim256_def Let_def r)
      (simp add: sample_len_def le_word_def)
qed

lemma sample_waits_facts:
  "block_at sample_waits 10 = [sample_genesis]" "mapOrphanBlocks sample_waits = [80 \<mapsto> sample_waiting]"
  "orphans_of 10 sample_waits = [sample_waiting]"
  "b_nRoundMask (with_mask sample_waits sample_waiting) = 7" "b_nRoundMask sample_waiting = 0"
  "b_nBits (with_mask sample_waits sample_waiting) = 0" "hashPrevBlock sample_waiting = 10"
  "\<not> Block_IsProofOfStake (with_mask sample_waits sample_waiting)"
proof -
  show g: "block_at sample_waits 10 = [sample_genesis]" using sample_fork_chains(1) by (simp add: sample_waits_def)
  show "mapOrphanBlocks sample_waits = [80 \<mapsto> sample_waiting]" "orphans_of 10 sample_waits = [sample_waiting]"
    by (simp_all add: sample_waits_def orphans_of_def)
  show p: "hashPrevBlock sample_waiting = 10" "b_nRoundMask sample_waiting = 0"
    by (simp_all add: sample_waiting_def CBlock_SetNull_def)
  have m: "with_mask sample_waits sample_waiting = sample_waiting\<lparr>b_nRoundMask := 7\<rparr>"
    by (simp add: with_mask_def p g) (simp add: sample_genesis_def sample_block_def HASH_ALGO_SWITCH_BLOCK_def)
  show "b_nRoundMask (with_mask sample_waits sample_waiting) = 7" "b_nBits (with_mask sample_waits sample_waiting) = 0"
    "\<not> Block_IsProofOfStake (with_mask sample_waits sample_waiting)"
    unfolding m by (simp_all add: sample_waiting_def CBlock_SetNull_def Block_IsProofOfStake_def)
qed

lemma sample_waits_refused:
  "AcceptBlock sample_accept_len sample_waiting sample_waits = Some (Invalid 100, sample_waits)"
proof -
  have E: "env_L (ae_node sample_accept_len) = sample_digest" "env_D (ae_node sample_accept_len) = sample_len"
    by (simp_all add: sample_accept_len_def sample_env_def)
  have "GetNextTargetRequired sample_digest [sample_genesis] False = 0x1e0fffff"
    by (simp add: GetNextTargetRequired_def sample_limit)
  moreover have "mapBlockIndex (ns_chain sample_waits) 88 = None" by (simp add: sample_waits_def sample_fork_def)
  ultimately show ?thesis
    by (simp add: AcceptBlock_def accept_checks_def Let_def E sample_waits_facts sample_len_hash)
qed

lemma sample_waits_run:
  "\<exists>s'. accept_orphans sample_accept_len [sample_waiting] sample_waits = Some ([], s')"
  by (simp add: sample_waits_refused Let_def)



end
