(* ===== verification/Locator.thy ===== *)
theory Locator
  imports Accept_Facts
begin

text \<open>
  Finding blocks and transactions (\<open>src/src/main.cpp\<close>, \<open>main.h\<close>): \<open>FindBlockByHeight\<close>, block locators,
  \<open>GetTransaction\<close>, and transactions that carry their Merkle branch.  Main network, not a client.
  \<open>None\<close> in a search is a null pointer followed or a walk that does not end.
\<close>

section \<open>Blocks by height\<close>

text \<open>Up along the links.\<close>

partial_function (option) climb :: "chain_state \<Rightarrow> int \<Rightarrow> uint256 \<Rightarrow> uint256 option" where
  "climb s n h =
     (case chain_at s h of
        [] \<Rightarrow> None
      | i # _ \<Rightarrow> if nHeight i < n then Option.bind (pnext s h) (climb s n) else Some h)"

text \<open>Where the search starts: an end of the main chain, or the last answer when that is nearer.\<close>

definition find_start :: "int \<Rightarrow> chain_state \<Rightarrow> uint256 option" where
  "find_start n s =
     (let start = (if n < nBestHeight s sdiv 2 then pindexGenesisBlock s else pindexBest s)
      in case (start, pblockindexFBBHLast s) of
           (Some b, Some l) \<Rightarrow>
             if \<bar>n - nHeight (hd (chain_at s b))\<bar> > \<bar>n - nHeight (hd (chain_at s l))\<bar> then Some l else Some b
         | _ \<Rightarrow> start)"

definition FindBlockByHeight :: "int \<Rightarrow> chain_state \<Rightarrow> (uint256 \<times> chain_state) option" where
  "FindBlockByHeight n s =
     (case find_start n s of
        None \<Rightarrow> None
      | Some b \<Rightarrow>
          (case descend n (chain_at s b) of
             Some (i # _) \<Rightarrow>
               map_option (\<lambda>h. (h, s\<lparr>pblockindexFBBHLast := Some h\<rparr>)) (climb s n (phashBlock i))
           | _ \<Rightarrow> None))"

section \<open>Block locators\<close>

text \<open>
  The hashes of a chain, newest first: ten one by one, then with steps that double.  \<open>have\<close> is the number
  taken so far and \<open>step\<close>, which is never 0, how far to go back from the present block.
\<close>

function locate :: "nat \<Rightarrow> nat \<Rightarrow> CBlockIndex list \<Rightarrow> uint256 list" where
  "locate have step [] = []"
| "locate have step (i # c) =
     phashBlock i # locate (have + 1) (if have + 1 > 10 then 2 * step else step) (drop (step - 1) c)"
  by pat_completeness auto
termination by (relation "measure (\<lambda>(_, _, c). length c)") auto

definition Locator_Set :: "CBlockIndex list \<Rightarrow> uint256 list" where
  "Locator_Set c = locate 0 1 c @ [hashGenesisBlockOfficial]"

definition Locator_of_hash :: "chain_state \<Rightarrow> uint256 \<Rightarrow> uint256 list" where
  "Locator_of_hash s h = (if mapBlockIndex s h \<noteq> None then Locator_Set (chain_at s h) else [])"

definition in_main :: "chain_state \<Rightarrow> uint256 \<Rightarrow> bool" where
  "in_main s h \<longleftrightarrow> mapBlockIndex s h \<noteq> None \<and> IsInMainChain s h"

fun distance_back :: "chain_state \<Rightarrow> int \<Rightarrow> int \<Rightarrow> uint256 list \<Rightarrow> int" where
  "distance_back s nDistance nStep [] = nDistance"
| "distance_back s nDistance nStep (h # hs) =
     (if in_main s h then nDistance
      else
        (let d = wrap32 (nDistance + nStep)
         in distance_back s d (if d > 10 then wrap32 (nStep * 2) else nStep) hs))"

definition GetDistanceBack :: "chain_state \<Rightarrow> uint256 list \<Rightarrow> int" where
  "GetDistanceBack s vHave = distance_back s 0 1 vHave"

definition Locator_GetBlockIndex :: "chain_state \<Rightarrow> uint256 list \<Rightarrow> uint256 option" where
  "Locator_GetBlockIndex s vHave =
     (case find (in_main s) vHave of Some h \<Rightarrow> Some h | None \<Rightarrow> pindexGenesisBlock s)"

definition Locator_GetBlockHash :: "chain_state \<Rightarrow> uint256 list \<Rightarrow> uint256" where
  "Locator_GetBlockHash s vHave =
     (case find (in_main s) vHave of Some h \<Rightarrow> h | None \<Rightarrow> hashGenesisBlockOfficial)"

definition Locator_GetHeight :: "chain_state \<Rightarrow> uint256 list \<Rightarrow> int" where
  "Locator_GetHeight s vHave =
     (case Locator_GetBlockIndex s vHave of None \<Rightarrow> 0 | Some h \<Rightarrow> nHeight (hd (chain_at s h)))"

section \<open>Transactions with their Merkle branch\<close>

record CMerkleTx =
  m_tx :: CTransaction
  m_hashBlock :: uint256
  vMerkleBranch :: "uint256 list"
  m_nIndex :: int
  fMerkleVerified :: bool

definition CMerkleTx_Init :: "CTransaction \<Rightarrow> CMerkleTx" where
  "CMerkleTx_Init tx = \<lparr>m_tx = tx, m_hashBlock = 0, vMerkleBranch = [], m_nIndex = -1, fMerkleVerified = False\<rparr>"

definition main_depth :: "chain_state \<Rightarrow> uint256 \<Rightarrow> int" where
  "main_depth s h =
     (if in_main s h
      then nHeight (hd (best_chain s)) - nHeight (hd (chain_at s h)) + 1 else 0)"

text \<open>The block given, or the one the transaction index names.\<close>

definition merkle_block :: "node_env \<Rightarrow> 'a CMerkleTx_scheme \<Rightarrow> CBlock option \<Rightarrow> chain_state \<Rightarrow> CBlock option" where
  "merkle_block E m pblock s =
     (case pblock of
        Some b \<Rightarrow> Some b
      | None \<Rightarrow>
          (case ReadTxIndex (cs_txdb s) (CTransaction_GetHash (env_L E) (m_tx m)) of
             None \<Rightarrow> None
           | Some txindex \<Rightarrow>
               Block_ReadFromDisk (env_L E) (env_D E) (env_files E) (nFile (ti_pos txindex)) (nBlockPos (ti_pos txindex)) True))"

definition SetMerkleBranch :: "node_env \<Rightarrow> CBlock option \<Rightarrow> chain_state \<Rightarrow> 'a CMerkleTx_scheme \<Rightarrow> int \<times> 'a CMerkleTx_scheme" where
  "SetMerkleBranch E pblock s m =
     (case merkle_block E m pblock s of
        None \<Rightarrow> (0, m)
      | Some b \<Rightarrow>
          (let h = CBlock_GetHash (env_D E) b; k = length (takeWhile (\<lambda>tx. tx \<noteq> m_tx m) (vtx b))
           in if k = length (vtx b) then (0, m\<lparr>m_hashBlock := h, vMerkleBranch := [], m_nIndex := -1\<rparr>)
              else (main_depth s h,
                    m\<lparr>m_hashBlock := h, m_nIndex := int k, vMerkleBranch := fst (GetMerkleBranch (env_L E) b k)\<rparr>)))"

definition Merkle_GetDepthInMainChain :: "openssl \<Rightarrow> chain_state \<Rightarrow> 'a CMerkleTx_scheme \<Rightarrow> int \<times> 'a CMerkleTx_scheme" where
  "Merkle_GetDepthInMainChain L s m =
     (if m_hashBlock m = 0 \<or> m_nIndex m = -1 then (0, m)
      else if \<not> in_main s (m_hashBlock m) then (0, m)
      else if \<not> fMerkleVerified m \<and>
              CheckMerkleBranch L (CTransaction_GetHash L (m_tx m)) (vMerkleBranch m) (m_nIndex m)
                \<noteq> hashMerkleRoot (hd (chain_at s (m_hashBlock m)))
           then (0, m)
      else (main_depth s (m_hashBlock m), m\<lparr>fMerkleVerified := True\<rparr>))"

definition GetBlocksToMaturity :: "openssl \<Rightarrow> chain_state \<Rightarrow> 'a CMerkleTx_scheme \<Rightarrow> int" where
  "GetBlocksToMaturity L s m =
     (if \<not> (IsCoinBase (m_tx m) \<or> IsCoinStake (m_tx m)) then 0
      else max 0 (nCoinbaseMaturity + 20 - fst (Merkle_GetDepthInMainChain L s m)))"

text \<open>\<open>CTxIndex::GetDepthInMainChain\<close>: through the header of the block on disk.\<close>

definition TxIndex_GetDepthInMainChain :: "node_env \<Rightarrow> chain_state \<Rightarrow> CTxIndex \<Rightarrow> int" where
  "TxIndex_GetDepthInMainChain E s txindex =
     (case Block_ReadFromDisk (env_L E) (env_D E) (env_files E) (nFile (ti_pos txindex)) (nBlockPos (ti_pos txindex)) False of
        None \<Rightarrow> 0
      | Some b \<Rightarrow>
          (let h = CBlock_GetHash (env_D E) b
           in if in_main s h then 1 + nBestHeight s - nHeight (hd (chain_at s h)) else 0))"

text \<open>The transaction, and the hash of its block when it is in one that can be read.\<close>

definition GetTransaction :: "node_env \<Rightarrow> chain_state \<Rightarrow> uint256 \<Rightarrow> (CTransaction \<times> uint256 option) option" where
  "GetTransaction E s hash =
     (case map_of (mapTx (mempool s)) hash of
        Some tx \<Rightarrow> Some (tx, None)
      | None \<Rightarrow>
          (case ReadFromDisk (env_files E) (cs_txdb s) (COutPoint hash 0) of
             None \<Rightarrow> None
           | Some (tx, txindex) \<Rightarrow>
               Some (tx, map_option (CBlock_GetHash (env_D E))
                 (Block_ReadFromDisk (env_L E) (env_D E) (env_files E) (nFile (ti_pos txindex)) (nBlockPos (ti_pos txindex)) False))))"

section \<open>The main chain\<close>

lemma links_dom: "dom (links hs) = set (tl hs)"
proof (induction hs rule: links.induct)
  case (1 d r rs)
  have "dom (links (d # r # rs)) = insert r (dom (links (r # rs)))" by (simp only: links.simps dom_fun_upd) simp
  with 1 show ?case by (simp del: links.simps)
qed simp_all

lemma in_main_iff:
  assumes "coherent g s" and "pindexBest s = Some b"
  shows "in_main s h \<longleftrightarrow> h \<in> set (hashes (mapBlockIndex s) b)"
proof -
  let ?hs = "hashes (mapBlockIndex s) b"
  have wf: "wf_index (mapBlockIndex s)" and ne: "chain_at s b \<noteq> []" and p: "pnext s = links ?hs"
    using assms by (auto simp: coherent_def)
  then obtain i c where i: "chain_at s b = i # c" by (cases "chain_at s b") auto
  then have "mapBlockIndex s b = Some (i, c)" by (simp add: chain_at_of chain_of_Cons)
  then have ib: "phashBlock i = b" by (rule wf_indexD(1) [OF wf])
  then have hs: "?hs = b # map phashBlock c" by (simp add: hashes_chain i)
  have "pnext s h \<noteq> None \<longleftrightarrow> h \<in> set (tl ?hs)" using links_dom [of ?hs] p by auto
  then have "IsInMainChain s h \<longleftrightarrow> h \<in> set ?hs" by (auto simp: IsInMainChain_def assms(2) hs)
  moreover have "mapBlockIndex s h \<noteq> None" if "h \<in> set ?hs"
  proof -
    from that obtain k where k: "k < length (chain_at s b)" "h = phashBlock (chain_at s b ! k)"
      by (auto simp: hashes_chain in_set_conv_nth)
    then have "chain_of (mapBlockIndex s) h = drop k (chain_at s b)"
      using chain_of_drop [OF wf, of k b] by (simp add: chain_at_of)
    with k(1) show ?thesis by (cases "mapBlockIndex s h") (simp_all add: chain_of_def)
  qed
  ultimately show ?thesis by (auto simp: in_main_def)
qed


lemma links_nth: "distinct hs \<Longrightarrow> Suc j < length hs \<Longrightarrow> links hs (hs ! Suc j) = Some (hs ! j)"
proof (induction hs arbitrary: j rule: links.induct)
  case (1 d r rs)
  show ?case
  proof (cases j)
    case (Suc k)
    with "1.prems" have "(r # rs) ! Suc k \<noteq> r" by (auto simp: nth_eq_iff_index_eq)
    with 1 Suc show ?thesis by simp
  qed simp
qed simp_all

lemma main_chain_parts:
  assumes "coherent g s" and "pindexBest s = Some b" and "k < length (chain_at s b)"
  defines "c \<equiv> chain_at s b"
  shows "chain_at s (phashBlock (c ! k)) = drop k c" and "nHeight (c ! k) = int (length c - 1 - k)"
    and "0 < k \<Longrightarrow> pnext s (phashBlock (c ! k)) = Some (phashBlock (c ! (k - 1)))"
    and "nBestHeight s = int (length c - 1)"
proof -
  have wf: "wf_index (mapBlockIndex s)" and p: "pnext s = links (map phashBlock c)" and n: "nBestHeight s = nHeight (hd c)"
    using assms by (auto simp: coherent_def hashes_chain)
  show "chain_at s (phashBlock (c ! k)) = drop k c"
    using chain_of_drop [OF wf, of k b] assms(3) by (simp add: chain_at_of c_def)
  have ho: "heights_ok c" using wf_index_heights [OF wf, of b] by (simp add: chain_at_of c_def)
  then show "nHeight (c ! k) = int (length c - 1 - k)" using assms(3) by (simp add: heights_ok_def c_def)
  have "c \<noteq> []" using assms(3) by (auto simp: c_def)
  then have "c ! 0 = hd c" "0 < length c" by (simp_all add: hd_conv_nth)
  with ho n show "nBestHeight s = int (length c - 1)" unfolding heights_ok_def by (metis minus_nat.diff_0)
  show "pnext s (phashBlock (c ! k)) = Some (phashBlock (c ! (k - 1)))" if "0 < k"
  proof -
    have "distinct (map phashBlock c)" using wf_index_distinct [OF wf, of b] by (simp add: chain_at_of c_def)
    from links_nth [OF this, of "k - 1"] that assms(3) p show ?thesis by (simp add: c_def)
  qed
qed

section \<open>Searching by height\<close>

lemma climb_main:
  assumes "coherent g s" and "pindexBest s = Some b" and "k < length (chain_at s b)" and "n \<le> int (length (chain_at s b) - 1)"
    and "nHeight (chain_at s b ! k) \<le> n"
  shows "climb s n (phashBlock (chain_at s b ! k)) = Some (phashBlock (chain_at s b ! (length (chain_at s b) - 1 - nat n)))"
  using assms(3, 5)
proof (induction k)
  case 0
  note m = main_chain_parts [OF assms(1, 2) 0(1)]
  have "n = int (length (chain_at s b) - 1)" using 0 m(2) assms(4) by simp
  moreover have "chain_at s (phashBlock (chain_at s b ! 0)) = chain_at s b ! 0 # drop 1 (chain_at s b)"
    using m(1) 0(1) by (simp add: Cons_nth_drop_Suc)
  ultimately show ?case using m(2) by (subst climb.simps) simp
next
  case (Suc k)
  note m = main_chain_parts [OF assms(1, 2) Suc.prems(1)]
  have e: "chain_at s (phashBlock (chain_at s b ! Suc k)) = chain_at s b ! Suc k # drop (Suc (Suc k)) (chain_at s b)"
    using m(1) Suc.prems(1) by (simp add: Cons_nth_drop_Suc)
  show ?case
  proof (cases "nHeight (chain_at s b ! Suc k) < n")
    case True
    have "nHeight (chain_at s b ! k) \<le> n"
      using True m(2) main_chain_parts(2) [OF assms(1, 2), of k] Suc.prems(1) by simp
    with Suc have "climb s n (phashBlock (chain_at s b ! k)) = Some (phashBlock (chain_at s b ! (length (chain_at s b) - 1 - nat n)))"
      by simp
    with True e m(3) show ?thesis by (subst climb.simps) simp
  next
    case False
    with Suc.prems m(2) have "length (chain_at s b) - 1 - nat n = Suc k" by auto
    with False e show ?thesis by (subst climb.simps) simp
  qed
qed

lemma in_main_nth:
  assumes "coherent g s" and "pindexBest s = Some b" and "in_main s h"
  obtains k where "k < length (chain_at s b)" and "h = phashBlock (chain_at s b ! k)"
  using in_main_iff [OF assms(1, 2)] assms(3) by (auto simp: hashes_chain in_set_conv_nth)

lemma find_start_main:
  assumes "coherent g s" and "pindexBest s = Some b" and "list_all (in_main s) (case pblockindexFBBHLast s of None \<Rightarrow> [] | Some l \<Rightarrow> [l])"
  obtains k where "k < length (chain_at s b)" and "find_start n s = Some (phashBlock (chain_at s b ! k))"
proof -
  let ?c = "chain_at s b"
  have ne: "?c \<noteq> []" and g: "pindexGenesisBlock s = Some g" "phashBlock (last ?c) = g"
    using assms(1, 2) by (auto simp: coherent_def)
  have b: "phashBlock (?c ! 0) = b"
    using ne assms(1) wf_indexD(1) by (auto simp: coherent_def chain_at_of chain_of_def split: option.splits)
  have k: "\<exists>k < length ?c. h = phashBlock (?c ! k)" if "in_main s h" for h
    using in_main_nth [OF assms(1, 2) that] by blast
  have "b = phashBlock (hd ?c)" using ne b by (simp add: hd_conv_nth)
  then have "in_main s g" "in_main s b"
    using ne g(2) by (auto simp: in_main_iff [OF assms(1, 2)] hashes_chain)
  then have "\<exists>h. find_start n s = Some h \<and> in_main s h"
    using assms(2, 3) g(1) by (auto simp: find_start_def split: option.splits)
  with k that show ?thesis by blast
qed

text \<open>
  \<open>FindBlockByHeight\<close> finds the block: on a coherent chain, when the remembered answer is on the main
  chain, every height up to that of the tip gives the block of the main chain that many above genesis,
  whichever end the search starts from, and the answer is remembered.
\<close>

theorem FindBlockByHeight_correct:
  assumes "coherent g s" and "pindexBest s = Some b" and "0 \<le> n" and "n \<le> nBestHeight s"
    and "list_all (in_main s) (case pblockindexFBBHLast s of None \<Rightarrow> [] | Some l \<Rightarrow> [l])"
  shows "FindBlockByHeight n s =
    Some (rev (hashes (mapBlockIndex s) b) ! nat n, s\<lparr>pblockindexFBBHLast := Some (rev (hashes (mapBlockIndex s) b) ! nat n)\<rparr>)"
proof -
  let ?c = "chain_at s b"
  obtain k where k: "k < length ?c" "find_start n s = Some (phashBlock (?c ! k))"
    using find_start_main [OF assms(1, 2, 5)] by blast
  note m = main_chain_parts [OF assms(1, 2)]
  have n: "n \<le> int (length ?c - 1)" using m(4) [OF k(1)] assms(4) by simp
  let ?j = "length ?c - k - (nat n + 1) + k"
  have j: "?j < length ?c" using k(1) by simp
  have wf: "wf_index (mapBlockIndex s)" using assms(1) by (simp add: coherent_def)
  have "descend n (drop k ?c) = Some (drop ?j ?c)"
    using descend_eq [OF heights_ok_drop, of ?c k "nat n"] wf_index_heights [OF wf, of b] k(1) assms(3)
    by (simp add: chain_at_of)
  then have d: "descend n (chain_at s (phashBlock (?c ! k))) = Some (?c ! ?j # drop (Suc ?j) ?c)"
    using m(1) [OF k(1)] j by (simp add: Cons_nth_drop_Suc)
  have "nHeight (?c ! ?j) \<le> n" using m(2) [OF j] k(1) assms(3) by simp
  from climb_main [OF assms(1, 2) j n this] d k
  have "FindBlockByHeight n s = Some (phashBlock (?c ! (length ?c - 1 - nat n)),
      s\<lparr>pblockindexFBBHLast := Some (phashBlock (?c ! (length ?c - 1 - nat n)))\<rparr>)"
    by (simp add: FindBlockByHeight_def)
  moreover have "rev (hashes (mapBlockIndex s) b) ! nat n = phashBlock (?c ! (length ?c - 1 - nat n))"
    using n k(1) by (simp add: hashes_chain rev_nth)
  ultimately show ?thesis by simp
qed


section \<open>Locators\<close>

lemma find_append: "find P (xs @ ys) = (case find P xs of None \<Rightarrow> find P ys | Some x \<Rightarrow> Some x)"
  by (induction xs) auto

lemma takeWhile_stops: "x \<in> set xs \<Longrightarrow> \<not> P x \<Longrightarrow> length (takeWhile P xs) < length xs"
  by (induction xs) auto

text \<open>Where in the chain the next hash is taken, given how many were.\<close>

definition taken_at :: "nat \<Rightarrow> nat \<Rightarrow> nat \<Rightarrow> bool" where
  "taken_at p have step \<longleftrightarrow> p \<le> 10 \<and> have = p \<and> step = 1 \<or> p \<ge> 11 \<and> have \<ge> 11 \<and> step = p - 9"

lemma locate_drop:
  assumes "p < length c" and "taken_at p have step"
  obtains have' step' where "taken_at (p + step) have' step'" and "0 < step"
    and "locate have step (drop p c) = phashBlock (c ! p) # locate have' step' (drop (p + step) c)"
proof (rule that)
  show "taken_at (p + step) (have + 1) (if have + 1 > 10 then 2 * step else step)" and s: "0 < step"
    using assms(2) by (auto simp: taken_at_def)
  have "drop p c = c ! p # drop (Suc p) c" using assms(1) by (simp add: Cons_nth_drop_Suc)
  moreover have "drop (step - 1) (drop (Suc p) c) = drop (p + step) c" using s by (simp add: add.commute)
  ultimately show "locate have step (drop p c) =
      phashBlock (c ! p) # locate (have + 1) (if have + 1 > 10 then 2 * step else step) (drop (p + step) c)"
    by simp
qed

lemma locate_overshoot:
  assumes "taken_at p have step" and "p \<le> 2 * d" and "d < length c"
    and "\<And>k. k < length c \<Longrightarrow> in_main s (phashBlock (c ! k)) \<longleftrightarrow> d \<le> k"
  shows "case find (in_main s) (locate have step (drop p c)) of
      None \<Rightarrow> length c \<le> 2 * d
    | Some x \<Rightarrow> \<exists>e. d \<le> e \<and> e \<le> 2 * d \<and> e < length c \<and> x = phashBlock (c ! e)"
  using assms(1, 2)
proof (induction "length c - p" arbitrary: p "have" step rule: less_induct)
  case less
  show ?case
  proof (cases "p < length c")
    case False
    with less.prems show ?thesis by simp
  next
    case p: True
    obtain have' step' where n: "taken_at (p + step) have' step'" "0 < step"
      and e: "locate have step (drop p c) = phashBlock (c ! p) # locate have' step' (drop (p + step) c)"
      by (rule locate_drop [OF p less.prems(1)])
    show ?thesis
    proof (cases "d \<le> p")
      case True
      with p e less.prems assms(4) show ?thesis by auto
    next
      case False
      with less.prems have "p + step \<le> 2 * d" by (auto simp: taken_at_def)
      with less.hyps [OF _ n(1)] n(2) p e False assms(4) show ?thesis by simp
    qed
  qed
qed

lemma locate_length:
  assumes "taken_at p have step" and "11 \<le> p"
  shows "locate have step (drop p c) \<noteq> [] \<Longrightarrow> (p - 9) * 2 ^ (length (locate have step (drop p c)) - 1) + 9 < length c"
  using assms
proof (induction "length c - p" arbitrary: p "have" step rule: less_induct)
  case less
  have p: "p < length c" using less.prems(1) by (rule contrapos_np) simp
  obtain have' step' where n: "taken_at (p + step) have' step'" "0 < step"
    and e: "locate have step (drop p c) = phashBlock (c ! p) # locate have' step' (drop (p + step) c)"
    by (rule locate_drop [OF p less.prems(2)])
  let ?r = "locate have' step' (drop (p + step) c)"
  show ?case
  proof (cases "?r = []")
    case True
    with e p less.prems(3) show ?thesis by simp
  next
    case False
    have s: "p + step - 9 = (p - 9) * 2" using less.prems(2, 3) by (auto simp: taken_at_def)
    have "(p + step - 9) * 2 ^ (length ?r - 1) + 9 < length c"
      using less.hyps [OF _ False n(1)] n(2) p less.prems(3) by simp
    moreover have "length ?r = Suc (length ?r - 1)" using False by (cases ?r) simp_all
    ultimately show ?thesis unfolding e s by (metis length_Cons diff_Suc_1 mult.assoc power_Suc)
  qed
qed

lemma locate_first:
  "p \<le> 11 \<Longrightarrow> length (locate p (if p = 11 then 2 else 1) (drop p c)) \<le> 11 - p + length (locate 11 2 (drop 11 c))"
proof (induction p rule: inc_induct)
  case (step p)
  show ?case
  proof (cases "p < length c")
    case True
    have "taken_at p p 1" using step.hyps by (simp add: taken_at_def)
    have "drop p c = c ! p # drop (Suc p) c" using True by (simp add: Cons_nth_drop_Suc)
    then have "locate p 1 (drop p c) = phashBlock (c ! p) # locate (Suc p) (if Suc p = 11 then 2 else 1) (drop (Suc p) c)"
      using step.hyps by simp
    with step show ?thesis by simp
  qed simp
qed simp

lemma Locator_length:
  assumes "c \<noteq> []"
  shows "2 ^ (length (Locator_Set c) - 12) \<le> length c"
proof -
  let ?m = "length (locate 11 2 (drop 11 c))"
  have l: "length (Locator_Set c) - 12 \<le> ?m" using locate_first [of 0 c] by (simp add: Locator_Set_def)
  have "2 ^ ?m \<le> length c"
  proof (cases "?m = 0")
    case True
    with assms show ?thesis by (cases c) simp_all
  next
    case False
    have "taken_at 11 11 2" by (simp add: taken_at_def)
    with locate_length [of 11 11 2 c] False have "2 * 2 ^ (?m - 1) + 9 < length c" by fastforce
    moreover have "(2::nat) * 2 ^ (?m - 1) = 2 ^ ?m" using False by (cases ?m) simp_all
    ultimately show ?thesis by simp
  qed
  with l show ?thesis by (meson le_trans one_le_numeral power_increasing)
qed

text \<open>
  C30.  A locator leads to the fork quickly: for any chain of the index whose newest \<open>d\<close> blocks are not on
  the main chain, \<open>GetBlockIndex\<close> of its locator is a block of the main chain from that chain at most
  \<open>2 * d\<close> back (so the tip itself when it is on the main chain), and the locator of a chain of length \<open>n\<close>
  has at most about \<open>12 + log n\<close> hashes.
\<close>

theorem Locator_finds_fork:
  assumes "coherent hashGenesisBlockOfficial s" and "c = chain_at s h" and "c \<noteq> []"
    and "d = length (takeWhile (\<lambda>i. \<not> in_main s (phashBlock i)) c)"
  shows "(\<exists>e. d \<le> e \<and> e \<le> 2 * d \<and> e < length c \<and> in_main s (phashBlock (c ! e)) \<and>
      Locator_GetBlockIndex s (Locator_Set c) = Some (phashBlock (c ! e))) \<and>
    2 ^ (length (Locator_Set c) - 12) \<le> length c"
proof
  let ?g = hashGenesisBlockOfficial
  obtain b where b: "pindexBest s = Some b" "chain_at s b \<noteq> []" using coherent_best [OF assms(1)] by metis
  note main = in_main_iff [OF assms(1) b(1), unfolded hashes_chain]
  have wf: "wf_index (mapBlockIndex s)" using assms(1) by (simp add: coherent_def)
  have "phashBlock (last (chain_at s b)) = ?g" and g: "phashBlock (last c) = ?g"
    using assms(1, 2, 3) b(2) by (simp_all add: coherent_def)
  then have "in_main s ?g" using last_in_set [OF b(2)] by (simp add: main rev_image_eqI)
  note g = g this
  have last: "c ! (length c - 1) = last c" using assms(3) by (simp add: last_conv_nth)
  have d: "d < length c" unfolding assms(4) by (rule takeWhile_stops [OF last_in_set [OF assms(3)]]) (simp add: g)
  have at_d: "in_main s (phashBlock (c ! d))" using d assms(4) nth_length_takeWhile by blast
  have iff: "in_main s (phashBlock (c ! k)) \<longleftrightarrow> d \<le> k" if k: "k < length c" for k
  proof
    assume m: "in_main s (phashBlock (c ! k))"
    show "d \<le> k"
    proof (rule ccontr)
      assume "\<not> d \<le> k"
      then have "c ! k \<in> set (takeWhile (\<lambda>i. \<not> in_main s (phashBlock i)) c)"
        using assms(4) by (metis not_le nth_mem takeWhile_nth)
      with m show False by (auto dest: set_takeWhileD)
    qed
  next
    assume "d \<le> k"
    obtain j where j: "j < length (chain_at s b)" "phashBlock (c ! d) = phashBlock (chain_at s b ! j)"
      using at_d by (auto simp: main in_set_conv_nth)
    then have e: "drop d c = drop j (chain_at s b)"
      using same_blocksD [OF wf_index_same [OF wf, of h b], of d j] d assms(2) by (simp add: chain_at_of)
    have "c ! k = drop d c ! (k - d)" using \<open>d \<le> k\<close> k by simp
    moreover have "k - d < length (drop j (chain_at s b))" using e k \<open>d \<le> k\<close> by (metis length_drop diff_less_mono)
    ultimately have "c ! k \<in> set (chain_at s b)" using e by (metis in_set_dropD nth_mem)
    then show "in_main s (phashBlock (c ! k))" by (simp add: main)
  qed
  have "taken_at 0 0 1" by (simp add: taken_at_def)
  note f = locate_overshoot [OF this _ d iff, simplified]
  show "\<exists>e. d \<le> e \<and> e \<le> 2 * d \<and> e < length c \<and> in_main s (phashBlock (c ! e)) \<and>
      Locator_GetBlockIndex s (Locator_Set c) = Some (phashBlock (c ! e))"
  proof (cases "find (in_main s) (locate 0 1 c)")
    case None
    with f have "length c \<le> 2 * d" by simp
    moreover have "find (in_main s) (Locator_Set c) = Some ?g"
      using None g(2) by (simp add: Locator_Set_def find_append)
    ultimately show ?thesis
      using d g last by (intro exI [of _ "length c - 1"]) (auto simp: Locator_GetBlockIndex_def)
  next
    case (Some x)
    then obtain e where e: "d \<le> e" "e \<le> 2 * d" "e < length c" "x = phashBlock (c ! e)" using f by auto
    have "find (in_main s) (Locator_Set c) = Some x" using Some by (simp add: Locator_Set_def find_append)
    with e iff show ?thesis by (intro exI [of _ e]) (simp add: Locator_GetBlockIndex_def)
  qed
  show "2 ^ (length (Locator_Set c) - 12) \<le> length c" by (rule Locator_length [OF assms(3)])
qed

section \<open>Depth\<close>

text \<open>
  C31.  The depth of a transaction is right: for a block on the main chain whose Merkle root is that of its
  transactions, \<open>SetMerkleBranch\<close> on any of them reports the number of blocks from it to the tip, and
  \<open>GetDepthInMainChain\<close>, which verifies the branch that was filled in, reports the same.
\<close>

theorem merkle_depth:
  assumes "coherent g s" and "h = CBlock_GetHash (env_D E) b" and "h \<noteq> 0" and "mapBlockIndex s h = Some (i, c)"
    and "IsInMainChain s h" and "tx \<in> set (vtx b)" and "vMerkleTree b = []"
    and "hashMerkleRoot i = fst (BuildMerkleTree (env_L E) b)"
  shows "\<exists>m. SetMerkleBranch E (Some b) s (CMerkleTx_Init tx) = (nBestHeight s - nHeight i + 1, m) \<and>
    Merkle_GetDepthInMainChain (env_L E) s m = (nBestHeight s - nHeight i + 1, m\<lparr>fMerkleVerified := True\<rparr>) \<and>
    1 \<le> nBestHeight s - nHeight i + 1"
proof -
  let ?k = "length (takeWhile (\<lambda>t. t \<noteq> tx) (vtx b))"
  have k: "?k < length (vtx b)" by (rule takeWhile_stops [OF assms(6)]) simp
  then have tx: "vtx b ! ?k = tx" using nth_length_takeWhile by blast
  have m: "in_main s h" using assms(4, 5) by (simp add: in_main_def)
  have at: "chain_at s h = i # c" using assms(4) by (simp add: chain_at_def)
  obtain t where t: "pindexBest s = Some t" "chain_at s t \<noteq> []" "best_chain s = chain_at s t"
    using coherent_best [OF assms(1)] by metis
  have best: "nHeight (hd (best_chain s)) = nBestHeight s" using assms(1) t by (auto simp: coherent_def)
  have "nHeight i \<le> nBestHeight s"
  proof -
    obtain j where j: "j < length (chain_at s t)" "h = phashBlock (chain_at s t ! j)" by (rule in_main_nth [OF assms(1) t(1) m])
    note p = main_chain_parts [OF assms(1) t(1) j(1)]
    have "i = chain_at s t ! j" using p(1) at j by (metis Cons_nth_drop_Suc list.inject)
    with p(2, 4) show ?thesis by simp
  qed
  moreover have "CheckMerkleBranch (env_L E) (CTransaction_GetHash (env_L E) tx) (fst (GetMerkleBranch (env_L E) b ?k)) (int ?k) =
      hashMerkleRoot i"
    using merkle_branch_root [OF k assms(7), of "env_L E"] tx assms(8) by simp
  ultimately show ?thesis
    using k m at assms(2, 3) best
    by (simp add: SetMerkleBranch_def merkle_block_def CMerkleTx_Init_def Let_def main_depth_def Merkle_GetDepthInMainChain_def)
qed

section \<open>Examples\<close>

text \<open>Genesis, a tip with a given Merkle root, and a block beside it.\<close>

definition sample_branches :: "uint256 \<Rightarrow> chain_state" where
  "sample_branches r =
     (let i0 = sample_block 0 hashGenesisBlockOfficial 6 0; i1 = (sample_block 1 11 2 700)\<lparr>hashMerkleRoot := r\<rparr>
      in sample_state\<lparr>mapBlockIndex := [hashGenesisBlockOfficial \<mapsto> (i0, []), 11 \<mapsto> (i1, [i0]), 12 \<mapsto> (sample_block 1 12 2 701, [i0])],
           pnext := [hashGenesisBlockOfficial \<mapsto> 11], pindexGenesisBlock := Some hashGenesisBlockOfficial\<rparr>)"

lemma sample_branches_facts:
  "pindexBest (sample_branches r) = Some 11" "nBestHeight (sample_branches r) = 1"
  "map phashBlock (chain_at (sample_branches r) 11) = [11, hashGenesisBlockOfficial]"
  "map phashBlock (chain_at (sample_branches r) 12) = [12, hashGenesisBlockOfficial]"
  "pblockindexFBBHLast (sample_branches r) = None" "IsInMainChain (sample_branches r) 11"
  "mapBlockIndex (sample_branches r) 11 = Some ((sample_block 1 11 2 700)\<lparr>hashMerkleRoot := r\<rparr>, [sample_block 0 hashGenesisBlockOfficial 6 0])"
  by (simp_all add: sample_branches_def Let_def sample_state_def chain_at_def sample_block_def hashGenesisBlockOfficial_def
      IsInMainChain_def)

lemma sample_branches_coherent: "coherent hashGenesisBlockOfficial (sample_branches r)"
proof -
  let ?s = "sample_branches r"
  have g: "hashGenesisBlockOfficial \<noteq> 11" "hashGenesisBlockOfficial \<noteq> 12" by (simp_all add: hashGenesisBlockOfficial_def)
  have "wf_index (mapBlockIndex ?s)"
    using g by (auto simp: wf_index_def sample_branches_def Let_def sample_state_def sample_block_def split: if_splits)
  moreover have "phashBlock (last (chain_at ?s h)) = hashGenesisBlockOfficial" if "chain_at ?s h \<noteq> []" for h
    using that by (auto simp: chain_at_def sample_branches_def Let_def sample_state_def sample_block_def split: if_splits)
  moreover have "pindexGenesisBlock ?s = Some hashGenesisBlockOfficial" "hashBestChain ?s = 11"
    "bnBestChainTrust ?s = 0" "pnext ?s = links [11, hashGenesisBlockOfficial]"
    by (simp_all add: sample_branches_def Let_def sample_state_def)
  moreover have "chain_at ?s 11 = [(sample_block 1 11 2 700)\<lparr>hashMerkleRoot := r\<rparr>, sample_block 0 hashGenesisBlockOfficial 6 0]"
    by (simp add: chain_at_def sample_branches_facts)
  ultimately show ?thesis
    by (simp add: coherent_def hashes_chain sample_branches_facts) (simp add: sample_block_def)
qed

lemma sample_branches_main: "in_main (sample_branches r) h \<longleftrightarrow> h = 11 \<or> h = hashGenesisBlockOfficial"
  by (simp add: in_main_iff [OF sample_branches_coherent sample_branches_facts(1)] hashes_chain sample_branches_facts)

theorem FindBlockByHeight_correct_witness:
  "map_option fst (FindBlockByHeight 0 (sample_branches 0)) = Some hashGenesisBlockOfficial \<and>
   map_option fst (FindBlockByHeight 1 (sample_branches 0)) = Some 11"
  using FindBlockByHeight_correct [OF sample_branches_coherent [of 0] sample_branches_facts(1), of 0]
    FindBlockByHeight_correct [OF sample_branches_coherent [of 0] sample_branches_facts(1), of 1]
  by (simp add: sample_branches_facts hashes_chain)

theorem Locator_finds_fork_witness:
  "Locator_GetBlockIndex (sample_branches 0) (Locator_Set (chain_at (sample_branches 0) 12)) = Some hashGenesisBlockOfficial"
proof -
  let ?s = "sample_branches 0"
  let ?c = "chain_at ?s 12"
  have g: "hashGenesisBlockOfficial \<noteq> 12" by (simp add: hashGenesisBlockOfficial_def)
  obtain i0 i1 where c: "?c = [i0, i1]" "phashBlock i0 = 12" "phashBlock i1 = hashGenesisBlockOfficial"
    using sample_branches_facts(4) [of 0] by (auto simp: map_eq_Cons_conv)
  have d: "1 = length (takeWhile (\<lambda>i. \<not> in_main ?s (phashBlock i)) ?c)"
    using g by (simp add: c sample_branches_main)
  obtain e where "1 \<le> e" "e < length ?c" "Locator_GetBlockIndex ?s (Locator_Set ?c) = Some (phashBlock (?c ! e))"
    using Locator_finds_fork [OF sample_branches_coherent refl _ d] c by auto
  with c show ?thesis by (cases e) auto
qed

theorem merkle_depth_witness:
  "let b = sample_mined\<lparr>b_nVersion := 11\<rparr>
   in fst (SetMerkleBranch sample_env (Some b) (sample_branches (fst (BuildMerkleTree sample_digest b))) (CMerkleTx_Init sample_coinbase)) = 1"
proof -
  let ?b = "sample_mined\<lparr>b_nVersion := 11\<rparr>"
  let ?s = "sample_branches (fst (BuildMerkleTree sample_digest ?b))"
  have E: "env_L sample_env = sample_digest" "env_D sample_env = sample_const" by (simp_all add: sample_env_def)
  have h: "11 = CBlock_GetHash (env_D sample_env) ?b"
    by (simp add: E sample_const_hash ser_i32_def le_word_def nat_le_Cons [of 4])
  have b: "sample_coinbase \<in> set (vtx ?b)" "vMerkleTree ?b = []" by (simp_all add: sample_mined_def CBlock_SetNull_def)
  obtain m where "SetMerkleBranch sample_env (Some ?b) ?s (CMerkleTx_Init sample_coinbase) = (1, m)"
    using merkle_depth [OF sample_branches_coherent h _ sample_branches_facts(7, 6) b]
    by (auto simp: E sample_branches_facts sample_block_def)
  then show ?thesis by (simp add: Let_def)
qed

end
