(* ===== verification/Multisig.thy ===== *)
theory Multisig
  imports Solver
begin

text \<open>
  What it takes to spend a multisignature output: the run of \<open>OP_CHECKMULTISIG\<close> on the stack a
  standard \<open>scriptSig\<close> leaves, and the characterisation of \<open>VerifyScript\<close> by matching signatures to
  keys in order.
\<close>

section \<open>Numbers on the stack\<close>

lemma CastToBigNum_getvch:
  assumes "mpi_documented L" and "0 \<le> n" and "n < 2 ^ 24"
  shows "CastToBigNum L (getvch L n) = Some n"
proof -
  have "nat \<bar>n\<bar> < 256 ^ 3" using assms(2,3) by (simp add: nat_less_iff)
  from length_getvch [OF assms(1) this] have "length (getvch L n) \<le> 4" by simp
  with setvch_getvch [OF assms(1)] show ?thesis by (simp add: CastToBigNum_def)
qed

lemma getint_small: "0 \<le> n \<Longrightarrow> n < 2 ^ 24 \<Longrightarrow> getint n = n"
  by (simp add: getint_def BN_get_word_def int_max_def nat_less_iff Let_def)

section \<open>Matching in reverse\<close>

lemma subseq_rev: "subseq xs ys \<Longrightarrow> subseq (rev xs) (rev ys)"
  by (induction rule: list_emb.induct) (auto intro: subseq_rev_drop_many list_emb_append_mono)

lemma match_sigs_rev: "match_sigs ok (rev sigs) (rev keys) = match_sigs ok sigs keys"
proof -
  have "match_sigs ok (rev xs) (rev ys)" if m: "match_sigs ok xs ys" for xs ys
  proof -
    from m obtain ks where "subseq ks ys" "list_all2 ok xs ks" by (auto simp: match_sigs_def)
    then have "subseq (rev ks) (rev ys)" "list_all2 ok (rev xs) (rev ks)"
      by (simp_all add: list_all2_rev subseq_rev)
    then show ?thesis by (auto simp: match_sigs_def)
  qed
  from this [of sigs keys] this [of "rev sigs" "rev keys"] show ?thesis by auto
qed

section \<open>Running the check\<close>

lemma slice_nth:
  assumes "k < length ys" and "i = length xs + 1"
  shows "(xs @ ys @ zs) ! (i + k - 1) = ys ! k"
  using assms by (simp add: nth_append)

lemma stack_slice_mid:
  assumes "i = length xs + 1"
  shows "stack_slice (xs @ ys @ zs) i (length ys) = ys"
  using assms by (intro nth_equalityI [of "stack_slice _ _ _"]) (simp_all add: stack_slice_def nth_append)

lemma exec_multisig_eval:
  assumes st: "stack s = nn # keys @ mm # sigs @ d # r"
    and n: "CastToBigNum L nn = Some (int (length keys))"
    and m: "CastToBigNum L mm = Some (int (length sigs))"
    and le: "length sigs \<le> length keys" "length keys \<le> 20" "nOpCount s + length keys \<le> 201"
  shows "exec_multisig L (pure_checker ok) OP_CHECKMULTISIG () s =
    (Running (with_stack (s\<lparr>nOpCount := nOpCount s + length keys\<rparr>)
       (bool_vch (match_sigs (\<lambda>sig key. ok sig key (delete_sigs (pbegincodehash s) sigs)) sigs keys) # r)),
     ())"
proof -
  let ?st = "stack s"
  have gi: "getint (int (length keys)) = int (length keys)" "getint (int (length sigs)) = int (length sigs)"
    using le by (simp_all add: getint_small)
  have mm: "?st ! (1 + length keys) = mm" by (simp add: st nth_append)
  have keys: "stack_slice ?st 2 (length keys) = keys"
    using stack_slice_mid [of 2 "[nn]" keys "mm # sigs @ d # r"] by (simp add: st)
  have sigs: "stack_slice ?st (3 + length keys) (length sigs) = sigs"
    using stack_slice_mid [of "3 + length keys" "nn # keys @ [mm]" sigs "d # r"] by (simp add: st)
  have del: "map (\<lambda>k. ?st ! (2 + length keys + 1 + k - 1)) [0..<length sigs] = sigs"
    using sigs by (simp add: stack_slice_def add.commute)
  have r: "drop (2 + length keys + 1 + length sigs) ?st = r" by (simp add: st)
  have loop: "fst (multisig_loop (pure_checker ok) code ?st (2 + length keys + 1) (length sigs) 2
      (length keys) ()) = match_sigs (\<lambda>sig key. ok sig key code) sigs keys" for code
  proof -
    have e: "2 + length keys + 1 = 3 + length keys" by simp
    show ?thesis
      unfolding e multisig_loop_match [OF le(1)] keys sigs by (rule refl)
  qed
  have "length ?st = 3 + length keys + length sigs + length r" by (simp add: st)
  moreover have "?st ! 0 = nn" by (simp add: st)
  ultimately show ?thesis
    using n m le gi mm del r loop
    unfolding exec_multisig_def Let_def
    apply (simp add: case_prod_unfold)
    done
qed

section \<open>The standard multisignature script\<close>

lemma eval_loop_const:
  assumes "1 \<le> k" and "k \<le> 16" and "False \<notin> set (vfExec s)"
    and "length (stack s) + length (altstack s) < 1000"
  shows "eval_loop L chk (op_byte (OP_1 + k - 1) # r) c s =
    eval_loop L chk r c (with_stack s (getvch L (int k) # stack s))"
proof -
  have u: "unat (op_byte (OP_1 + k - 1)) = OP_1 + k - 1"
    using assms by (simp add: unat_op_byte)
  have "GetOp2 (op_byte (OP_1 + k - 1) # r) = GetOpOk (OP_1 + k - 1) [] r"
    using assms(1) u by (subst GetOp2_opcode) simp_all
  moreover have "eval_step L chk (OP_1 + k - 1) [] r c s =
      (Running (with_stack s (getvch L (int k) # stack s)), c)"
  proof -
    have d: "\<not> disabled (OP_1 + k - 1)" using assms(2) by (simp add: disabled_def)
    have "exec_op L chk (OP_1 + k - 1) True r c s = (exec_const L (OP_1 + k - 1) s, c)"
      using assms(1,2) by (simp add: exec_op_def)
    moreover have "exec_const L (OP_1 + k - 1) s = Running (with_stack s (getvch L (int k) # stack s))"
      using assms(1) by (simp add: exec_const_def CBigNum_of_int_def of_nat_diff)
    ultimately show ?thesis
      using assms d unfolding eval_step_def Let_def by (simp add: size_limit_def)
  qed
  ultimately show ?thesis by (simp add: eval_loop_Ok)
qed

lemma length_push_data: "length (push_data d) \<le> length d + 5"
  by (simp add: push_data_def)

lemma length_pushes:
  "\<forall>d \<in> set ds. length d \<le> k \<Longrightarrow> length (concat (map push_data ds)) \<le> length ds * (k + 5)"
proof (induction ds)
  case (Cons d ds)
  then have "length (push_data d) \<le> k + 5" using length_push_data [of d] by simp
  with Cons show ?case by simp
qed simp

lemma exec_op_multisig:
  "exec_op L chk OP_CHECKMULTISIG True pc c s = exec_multisig L chk OP_CHECKMULTISIG c s"
  by (simp add: exec_op_def)

lemma eval_multisig:
  assumes L: "mpi_documented L" and m: "1 \<le> length sigs" "length sigs \<le> length pubs" "length pubs \<le> 16"
    and p: "\<forall>k \<in> set pubs. pubkey_sized k" and r: "length r \<le> 900"
  shows "EvalScript L (pure_checker ok) (rev sigs @ d # r) (multisig_script (length sigs) pubs) () =
    (True, bool_vch (match_sigs (\<lambda>sig key.
       ok sig key (delete_sigs (multisig_script (length sigs) pubs) (rev sigs))) sigs pubs) # r, ())"
proof -
  let ?scr = "multisig_script (length sigs) pubs"
  let ?ok = "\<lambda>sig key. ok sig key (delete_sigs ?scr (rev sigs))"
  let ?n = "getvch L (int (length pubs))" and ?m = "getvch L (int (length sigs))"
  have p520: "\<forall>k \<in> set pubs. length k \<le> 520" using p by (auto simp: pubkey_sized_def)
  have "length (concat (map push_data pubs)) \<le> length pubs * (120 + 5)"
    using p by (intro length_pushes) (simp add: pubkey_sized_def)
  then have len: "length ?scr \<le> 10000" using m by (simp add: multisig_script_def)
  have num: "CastToBigNum L ?n = Some (int (length (rev pubs)))"
    "CastToBigNum L ?m = Some (int (length (rev sigs)))"
    using m by (simp_all add: CastToBigNum_getvch [OF L])
  let ?s = "\<lambda>st. \<lparr>stack = st, altstack = [], vfExec = [], nOpCount = 0, pbegincodehash = ?scr\<rparr>"
  let ?top = "?n # rev pubs @ ?m # rev sigs @ d # r"
  have "eval_loop L (pure_checker ok) ?scr () (?s (rev sigs @ d # r)) =
      eval_loop L (pure_checker ok) (concat (map push_data pubs) @
        [op_byte (OP_1 + length pubs - 1), op_byte OP_CHECKMULTISIG]) ()
        (?s (?m # rev sigs @ d # r))"
    using m r by (subst (1) multisig_script_def) (subst eval_loop_const, simp_all add: with_stack_def)
  also have "\<dots> = eval_loop L (pure_checker ok)
        [op_byte (OP_1 + length pubs - 1), op_byte OP_CHECKMULTISIG] ()
        (?s (rev pubs @ ?m # rev sigs @ d # r))"
    using m r p520 by (subst eval_loop_pushes) (simp_all add: with_stack_def)
  also have "\<dots> = eval_loop L (pure_checker ok) [op_byte OP_CHECKMULTISIG] () (?s ?top)"
    using m r by (subst eval_loop_const) (simp_all add: with_stack_def)
  also have "\<dots> = (Running ((?s (bool_vch (match_sigs ?ok (rev sigs) (rev pubs)) # r))
      \<lparr>nOpCount := 1 + length pubs\<rparr>), ())"
  proof -
    have u: "unat (op_byte OP_CHECKMULTISIG) = OP_CHECKMULTISIG" by (simp add: unat_op_byte)
    have "exec_multisig L (pure_checker ok) OP_CHECKMULTISIG () ((?s ?top)\<lparr>nOpCount := 1\<rparr>) =
        (Running ((?s (bool_vch (match_sigs ?ok (rev sigs) (rev pubs)) # r))
          \<lparr>nOpCount := 1 + length pubs\<rparr>), ())"
      using m by (subst exec_multisig_eval [OF _ num]) (simp_all add: with_stack_def)
    then show ?thesis
      using r by (subst eval_loop_op)
        (simp_all add: u disabled_def exec_op_multisig size_limit_def exec_simps)
  qed
  finally show ?thesis
    using len by (simp add: EvalScript_def init_evalst_def match_sigs_rev)
qed

lemma not_P2SH_multisig: "1 \<le> m \<Longrightarrow> m \<le> 16 \<Longrightarrow> \<not> IsPayToScriptHash (multisig_script m pubs)"
  by (auto elim!: IsPayToScriptHash_Cons simp: multisig_script_def
      dest!: arg_cong [of _ _ unat] simp: unat_op_byte)

lemma verify_multisig_iff:
  assumes L: "mpi_documented L" and m: "1 \<le> length sigs" "length sigs \<le> length pubs" "length pubs \<le> 16"
    and p: "\<forall>k \<in> set pubs. 33 \<le> length k \<and> length k \<le> 120" and s: "\<forall>x \<in> set sigs. length x \<le> 520"
  shows "script_ok L ok (concat (map push_data ([] # sigs))) (multisig_script (length sigs) pubs) f \<longleftrightarrow>
    match_sigs (\<lambda>sig key. ok sig key (delete_sigs (multisig_script (length sigs) pubs) (rev sigs))) sigs pubs"
proof -
  have "length (concat (map push_data ([] # sigs))) \<le> length ([] # sigs) * (520 + 5)"
    using s by (intro length_pushes) auto
  then have "length (concat (map push_data ([] # sigs))) \<le> 10000" using m by simp
  then have e: "EvalScript L (pure_checker ok) [] (concat (map push_data ([] # sigs))) () =
      (True, rev sigs @ [[]], ())"
    using s m EvalScript_pushes_run [of "[] # sigs" "[]" L "pure_checker ok" "()"] by simp
  have "\<forall>k \<in> set pubs. pubkey_sized k" using p by (simp add: pubkey_sized_def)
  note r = eval_multisig [OF L m this, of "[]" ok "[]"]
  have "\<not> IsPayToScriptHash (multisig_script (length sigs) pubs)"
    using m by (intro not_P2SH_multisig) simp_all
  then show ?thesis
    unfolding script_ok_def VerifyScript_with_def e by (simp add: r Let_def)
qed

text \<open>
  C5.  An \<open>m\<close>-of-\<open>n\<close> output is spent by \<open>OP_0\<close> and \<open>m\<close> signatures exactly when the signatures can be
  matched, in order, to \<open>m\<close> of the \<open>n\<close> keys of the script (each valid over the script without the
  signatures).
\<close>

theorem verify_multisig:
  assumes "mpi_documented L" and "1 \<le> length sigs" and "length sigs \<le> length pubs"
    and "length pubs \<le> 16"
    and "\<forall>k \<in> set pubs. 33 \<le> length k \<and> length k \<le> 120" and "\<forall>x \<in> set sigs. length x \<le> 520"
  shows "script_ok L ok (concat (map push_data ([] # sigs))) (multisig_script (length sigs) pubs) f \<longleftrightarrow>
    (\<exists>ks. subseq ks pubs \<and>
       list_all2 (\<lambda>sig key. ok sig key (delete_sigs (multisig_script (length sigs) pubs) (rev sigs))) sigs ks)"
  using verify_multisig_iff [OF assms] by (simp add: match_sigs_def)

theorem verify_multisig_witness:
  "script_ok sample_openssl (\<lambda>sig key code. sig = [hd key])
     (concat (map push_data [[], [2], [4]]))
     (multisig_script (length [[2 :: byte], [4]]) [replicate 33 2, replicate 33 3, replicate 33 4]) False"
proof -
  have "\<exists>ks. subseq ks [replicate 33 2, replicate 33 3, replicate 33 4] \<and>
      list_all2 (\<lambda>sig key. sig = [hd key]) [[2 :: byte], [4]] ks"
    by (intro exI [of _ "[replicate 33 2, replicate 33 4]"]) (simp add: numeral_eq_Suc)
  then show ?thesis
    by (subst verify_multisig [OF mpi_documented_sample]) (simp_all add: numeral_eq_Suc)
qed

end
