(* ===== verification/Keystore.thy ===== *)
theory Keystore
  imports Script Key
begin

text \<open>
  The key stores of \<open>src/src/keystore.h\<close> and \<open>src/src/keystore.cpp\<close>, with the secret encryption of
  \<open>src/src/crypter.cpp\<close> they call.  The maps are lists of entries by ascending key, as \<open>std::map\<close>
  iterates; the encrypted store extends the record of the basic one, as its class does.  An
  operation returns its verdict, \<open>None\<close> when a \<open>key_error\<close> leaves it, and the store.  The global
  \<open>fWalletUnlockMintOnly\<close> is kept with the encrypted store, whose \<open>Lock\<close> clears it; the status
  signal to the user interface is left out.
\<close>

section \<open>Encryption of secrets\<close>

type_synonym CKeyingMaterial = "byte list"

definition WALLET_CRYPTO_KEY_SIZE :: nat where "WALLET_CRYPTO_KEY_SIZE = 32"

record CCrypter =
  chKey :: "byte list"
  chIV :: "byte list"
  fKeySet :: bool

definition CCrypter_new :: CCrypter where
  "CCrypter_new = \<lparr>chKey = [], chIV = [], fKeySet = False\<rparr>"

definition CCrypter_SetKey :: "CCrypter \<Rightarrow> CKeyingMaterial \<Rightarrow> byte list \<Rightarrow> bool \<times> CCrypter" where
  "CCrypter_SetKey cr chNewKey chNewIV =
     (if length chNewKey \<noteq> WALLET_CRYPTO_KEY_SIZE \<or> length chNewIV \<noteq> WALLET_CRYPTO_KEY_SIZE
      then (False, cr)
      else (True, \<lparr>chKey = chNewKey, chIV = chNewIV, fKeySet = True\<rparr>))"

definition CCrypter_Encrypt :: "openssl \<Rightarrow> CCrypter \<Rightarrow> byte list \<Rightarrow> byte list option" where
  "CCrypter_Encrypt L cr vchPlaintext =
     (if \<not> fKeySet cr then None else AES256_encrypt L (chKey cr) (chIV cr) vchPlaintext)"

definition CCrypter_Decrypt :: "openssl \<Rightarrow> CCrypter \<Rightarrow> byte list \<Rightarrow> byte list option" where
  "CCrypter_Decrypt L cr vchCiphertext =
     (if \<not> fKeySet cr then None else AES256_decrypt L (chKey cr) (chIV cr) vchCiphertext)"

definition EncryptSecret :: "openssl \<Rightarrow> CKeyingMaterial \<Rightarrow> CSecret \<Rightarrow> uint256 \<Rightarrow> byte list option" where
  "EncryptSecret L vMasterKey' vchPlaintext nIV =
     (case CCrypter_SetKey CCrypter_new vMasterKey' (bytes256 nIV) of
        (ok, cr) \<Rightarrow> if \<not> ok then None else CCrypter_Encrypt L cr vchPlaintext)"

definition DecryptSecret :: "openssl \<Rightarrow> CKeyingMaterial \<Rightarrow> byte list \<Rightarrow> uint256 \<Rightarrow> CSecret option" where
  "DecryptSecret L vMasterKey' vchCiphertext nIV =
     (case CCrypter_SetKey CCrypter_new vMasterKey' (bytes256 nIV) of
        (ok, cr) \<Rightarrow> if \<not> ok then None else CCrypter_Decrypt L cr vchCiphertext)"

text \<open>AES in CBC mode decrypts what it encrypted under the same key and initialisation vector.\<close>

definition aes_documented :: "openssl \<Rightarrow> bool" where
  "aes_documented L \<longleftrightarrow>
     (\<forall>k iv p c. length k = 32 \<longrightarrow> length iv = 32 \<longrightarrow> AES256_encrypt L k iv p = Some c \<longrightarrow>
        AES256_decrypt L k iv c = Some p)"

lemma aes_documented_sample: "aes_documented sample_openssl"
  by (auto simp: aes_documented_def sample_openssl_def)

lemma DecryptSecret_EncryptSecret:
  assumes "aes_documented L" and "EncryptSecret L mk s iv = Some c"
  shows "DecryptSecret L mk c iv = Some s"
  using assms
  by (auto simp: EncryptSecret_def DecryptSecret_def CCrypter_SetKey_def CCrypter_Encrypt_def
      CCrypter_Decrypt_def aes_documented_def WALLET_CRYPTO_KEY_SIZE_def split: if_splits)

section \<open>The basic store\<close>

record CBasicKeyStore =
  mapKeys :: "(CKeyID \<times> CSecret \<times> bool) list"
  mapScripts :: "(CScriptID \<times> script) list"

definition Basic_AddKey ::
  "openssl \<Rightarrow> CKey \<Rightarrow> 'a CBasicKeyStore_scheme \<Rightarrow> bool option \<times> 'a CBasicKeyStore_scheme" where
  "Basic_AddKey L key ks =
     (case (GetSecret key, GetPubKey L key) of
        (Some (secret, fCompressed), Some pub) \<Rightarrow>
          (Some True, ks\<lparr>mapKeys := map_put (CPubKey_GetID L pub) (secret, fCompressed) (mapKeys ks)\<rparr>)
      | _ \<Rightarrow> (None, ks))"

definition Basic_HaveKey :: "'a CBasicKeyStore_scheme \<Rightarrow> CKeyID \<Rightarrow> bool" where
  "Basic_HaveKey ks address \<longleftrightarrow> map_of (mapKeys ks) address \<noteq> None"

definition Basic_GetKeys :: "'a CBasicKeyStore_scheme \<Rightarrow> CKeyID list" where
  "Basic_GetKeys ks = map fst (mapKeys ks)"

definition Basic_GetKey ::
  "'a CBasicKeyStore_scheme \<Rightarrow> CKeyID \<Rightarrow> CKey \<Rightarrow> bool option \<times> CKey" where
  "Basic_GetKey ks address keyOut =
     (case map_of (mapKeys ks) address of
        None \<Rightarrow> (Some False, keyOut)
      | Some (secret, fCompressed) \<Rightarrow>
          (case SetSecret (CKey_Reset keyOut) secret fCompressed of
             None \<Rightarrow> (None, CKey_Reset keyOut)
           | Some k \<Rightarrow> (Some True, k)))"

definition CScript_GetID :: "openssl \<Rightarrow> script \<Rightarrow> CScriptID" where
  "CScript_GetID L s = Hash160 L s"

definition AddCScript ::
  "openssl \<Rightarrow> script \<Rightarrow> 'a CBasicKeyStore_scheme \<Rightarrow> bool \<times> 'a CBasicKeyStore_scheme" where
  "AddCScript L redeemScript ks =
     (True, ks\<lparr>mapScripts := map_put (CScript_GetID L redeemScript) redeemScript (mapScripts ks)\<rparr>)"

definition HaveCScript :: "'a CBasicKeyStore_scheme \<Rightarrow> CScriptID \<Rightarrow> bool" where
  "HaveCScript ks h \<longleftrightarrow> map_of (mapScripts ks) h \<noteq> None"

definition GetCScript :: "'a CBasicKeyStore_scheme \<Rightarrow> CScriptID \<Rightarrow> script option" where
  "GetCScript ks h = map_of (mapScripts ks) h"

text \<open>\<open>CKeyStore::GetPubKey\<close> and \<open>CKeyStore::GetSecret\<close>, over the virtual \<open>GetKey\<close> of the store.\<close>

definition KeyStore_GetPubKey ::
  "openssl \<Rightarrow> (CKeyID \<Rightarrow> CKey \<Rightarrow> bool option \<times> CKey) \<Rightarrow> CKeyID \<Rightarrow> CPubKey option" where
  "KeyStore_GetPubKey L getkey address =
     (case getkey address CKey_new of
        (Some True, key) \<Rightarrow> GetPubKey L key
      | _ \<Rightarrow> None)"

definition KeyStore_GetSecret ::
  "(CKeyID \<Rightarrow> CKey \<Rightarrow> bool option \<times> CKey) \<Rightarrow> CKeyID \<Rightarrow> (CSecret \<times> bool) option" where
  "KeyStore_GetSecret getkey address =
     (case getkey address CKey_new of
        (Some True, key) \<Rightarrow> GetSecret key
      | _ \<Rightarrow> None)"

section \<open>The encrypted store\<close>

record CCryptoKeyStore = CBasicKeyStore +
  mapCryptedKeys :: "(CKeyID \<times> CPubKey \<times> byte list) list"
  vMasterKey :: CKeyingMaterial
  fUseCrypto :: bool
  fWalletUnlockMintOnly :: bool

definition CCryptoKeyStore_new :: CCryptoKeyStore where
  "CCryptoKeyStore_new =
     \<lparr>mapKeys = [], mapScripts = [], mapCryptedKeys = [], vMasterKey = [], fUseCrypto = False,
      fWalletUnlockMintOnly = False\<rparr>"

definition IsCrypted :: "CCryptoKeyStore \<Rightarrow> bool" where
  "IsCrypted ks \<longleftrightarrow> fUseCrypto ks"

definition IsLocked :: "CCryptoKeyStore \<Rightarrow> bool" where
  "IsLocked ks \<longleftrightarrow> IsCrypted ks \<and> vMasterKey ks = []"

definition SetCrypted :: "CCryptoKeyStore \<Rightarrow> bool \<times> CCryptoKeyStore" where
  "SetCrypted ks =
     (if fUseCrypto ks then (True, ks)
      else if mapKeys ks \<noteq> [] then (False, ks)
      else (True, ks\<lparr>fUseCrypto := True\<rparr>))"

definition Lock :: "CCryptoKeyStore \<Rightarrow> bool \<times> CCryptoKeyStore" where
  "Lock ks =
     (case SetCrypted ks of
        (ok, ks') \<Rightarrow>
          if \<not> ok then (False, ks')
          else (True, ks'\<lparr>vMasterKey := [], fWalletUnlockMintOnly := False\<rparr>))"

text \<open>The loop of \<open>Unlock\<close> looks at the first entry only: it breaks or returns there.\<close>

definition Unlock ::
  "openssl \<Rightarrow> CKeyingMaterial \<Rightarrow> CCryptoKeyStore \<Rightarrow> bool option \<times> CCryptoKeyStore" where
  "Unlock L vMasterKeyIn ks =
     (case SetCrypted ks of
        (ok, ks') \<Rightarrow>
          if \<not> ok then (Some False, ks')
          else
            (case mapCryptedKeys ks' of
               [] \<Rightarrow> (Some True, ks'\<lparr>vMasterKey := vMasterKeyIn\<rparr>)
             | (_, vchPubKey, vchCryptedSecret) # _ \<Rightarrow>
                 (case DecryptSecret L vMasterKeyIn vchCryptedSecret (CPubKey_GetHash L vchPubKey) of
                    None \<Rightarrow> (Some False, ks')
                  | Some vchSecret \<Rightarrow>
                      if length vchSecret \<noteq> 32 then (Some False, ks')
                      else
                        (case SetSecret (snd (SetPubKey L CKey_new vchPubKey)) vchSecret False of
                           None \<Rightarrow> (None, ks')
                         | Some key \<Rightarrow>
                             if GetPubKey L key = Some vchPubKey
                             then (Some True, ks'\<lparr>vMasterKey := vMasterKeyIn\<rparr>)
                             else (Some False, ks')))))"

definition AddCryptedKey ::
  "openssl \<Rightarrow> CPubKey \<Rightarrow> byte list \<Rightarrow> CCryptoKeyStore \<Rightarrow> bool \<times> CCryptoKeyStore" where
  "AddCryptedKey L vchPubKey vchCryptedSecret ks =
     (case SetCrypted ks of
        (ok, ks') \<Rightarrow>
          if \<not> ok then (False, ks')
          else (True, ks'\<lparr>mapCryptedKeys :=
                   map_put (CPubKey_GetID L vchPubKey) (vchPubKey, vchCryptedSecret)
                     (mapCryptedKeys ks')\<rparr>))"

definition AddKey :: "openssl \<Rightarrow> CKey \<Rightarrow> CCryptoKeyStore \<Rightarrow> bool option \<times> CCryptoKeyStore" where
  "AddKey L key ks =
     (if \<not> IsCrypted ks then Basic_AddKey L key ks
      else if IsLocked ks then (Some False, ks)
      else
        (case (GetPubKey L key, GetSecret key) of
           (Some vchPubKey, Some (secret, fCompressed)) \<Rightarrow>
             (case EncryptSecret L (vMasterKey ks) secret (CPubKey_GetHash L vchPubKey) of
                None \<Rightarrow> (Some False, ks)
              | Some vchCryptedSecret \<Rightarrow>
                  (case AddCryptedKey L vchPubKey vchCryptedSecret ks of
                     (ok, ks') \<Rightarrow> (Some ok, ks')))
         | _ \<Rightarrow> (None, ks)))"

definition HaveKey :: "CCryptoKeyStore \<Rightarrow> CKeyID \<Rightarrow> bool" where
  "HaveKey ks address \<longleftrightarrow>
     (if \<not> IsCrypted ks then Basic_HaveKey ks address
      else map_of (mapCryptedKeys ks) address \<noteq> None)"

definition GetKey ::
  "openssl \<Rightarrow> CCryptoKeyStore \<Rightarrow> CKeyID \<Rightarrow> CKey \<Rightarrow> bool option \<times> CKey" where
  "GetKey L ks address keyOut =
     (if \<not> IsCrypted ks then Basic_GetKey ks address keyOut
      else
        (case map_of (mapCryptedKeys ks) address of
           None \<Rightarrow> (Some False, keyOut)
         | Some (vchPubKey, vchCryptedSecret) \<Rightarrow>
             (case DecryptSecret L (vMasterKey ks) vchCryptedSecret (CPubKey_GetHash L vchPubKey) of
                None \<Rightarrow> (Some False, keyOut)
              | Some vchSecret \<Rightarrow>
                  if length vchSecret \<noteq> 32 then (Some False, keyOut)
                  else
                    (let keyOut' = snd (SetPubKey L keyOut vchPubKey)
                     in case SetSecret keyOut' vchSecret False of
                          None \<Rightarrow> (None, keyOut')
                        | Some k \<Rightarrow> (Some True, k)))))"

definition Crypto_GetPubKey :: "openssl \<Rightarrow> CCryptoKeyStore \<Rightarrow> CKeyID \<Rightarrow> CPubKey option" where
  "Crypto_GetPubKey L ks address =
     (if \<not> IsCrypted ks then KeyStore_GetPubKey L (GetKey L ks) address
      else map_option fst (map_of (mapCryptedKeys ks) address))"

definition GetKeys :: "CCryptoKeyStore \<Rightarrow> CKeyID list" where
  "GetKeys ks = (if \<not> IsCrypted ks then Basic_GetKeys ks else map fst (mapCryptedKeys ks))"

text \<open>The loop of \<open>EncryptKeys\<close> over the plain keys; the flag is already set when it starts.\<close>

fun EncryptKeys_loop ::
  "openssl \<Rightarrow> CKeyingMaterial \<Rightarrow> (CKeyID \<times> CSecret \<times> bool) list \<Rightarrow> CCryptoKeyStore \<Rightarrow>
     bool option \<times> CCryptoKeyStore" where
  "EncryptKeys_loop L vMasterKeyIn [] ks = (Some True, ks)"
| "EncryptKeys_loop L vMasterKeyIn ((_, secret, fCompr) # rest) ks =
     (case SetSecret CKey_new secret fCompr of
        None \<Rightarrow> (None, ks)
      | Some key \<Rightarrow>
          (case (GetPubKey L key, GetSecret key) of
             (Some vchPubKey, Some (sec, _)) \<Rightarrow>
               (case EncryptSecret L vMasterKeyIn sec (CPubKey_GetHash L vchPubKey) of
                  None \<Rightarrow> (Some False, ks)
                | Some vchCryptedSecret \<Rightarrow>
                    (case AddCryptedKey L vchPubKey vchCryptedSecret ks of
                       (ok, ks') \<Rightarrow>
                         if \<not> ok then (Some False, ks')
                         else EncryptKeys_loop L vMasterKeyIn rest ks'))
           | _ \<Rightarrow> (None, ks)))"

definition EncryptKeys ::
  "openssl \<Rightarrow> CKeyingMaterial \<Rightarrow> CCryptoKeyStore \<Rightarrow> bool option \<times> CCryptoKeyStore" where
  "EncryptKeys L vMasterKeyIn ks =
     (if mapCryptedKeys ks \<noteq> [] \<or> IsCrypted ks then (Some False, ks)
      else
        (case EncryptKeys_loop L vMasterKeyIn (mapKeys ks) (ks\<lparr>fUseCrypto := True\<rparr>) of
           (Some True, ks') \<Rightarrow> (Some True, ks'\<lparr>mapKeys := []\<rparr>)
         | (r, ks') \<Rightarrow> (r, ks')))"

section \<open>Well-formed stores\<close>

text \<open>
  Plain keys are stored under the hash of the public key of their secret and flag, scripts under
  their own hash, encrypted keys under the hash of their public key; and the comment of the header
  holds: with encryption no plain keys, without it no master key (and no encrypted keys).
\<close>

definition basic_wf :: "openssl \<Rightarrow> 'a CBasicKeyStore_scheme \<Rightarrow> bool" where
  "basic_wf L ks \<longleftrightarrow> sorted_map (mapKeys ks) \<and> sorted_map (mapScripts ks) \<and>
     (\<forall>(a, s, c) \<in> set (mapKeys ks). length s = 32 \<and> a = Hash160 L (EC_public L s c)) \<and>
     (\<forall>(h, s) \<in> set (mapScripts ks). h = Hash160 L s)"

definition crypto_wf :: "openssl \<Rightarrow> CCryptoKeyStore \<Rightarrow> bool" where
  "crypto_wf L ks \<longleftrightarrow> basic_wf L ks \<and> sorted_map (mapCryptedKeys ks) \<and>
     (\<forall>(a, p, e) \<in> set (mapCryptedKeys ks). a = Hash160 L p) \<and>
     (if fUseCrypto ks then mapKeys ks = [] else vMasterKey ks = [] \<and> mapCryptedKeys ks = [])"

text \<open>A key as \<open>SetSecret\<close> makes it, with the flag and the conversion form in step.\<close>

definition good_key :: "CKey \<Rightarrow> bool" where
  "good_key k \<longleftrightarrow> (\<exists>s c. SetSecret CKey_new s c = Some k)"

lemma good_keyD:
  assumes "good_key k"
  obtains s c where "length s = 32" and "GetSecret k = Some (s, c)"
    and "GetPubKey L k = Some (EC_public L s c)"
    and "k = \<lparr>pkey = \<lparr>material = EC_sec s, conv_compressed = c\<rparr>, fSet = True, fCompressedPubKey = c\<rparr>"
  using assms by (auto simp: good_key_def SetSecret_new GetSecret_def GetPubKey_def)

lemma crypto_wf_new: "crypto_wf L CCryptoKeyStore_new"
  by (simp add: crypto_wf_def basic_wf_def CCryptoKeyStore_new_def)

lemma basic_wf_AddKey:
  "basic_wf L ks \<Longrightarrow> good_key k \<Longrightarrow> basic_wf L (snd (Basic_AddKey L k ks))"
  by (erule good_keyD [where L = L])
    (auto simp: Basic_AddKey_def basic_wf_def CPubKey_GetID_def sorted_map_put
      dest!: set_map_put [THEN subsetD])

lemma basic_wf_AddCScript: "basic_wf L ks \<Longrightarrow> basic_wf L (snd (AddCScript L s ks))"
  by (auto simp: AddCScript_def basic_wf_def CScript_GetID_def sorted_map_put
      dest!: set_map_put [THEN subsetD])

lemma crypto_wf_AddCScript: "crypto_wf L ks \<Longrightarrow> crypto_wf L (snd (AddCScript L s ks))"
  using basic_wf_AddCScript [of L ks s] by (simp add: crypto_wf_def AddCScript_def)

lemma crypto_wf_SetCrypted: "crypto_wf L ks \<Longrightarrow> crypto_wf L (snd (SetCrypted ks))"
  by (auto simp: SetCrypted_def crypto_wf_def basic_wf_def)

lemma SetCrypted_True:
  "SetCrypted ks = (True, ks') \<Longrightarrow> crypto_wf L ks \<Longrightarrow> crypto_wf L ks' \<and> fUseCrypto ks'"
  using crypto_wf_SetCrypted [of L ks] by (auto simp: SetCrypted_def split: if_splits)

lemma crypto_wf_MasterKey:
  "crypto_wf L ks \<Longrightarrow> fUseCrypto ks \<Longrightarrow> crypto_wf L (ks\<lparr>vMasterKey := mk\<rparr>)"
  by (simp add: crypto_wf_def basic_wf_def)

lemma crypto_wf_MintOnly: "crypto_wf L (ks\<lparr>fWalletUnlockMintOnly := b\<rparr>) = crypto_wf L ks"
  by (simp add: crypto_wf_def basic_wf_def)

lemma crypto_wf_Lock: "crypto_wf L ks \<Longrightarrow> crypto_wf L (snd (Lock ks))"
proof -
  assume wf: "crypto_wf L ks"
  obtain ok ks' where s: "SetCrypted ks = (ok, ks')" by fastforce
  show ?thesis
  proof (cases ok)
    case True
    with s SetCrypted_True [OF _ wf] have "crypto_wf L ks'" "fUseCrypto ks'" by auto
    then have "crypto_wf L (ks'\<lparr>vMasterKey := [], fWalletUnlockMintOnly := False\<rparr>)"
      by (simp add: crypto_wf_MintOnly crypto_wf_MasterKey)
    with s True show ?thesis by (simp add: Lock_def)
  next
    case False
    with s crypto_wf_SetCrypted [OF wf] show ?thesis by (simp add: Lock_def)
  qed
qed

lemma crypto_wf_Unlock: "crypto_wf L ks \<Longrightarrow> crypto_wf L (snd (Unlock L mk ks))"
proof -
  assume wf: "crypto_wf L ks"
  obtain ok ks' where s: "SetCrypted ks = (ok, ks')" by fastforce
  have w: "crypto_wf L ks'" using crypto_wf_SetCrypted [OF wf] s by simp
  have "snd (Unlock L mk ks) = ks' \<or> ok \<and> snd (Unlock L mk ks) = ks'\<lparr>vMasterKey := mk\<rparr>"
    by (auto simp: Unlock_def s split: list.split option.split)
  moreover have "crypto_wf L (ks'\<lparr>vMasterKey := mk\<rparr>)" if ok
    using crypto_wf_MasterKey [OF w] SetCrypted_True [OF _ wf] s that by simp
  ultimately show ?thesis using w by auto
qed

lemma crypto_wf_AddCryptedKey:
  "crypto_wf L ks \<Longrightarrow> crypto_wf L (snd (AddCryptedKey L p e ks))"
proof -
  assume wf: "crypto_wf L ks"
  obtain ok ks' where s: "SetCrypted ks = (ok, ks')" by fastforce
  have w: "crypto_wf L ks'" using crypto_wf_SetCrypted [OF wf] s by simp
  show ?thesis
  proof (cases ok)
    case True
    with s SetCrypted_True [OF _ wf] have "fUseCrypto ks'" by auto
    with w True s show ?thesis
      by (auto simp: AddCryptedKey_def crypto_wf_def basic_wf_def CPubKey_GetID_def sorted_map_put
          dest!: set_map_put [THEN subsetD])
  qed (simp add: AddCryptedKey_def s w)
qed

lemma crypto_wf_Basic_AddKey:
  assumes "crypto_wf L ks" and "good_key k" and "\<not> fUseCrypto ks"
  shows "crypto_wf L (snd (Basic_AddKey L k ks))"
  using assms basic_wf_AddKey [of L ks k]
  by (auto simp: crypto_wf_def Basic_AddKey_def split: option.splits)

lemma crypto_wf_AddKey:
  assumes "crypto_wf L ks" and "good_key k"
  shows "crypto_wf L (snd (AddKey L k ks))"
proof (cases "IsCrypted ks")
  case False
  with crypto_wf_Basic_AddKey [OF assms] show ?thesis by (simp add: AddKey_def IsCrypted_def)
next
  case True
  have "snd (AddKey L k ks) = ks \<or> (\<exists>p e. snd (AddKey L k ks) = snd (AddCryptedKey L p e ks))"
    using True by (auto simp: AddKey_def split: option.splits prod.splits) (metis snd_conv)
  with assms(1) crypto_wf_AddCryptedKey [OF assms(1)] show ?thesis by auto
qed

section \<open>Encrypting the store\<close>

lemma AddCryptedKey_crypted:
  "fUseCrypto ks \<Longrightarrow> AddCryptedKey L p e ks =
     (True, ks\<lparr>mapCryptedKeys := map_put (Hash160 L p) (p, e) (mapCryptedKeys ks)\<rparr>)"
  by (simp add: AddCryptedKey_def SetCrypted_def CPubKey_GetID_def)

definition keys_ok :: "openssl \<Rightarrow> (CKeyID \<times> CSecret \<times> bool) list \<Rightarrow> bool" where
  "keys_ok L keys \<longleftrightarrow> distinct (map fst keys) \<and>
     (\<forall>(a, s, c) \<in> set keys. length s = 32 \<and> a = Hash160 L (EC_public L s c))"

text \<open>What the loop leaves: every plain key encrypted under the master key, the rest as it was.\<close>

definition encrypted_from ::
  "openssl \<Rightarrow> CKeyingMaterial \<Rightarrow> (CKeyID \<times> CSecret \<times> bool) list \<Rightarrow> CCryptoKeyStore \<Rightarrow> CCryptoKeyStore \<Rightarrow> bool"
  where
  "encrypted_from L mk keys ks ks' \<longleftrightarrow>
     mapKeys ks' = mapKeys ks \<and> mapScripts ks' = mapScripts ks \<and> vMasterKey ks' = vMasterKey ks \<and>
     fUseCrypto ks' = fUseCrypto ks \<and> sorted_map (mapCryptedKeys ks') \<and>
     (\<forall>a. map_of keys a = None \<longrightarrow>
        map_of (mapCryptedKeys ks') a = map_of (mapCryptedKeys ks) a) \<and>
     (\<forall>a s c. map_of keys a = Some (s, c) \<longrightarrow>
        (\<exists>e. EncryptSecret L mk s (Hash L (EC_public L s c)) = Some e \<and>
             map_of (mapCryptedKeys ks') a = Some (EC_public L s c, e)))"

lemma EncryptKeys_loop_spec:
  "EncryptKeys_loop L mk keys ks = (Some True, ks') \<Longrightarrow> keys_ok L keys \<Longrightarrow> fUseCrypto ks \<Longrightarrow>
   sorted_map (mapCryptedKeys ks) \<Longrightarrow> encrypted_from L mk keys ks ks'"
proof (induction keys arbitrary: ks)
  case Nil
  then show ?case by (simp add: encrypted_from_def)
next
  case (Cons key keys)
  obtain a s c where key: "key = (a, s, c)" by (cases key)
  from Cons.prems(2) have s: "length s = 32" and a: "a = Hash160 L (EC_public L s c)"
    and ok: "keys_ok L keys" and a_new: "a \<notin> fst ` set keys"
    by (auto simp: keys_ok_def key)
  obtain e where e: "EncryptSecret L mk s (Hash L (EC_public L s c)) = Some e"
    and l: "EncryptKeys_loop L mk keys
      (ks\<lparr>mapCryptedKeys := map_put a (EC_public L s c, e) (mapCryptedKeys ks)\<rparr>) = (Some True, ks')"
    using Cons.prems(1,3) s
    by (auto simp: key SetSecret_new [THEN iffD2] GetPubKey_def GetSecret_def CPubKey_GetHash_def
        AddCryptedKey_crypted a split: option.splits)
  from Cons.IH [OF l ok] Cons.prems(3,4) have
    "encrypted_from L mk keys (ks\<lparr>mapCryptedKeys :=
       map_put a (EC_public L s c, e) (mapCryptedKeys ks)\<rparr>) ks'"
    by (simp add: sorted_map_put)
  moreover have "map_of keys a = None" using a_new by (simp add: map_of_eq_None_iff)
  ultimately show ?case
    using e Cons.prems(4) unfolding encrypted_from_def key by (auto simp: map_of_put)
qed

lemma crypto_wf_keys_ok: "crypto_wf L ks \<Longrightarrow> keys_ok L (mapKeys ks)"
  by (auto simp: crypto_wf_def basic_wf_def keys_ok_def sorted_map_distinct)

lemma EncryptKeys_spec:
  assumes "EncryptKeys L mk ks = (Some True, ks')" and "crypto_wf L ks"
  shows "\<exists>ks1. ks' = ks1\<lparr>mapKeys := []\<rparr> \<and> \<not> fUseCrypto ks \<and> mapCryptedKeys ks = [] \<and>
    encrypted_from L mk (mapKeys ks) (ks\<lparr>fUseCrypto := True\<rparr>) ks1"
proof -
  from assms(1) obtain ks1 where c: "mapCryptedKeys ks = []" "\<not> fUseCrypto ks"
    and l: "EncryptKeys_loop L mk (mapKeys ks) (ks\<lparr>fUseCrypto := True\<rparr>) = (Some True, ks1)"
    and k: "ks' = ks1\<lparr>mapKeys := []\<rparr>"
    by (auto simp: EncryptKeys_def IsCrypted_def split: if_splits prod.splits option.splits bool.splits)
  from EncryptKeys_loop_spec [OF l crypto_wf_keys_ok [OF assms(2)]] c k show ?thesis by auto
qed

lemma crypto_wf_EncryptKeys:
  assumes "EncryptKeys L mk ks = (Some True, ks')" and wf: "crypto_wf L ks"
  shows "crypto_wf L ks'"
proof -
  from EncryptKeys_spec [OF assms] obtain ks1 where k: "ks' = ks1\<lparr>mapKeys := []\<rparr>"
    and c: "mapCryptedKeys ks = []" and e: "encrypted_from L mk (mapKeys ks) (ks\<lparr>fUseCrypto := True\<rparr>) ks1"
    by blast
  from e have k1: "mapScripts ks1 = mapScripts ks" "fUseCrypto ks1"
    and so: "sorted_map (mapCryptedKeys ks1)" by (simp_all add: encrypted_from_def)
  have "a = Hash160 L p" if "(a, p, d) \<in> set (mapCryptedKeys ks1)" for a p d
  proof -
    from that so have m: "map_of (mapCryptedKeys ks1) a = Some (p, d)" by (simp add: map_of_mem)
    with e c obtain s f where s: "map_of (mapKeys ks) a = Some (s, f)" and p: "p = EC_public L s f"
      unfolding encrypted_from_def
      by (cases "map_of (mapKeys ks) a") fastforce+
    from s have "(a, s, f) \<in> set (mapKeys ks)" by (rule map_of_SomeD)
    with wf p show ?thesis by (auto simp: crypto_wf_def basic_wf_def)
  qed
  then show ?thesis using wf so k k1 by (auto simp: crypto_wf_def basic_wf_def)
qed

text \<open>
  C14.  Every operation of the encrypted store keeps it well formed: adding a good key, a script or an
  encrypted key, locking and unlocking with any master key, and a successful \<open>EncryptKeys\<close>.
\<close>

theorem keystore_invariant:
  assumes "crypto_wf L ks" and "good_key k"
  shows "crypto_wf L (snd (AddKey L k ks)) \<and> crypto_wf L (snd (AddCScript L scr ks)) \<and>
    crypto_wf L (snd (AddCryptedKey L p e ks)) \<and> crypto_wf L (snd (Lock ks)) \<and>
    crypto_wf L (snd (Unlock L mk ks)) \<and>
    (fst (EncryptKeys L mk ks) = Some True \<longrightarrow> crypto_wf L (snd (EncryptKeys L mk ks)))"
  using assms crypto_wf_EncryptKeys [of L mk ks]
  by (auto intro: crypto_wf_AddKey crypto_wf_AddCScript crypto_wf_AddCryptedKey crypto_wf_Lock
      crypto_wf_Unlock simp: prod_eq_iff)

theorem keystore_invariant_witness:
  "crypto_wf sample_openssl (snd (AddKey sample_openssl
     (the (SetSecret CKey_new (replicate 32 7) True)) CCryptoKeyStore_new))"
proof -
  obtain k where k: "SetSecret CKey_new (replicate 32 7) True = Some k"
    by (simp add: SetSecret_def Let_def)
  then have g: "good_key k" by (auto simp: good_key_def)
  from keystore_invariant [OF crypto_wf_new g] k show ?thesis by simp
qed

lemma encrypted_none:
  assumes "encrypted_from L mk (mapKeys ks) (ks\<lparr>fUseCrypto := True\<rparr>) ks0"
    and "mapCryptedKeys ks = []" and "map_of (mapKeys ks) a = None"
  shows "map_of (mapCryptedKeys ks0) a = None"
  using assms by (simp add: encrypted_from_def)

lemma encrypted_entry:
  assumes "encrypted_from L mk (mapKeys ks) (ks\<lparr>fUseCrypto := True\<rparr>) ks0"
    and "aes_documented L" and "crypto_wf L ks" and m: "map_of (mapKeys ks) a = Some (s, f)"
  shows "\<exists>d. map_of (mapCryptedKeys ks0) a = Some (EC_public L s f, d) \<and> length s = 32 \<and>
    DecryptSecret L mk d (Hash L (EC_public L s f)) = Some s"
proof -
  from m have "(a, s, f) \<in> set (mapKeys ks)" by (rule map_of_SomeD)
  with assms(3) have "length s = 32" by (auto simp: crypto_wf_def basic_wf_def)
  with assms(1) m DecryptSecret_EncryptSecret [OF assms(2)] show ?thesis
    by (fastforce simp: encrypted_from_def)
qed

lemma public_then_secret:
  assumes "ecdsa_documented L" and "length s = 32"
  shows "SetSecret (snd (SetPubKey L CKey_new (EC_public L s f))) s False = SetSecret CKey_new s f"
    and "\<exists>key. SetSecret CKey_new s f = Some key \<and> GetPubKey L key = Some (EC_public L s f)"
proof -
  have "o2i_ECPublicKey L (EC_public L s f)" "length (EC_public L s f) = (if f then 33 else 65)"
    using assms by (auto simp: ecdsa_documented_def)
  then show "SetSecret (snd (SetPubKey L CKey_new (EC_public L s f))) s False = SetSecret CKey_new s f"
    and "\<exists>key. SetSecret CKey_new s f = Some key \<and> GetPubKey L key = Some (EC_public L s f)"
    using assms(2)
    by (auto simp: SetSecret_def SetPubKey_def CKey_new_def SetCompressedPubKey_def GetPubKey_def Let_def)
qed

lemma Unlock_encrypted:
  assumes "encrypted_from L mk (mapKeys ks) (ks\<lparr>fUseCrypto := True\<rparr>) ks0"
    and "aes_documented L" "ecdsa_documented L" "crypto_wf L ks" "mapCryptedKeys ks = []"
  shows "Unlock L mk (ks0\<lparr>mapKeys := []\<rparr>) = (Some True, ks0\<lparr>mapKeys := [], vMasterKey := mk\<rparr>)"
proof (cases "mapCryptedKeys ks0")
  case Nil
  with assms(1) show ?thesis by (simp add: Unlock_def SetCrypted_def encrypted_from_def)
next
  case (Cons x xs)
  obtain a p d where x: "x = (a, p, d)" by (cases x)
  then have m: "map_of (mapCryptedKeys ks0) a = Some (p, d)" by (simp add: Cons)
  then obtain s f where "map_of (mapKeys ks) a = Some (s, f)"
    using encrypted_none [OF assms(1,5), of a] by (cases "map_of (mapKeys ks) a") auto
  from encrypted_entry [OF assms(1,2,4) this] m have s: "p = EC_public L s f" "length s = 32"
    "DecryptSecret L mk d (Hash L (EC_public L s f)) = Some s" by auto
  from public_then_secret [OF assms(3) s(2), of f] s Cons x assms(1) show ?thesis
    by (auto simp: Unlock_def SetCrypted_def CPubKey_GetHash_def encrypted_from_def)
qed

text \<open>
  C13.  Encrypting the store and unlocking it with the same master key changes nothing for its users:
  the encrypted store is locked, the master key unlocks it, the same addresses are present, and
  every lookup yields the same key, compression included.
\<close>

theorem encrypt_unlock_roundtrip:
  assumes L: "aes_documented L" "ecdsa_documented L" and wf: "crypto_wf L ks"
    and enc: "EncryptKeys L mk ks = (Some True, ks1)"
  shows "IsLocked ks1 \<and>
    (\<exists>ks2. Unlock L mk ks1 = (Some True, ks2) \<and>
       (\<forall>a. HaveKey ks2 a = HaveKey ks a \<and> GetKey L ks2 a CKey_new = GetKey L ks a CKey_new))"
proof -
  from EncryptKeys_spec [OF enc wf] obtain ks0 where k: "ks1 = ks0\<lparr>mapKeys := []\<rparr>"
    and u: "\<not> fUseCrypto ks" and c: "mapCryptedKeys ks = []"
    and e: "encrypted_from L mk (mapKeys ks) (ks\<lparr>fUseCrypto := True\<rparr>) ks0" by blast
  have "vMasterKey ks = []" using wf u by (simp add: crypto_wf_def)
  with e have fields: "fUseCrypto ks0" "vMasterKey ks0 = []" by (simp_all add: encrypted_from_def)
  let ?k2 = "ks0\<lparr>mapKeys := [], vMasterKey := mk\<rparr>"
  have "HaveKey ?k2 a = HaveKey ks a \<and> GetKey L ?k2 a CKey_new = GetKey L ks a CKey_new" for a
  proof (cases "map_of (mapKeys ks) a")
    case None
    with encrypted_none [OF e c None] u fields show ?thesis
      by (simp add: HaveKey_def GetKey_def IsCrypted_def Basic_HaveKey_def Basic_GetKey_def)
  next
    case (Some sf)
    then obtain s f where m: "map_of (mapKeys ks) a = Some (s, f)" by (cases sf) auto
    from encrypted_entry [OF e L(1) wf this] obtain d where
      d: "map_of (mapCryptedKeys ks0) a = Some (EC_public L s f, d)" "length s = 32"
      "DecryptSecret L mk d (Hash L (EC_public L s f)) = Some s" by blast
    have r: "CKey_Reset CKey_new = CKey_new" by (simp add: CKey_Reset_def CKey_new_def)
    from public_then_secret [OF L(2) d(2), of f] d m u fields r show ?thesis
      by (auto simp: HaveKey_def GetKey_def IsCrypted_def Basic_HaveKey_def Basic_GetKey_def
          CPubKey_GetHash_def Let_def)
  qed
  with Unlock_encrypted [OF e L wf c] fields k show ?thesis by (auto simp: IsLocked_def IsCrypted_def)
qed

theorem encrypt_unlock_roundtrip_witness:
  "\<exists>ks1 ks2. EncryptKeys sample_openssl (replicate 32 1)
       (snd (AddKey sample_openssl (the (SetSecret CKey_new (replicate 32 7) True)) CCryptoKeyStore_new)) =
         (Some True, ks1) \<and> IsLocked ks1 \<and>
     Unlock sample_openssl (replicate 32 1) ks1 = (Some True, ks2)"
proof -
  obtain k where k: "SetSecret CKey_new (replicate 32 7) True = Some k"
    by (simp add: SetSecret_def Let_def)
  then have g: "good_key k" by (auto simp: good_key_def)
  let ?ks = "snd (AddKey sample_openssl k CCryptoKeyStore_new)"
  have wf: "crypto_wf sample_openssl ?ks" by (rule crypto_wf_AddKey [OF crypto_wf_new g])
  have get: "GetSecret k = Some (replicate 32 7, True)"
    "GetPubKey sample_openssl k = Some (EC_public sample_openssl (replicate 32 7) True)"
    using k by (auto simp: SetSecret_new GetSecret_def GetPubKey_def)
  have "AES256_encrypt sample_openssl = (\<lambda>k iv p. Some (k @ iv @ p))"
    by (simp add: sample_openssl_def)
  then have "fst (EncryptKeys sample_openssl (replicate 32 1) ?ks) = Some True"
    by (simp add: k get AddKey_def IsCrypted_def CCryptoKeyStore_new_def Basic_AddKey_def
        EncryptKeys_def AddCryptedKey_crypted EncryptSecret_def CCrypter_SetKey_def
        CCrypter_Encrypt_def WALLET_CRYPTO_KEY_SIZE_def)
  then obtain ks1 where e: "EncryptKeys sample_openssl (replicate 32 1) ?ks = (Some True, ks1)"
    by (metis prod.collapse)
  from encrypt_unlock_roundtrip [OF aes_documented_sample ecdsa_documented_sample wf e] e k
  show ?thesis by auto
qed

text \<open>
  A locked store gives no key and takes none: every \<open>GetKey\<close> and \<open>AddKey\<close> fails and changes
  nothing, while the addresses and public keys stay visible.
\<close>

theorem locked_store_gives_nothing:
  assumes "IsLocked ks"
  shows "GetKey L ks a k = (Some False, k) \<and> AddKey L key ks = (Some False, ks) \<and>
    HaveKey ks a = (Crypto_GetPubKey L ks a \<noteq> None)"
  using assms
  by (auto simp: IsLocked_def GetKey_def AddKey_def HaveKey_def Crypto_GetPubKey_def IsCrypted_def
      DecryptSecret_def CCrypter_SetKey_def WALLET_CRYPTO_KEY_SIZE_def split: option.split)

theorem locked_store_gives_nothing_witness:
  "GetKey sample_openssl (snd (Lock CCryptoKeyStore_new)) 5 CKey_new = (Some False, CKey_new)"
  by (subst locked_store_gives_nothing)
    (simp_all add: Lock_def SetCrypted_def IsLocked_def IsCrypted_def CCryptoKeyStore_new_def)

text \<open>
  When the encryption of a key fails, \<open>EncryptKeys\<close> returns false with the encryption flag set and
  every plain key still in memory, which the comment on \<open>fUseCrypto\<close> in the header rules out.
\<close>

theorem EncryptKeys_failure_breaks_invariant:
  assumes "EncryptKeys L mk ks = (Some False, ks')" and "\<not> fUseCrypto ks" and "mapCryptedKeys ks = []"
    and "crypto_wf L ks"
  shows "fUseCrypto ks' \<and> mapKeys ks' = mapKeys ks \<and> mapKeys ks \<noteq> [] \<and> \<not> crypto_wf L ks'"
proof -
  have loop: "fUseCrypto ks2 \<and> mapKeys ks2 = mapKeys ks1 \<and> (r = Some False \<longrightarrow> keys \<noteq> [])"
    if "EncryptKeys_loop L mk keys ks1 = (r, ks2)" "fUseCrypto ks1" for keys ks1 ks2 r
    using that
    by (induction keys arbitrary: ks1) (auto simp: AddCryptedKey_crypted split: option.splits)
  from assms(1-3) have "EncryptKeys_loop L mk (mapKeys ks) (ks\<lparr>fUseCrypto := True\<rparr>) = (Some False, ks')"
    by (auto simp: EncryptKeys_def IsCrypted_def split: prod.splits option.splits bool.splits)
  from loop [OF this] have "fUseCrypto ks'" "mapKeys ks' = mapKeys ks" "mapKeys ks \<noteq> []" by simp_all
  then show ?thesis by (simp add: crypto_wf_def)
qed

theorem EncryptKeys_failure_breaks_invariant_witness:
  "let ks = snd (AddKey sample_openssl (the (SetSecret CKey_new (replicate 32 7) True)) CCryptoKeyStore_new)
   in crypto_wf sample_openssl ks \<and> \<not> crypto_wf sample_openssl (snd (EncryptKeys sample_openssl [1] ks))"
proof -
  obtain k where k: "SetSecret CKey_new (replicate 32 7) True = Some k"
    by (simp add: SetSecret_def Let_def)
  then have g: "good_key k" by (auto simp: good_key_def)
  let ?ks = "snd (AddKey sample_openssl k CCryptoKeyStore_new)"
  have wf: "crypto_wf sample_openssl ?ks" by (rule crypto_wf_AddKey [OF crypto_wf_new g])
  have get: "GetSecret k = Some (replicate 32 7, True)"
    "GetPubKey sample_openssl k = Some (EC_public sample_openssl (replicate 32 7) True)"
    using k by (auto simp: SetSecret_new GetSecret_def GetPubKey_def)
  have f: "fst (EncryptKeys sample_openssl [1] ?ks) = Some False" "\<not> fUseCrypto ?ks"
    "mapCryptedKeys ?ks = []"
    by (simp_all add: k get AddKey_def IsCrypted_def CCryptoKeyStore_new_def Basic_AddKey_def
        EncryptKeys_def EncryptSecret_def CCrypter_SetKey_def WALLET_CRYPTO_KEY_SIZE_def)
  then obtain ks1 where e: "EncryptKeys sample_openssl [1] ?ks = (Some False, ks1)"
    by (metis prod.collapse)
  from EncryptKeys_failure_breaks_invariant [OF e f(2,3) wf] e wf k show ?thesis by simp
qed

section \<open>The interface the script layer uses\<close>

text \<open>
  The virtual functions of \<open>CKeyStore\<close> that \<open>src/src/script.cpp\<close> calls; \<open>GetKey\<close> and \<open>GetPubKey\<close> are
  always called on a fresh output key.
\<close>

record CKeyStore =
  ks_HaveKey :: "CKeyID \<Rightarrow> bool"
  ks_GetKey :: "CKeyID \<Rightarrow> CKey option"
  ks_GetPubKey :: "CKeyID \<Rightarrow> CPubKey option"
  ks_HaveCScript :: "CScriptID \<Rightarrow> bool"
  ks_GetCScript :: "CScriptID \<Rightarrow> script option"

definition got_key :: "bool option \<times> CKey \<Rightarrow> CKey option" where
  "got_key r = (case r of (Some True, k) \<Rightarrow> Some k | _ \<Rightarrow> None)"

definition basic_keystore :: "openssl \<Rightarrow> CBasicKeyStore \<Rightarrow> CKeyStore" where
  "basic_keystore L ks =
     \<lparr>ks_HaveKey = Basic_HaveKey ks,
      ks_GetKey = (\<lambda>a. got_key (Basic_GetKey ks a CKey_new)),
      ks_GetPubKey = KeyStore_GetPubKey L (Basic_GetKey ks),
      ks_HaveCScript = HaveCScript ks, ks_GetCScript = GetCScript ks\<rparr>"

definition crypto_keystore :: "openssl \<Rightarrow> CCryptoKeyStore \<Rightarrow> CKeyStore" where
  "crypto_keystore L ks =
     \<lparr>ks_HaveKey = HaveKey ks,
      ks_GetKey = (\<lambda>a. got_key (GetKey L ks a CKey_new)),
      ks_GetPubKey = Crypto_GetPubKey L ks,
      ks_HaveCScript = HaveCScript ks, ks_GetCScript = GetCScript ks\<rparr>"

text \<open>
  The contract: what a store hands out is a complete key, the address asked for is the hash of its
  public key, which is also what \<open>GetPubKey\<close> answers, and scripts are stored under their hash.
\<close>

locale keystore =
  fixes L :: openssl
    and view :: "'s \<Rightarrow> CKeyStore"
    and inv :: "'s \<Rightarrow> bool"
  assumes get_good: "inv s \<Longrightarrow> ks_GetKey (view s) a = Some k \<Longrightarrow> good_key k"
    and get_pub: "inv s \<Longrightarrow> ks_GetKey (view s) a = Some k \<Longrightarrow>
      ks_GetPubKey (view s) a = GetPubKey L k \<and> (\<exists>p. GetPubKey L k = Some p \<and> Hash160 L p = a)"
    and get_have: "inv s \<Longrightarrow> ks_GetKey (view s) a = Some k \<Longrightarrow> ks_HaveKey (view s) a"
    and script_id: "inv s \<Longrightarrow> ks_GetCScript (view s) h = Some scr \<Longrightarrow>
      Hash160 L scr = h \<and> ks_HaveCScript (view s) h"
begin

lemma get_cases:
  assumes "inv s" and "ks_GetKey (view s) a = Some k"
  obtains sec c where "length sec = 32" and "Hash160 L (EC_public L sec c) = a"
    and "GetPubKey L k = Some (EC_public L sec c)" and "ks_GetPubKey (view s) a = Some (EC_public L sec c)"
    and "k = \<lparr>pkey = \<lparr>material = EC_sec sec, conv_compressed = c\<rparr>, fSet = True, fCompressedPubKey = c\<rparr>"
proof -
  from get_good [OF assms] obtain sec c where "length sec = 32"
    and p: "GetPubKey L k = Some (EC_public L sec c)"
    and k: "k = \<lparr>pkey = \<lparr>material = EC_sec sec, conv_compressed = c\<rparr>, fSet = True, fCompressedPubKey = c\<rparr>"
    by (rule good_keyD [where L = L])
  with get_pub [OF assms] show ?thesis by (intro that [of sec c]) auto
qed

end

lemma Basic_GetKey_wf:
  assumes "basic_wf L ks" and "got_key (Basic_GetKey ks a CKey_new) = Some k"
  shows "\<exists>s c. SetSecret CKey_new s c = Some k \<and> a = Hash160 L (EC_public L s c) \<and>
    map_of (mapKeys ks) a = Some (s, c) \<and> Basic_GetKey ks a CKey_new = (Some True, k)"
proof -
  have r: "CKey_Reset CKey_new = CKey_new" by (simp add: CKey_Reset_def CKey_new_def)
  from assms(2) obtain s c where m: "map_of (mapKeys ks) a = Some (s, c)"
    and k: "SetSecret CKey_new s c = Some k"
    by (auto simp: got_key_def Basic_GetKey_def r split: option.splits)
  from m have "(a, s, c) \<in> set (mapKeys ks)" by (rule map_of_SomeD)
  with assms(1) have "a = Hash160 L (EC_public L s c)" by (auto simp: basic_wf_def)
  with m k show ?thesis by (simp add: Basic_GetKey_def r)
qed

lemma GetCScript_wf: "basic_wf L ks \<Longrightarrow> GetCScript ks h = Some scr \<Longrightarrow> Hash160 L scr = h \<and> HaveCScript ks h"
  by (auto simp: basic_wf_def GetCScript_def HaveCScript_def dest: map_of_SomeD)

interpretation basic: keystore L "basic_keystore L" "basic_wf L" for L
proof
  fix s a k assume wf: "basic_wf L s" and g: "ks_GetKey (basic_keystore L s) a = Some k"
  then obtain sec c where k: "SetSecret CKey_new sec c = Some k" "a = Hash160 L (EC_public L sec c)"
    "map_of (mapKeys s) a = Some (sec, c)" "Basic_GetKey s a CKey_new = (Some True, k)"
    using Basic_GetKey_wf [of L s a k] by (auto simp: basic_keystore_def)
  show "good_key k" using k(1) by (auto simp: good_key_def)
  show "ks_HaveKey (basic_keystore L s) a" using k(3) by (simp add: basic_keystore_def Basic_HaveKey_def)
  show "ks_GetPubKey (basic_keystore L s) a = GetPubKey L k \<and>
      (\<exists>p. GetPubKey L k = Some p \<and> Hash160 L p = a)"
    using k by (auto simp: basic_keystore_def KeyStore_GetPubKey_def SetSecret_new GetPubKey_def)
next
  fix s h scr assume "basic_wf L s" and "ks_GetCScript (basic_keystore L s) h = Some scr"
  then show "Hash160 L scr = h \<and> ks_HaveCScript (basic_keystore L s) h"
    by (simp add: basic_keystore_def GetCScript_wf)
qed

text \<open>
  The encrypted store gives what it promises when every entry that decrypts under the master key
  holds the secret of its public key.
\<close>

definition crypto_sound :: "openssl \<Rightarrow> CCryptoKeyStore \<Rightarrow> bool" where
  "crypto_sound L ks \<longleftrightarrow> crypto_wf L ks \<and>
     (\<forall>(a, p, e) \<in> set (mapCryptedKeys ks). \<forall>s. length s = 32 \<longrightarrow>
        DecryptSecret L (vMasterKey ks) e (Hash L p) = Some s \<longrightarrow>
        o2i_ECPublicKey L p \<and> p = EC_public L s (length p = 33))"

lemma SetPubKey_SetSecret:
  assumes "o2i_ECPublicKey L p" and "length s = 32"
  shows "SetSecret (snd (SetPubKey L CKey_new p)) s False = SetSecret CKey_new s (length p = 33)"
  using assms by (simp add: SetSecret_def SetPubKey_def CKey_new_def SetCompressedPubKey_def Let_def)

interpretation crypto: keystore L "crypto_keystore L" "crypto_sound L" for L
proof
  fix ks a k assume s: "crypto_sound L ks" and g: "ks_GetKey (crypto_keystore L ks) a = Some k"
  have "good_key k \<and> ks_HaveKey (crypto_keystore L ks) a \<and>
      ks_GetPubKey (crypto_keystore L ks) a = GetPubKey L k \<and>
      (\<exists>p. GetPubKey L k = Some p \<and> Hash160 L p = a)"
  proof (cases "fUseCrypto ks")
    case False
    from s have wf: "basic_wf L ks" by (simp add: crypto_sound_def crypto_wf_def)
    from g False have "got_key (Basic_GetKey ks a CKey_new) = Some k"
      by (simp add: crypto_keystore_def GetKey_def IsCrypted_def)
    from Basic_GetKey_wf [OF wf this] obtain sec c where
      k: "SetSecret CKey_new sec c = Some k" "a = Hash160 L (EC_public L sec c)"
      "map_of (mapKeys ks) a = Some (sec, c)" "Basic_GetKey ks a CKey_new = (Some True, k)" by blast
    then show ?thesis using False
      by (auto simp: crypto_keystore_def HaveKey_def IsCrypted_def Basic_HaveKey_def good_key_def
          Crypto_GetPubKey_def KeyStore_GetPubKey_def GetKey_def SetSecret_new GetPubKey_def)
  next
    case True
    from g True obtain p e sec where m: "map_of (mapCryptedKeys ks) a = Some (p, e)"
      and d: "DecryptSecret L (vMasterKey ks) e (Hash L p) = Some sec" and n: "length sec = 32"
      and k: "SetSecret (snd (SetPubKey L CKey_new p)) sec False = Some k"
      by (auto simp: crypto_keystore_def GetKey_def IsCrypted_def got_key_def CPubKey_GetHash_def
          Let_def split: option.splits if_splits bool.splits)
    from m have mem: "(a, p, e) \<in> set (mapCryptedKeys ks)" by (rule map_of_SomeD)
    with s d n have p: "o2i_ECPublicKey L p" "p = EC_public L sec (length p = 33)"
      and a: "a = Hash160 L p"
      by (auto simp: crypto_sound_def crypto_wf_def)
    from k have k': "SetSecret CKey_new sec (length p = 33) = Some k"
      by (simp add: SetPubKey_SetSecret [OF p(1) n])
    then have "GetPubKey L k = Some p"
      using p(2) by (auto simp: SetSecret_new GetPubKey_def)
    with k' a m True show ?thesis
      by (auto simp: good_key_def crypto_keystore_def HaveKey_def IsCrypted_def Crypto_GetPubKey_def)
  qed
  then show "good_key k" "ks_HaveKey (crypto_keystore L ks) a"
    "ks_GetPubKey (crypto_keystore L ks) a = GetPubKey L k \<and>
      (\<exists>p. GetPubKey L k = Some p \<and> Hash160 L p = a)" by simp_all
next
  fix s h scr assume "crypto_sound L s" and "ks_GetCScript (crypto_keystore L s) h = Some scr"
  then show "Hash160 L scr = h \<and> ks_HaveCScript (crypto_keystore L s) h"
    using GetCScript_wf [of L s h scr] by (simp add: crypto_keystore_def crypto_sound_def crypto_wf_def)
qed

end
