(* ===== verification/Signing.thy ===== *)
theory Signing
  imports Multisig Keystore
begin

text \<open>
  The parts of \<open>src/src/script.cpp\<close> that use a key store: signing (\<open>Sign1\<close>, \<open>SignN\<close>, the signing
  \<open>Solver\<close>, \<open>SignSignature\<close>), ownership (\<open>HaveKeys\<close>, \<open>IsMine\<close>, \<open>ExtractAffectedKeys\<close>) and the merging
  of partial signatures (\<open>CombineMultisig\<close>, \<open>CombineSignatures\<close>).
\<close>

section \<open>Signing\<close>

definition Sign1 ::
  "openssl \<Rightarrow> CKeyID \<Rightarrow> CKeyStore \<Rightarrow> uint256 \<Rightarrow> u32 \<Rightarrow> script \<Rightarrow> bool \<times> script" where
  "Sign1 L address ks h nHashType scriptSigRet =
     (case ks_GetKey ks address of
        None \<Rightarrow> (False, scriptSigRet)
      | Some key \<Rightarrow>
          (case CKey_Sign L key h of
             None \<Rightarrow> (False, scriptSigRet)
           | Some vchSig \<Rightarrow> (True, push_vch scriptSigRet (vchSig @ [ucast nHashType]))))"

text \<open>The loop of \<open>SignN\<close> over the public keys, until enough have signed.\<close>

fun SignN_loop ::
  "openssl \<Rightarrow> CKeyStore \<Rightarrow> uint256 \<Rightarrow> u32 \<Rightarrow> nat \<Rightarrow> valtype list \<Rightarrow> nat \<Rightarrow> script \<Rightarrow> nat \<times> script" where
  "SignN_loop L ks h nHashType nRequired [] nSigned s = (nSigned, s)"
| "SignN_loop L ks h nHashType nRequired (pubkey # pubs) nSigned s =
     (if \<not> nSigned < nRequired then (nSigned, s)
      else
        (case Sign1 L (CPubKey_GetID L pubkey) ks h nHashType s of
           (ok, s') \<Rightarrow>
             SignN_loop L ks h nHashType nRequired pubs (if ok then nSigned + 1 else nSigned) s'))"

definition SignN ::
  "openssl \<Rightarrow> valtype list \<Rightarrow> CKeyStore \<Rightarrow> uint256 \<Rightarrow> u32 \<Rightarrow> script \<Rightarrow> bool \<times> script" where
  "SignN L multisigdata ks h nHashType scriptSigRet =
     (let nRequired = unat (hd (hd multisigdata));
          pubs = take (length multisigdata - 2) (drop 1 multisigdata)
      in case SignN_loop L ks h nHashType nRequired pubs 0 scriptSigRet of
           (nSigned, s) \<Rightarrow> (nSigned = nRequired, s))"

text \<open>The signing \<open>Solver\<close>: verdict, \<open>scriptSigRet\<close> and \<open>whichTypeRet\<close>.\<close>

definition Solver_sign ::
  "openssl \<Rightarrow> CKeyStore \<Rightarrow> script \<Rightarrow> uint256 \<Rightarrow> u32 \<Rightarrow> bool \<times> script \<times> txnouttype" where
  "Solver_sign L ks spk h nHashType =
     (case Solver spk of
        (ok, whichType, vSolutions) \<Rightarrow>
          (if \<not> ok then (False, [], whichType)
           else
             (case whichType of
                TX_NONSTANDARD \<Rightarrow> (False, [], whichType)
              | TX_NULL_DATA \<Rightarrow> (False, [], whichType)
              | TX_PUBKEY \<Rightarrow>
                  (case Sign1 L (CPubKey_GetID L (vSolutions ! 0)) ks h nHashType [] of
                     (r, s) \<Rightarrow> (r, s, whichType))
              | TX_PUBKEYHASH \<Rightarrow>
                  (let keyID = uint160_of (vSolutions ! 0)
                   in case Sign1 L keyID ks h nHashType [] of
                        (r, s) \<Rightarrow>
                          (if \<not> r then (False, s, whichType)
                           else (True, push_vch s (case ks_GetPubKey ks keyID of
                                                     None \<Rightarrow> [] | Some p \<Rightarrow> p), whichType)))
              | TX_SCRIPTHASH \<Rightarrow>
                  (case ks_GetCScript ks (uint160_of (vSolutions ! 0)) of
                     None \<Rightarrow> (False, [], whichType)
                   | Some s \<Rightarrow> (True, s, whichType))
              | TX_MULTISIG \<Rightarrow>
                  (case SignN L vSolutions ks h nHashType (push_opcode [] OP_0) of
                     (r, s) \<Rightarrow> (r, s, whichType)))))"

definition set_scriptSig :: "CTransaction \<Rightarrow> nat \<Rightarrow> script \<Rightarrow> CTransaction" where
  "set_scriptSig tx nIn s = tx\<lparr>vin := (vin tx)[nIn := (vin tx ! nIn)\<lparr>scriptSig := s\<rparr>]\<rparr>"

text \<open>\<open>SignSignature\<close> changes the transaction in place; \<open>None\<close> is the failed assertion.\<close>

definition SignSignature ::
  "openssl \<Rightarrow> int \<Rightarrow> CKeyStore \<Rightarrow> script \<Rightarrow> CTransaction \<Rightarrow> nat \<Rightarrow> u32 \<Rightarrow> CSignatureCache \<Rightarrow>
     (bool \<times> CTransaction \<times> CSignatureCache) option" where
  "SignSignature L nMaxCacheSize ks fromPubKey txTo nIn nHashType cache =
     (if \<not> nIn < length (vin txTo) then None
      else
        (let h = SignatureHash L fromPubKey txTo nIn nHashType
         in case Solver_sign L ks fromPubKey h nHashType of
              (ok, s, whichType) \<Rightarrow>
                (let tx1 = set_scriptSig txTo nIn s
                 in if \<not> ok then Some (False, tx1, cache)
                    else
                      (let (fSolved, tx2) =
                             (if whichType = TX_SCRIPTHASH then
                                (let subscript = s;
                                     hash2 = SignatureHash L subscript tx1 nIn nHashType
                                 in case Solver_sign L ks subscript hash2 nHashType of
                                      (ok2, s2, subType) \<Rightarrow>
                                        (ok2 \<and> subType \<noteq> TX_SCRIPTHASH,
                                         set_scriptSig tx1 nIn (push_vch s2 subscript)))
                              else (True, tx1))
                       in if \<not> fSolved then Some (False, tx2, cache)
                          else
                            (case VerifyScript L nMaxCacheSize (scriptSig (vin tx2 ! nIn)) fromPubKey
                                    tx2 nIn True 0 cache of
                               (r, cache') \<Rightarrow> Some (r, tx2, cache'))))))"

definition SignSignature_from ::
  "openssl \<Rightarrow> int \<Rightarrow> CKeyStore \<Rightarrow> CTransaction \<Rightarrow> CTransaction \<Rightarrow> nat \<Rightarrow> u32 \<Rightarrow> CSignatureCache \<Rightarrow>
     (bool \<times> CTransaction \<times> CSignatureCache) option" where
  "SignSignature_from L nMaxCacheSize ks txFrom txTo nIn nHashType cache =
     (if \<not> nIn < length (vin txTo) then None
      else
        (let txin = vin txTo ! nIn; k = unat (op_n (prevout txin))
         in if \<not> k < length (vout txFrom) \<or> op_hash (prevout txin) \<noteq> CTransaction_GetHash L txFrom
            then None
            else SignSignature L nMaxCacheSize ks (scriptPubKey (vout txFrom ! k)) txTo nIn nHashType cache))"

section \<open>Ownership\<close>

definition HaveKeys :: "openssl \<Rightarrow> valtype list \<Rightarrow> CKeyStore \<Rightarrow> nat" where
  "HaveKeys L pubkeys ks = length (filter (\<lambda>p. ks_HaveKey ks (CPubKey_GetID L p)) pubkeys)"

definition IsMine_dest :: "CKeyStore \<Rightarrow> CTxDestination \<Rightarrow> bool" where
  "IsMine_dest ks dest =
     (case dest of
        CNoDestination \<Rightarrow> False
      | DestKeyID keyID \<Rightarrow> ks_HaveKey ks keyID
      | DestScriptID scriptID \<Rightarrow> ks_HaveCScript ks scriptID)"

text \<open>\<open>IsMine\<close> calls itself on the script of a script hash: not returning is \<open>None\<close>.\<close>

partial_function (option) IsMine :: "openssl \<Rightarrow> CKeyStore \<Rightarrow> script \<Rightarrow> bool option" where
  "IsMine L ks spk =
     (case Solver spk of
        (ok, whichType, vSolutions) \<Rightarrow>
          (if \<not> ok then Some False
           else
             (case whichType of
                TX_NONSTANDARD \<Rightarrow> Some False
              | TX_NULL_DATA \<Rightarrow> Some False
              | TX_PUBKEY \<Rightarrow> Some (ks_HaveKey ks (CPubKey_GetID L (vSolutions ! 0)))
              | TX_PUBKEYHASH \<Rightarrow> Some (ks_HaveKey ks (uint160_of (vSolutions ! 0)))
              | TX_SCRIPTHASH \<Rightarrow>
                  (case ks_GetCScript ks (uint160_of (vSolutions ! 0)) of
                     None \<Rightarrow> Some False
                   | Some subscript \<Rightarrow> IsMine L ks subscript)
              | TX_MULTISIG \<Rightarrow>
                  (let keys = take (length vSolutions - 2) (drop 1 vSolutions)
                   in Some (HaveKeys L keys ks = length keys)))))"

text \<open>
  \<open>CAffectedKeysVisitor\<close> with its accumulated keys; the recursion through script hashes again may not
  return.  The list holds the destinations still to be visited.
\<close>

partial_function (option) AffectedKeys_visit ::
  "openssl \<Rightarrow> CKeyStore \<Rightarrow> CTxDestination list \<Rightarrow> CKeyID list \<Rightarrow> CKeyID list option" where
  "AffectedKeys_visit L ks dests vKeys =
     (case dests of
        [] \<Rightarrow> Some vKeys
      | d # ds \<Rightarrow>
          (case d of
             CNoDestination \<Rightarrow> AffectedKeys_visit L ks ds vKeys
           | DestKeyID keyId \<Rightarrow>
               AffectedKeys_visit L ks ds (if ks_HaveKey ks keyId then vKeys @ [keyId] else vKeys)
           | DestScriptID scriptId \<Rightarrow>
               (case ks_GetCScript ks scriptId of
                  None \<Rightarrow> AffectedKeys_visit L ks ds vKeys
                | Some s \<Rightarrow>
                    (case ExtractDestinations L s of
                       (ok, _, vDest, _) \<Rightarrow>
                         AffectedKeys_visit L ks ((if ok then vDest else []) @ ds) vKeys))))"

definition ExtractAffectedKeys :: "openssl \<Rightarrow> CKeyStore \<Rightarrow> script \<Rightarrow> CKeyID list \<Rightarrow> CKeyID list option" where
  "ExtractAffectedKeys L ks spk vKeys =
     (case ExtractDestinations L spk of
        (ok, _, vDest, _) \<Rightarrow> AffectedKeys_visit L ks (if ok then vDest else []) vKeys)"

section \<open>Merging partial signatures\<close>

definition PushAll :: "valtype list \<Rightarrow> script" where
  "PushAll values = fold (\<lambda>v result. push_vch result v) values []"

text \<open>\<open>std::set\<close> of the non-empty signatures, in its order.\<close>

definition allsigs :: "valtype list \<Rightarrow> valtype list \<Rightarrow> valtype list" where
  "allsigs sigs1 sigs2 = fold (\<lambda>v s. if v \<noteq> [] then set_insert v s else s) (sigs1 @ sigs2) []"

text \<open>The search for the public key of one signature: the first key without signature it verifies for.\<close>

fun assign_sig ::
  "'c sigcheck \<Rightarrow> script \<Rightarrow> valtype \<Rightarrow> valtype list \<Rightarrow> (valtype \<rightharpoonup> valtype) \<Rightarrow> 'c \<Rightarrow>
     (valtype \<rightharpoonup> valtype) \<times> 'c" where
  "assign_sig chk spk sig [] sigs c = (sigs, c)"
| "assign_sig chk spk sig (pubkey # pubs) sigs c =
     (if sigs pubkey \<noteq> None then assign_sig chk spk sig pubs sigs c
      else
        (case chk c sig pubkey spk of
           (ok, c') \<Rightarrow>
             if ok then (sigs(pubkey \<mapsto> sig), c') else assign_sig chk spk sig pubs sigs c'))"

fun assign_sigs ::
  "'c sigcheck \<Rightarrow> script \<Rightarrow> valtype list \<Rightarrow> valtype list \<Rightarrow> (valtype \<rightharpoonup> valtype) \<Rightarrow> 'c \<Rightarrow>
     (valtype \<rightharpoonup> valtype) \<times> 'c" where
  "assign_sigs chk spk [] pubs sigs c = (sigs, c)"
| "assign_sigs chk spk (sig # rest) pubs sigs c =
     (case assign_sig chk spk sig pubs sigs c of
        (sigs', c') \<Rightarrow> assign_sigs chk spk rest pubs sigs' c')"

text \<open>The signatures that go into the merged script, in the order of the keys.\<close>

fun pick_sigs :: "(valtype \<rightharpoonup> valtype) \<Rightarrow> nat \<Rightarrow> valtype list \<Rightarrow> valtype list" where
  "pick_sigs sigs 0 pubs = []"
| "pick_sigs sigs (Suc k) [] = []"
| "pick_sigs sigs (Suc k) (pubkey # pubs) =
     (case sigs pubkey of
        None \<Rightarrow> pick_sigs sigs (Suc k) pubs
      | Some s \<Rightarrow> s # pick_sigs sigs k pubs)"

definition CombineMultisig ::
  "'c sigcheck \<Rightarrow> script \<Rightarrow> valtype list \<Rightarrow> valtype list \<Rightarrow> valtype list \<Rightarrow> 'c \<Rightarrow> script \<times> 'c" where
  "CombineMultisig chk spk vSolutions sigs1 sigs2 c =
     (let nSigsRequired = unat (hd (hd vSolutions));
          pubs = take (length vSolutions - 2) (drop 1 vSolutions)
      in case assign_sigs chk spk (allsigs sigs1 sigs2) pubs (\<lambda>_. None) c of
           (sigs, c') \<Rightarrow>
             (let picked = pick_sigs sigs nSigsRequired pubs;
                  result = fold (\<lambda>s r. push_vch r s) picked (push_opcode [] OP_0)
              in (fold (\<lambda>_ r. push_opcode r OP_0) [length picked..<nSigsRequired] result, c')))"

text \<open>The signature lists are stacks: \<open>back()\<close> is the last element.\<close>

function CombineSignatures_typed ::
  "'c sigcheck \<Rightarrow> script \<Rightarrow> txnouttype \<Rightarrow> valtype list \<Rightarrow> valtype list \<Rightarrow> valtype list \<Rightarrow> 'c \<Rightarrow>
     script \<times> 'c" where
  "CombineSignatures_typed chk spk txType vSolutions sigs1 sigs2 c =
     (case txType of
        TX_NONSTANDARD \<Rightarrow> (PushAll (if length sigs1 \<ge> length sigs2 then sigs1 else sigs2), c)
      | TX_NULL_DATA \<Rightarrow> (PushAll (if length sigs1 \<ge> length sigs2 then sigs1 else sigs2), c)
      | TX_PUBKEY \<Rightarrow> (PushAll (if sigs1 = [] \<or> sigs1 ! 0 = [] then sigs2 else sigs1), c)
      | TX_PUBKEYHASH \<Rightarrow> (PushAll (if sigs1 = [] \<or> sigs1 ! 0 = [] then sigs2 else sigs1), c)
      | TX_SCRIPTHASH \<Rightarrow>
          (if sigs1 = [] \<or> last sigs1 = [] then (PushAll sigs2, c)
           else if sigs2 = [] \<or> last sigs2 = [] then (PushAll sigs1, c)
           else
             (let spk2 = last sigs1
              in case Solver spk2 of
                   (_, txType2, vSolutions2) \<Rightarrow>
                     (case CombineSignatures_typed chk spk2 txType2 vSolutions2
                             (butlast sigs1) (butlast sigs2) c of
                        (result, c') \<Rightarrow> (push_vch result spk2, c'))))
      | TX_MULTISIG \<Rightarrow> CombineMultisig chk spk vSolutions sigs1 sigs2 c)"
  by pat_completeness auto
termination
  by (relation "measure (\<lambda>(_, _, _, _, sigs1, _, _). length sigs1)") auto

declare CombineSignatures_typed.simps [simp del]

text \<open>
  The scripts are evaluated against an empty transaction (checker \<open>chk0\<close>) with the verdict ignored:
  whatever is on the stack is taken.  Stacks are reversed into vectors.
\<close>

definition CombineSignatures_with ::
  "openssl \<Rightarrow> 'c sigcheck \<Rightarrow> 'c sigcheck \<Rightarrow> script \<Rightarrow> script \<Rightarrow> script \<Rightarrow> 'c \<Rightarrow> script \<times> 'c" where
  "CombineSignatures_with L chk0 chk spk scriptSig1 scriptSig2 c =
     (case Solver spk of
        (_, txType, vSolutions) \<Rightarrow>
          (case EvalScript L chk0 [] scriptSig1 c of
             (_, stack1, c1) \<Rightarrow>
               (case EvalScript L chk0 [] scriptSig2 c1 of
                  (_, stack2, c2) \<Rightarrow>
                    CombineSignatures_typed chk spk txType vSolutions (rev stack1) (rev stack2) c2)))"

definition CombineSignatures ::
  "openssl \<Rightarrow> int \<Rightarrow> u32 \<Rightarrow> script \<Rightarrow> CTransaction \<Rightarrow> nat \<Rightarrow> script \<Rightarrow> script \<Rightarrow> CSignatureCache \<Rightarrow>
     script \<times> CSignatureCache" where
  "CombineSignatures L nMaxCacheSize adjustedTime spk txTo nIn scriptSig1 scriptSig2 cache =
     CombineSignatures_with L (CheckSig L nMaxCacheSize (CTransaction_SetNull adjustedTime) 0 0)
       (CheckSig L nMaxCacheSize txTo nIn 0) spk scriptSig1 scriptSig2 cache"

section \<open>Deleting signatures from standard scripts\<close>

lemma chunks_Nil [simp]: "chunks [] = ([], [])"
  by (simp add: chunks.simps)

lemma chunks_Ok:
  "GetOp2 (c @ r) = GetOpOk opcode d r \<Longrightarrow> chunks (c @ r) = (c # fst (chunks r), snd (chunks r))"
  by (simp add: chunks.simps [of "c @ r"] split: prod.splits)

lemma chunks_op: "unat b > OP_PUSHDATA4 \<Longrightarrow> chunks (b # r) = ([b] # fst (chunks r), snd (chunks r))"
  using chunks_Ok [of "[b]" r] GetOp2_opcode [of b r] by simp

lemma chunks_push: "length d < 2 ^ 32 \<Longrightarrow>
    chunks (push_data d @ r) = (push_data d # fst (chunks r), snd (chunks r))"
  by (rule chunks_Ok) (rule GetOp2_push_data)

lemma FindAndDelete_absent:
  assumes "length sig < 2 ^ 32" and "push_data sig \<notin> set (fst (chunks s))"
  shows "FindAndDelete s (push_data sig) = (s, 0)"
proof -
  have "filter (\<lambda>c. c \<noteq> push_data sig) (fst (chunks s)) = fst (chunks s)"
    "filter (\<lambda>c. c = push_data sig) (fst (chunks s)) = []"
    using assms(2) by (auto simp: filter_id_conv filter_empty_conv)
  then show ?thesis
    using FindAndDelete_loop_chunks [OF op_encoding_push_data [OF assms(1)], of s] concat_chunks [of s]
    by (simp add: FindAndDelete_def)
qed

lemma push_data_inject_length: "length a \<noteq> length b \<Longrightarrow> length a < 76 \<Longrightarrow> length b < 76 \<Longrightarrow>
    push_data a \<noteq> push_data b"
  by (auto simp: push_data_def)

lemma push_data_not_op: "unat b > OP_PUSHDATA4 \<Longrightarrow> push_data d \<noteq> [b]"
  using push_data_opcode_le [of d] by auto

lemma push_data_20: "length d \<noteq> 20 \<Longrightarrow> push_data d \<noteq> push_data (bytes160 h)"
  by (auto simp: push_data_def op_byte_def dest: arg_cong [of _ _ length])

lemma p2pkh_keeps_sig:
  assumes "length sig \<noteq> 20" and "length sig < 2 ^ 32"
  shows "FindAndDelete (p2pkh_script h) (push_data sig) = (p2pkh_script h, 0)"
  using assms
  by (intro FindAndDelete_absent)
    (auto simp: p2pkh_script_def chunks_op chunks_push unat_op_byte push_data_not_op push_data_20
      chunks_op [of _ "[]", simplified])

section \<open>Signing completes\<close>

lemma ucast_hash_type: "unat ht < 256 \<Longrightarrow> ucast (ucast (ht :: u32) :: byte) = ht"
  by (simp add: word_unat_eq_iff unsigned_ucast_eq unsigned_take_bit_eq take_bit_nat_eq_self)

lemma SignatureHash_set_scriptSig:
  assumes "nIn < length (vin tx)"
  shows "SignatureHash L code (set_scriptSig tx nIn s) nIn ht = SignatureHash L code tx nIn ht"
proof (rule SignatureHash_scriptSigs)
  have "(map (\<lambda>i. i\<lparr>scriptSig := []\<rparr>) (vin tx))[nIn := (vin tx ! nIn)\<lparr>scriptSig := []\<rparr>] =
      map (\<lambda>i. i\<lparr>scriptSig := []\<rparr>) (vin tx)"
    using assms by (metis list_update_id nth_map)
  then show "map (\<lambda>i. i\<lparr>scriptSig := []\<rparr>) (vin (set_scriptSig tx nIn s)) =
      map (\<lambda>i. i\<lparr>scriptSig := []\<rparr>) (vin tx)"
    by (simp add: set_scriptSig_def map_update)
qed (simp add: set_scriptSig_def)

context keystore
begin

lemma sign_p2pkh:
  assumes L: "ecdsa_documented L" and ks: "inv ks" "ks_GetKey (view ks) h = Some key"
    and nIn: "nIn < length (vin tx)" and ht: "unat ht < 256"
    and sign: "CKey_Sign L key (SignatureHash L (p2pkh_script h) tx nIn ht) = Some sig"
    and len: "length sig \<noteq> 19" "length sig < 520" and cache: "cache_inv L cache"
  shows "\<exists>tx' cache'. SignSignature L nMax (view ks) (p2pkh_script h) tx nIn ht cache =
    Some (True, tx', cache') \<and> cache_inv L cache'"
proof -
  from get_cases [OF ks] obtain sec c where k: "length sec = 32" "Hash160 L (EC_public L sec c) = h"
    "ks_GetPubKey (view ks) h = Some (EC_public L sec c)"
    "key = \<lparr>pkey = \<lparr>material = EC_sec sec, conv_compressed = c\<rparr>, fSet = True, fCompressedPubKey = c\<rparr>" .
  let ?sig = "sig @ [ucast ht]" and ?pub = "EC_public L sec c"
  let ?s = "push_data ?sig @ push_data ?pub"
  let ?tx = "set_scriptSig tx nIn ?s"
  let ?h = "SignatureHash L (p2pkh_script h) tx nIn ht"
  have solve: "Solver_sign L (view ks) (p2pkh_script h) ?h ht = (True, ?s, TX_PUBKEYHASH)"
    using k ks(2) sign
    by (simp add: Solver_sign_def Solver_p2pkh uint160_of_def Sign1_def push_vch_def Let_def)
  have pub: "o2i_ECPublicKey L ?pub" "length ?pub \<le> 65"
    and ver: "ECDSA_verify L ?pub (bytes256 ?h) sig = 1"
    using L k(1,4) sign by (auto simp: ecdsa_documented_def CKey_Sign_def)
  have "sig_valid L ?tx nIn 0 ?sig ?pub (p2pkh_script h)"
    using pub ver ht nIn
    by (simp add: sig_valid_def ecdsa_valid_def ucast_hash_type SignatureHash_set_scriptSig)
  then have "script_ok L (sig_valid L ?tx nIn 0) ?s (p2pkh_script h) True"
    using len pub(2) k(2) by (subst verify_p2pkh_iff) (simp_all add: p2pkh_keeps_sig)
  with VerifyScript_cached [OF cache, of nMax ?s "p2pkh_script h" ?tx nIn True 0]
  obtain cache' where v: "VerifyScript L nMax ?s (p2pkh_script h) ?tx nIn True 0 cache = (True, cache')"
    and ci: "cache_inv L cache'"
    by (metis prod.collapse)
  have "scriptSig (vin ?tx ! nIn) = ?s" using nIn by (simp add: set_scriptSig_def)
  with solve v ci nIn show ?thesis by (simp add: SignSignature_def Let_def)
qed

end

text \<open>A key and a store that holds it, to instantiate the theorem.\<close>

definition sample_key :: CKey where
  "sample_key = \<lparr>pkey = \<lparr>material = EC_sec (replicate 32 7), conv_compressed = True\<rparr>, fSet = True,
     fCompressedPubKey = True\<rparr>"

definition sample_store :: CCryptoKeyStore where
  "sample_store = snd (AddKey sample_openssl sample_key CCryptoKeyStore_new)"

lemma sample_key: "SetSecret CKey_new (replicate 32 7) True = Some sample_key"
  by (simp add: SetSecret_new sample_key_def)

lemma CKey_Reset_new: "CKey_Reset CKey_new = CKey_new"
  by (simp add: CKey_Reset_def CKey_new_def)

lemma sample_store:
  "crypto_sound sample_openssl sample_store"
  "ks_GetKey (crypto_keystore sample_openssl sample_store)
     (Hash160 sample_openssl (EC_public sample_openssl (replicate 32 7) True)) = Some sample_key"
proof -
  have "good_key sample_key" using sample_key by (auto simp: good_key_def)
  then have "crypto_wf sample_openssl sample_store"
    unfolding sample_store_def by (intro crypto_wf_AddKey crypto_wf_new)
  have s: "sample_store = CCryptoKeyStore_new
      \<lparr>mapKeys := [(Hash160 sample_openssl (EC_public sample_openssl (replicate 32 7) True),
          replicate 32 7, True)]\<rparr>"
    by (simp add: sample_store_def AddKey_def IsCrypted_def CCryptoKeyStore_new_def Basic_AddKey_def
        sample_key_def GetPubKey_def GetSecret_def CPubKey_GetID_def)
  then show "ks_GetKey (crypto_keystore sample_openssl sample_store)
     (Hash160 sample_openssl (EC_public sample_openssl (replicate 32 7) True)) = Some sample_key"
    using sample_key unfolding s
    by (simp add: crypto_keystore_def GetKey_def IsCrypted_def Basic_GetKey_def got_key_def
        CCryptoKeyStore_new_def CKey_Reset_new)
  show "crypto_sound sample_openssl sample_store"
    using \<open>crypto_wf sample_openssl sample_store\<close> unfolding crypto_sound_def s
    by (simp add: CCryptoKeyStore_new_def)
qed

text \<open>
  C15.  Signing works: if the encrypted store yields the key of an address and the key signs, then
  \<open>SignSignature\<close> on the pay-to-public-key-hash output of the address, whose result is verified by the
  interpreter, returns true.  (A signature of exactly 19 bytes would be deleted from the script as if
  it were the hash.)
\<close>

theorem SignSignature_p2pkh:
  assumes "ecdsa_documented L" and "crypto_sound L ks"
    and "ks_GetKey (crypto_keystore L ks) h = Some key"
    and "nIn < length (vin tx)" and "unat ht < 256"
    and "CKey_Sign L key (SignatureHash L (p2pkh_script h) tx nIn ht) = Some sig"
    and "length sig \<noteq> 19" and "length sig < 520" and "cache_inv L cache"
  shows "\<exists>tx' cache'. SignSignature L nMax (crypto_keystore L ks) (p2pkh_script h) tx nIn ht cache =
    Some (True, tx', cache') \<and> cache_inv L cache'"
  using assms by (rule crypto.sign_p2pkh)

theorem SignSignature_p2pkh_witness:
  "\<exists>tx cache. SignSignature sample_openssl 10 (crypto_keystore sample_openssl sample_store)
     (p2pkh_script (Hash160 sample_openssl (EC_public sample_openssl (replicate 32 7) True)))
     \<lparr>nVersion = 1, nTime = 4, vin = [CTxIn_default], vout = [CTxOut_SetNull], nLockTime = 0\<rparr> 0 1 \<lparr>setValid = [], rand_tape = (\<lambda>_. 0), rand_pos = 0\<rparr> =
     Some (True, tx, cache)"
proof -
  have "CKey_Sign sample_openssl sample_key h = Some (replicate 32 7 @ bytes256 h)" for h
    by (simp add: CKey_Sign_def sample_key_def sample_openssl_def)
  moreover have "cache_inv sample_openssl \<lparr>setValid = [], rand_tape = (\<lambda>_. 0), rand_pos = 0\<rparr>" by (simp add: cache_inv_def)
  ultimately show ?thesis
    using SignSignature_p2pkh [OF ecdsa_documented_sample sample_store, of 0
        "\<lparr>nVersion = 1, nTime = 4, vin = [CTxIn_default], vout = [CTxOut_SetNull], nLockTime = 0\<rparr>" 1
        _ "\<lparr>setValid = [], rand_tape = (\<lambda>_. 0), rand_pos = 0\<rparr>" 10]
    by fastforce
qed

section \<open>Merging loses no signature\<close>

lemma set_allsigs: "set (allsigs sigs1 sigs2) = {s \<in> set sigs1 \<union> set sigs2. s \<noteq> []}"
proof -
  have "set (fold (\<lambda>v s. if v \<noteq> [] then set_insert v s else s) xs acc) =
      {s \<in> set xs. s \<noteq> []} \<union> set acc" for xs acc :: "valtype list"
    by (induction xs arbitrary: acc) auto
  then show ?thesis by (auto simp: allsigs_def)
qed

lemma fold_push: "fold (\<lambda>s r. push_vch r s) xs r = r @ concat (map push_data xs)"
  by (induction xs arbitrary: r) (simp_all add: push_vch_def)

lemma fold_op0: "fold (\<lambda>_ r. push_opcode r OP_0) xs r = r @ replicate (length xs) 0"
  by (induction xs arbitrary: r) (simp_all add: push_opcode_def op_byte_def)

lemma push_op0: "push_opcode [] OP_0 = [0]"
  by (simp add: push_opcode_def op_byte_def)

lemma assign_sig_spec:
  "fst (assign_sig (pure_checker ok) spk sig pubs sigs ()) =
     (case find (\<lambda>p. sigs p = None \<and> ok sig p spk) pubs of
        None \<Rightarrow> sigs | Some p \<Rightarrow> sigs(p \<mapsto> sig))"
  by (induction pubs) (auto simp: pure_checker_apply)

definition one_key :: "(valtype \<Rightarrow> valtype \<Rightarrow> script \<Rightarrow> bool) \<Rightarrow> script \<Rightarrow> valtype list \<Rightarrow> valtype list \<Rightarrow> bool" where
  "one_key ok spk sigs pubs \<longleftrightarrow>
     (\<forall>s \<in> set sigs. \<forall>p \<in> set pubs. \<forall>q \<in> set pubs. ok s p spk \<longrightarrow> ok s q spk \<longrightarrow> p = q)"

lemma assign_sigs_sound:
  "sigs' = fst (assign_sigs (pure_checker ok) spk ss pubs sigs ()) \<Longrightarrow> sigs' p = Some s \<Longrightarrow>
     sigs p = Some s \<or> p \<in> set pubs \<and> s \<in> set ss \<and> ok s p spk"
proof (induction ss arbitrary: sigs)
  case (Cons x ss)
  let ?sigs = "fst (assign_sig (pure_checker ok) spk x pubs sigs ())"
  have "sigs' = fst (assign_sigs (pure_checker ok) spk ss pubs ?sigs ())"
    using Cons.prems(1) by (simp split: prod.splits)
  from Cons.IH [OF this Cons.prems(2)] show ?case
    by (auto simp: assign_sig_spec find_Some_iff split: option.splits if_splits)
qed simp

lemma assign_sigs_keeps:
  "sigs p \<noteq> None \<Longrightarrow> fst (assign_sigs (pure_checker ok) spk ss pubs sigs ()) p \<noteq> None"
proof (induction ss arbitrary: sigs)
  case (Cons x ss)
  let ?sigs = "fst (assign_sig (pure_checker ok) spk x pubs sigs ())"
  have "?sigs p \<noteq> None" using Cons.prems by (auto simp: assign_sig_spec split: option.splits)
  with Cons.IH [of ?sigs] show ?case
    by (cases "assign_sig (pure_checker ok) spk x pubs sigs ()") simp
qed simp

lemma assign_sigs_complete:
  "one_key ok spk ss pubs \<Longrightarrow> p \<in> set pubs \<Longrightarrow> s \<in> set ss \<Longrightarrow> ok s p spk \<Longrightarrow>
     fst (assign_sigs (pure_checker ok) spk ss pubs sigs ()) p \<noteq> None"
proof (induction ss arbitrary: sigs)
  case (Cons x ss)
  let ?sigs = "fst (assign_sig (pure_checker ok) spk x pubs sigs ())"
  have step: "fst (assign_sigs (pure_checker ok) spk (x # ss) pubs sigs ()) =
      fst (assign_sigs (pure_checker ok) spk ss pubs ?sigs ())"
    by (simp split: prod.splits)
  show ?case
  proof (cases "s = x")
    case True
    have "?sigs p \<noteq> None"
    proof (cases "sigs p = None")
      case True
      with \<open>s = x\<close> Cons.prems obtain q where
        q: "find (\<lambda>p. sigs p = None \<and> ok x p spk) pubs = Some q"
        by (cases "find (\<lambda>p. sigs p = None \<and> ok x p spk) pubs") (auto simp: find_None_iff)
      then have "q \<in> set pubs" "ok x q spk" by (auto simp: find_Some_iff)
      with Cons.prems \<open>s = x\<close> have "q = p" by (auto simp: one_key_def)
      with q show ?thesis by (simp add: assign_sig_spec)
    qed (auto simp: assign_sig_spec split: option.splits)
    then show ?thesis unfolding step by (rule assign_sigs_keeps)
  next
    case False
    have "one_key ok spk ss pubs" using Cons.prems(1) by (simp add: one_key_def)
    with False Cons show ?thesis unfolding step by simp
  qed
qed simp

lemma match_sigs_skip: "match_sigs ok xs ys \<Longrightarrow> match_sigs ok xs (y # ys)"
  by (auto simp: match_sigs_def)

lemma match_sigs_take: "match_sigs ok xs ys \<Longrightarrow> ok x y \<Longrightarrow> match_sigs ok (x # xs) (y # ys)"
  by (simp add: match_sigs_Cons)

lemma pick_sigs_spec:
  "length (pick_sigs sigs k pubs) = min k (length (filter (\<lambda>p. sigs p \<noteq> None) pubs)) \<and>
   set (pick_sigs sigs k pubs) \<subseteq> ran sigs \<and>
   ((\<forall>p \<in> set pubs. \<forall>s. sigs p = Some s \<longrightarrow> ok s p) \<longrightarrow> match_sigs ok (pick_sigs sigs k pubs) pubs)"
  by (induction sigs k pubs rule: pick_sigs.induct)
    (auto simp: ranI match_sigs_skip match_sigs_take split: option.splits)

text \<open>
  Merging two partially signed multisignature inputs gives \<open>OP_0\<close>, then signatures from either
  input that match the keys in order, then \<open>OP_0\<close> for each missing one.  When every signature
  verifies for one key only, no key's signature is lost: as many are present as keys are signed for,
  up to the required number.
\<close>

theorem CombineMultisig_complete:
  assumes "one_key ok spk (sigs1 @ sigs2) pubs"
  shows "\<exists>picked. fst (CombineMultisig (pure_checker ok) spk ([m] # pubs @ [[n]]) sigs1 sigs2 ()) =
      [0] @ concat (map push_data picked) @ replicate (unat m - length picked) 0 \<and>
    set picked \<subseteq> set sigs1 \<union> set sigs2 - {[]} \<and>
    match_sigs (\<lambda>s p. ok s p spk) picked pubs \<and>
    length picked = min (unat m)
      (length (filter (\<lambda>p. \<exists>s \<in> set sigs1 \<union> set sigs2. s \<noteq> [] \<and> ok s p spk) pubs))"
proof -
  let ?all = "allsigs sigs1 sigs2"
  define sigs where "sigs = fst (assign_sigs (pure_checker ok) spk ?all pubs (\<lambda>_. None) ())"
  define picked where "picked = pick_sigs sigs (unat m) pubs"
  have one: "one_key ok spk ?all pubs" using assms by (auto simp: one_key_def set_allsigs)
  have sound: "p \<in> set pubs \<and> s \<in> set ?all \<and> ok s p spk" if "sigs p = Some s" for p s
    using assign_sigs_sound [OF sigs_def that] by simp
  have iff: "sigs p \<noteq> None \<longleftrightarrow> (\<exists>s \<in> set sigs1 \<union> set sigs2. s \<noteq> [] \<and> ok s p spk)" if "p \<in> set pubs" for p
  proof
    assume "sigs p \<noteq> None"
    then show "\<exists>s \<in> set sigs1 \<union> set sigs2. s \<noteq> [] \<and> ok s p spk"
      using sound by (auto simp: set_allsigs)
  next
    assume "\<exists>s \<in> set sigs1 \<union> set sigs2. s \<noteq> [] \<and> ok s p spk"
    then obtain s where "s \<in> set ?all" "ok s p spk" by (auto simp: set_allsigs)
    with that show "sigs p \<noteq> None" unfolding sigs_def by (intro assign_sigs_complete [OF one])
  qed
  have "ran sigs \<subseteq> set ?all" using sound by (auto simp: ran_def)
  then have "set picked \<subseteq> set sigs1 \<union> set sigs2 - {[]}"
    using pick_sigs_spec [of sigs "unat m" pubs] unfolding picked_def by (auto simp: set_allsigs)
  moreover have "match_sigs (\<lambda>s p. ok s p spk) picked pubs"
    using pick_sigs_spec [of sigs "unat m" pubs "\<lambda>s p. ok s p spk"] sound
    unfolding picked_def by blast
  moreover have "length picked = min (unat m)
      (length (filter (\<lambda>p. \<exists>s \<in> set sigs1 \<union> set sigs2. s \<noteq> [] \<and> ok s p spk) pubs))"
  proof -
    have "length picked = min (unat m) (length (filter (\<lambda>p. sigs p \<noteq> None) pubs))"
      unfolding picked_def using pick_sigs_spec by blast
    also have "filter (\<lambda>p. sigs p \<noteq> None) pubs =
        filter (\<lambda>p. \<exists>s \<in> set sigs1 \<union> set sigs2. s \<noteq> [] \<and> ok s p spk) pubs"
      by (rule filter_cong) (simp_all only: iff)
    finally show ?thesis .
  qed
  moreover have "fst (CombineMultisig (pure_checker ok) spk ([m] # pubs @ [[n]]) sigs1 sigs2 ()) =
      [0] @ concat (map push_data picked) @ replicate (unat m - length picked) 0"
    by (simp add: CombineMultisig_def Let_def fold_push fold_op0 picked_def sigs_def
        push_op0 split: prod.splits)
  ultimately show ?thesis by blast
qed

theorem CombineMultisig_complete_witness:
  "\<exists>picked. fst (CombineMultisig (pure_checker (\<lambda>s p _. s = p)) []
       ([2] # [[7], [8], [9]] @ [[3]]) [[], [9]] [[], [7]] ()) =
       [0] @ concat (map push_data picked) \<and>
     match_sigs (=) picked [[7], [8], [9]] \<and> length picked = 2"
proof -
  have "one_key (\<lambda>s p _. s = p) [] ([[], [9]] @ [[], [7]]) [[7], [8], [9]]"
    by (simp add: one_key_def)
  from CombineMultisig_complete [OF this, of 2 3] obtain picked where
    "fst (CombineMultisig (pure_checker (\<lambda>s p _. s = p)) []
       ([2] # [[7], [8], [9]] @ [[3]]) [[], [9]] [[], [7]] ()) =
       [0] @ concat (map push_data picked) @ replicate (unat (2 :: byte) - length picked) 0"
    "match_sigs (=) picked [[7], [8], [9]]" "length picked = 2"
    by auto
  then show ?thesis by (intro exI [of _ picked]) simp
qed

section \<open>IsMine returns\<close>

lemma Solver_scripthash:
  "Solver spk = (True, TX_SCRIPTHASH, sols) \<Longrightarrow>
     IsPayToScriptHash spk \<and> sols = [take 20 (drop 2 spk)]"
  by (erule Solver_cases) simp_all

lemma IsMine_ranked:
  assumes "\<And>h s. ks_GetCScript ks h = Some s \<Longrightarrow> IsPayToScriptHash s \<Longrightarrow>
    rank (uint160_of (take 20 (drop 2 s))) < (rank h :: nat)"
  shows "IsPayToScriptHash spk \<Longrightarrow> rank (uint160_of (take 20 (drop 2 spk))) \<le> n \<Longrightarrow>
    \<exists>b. IsMine L ks spk = Some b"
proof (induction n arbitrary: spk rule: less_induct)
  case (less n)
  let ?h = "uint160_of (take 20 (drop 2 spk))"
  have base: "\<exists>b. IsMine L ks s = Some b" if "\<not> IsPayToScriptHash s" for s
    using that Solver_scripthash [of s]
    by (subst IsMine.simps)
      (auto simp: Let_def split: prod.splits txnouttype.splits)
  show ?case
  proof (cases "ks_GetCScript ks ?h")
    case None
    then have "IsMine L ks spk = Some False"
      using less.prems(1) by (subst IsMine.simps) (simp add: Solver_def)
    then show ?thesis by blast
  next
    case (Some s)
    have "\<exists>b. IsMine L ks s = Some b"
    proof (cases "IsPayToScriptHash s")
      case True
      let ?k = "rank (uint160_of (take 20 (drop 2 s)))"
      have "?k < n" using assms [OF Some True] less.prems(2) by simp
      from less.IH [OF this True] show ?thesis by simp
    qed (rule base)
    then show ?thesis using Some less.prems(1) by (subst IsMine.simps) (simp add: Solver_def)
  qed
qed

text \<open>
  \<open>IsMine\<close> returns for every script as long as the stored scripts that are themselves
  pay-to-script-hash do not refer to each other in a cycle (they are hashes of each other, so a cycle
  would be a cycle of the hash function).
\<close>

theorem IsMine_returns:
  fixes rank :: "CScriptID \<Rightarrow> nat"
  assumes "\<And>h s. ks_GetCScript ks h = Some s \<Longrightarrow> IsPayToScriptHash s \<Longrightarrow>
    rank (uint160_of (take 20 (drop 2 s))) < rank h"
  shows "\<exists>b. IsMine L ks spk = Some b"
proof (cases "IsPayToScriptHash spk")
  case True
  from IsMine_ranked [of ks rank spk "rank (uint160_of (take 20 (drop 2 spk)))" L] assms True
  show ?thesis by blast
next
  case False
  with Solver_scripthash [of spk] show ?thesis
    by (subst IsMine.simps) (auto simp: Let_def split: prod.splits txnouttype.splits)
qed

theorem IsMine_returns_witness:
  "\<exists>b. IsMine sample_openssl
     (crypto_keystore sample_openssl (snd (AddCScript sample_openssl [0x51] CCryptoKeyStore_new)))
     (p2sh_script (Hash160 sample_openssl [0x51])) = Some b"
  by (rule IsMine_returns [where rank = "\<lambda>_. 0"])
    (auto simp: crypto_keystore_def GetCScript_def AddCScript_def CCryptoKeyStore_new_def
      IsPayToScriptHash_def split: if_splits)

text \<open>
  A pay-to-public-key-hash output is ours exactly when the store has the key, and the keys
  affected by it are exactly that key when the store has it.
\<close>

theorem IsMine_p2pkh:
  "IsMine L ks (p2pkh_script h) = Some (ks_HaveKey ks h) \<and>
   ExtractAffectedKeys L ks (p2pkh_script h) vKeys =
     Some (if ks_HaveKey ks h then vKeys @ [h] else vKeys)"
  by (subst IsMine.simps)
    (simp add: Solver_p2pkh uint160_of_def ExtractAffectedKeys_def ExtractDestinations_def
      ExtractDestination_def AffectedKeys_visit.simps)

end
