(* ===== verification/SignBlock.thy ===== *)
theory SignBlock
  imports Signing BlockRules_Facts
begin

text \<open>
  Signing blocks (\<open>SignBlock\<close> of \<open>src/src/main.cpp\<close>) against \<open>CheckBlockSignature\<close>.  \<open>None\<close> is the
  exception of a key that is not set, or an access past the end of the block.
\<close>

text \<open>The outputs of the coinbase in order; a signature that fails leaves an empty one behind.\<close>

fun sign_outputs :: "openssl \<Rightarrow> CKeyStore \<Rightarrow> uint256 \<Rightarrow> CTxOut list \<Rightarrow> valtype \<Rightarrow> (bool \<times> valtype) option" where
  "sign_outputs L ks h [] sig = Some (False, sig)"
| "sign_outputs L ks h (txout # outs) sig =
     (case Solver (scriptPubKey txout) of
        (ok, whichType, vSolutions) \<Rightarrow>
          (if \<not> ok then sign_outputs L ks h outs sig
           else if whichType \<noteq> TX_PUBKEY then sign_outputs L ks h outs sig
           else
             (case ks_GetKey ks (Hash160 L (vSolutions ! 0)) of
                None \<Rightarrow> sign_outputs L ks h outs sig
              | Some key \<Rightarrow>
                  (case GetPubKey L key of
                     None \<Rightarrow> None
                   | Some p \<Rightarrow>
                       if p \<noteq> vSolutions ! 0 then sign_outputs L ks h outs sig
                       else
                         (case CKey_Sign L key h of
                            None \<Rightarrow> sign_outputs L ks h outs []
                          | Some s \<Rightarrow> Some (True, s))))))"

definition SignBlock :: "openssl \<Rightarrow> sphlib \<Rightarrow> CKeyStore \<Rightarrow> CBlock \<Rightarrow> (bool \<times> CBlock) option" where
  "SignBlock L D ks b =
     (let h = CBlock_GetHash D b
      in if \<not> Block_IsProofOfStake b then
           (case vtx b of
              [] \<Rightarrow> None
            | coinbase # _ \<Rightarrow>
                map_option (\<lambda>(ok, sig). (ok, b\<lparr>vchBlockSig := sig\<rparr>)) (sign_outputs L ks h (vout coinbase) (vchBlockSig b)))
         else
           (case Solver (scriptPubKey (vout (vtx b ! 1) ! 1)) of
              (ok, whichType, vSolutions) \<Rightarrow>
                (if \<not> ok then Some (False, b)
                 else if whichType \<noteq> TX_PUBKEY then Some (False, b)
                 else
                   (case ks_GetKey ks (Hash160 L (vSolutions ! 0)) of
                      None \<Rightarrow> Some (False, b)
                    | Some key \<Rightarrow>
                        (case GetPubKey L key of
                           None \<Rightarrow> None
                         | Some p \<Rightarrow>
                             if p \<noteq> vSolutions ! 0 then Some (False, b)
                             else
                               (case CKey_Sign L key h of
                                  None \<Rightarrow> Some (False, b\<lparr>vchBlockSig := []\<rparr>)
                                | Some s \<Rightarrow> Some (True, b\<lparr>vchBlockSig := s\<rparr>)))))))"

text \<open>Every output is of a form \<open>Solver\<close> knows.\<close>

definition outputs_solved :: "CTxOut list \<Rightarrow> bool" where
  "outputs_solved outs \<longleftrightarrow> list_all (\<lambda>out. fst (Solver (scriptPubKey out))) outs"

lemma CBlock_GetHash_sig [simp]: "CBlock_GetHash D (b\<lparr>vchBlockSig := s\<rparr>) = CBlock_GetHash D b"
  by (simp add: CBlock_GetHash_def ser_header_def)

lemma Block_IsProofOfStake_sig [simp]: "Block_IsProofOfStake (b\<lparr>vchBlockSig := s\<rparr>) = Block_IsProofOfStake b"
  by (simp add: Block_IsProofOfStake_def)

context keystore
begin

lemma signed_key:
  assumes "ecdsa_documented L" and "inv s" and "ks_GetKey (view s) a = Some key" and "GetPubKey L key = Some p"
    and "CKey_Sign L key h = Some sig"
  shows "fst (SetPubKey L CKey_new p) \<and> CKey_Verify L (snd (SetPubKey L CKey_new p)) h sig"
proof -
  from get_cases [OF assms(2, 3)] obtain sec c where k: "length sec = 32" "p = EC_public L sec c"
    "key = \<lparr>pkey = \<lparr>material = EC_sec sec, conv_compressed = c\<rparr>, fSet = True, fCompressedPubKey = c\<rparr>"
    using assms(4) by (metis option.inject)
  have "o2i_ECPublicKey L p" "ECDSA_verify L p (bytes256 h) sig = 1"
    using assms(1, 5) k by (auto simp: ecdsa_documented_def CKey_Sign_def)
  then show ?thesis by (simp add: SetPubKey_def CKey_Verify_def GetPubKey_def SetCompressedPubKey_def Let_def)
qed

lemma sign_outputs_verify:
  assumes "ecdsa_documented L" and "inv s" and "outputs_solved outs" and "sign_outputs L (view s) h outs old = Some (True, sig)"
    and "sig \<noteq> []"
  shows "check_pow_signature L h sig outs"
  using assms(3, 4)
proof (induction outs arbitrary: old)
  case (Cons out outs)
  obtain whichType vSols where s: "Solver (scriptPubKey out) = (True, whichType, vSols)"
    using Cons.prems(1) by (cases "Solver (scriptPubKey out)") (simp add: outputs_solved_def)
  have outs: "outputs_solved outs" using Cons.prems(1) by (simp add: outputs_solved_def)
  obtain good k where k: "SetPubKey L CKey_new (vSols ! 0) = (good, k)" by (cases "SetPubKey L CKey_new (vSols ! 0)")
  show ?case
  proof (cases "\<exists>old'. sign_outputs L (view s) h outs old' = Some (True, sig)")
    case True
    then have "check_pow_signature L h sig outs" using Cons.IH [OF outs] by blast
    with s k assms(5) show ?thesis by (simp add: Let_def)
  next
    case False
    with Cons.prems(2) s obtain key p where "whichType = TX_PUBKEY" "ks_GetKey (view s) (Hash160 L (vSols ! 0)) = Some key"
      "GetPubKey L key = Some (vSols ! 0)" "CKey_Sign L key h = Some sig"
      by (auto split: if_splits option.splits)
    with signed_key [OF assms(1, 2)] s k assms(5) show ?thesis by force
  qed
qed simp

lemma sign_block_verifies:
  assumes "ecdsa_documented L" and "inv s" and "SignBlock L D (view s) b = Some (True, b')"
    and "CBlock_GetHash D b \<noteq> hashGenesisBlockOfficial" and "vchBlockSig b' \<noteq> []"
    and "Block_IsProofOfStake b \<or> outputs_solved (vout (vtx b ! 0))"
  shows "b' = b\<lparr>vchBlockSig := vchBlockSig b'\<rparr> \<and> CheckBlockSignature L D b'"
proof (cases "Block_IsProofOfStake b")
  case False
  then obtain coinbase txs sig where tx: "vtx b = coinbase # txs"
    and s: "sign_outputs L (view s) (CBlock_GetHash D b) (vout coinbase) (vchBlockSig b) = Some (True, sig)"
    and b': "b' = b\<lparr>vchBlockSig := sig\<rparr>"
    using assms(3) by (auto simp: SignBlock_def Let_def split: list.splits)
  have "check_pow_signature L (CBlock_GetHash D b) sig (vout coinbase)"
    using sign_outputs_verify [OF assms(1, 2) _ s] assms(5, 6) False tx b' by simp
  with False tx b' assms(4) show ?thesis by (simp add: CheckBlockSignature_def Let_def)
next
  case True
  obtain ok whichType vSols where sol: "Solver (scriptPubKey (vout (vtx b ! 1) ! 1)) = (ok, whichType, vSols)"
    by (cases "Solver (scriptPubKey (vout (vtx b ! 1) ! 1))")
  with True assms(3) obtain key sig where k: "ok" "whichType = TX_PUBKEY" "ks_GetKey (view s) (Hash160 L (vSols ! 0)) = Some key"
    "GetPubKey L key = Some (vSols ! 0)" "CKey_Sign L key (CBlock_GetHash D b) = Some sig" and b': "b' = b\<lparr>vchBlockSig := sig\<rparr>"
    by (auto simp: SignBlock_def Let_def split: if_splits option.splits)
  obtain good ck where "SetPubKey L CKey_new (vSols ! 0) = (good, ck)" by (cases "SetPubKey L CKey_new (vSols ! 0)")
  with signed_key [OF assms(1, 2) k(3, 4, 5)] sol k True b' assms(4, 5) show ?thesis
    by (simp add: CheckBlockSignature_def Let_def)
qed

end

text \<open>
  C32.  Signed blocks verify: with a sound key store, a block \<open>SignBlock\<close> signed passes \<open>CheckBlockSignature\<close>,
  and only its signature changed, if it is a proof-of-stake block or every output of its coinbase has a
  form \<open>Solver\<close> knows.  (\<open>SignBlock\<close> skips other outputs, \<open>CheckBlockSignature\<close> stops at the first one.)
\<close>

theorem SignBlock_verifies:
  assumes "ecdsa_documented L" and "crypto_sound L ks" and "SignBlock L D (crypto_keystore L ks) b = Some (True, b')"
    and "CBlock_GetHash D b \<noteq> hashGenesisBlockOfficial" and "vchBlockSig b' \<noteq> []"
    and "Block_IsProofOfStake b \<or> outputs_solved (vout (vtx b ! 0))"
  shows "b' = b\<lparr>vchBlockSig := vchBlockSig b'\<rparr> \<and> CheckBlockSignature L D b'"
  using assms by (rule crypto.sign_block_verifies)

text \<open>The coinbase of the sample block pays to the key with this secret.\<close>

definition sample_miner :: CKey where
  "sample_miner = \<lparr>pkey = \<lparr>material = EC_sec (replicate 32 2), conv_compressed = True\<rparr>, fSet = True, fCompressedPubKey = True\<rparr>"

definition sample_miner_store :: CCryptoKeyStore where
  "sample_miner_store = snd (AddKey sample_digest sample_miner CCryptoKeyStore_new)"

lemma sample_miner_secret: "SetSecret CKey_new (replicate 32 2) True = Some sample_miner"
  by (simp add: SetSecret_new sample_miner_def)

lemma sample_miner_pub: "EC_public sample_digest (replicate 32 2) True = replicate 33 2"
  by (simp add: sample_digest_def sample_openssl_def numeral_eq_Suc)

lemma sample_miner_store:
  "crypto_sound sample_digest sample_miner_store"
  "ks_GetKey (crypto_keystore sample_digest sample_miner_store) (Hash160 sample_digest (replicate 33 2)) = Some sample_miner"
proof -
  have "good_key sample_miner" using sample_miner_secret by (auto simp: good_key_def)
  then have wf: "crypto_wf sample_digest sample_miner_store"
    unfolding sample_miner_store_def by (intro crypto_wf_AddKey crypto_wf_new)
  have s: "sample_miner_store = CCryptoKeyStore_new
      \<lparr>mapKeys := [(Hash160 sample_digest (replicate 33 2), replicate 32 2, True)]\<rparr>"
    by (simp add: sample_miner_store_def AddKey_def IsCrypted_def CCryptoKeyStore_new_def Basic_AddKey_def
        sample_miner_def GetPubKey_def GetSecret_def CPubKey_GetID_def sample_miner_pub)
  then show "ks_GetKey (crypto_keystore sample_digest sample_miner_store) (Hash160 sample_digest (replicate 33 2)) = Some sample_miner"
    using sample_miner_secret unfolding s
    by (simp add: crypto_keystore_def GetKey_def IsCrypted_def Basic_GetKey_def got_key_def CCryptoKeyStore_new_def CKey_Reset_new)
  show "crypto_sound sample_digest sample_miner_store"
    using wf unfolding crypto_sound_def s by (simp add: CCryptoKeyStore_new_def)
qed

lemma sample_miner_signs:
  "SignBlock sample_digest sample_const (crypto_keystore sample_digest sample_miner_store) (sample_mined\<lparr>vchBlockSig := []\<rparr>) =
     Some (True, sample_mined)"
proof -
  have outs: "vout sample_coinbase = [vout sample_coinbase ! 0]" by (simp add: sample_coinbase_def)
  have pub: "GetPubKey sample_digest sample_miner = Some (replicate 33 2)"
    by (simp add: GetPubKey_def sample_miner_def sample_miner_pub)
  have sig: "CKey_Sign sample_digest sample_miner h = Some (replicate 32 2 @ bytes256 h)" for h
    by (simp add: CKey_Sign_def sample_miner_def sample_digest_def sample_openssl_def)
  have "sign_outputs sample_digest (crypto_keystore sample_digest sample_miner_store) 0 (vout sample_coinbase) [] =
      Some (True, replicate 32 2 @ bytes256 0)"
    by (subst outs) (simp add: sample_coinbase_solved sample_miner_store(2) pub sig)
  then show ?thesis
    by (simp add: SignBlock_def sample_block_hash sample_mined_parts)
qed

theorem SignBlock_verifies_witness: "CheckBlockSignature sample_digest sample_const sample_mined"
proof -
  have "ecdsa_documented sample_digest"
    using ecdsa_documented_sample by (simp add: ecdsa_documented_def sample_digest_def)
  moreover have "outputs_solved (vout sample_coinbase)"
    using sample_coinbase_solved by (simp add: outputs_solved_def sample_coinbase_def)
  ultimately show ?thesis
    using SignBlock_verifies [OF _ sample_miner_store(1) sample_miner_signs]
    by (simp add: sample_mined_parts sample_block_hash hashGenesisBlockOfficial_def)
qed

end
