(* ===== verification/Text.thy ===== *)
theory Text
  imports TxRules "HOL-Library.Signed_Division"
begin

text \<open>
  Text (\<open>src/src/util.cpp\<close>, \<open>util.h\<close>): amounts, hexadecimal, base 64, base 32, splitting and wildcards.  A C
  string is a list of characters; reading at or past its end gives the zero character.
\<close>

section \<open>Characters\<close>

definition isspace :: "char \<Rightarrow> bool" where
  "isspace c \<longleftrightarrow> c \<in> set [CHR 0x09, CHR 0x0A, CHR 0x0B, CHR 0x0C, CHR 0x0D, CHR 0x20]"

definition isdigit :: "char \<Rightarrow> bool" where
  "isdigit c \<longleftrightarrow> c \<in> set ''0123456789''"

definition c_str :: "string \<Rightarrow> string" where
  "c_str = takeWhile (\<lambda>c. c \<noteq> CHR 0x00)"

definition char_at :: "string \<Rightarrow> nat \<Rightarrow> char" where
  "char_at p n = (if n < length p then p ! n else CHR 0x00)"

text \<open>The position of a character in a list of characters: what the decoding tables hold.\<close>

definition index_of :: "string \<Rightarrow> char \<Rightarrow> nat option" where
  "index_of alphabet c =
     (let k = length (takeWhile (\<lambda>d. d \<noteq> c) alphabet) in if k < length alphabet then Some k else None)"

definition digit_char :: "nat \<Rightarrow> char" where
  "digit_char d = ''0123456789'' ! d"

definition digit_value :: "char \<Rightarrow> nat" where
  "digit_value c = the (index_of ''0123456789'' c)"

section \<open>Splitting\<close>

fun ParseString_from :: "string \<Rightarrow> char \<Rightarrow> string \<Rightarrow> string list" where
  "ParseString_from cur c [] = [cur]"
| "ParseString_from cur c (x # xs) = (if x = c then cur # ParseString_from [] c xs else ParseString_from (cur @ [x]) c xs)"

definition ParseString :: "string \<Rightarrow> char \<Rightarrow> string list \<Rightarrow> string list" where
  "ParseString str c v = (if str = [] then v else v @ ParseString_from [] c str)"

section \<open>Amounts\<close>

fun nat_digits :: "nat \<Rightarrow> string" where
  "nat_digits n = (if n < 10 then [digit_char n] else nat_digits (n div 10) @ [digit_char (n mod 10)])"

declare nat_digits.simps [simp del]

definition pad_zeros :: "nat \<Rightarrow> string \<Rightarrow> string" where
  "pad_zeros k s = replicate (k - length s) (CHR ''0'') @ s"

text \<open>\<open>%d\<close> and \<open>%06d\<close>.\<close>

definition print_int :: "int \<Rightarrow> string" where
  "print_int n = (if n < 0 then CHR ''-'' # nat_digits (nat (- n)) else nat_digits (nat n))"

definition print_06 :: "int \<Rightarrow> string" where
  "print_06 n = (if n < 0 then CHR ''-'' # pad_zeros 5 (nat_digits (nat (- n))) else pad_zeros 6 (nat_digits (nat n)))"

text \<open>Trimming zeros at the end, on the reversed text.\<close>

fun trim_money :: "string \<Rightarrow> string" where
  "trim_money (a # b # c # cs) = (if a = CHR ''0'' \<and> isdigit c then trim_money (b # c # cs) else a # b # c # cs)"
| "trim_money cs = cs"

definition FormatMoney :: "int \<Rightarrow> bool \<Rightarrow> string" where
  "FormatMoney n fPlus =
     (let n_abs = (if n > 0 then n else wrap64 (- n));
          str = rev (trim_money (rev (print_int (n_abs sdiv COIN) @ CHR ''.'' # print_06 (n_abs smod COIN))))
      in if n < 0 then CHR ''-'' # str else if fPlus \<and> n > 0 then CHR ''+'' # str else str)"

text \<open>The digits after the point, each worth \<open>nMult\<close>; the result is \<open>nUnits\<close> and the rest.\<close>

fun parse_units :: "int \<Rightarrow> int \<Rightarrow> string \<Rightarrow> int \<times> string" where
  "parse_units nMult nUnits [] = (nUnits, [])"
| "parse_units nMult nUnits (c # cs) =
     (if isdigit c \<and> nMult > 0 then parse_units (nMult sdiv 10) (nUnits + nMult * int (digit_value c)) cs
      else (nUnits, c # cs))"

fun parse_whole :: "string \<Rightarrow> string \<Rightarrow> (string \<times> int \<times> string) option" where
  "parse_whole strWhole [] = Some (strWhole, 0, [])"
| "parse_whole strWhole (c # cs) =
     (if c = CHR ''.'' then (case parse_units (CENT * 10) 0 cs of (nUnits, r) \<Rightarrow> Some (strWhole, nUnits, r))
      else if isspace c then Some (strWhole, 0, c # cs)
      else if \<not> isdigit c then None
      else parse_whole (strWhole @ [c]) cs)"

definition digits_value :: "string \<Rightarrow> int" where
  "digits_value s = fold (\<lambda>c n. n * 10 + int (digit_value c)) s 0"

text \<open>\<open>strtoll\<close> in base ten: blanks, a sign, digits; what follows is ignored and a value out of range is cut to it.\<close>

definition atoi64 :: "string \<Rightarrow> int" where
  "atoi64 s =
     (let t = dropWhile isspace (c_str s);
          neg = (char_at t 0 = CHR ''-'');
          v = digits_value (takeWhile isdigit (if neg \<or> char_at t 0 = CHR ''+'' then tl t else t))
      in max (- (2 ^ 63)) (min (2 ^ 63 - 1) (if neg then - v else v)))"

definition ParseMoney :: "string \<Rightarrow> int option" where
  "ParseMoney str =
     (case parse_whole [] (dropWhile isspace (c_str str)) of
        None \<Rightarrow> None
      | Some (strWhole, nUnits, rest) \<Rightarrow>
          if \<not> list_all isspace rest then None
          else if length strWhole > 10 then None
          else if nUnits < 0 \<or> nUnits > COIN then None
          else Some (wrap64 (atoi64 strWhole * COIN + nUnits)))"

section \<open>Hexadecimal\<close>

definition phexdigit :: "char \<Rightarrow> byte option" where
  "phexdigit c =
     (case index_of ''0123456789abcdef'' c of
        Some k \<Rightarrow> Some (word_of_nat k)
      | None \<Rightarrow> map_option word_of_nat (index_of ''0123456789ABCDEF'' c))"

definition IsHex :: "string \<Rightarrow> bool" where
  "IsHex str \<longleftrightarrow> list_all (\<lambda>c. phexdigit c \<noteq> None) str \<and> length str > 0 \<and> length str mod 2 = 0"

text \<open>The loop; white space is skipped before a byte, not inside it.\<close>

fun parse_hex :: "string \<Rightarrow> byte list" where
  "parse_hex [] = []"
| "parse_hex (c # cs) =
     (if isspace c then parse_hex cs
      else
        (case phexdigit c of
           None \<Rightarrow> []
         | Some h \<Rightarrow>
             (case cs of
                [] \<Rightarrow> []
              | d # ds \<Rightarrow>
                  (case phexdigit d of None \<Rightarrow> [] | Some l \<Rightarrow> (push_bit 4 h OR l) # parse_hex ds))))"

definition ParseHex :: "string \<Rightarrow> byte list" where
  "ParseHex str = parse_hex (c_str str)"

definition HexStr :: "byte list \<Rightarrow> bool \<Rightarrow> string" where
  "HexStr vch fSpaces =
     (let two = (\<lambda>b. [''0123456789abcdef'' ! unat (drop_bit 4 b), ''0123456789abcdef'' ! unat (b AND 15)])
      in if fSpaces then concat (map (\<lambda>(k, b). (if k = 0 then [] else '' '') @ two b) (enumerate 0 vch))
         else concat (map two vch))"

definition hex2long_step :: "int \<Rightarrow> char \<Rightarrow> int" where
  "hex2long_step ret c = or (push_bit 4 ret) (case phexdigit c of None \<Rightarrow> -1 | Some d \<Rightarrow> uint d)"

fun hex2long :: "int \<Rightarrow> string \<Rightarrow> int" where
  "hex2long ret [] = ret"
| "hex2long ret (c # cs) = (if ret < 0 then ret else hex2long (wrap64 (hex2long_step ret c)) cs)"

section \<open>Base 64\<close>

definition pbase64 :: string where
  "pbase64 = ''ABCDEFGHIJKLMNOPQRSTUVWXYZabcdefghijklmnopqrstuvwxyz0123456789+/''"

definition char64 :: "byte \<Rightarrow> char" where
  "char64 b = pbase64 ! unat b"

definition decode64_table :: "char \<Rightarrow> byte option" where
  "decode64_table c = map_option word_of_nat (index_of pbase64 c)"

text \<open>Everything carried from one character to the next fits a byte.\<close>

fun encode64 :: "nat \<Rightarrow> byte \<Rightarrow> byte list \<Rightarrow> string" where
  "encode64 mode left [] =
     (if mode = 0 then [] else char64 left # CHR ''='' # (if mode = 1 then ''='' else []))"
| "encode64 mode left (enc # bs) =
     (if mode = 0 then char64 (drop_bit 2 enc) # encode64 1 (push_bit 4 (enc AND 3)) bs
      else if mode = 1 then char64 (left OR drop_bit 4 enc) # encode64 2 (push_bit 2 (enc AND 15)) bs
      else char64 (left OR drop_bit 6 enc) # char64 (enc AND 63) # encode64 0 left bs)"

definition EncodeBase64 :: "byte list \<Rightarrow> string" where
  "EncodeBase64 vch = encode64 0 0 vch"

text \<open>The bytes, the mode and the bits left, and the rest of the text.\<close>

fun decode64 :: "nat \<Rightarrow> byte \<Rightarrow> string \<Rightarrow> byte list \<times> nat \<times> byte \<times> string" where
  "decode64 mode left [] = ([], mode, left, [])"
| "decode64 mode left (c # cs) =
     (case decode64_table c of
        None \<Rightarrow> ([], mode, left, c # cs)
      | Some d \<Rightarrow>
          if mode = 0 then decode64 1 d cs
          else if mode = 1 then (case decode64 2 (d AND 15) cs of (v, r) \<Rightarrow> ((push_bit 2 left OR drop_bit 4 d) # v, r))
          else if mode = 2 then (case decode64 3 (d AND 3) cs of (v, r) \<Rightarrow> ((push_bit 4 left OR drop_bit 2 d) # v, r))
          else (case decode64 0 left cs of (v, r) \<Rightarrow> ((push_bit 6 left OR d) # v, r)))"

definition invalid64 :: "nat \<times> byte \<times> string \<Rightarrow> bool" where
  "invalid64 r =
     (case r of
        (mode, left, p) \<Rightarrow>
          (if mode = 0 then False
           else if mode = 1 then True
           else if mode = 2 then
             left \<noteq> 0 \<or> char_at p 0 \<noteq> CHR ''='' \<or> char_at p 1 \<noteq> CHR ''='' \<or> decode64_table (char_at p 2) \<noteq> None
           else left \<noteq> 0 \<or> char_at p 0 \<noteq> CHR ''='' \<or> decode64_table (char_at p 1) \<noteq> None))"

text \<open>The bytes and \<open>*pfInvalid\<close>.\<close>

definition DecodeBase64 :: "string \<Rightarrow> byte list \<times> bool" where
  "DecodeBase64 str = (case decode64 0 0 (c_str str) of (v, r) \<Rightarrow> (v, invalid64 r))"

section \<open>Base 32\<close>

definition pbase32 :: string where
  "pbase32 = ''abcdefghijklmnopqrstuvwxyz234567''"

definition char32 :: "byte \<Rightarrow> char" where
  "char32 b = pbase32 ! unat b"

definition decode32_table :: "char \<Rightarrow> byte option" where
  "decode32_table c =
     map_option word_of_nat
       (case index_of pbase32 c of Some k \<Rightarrow> Some k | None \<Rightarrow> index_of ''ABCDEFGHIJKLMNOPQRSTUVWXYZ'' c)"

fun encode32 :: "nat \<Rightarrow> byte \<Rightarrow> byte list \<Rightarrow> string" where
  "encode32 mode left [] =
     (if mode = 0 then [] else char32 left # replicate ([0, 6, 4, 3, 1] ! mode) (CHR ''=''))"
| "encode32 mode left (enc # bs) =
     (if mode = 0 then char32 (drop_bit 3 enc) # encode32 1 (push_bit 2 (enc AND 7)) bs
      else if mode = 1 then
        char32 (left OR drop_bit 6 enc) # char32 (drop_bit 1 enc AND 31) # encode32 2 (push_bit 4 (enc AND 1)) bs
      else if mode = 2 then char32 (left OR drop_bit 4 enc) # encode32 3 (push_bit 1 (enc AND 15)) bs
      else if mode = 3 then
        char32 (left OR drop_bit 7 enc) # char32 (drop_bit 2 enc AND 31) # encode32 4 (push_bit 3 (enc AND 3)) bs
      else char32 (left OR drop_bit 5 enc) # char32 (enc AND 31) # encode32 0 left bs)"

definition EncodeBase32 :: "byte list \<Rightarrow> string" where
  "EncodeBase32 vch = encode32 0 0 vch"

fun decode32 :: "nat \<Rightarrow> byte \<Rightarrow> string \<Rightarrow> byte list \<times> nat \<times> byte \<times> string" where
  "decode32 mode left [] = ([], mode, left, [])"
| "decode32 mode left (c # cs) =
     (case decode32_table c of
        None \<Rightarrow> ([], mode, left, c # cs)
      | Some d \<Rightarrow>
          if mode = 0 then decode32 1 d cs
          else if mode = 1 then (case decode32 2 (d AND 3) cs of (v, r) \<Rightarrow> ((push_bit 3 left OR drop_bit 2 d) # v, r))
          else if mode = 2 then decode32 3 (push_bit 5 left OR d) cs
          else if mode = 3 then (case decode32 4 (d AND 15) cs of (v, r) \<Rightarrow> ((push_bit 1 left OR drop_bit 4 d) # v, r))
          else if mode = 4 then (case decode32 5 (d AND 1) cs of (v, r) \<Rightarrow> ((push_bit 4 left OR drop_bit 1 d) # v, r))
          else if mode = 5 then decode32 6 (push_bit 5 left OR d) cs
          else if mode = 6 then (case decode32 7 (d AND 7) cs of (v, r) \<Rightarrow> ((push_bit 2 left OR drop_bit 3 d) # v, r))
          else (case decode32 0 left cs of (v, r) \<Rightarrow> ((push_bit 5 left OR d) # v, r)))"

text \<open>What follows the digits must be \<open>k\<close> times \<open>=\<close> and then no digit.\<close>

definition bad_padding :: "byte \<Rightarrow> string \<Rightarrow> nat \<Rightarrow> bool" where
  "bad_padding left p k \<longleftrightarrow>
     left \<noteq> 0 \<or> (\<exists>i \<in> set [0..<k]. char_at p i \<noteq> CHR ''='') \<or> decode32_table (char_at p k) \<noteq> None"

definition invalid32 :: "nat \<times> byte \<times> string \<Rightarrow> bool" where
  "invalid32 r =
     (case r of
        (mode, left, p) \<Rightarrow>
          (if mode = 0 then False
           else if mode = 1 \<or> mode = 3 \<or> mode = 6 then True
           else if mode = 2 then bad_padding left p 6
           else if mode = 4 then bad_padding left p 4
           else if mode = 5 then bad_padding left p 3
           else bad_padding left p 1))"

definition DecodeBase32 :: "string \<Rightarrow> byte list \<times> bool" where
  "DecodeBase32 str = (case decode32 0 0 (c_str str) of (v, r) \<Rightarrow> (v, invalid32 r))"

section \<open>Wildcards\<close>

function WildcardMatch :: "string \<Rightarrow> string \<Rightarrow> bool" where
  "WildcardMatch psz [] = (psz = [])"
| "WildcardMatch psz (m # pat) =
     (if m = CHR ''*'' then WildcardMatch psz pat \<or> (case psz of [] \<Rightarrow> False | _ # cs \<Rightarrow> WildcardMatch cs (m # pat))
      else (case psz of [] \<Rightarrow> False | c # cs \<Rightarrow> (m = CHR ''?'' \<or> c = m) \<and> WildcardMatch cs pat))"
  by pat_completeness auto
termination by (relation "measures [\<lambda>(psz, pat). length pat, \<lambda>(psz, pat). length psz]") auto

section \<open>Decoding what was encoded\<close>

text \<open>Which bits of a byte may be set.\<close>

definition bits_in :: "nat list \<Rightarrow> byte \<Rightarrow> bool" where
  "bits_in ns w \<longleftrightarrow> (\<forall>n \<in> {0, 1, 2, 3, 4, 5, 6, 7}. bit w n \<longrightarrow> n \<in> set ns)"

lemma bits_in_less:
  assumes "bits_in ns w" and "list_all (\<lambda>n. n < k) ns"
  shows "unat w < 2 ^ k"
proof -
  have "take_bit k w = w"
  proof (rule byte_eqI)
    fix n :: nat assume n: "n \<in> {0, 1, 2, 3, 4, 5, 6, 7}"
    have "bit w n \<longrightarrow> n \<in> set ns" using assms(1) n unfolding bits_in_def by (rule bspec)
    then show "bit (take_bit k w) n = bit w n" using assms(2) by (auto simp: bit_take_bit_iff list_all_iff)
  qed
  then have "take_bit k (unat w) = unat w" by (metis unsigned_take_bit_eq)
  then show ?thesis by (metis take_bit_nat_less_exp)
qed

lemma index_of_nth: "distinct xs \<Longrightarrow> k < length xs \<Longrightarrow> index_of xs (xs ! k) = Some k"
proof -
  have "length (takeWhile (\<lambda>d. d \<noteq> xs ! k) xs) = k" if "distinct xs" "k < length xs"
    using that
  proof (induction xs arbitrary: k)
    case (Cons x xs)
    then show ?case by (cases k) auto
  qed simp
  then show "distinct xs \<Longrightarrow> k < length xs \<Longrightarrow> index_of xs (xs ! k) = Some k" by (simp add: index_of_def)
qed

lemma decode64_char: "bits_in [0, 1, 2, 3, 4, 5] w \<Longrightarrow> decode64_table (char64 w) = Some w"
proof -
  assume "bits_in [0, 1, 2, 3, 4, 5] w"
  then have "unat w < 64" using bits_in_less [of "[0, 1, 2, 3, 4, 5]" w 6] by simp
  moreover have "distinct pbase64" "length pbase64 = 64" by code_simp+
  ultimately show ?thesis using index_of_nth [of pbase64 "unat w"] by (simp add: decode64_table_def char64_def)
qed

lemma decode32_char: "bits_in [0, 1, 2, 3, 4] w \<Longrightarrow> decode32_table (char32 w) = Some w"
proof -
  assume "bits_in [0, 1, 2, 3, 4] w"
  then have "unat w < 32" using bits_in_less [of "[0, 1, 2, 3, 4]" w 5] by simp
  moreover have "distinct pbase32" "length pbase32 = 32" by code_simp+
  ultimately show ?thesis using index_of_nth [of pbase32 "unat w"] by (simp add: decode32_table_def char32_def)
qed

lemma padding_chars: "decode64_table (CHR ''='') = None" "decode32_table (CHR ''='') = None"
  "decode64_table (CHR 0x00) = None" "decode32_table (CHR 0x00) = None"
  by code_simp+

lemma byte_bit_high: "8 \<le> n \<Longrightarrow> \<not> bit (b :: byte) n"
  using bit_imp_le_length [of b n] by auto

lemma bit_times_2: "bit (w * 2 :: byte) n \<longleftrightarrow> 0 < n \<and> n < 8 \<and> bit w (n - 1)"
proof -
  have "w * 2 = push_bit 1 w" by (simp add: push_bit_eq_mult)
  then show ?thesis by (auto simp only: bit_push_bit_iff possible_bit_word Suc_le_eq One_nat_def) (simp_all add: byte_bit_high)
qed

lemmas bits = bits_in_def bit_simps byte_bit_high bit_times_2

lemma c_str_char64: "bits_in [0, 1, 2, 3, 4, 5] w \<Longrightarrow> c_str (char64 w # s) = char64 w # c_str s"
  using decode64_char [of w] padding_chars(3) by (auto simp: c_str_def)

lemma c_str_char32: "bits_in [0, 1, 2, 3, 4] w \<Longrightarrow> c_str (char32 w # s) = char32 w # c_str s"
  using decode32_char [of w] padding_chars(4) by (auto simp: c_str_def)

lemma c_str_eq [simp]: "c_str (CHR ''='' # s) = CHR ''='' # c_str s" "c_str [] = []"
  by (simp_all add: c_str_def)

text \<open>The text of \<open>bs\<close> is read to its end, gives \<open>v\<close>, and nothing is wrong with its padding.\<close>

definition reads64 :: "nat \<Rightarrow> byte \<Rightarrow> string \<Rightarrow> byte list \<Rightarrow> bool" where
  "reads64 mode x s v \<longleftrightarrow> c_str s = s \<and> fst (decode64 mode x s) = v \<and> \<not> invalid64 (snd (decode64 mode x s))"

definition reads32 :: "nat \<Rightarrow> byte \<Rightarrow> string \<Rightarrow> byte list \<Rightarrow> bool" where
  "reads32 mode x s v \<longleftrightarrow> c_str s = s \<and> fst (decode32 mode x s) = v \<and> \<not> invalid32 (snd (decode32 mode x s))"

lemma reads64_char:
  assumes "bits_in [0, 1, 2, 3, 4, 5] w"
  shows "reads64 0 x (char64 w # s) v \<longleftrightarrow> reads64 1 w s v"
    "reads64 1 x (char64 w # s) (b # v) \<longleftrightarrow> b = (push_bit 2 x OR drop_bit 4 w) \<and> reads64 2 (w AND 15) s v"
    "reads64 2 x (char64 w # s) (b # v) \<longleftrightarrow> b = (push_bit 4 x OR drop_bit 2 w) \<and> reads64 3 (w AND 3) s v"
    "reads64 3 x (char64 w # s) (b # v) \<longleftrightarrow> b = (push_bit 6 x OR w) \<and> reads64 0 x s v"
  by (auto simp: reads64_def decode64_char [OF assms] c_str_char64 [OF assms] split: prod.splits)

lemma reads64_end:
  "reads64 0 x [] v \<longleftrightarrow> v = []"
  "reads64 2 0 ''=='' []" "reads64 3 0 ''='' []"
  by (auto simp: reads64_def invalid64_def padding_chars char_at_def)

lemma encode64_reads:
  "reads64 0 x (encode64 0 l bs) bs"
  "bits_in [0, 1, 2, 3, 4, 5] x \<Longrightarrow> bits_in [4, 5] left \<Longrightarrow>
     reads64 1 x (encode64 1 left bs) ((push_bit 2 x OR drop_bit 4 left) # bs)"
  "bits_in [0, 1, 2, 3] x \<Longrightarrow> bits_in [2, 3, 4, 5] left \<Longrightarrow>
     reads64 2 x (encode64 2 left bs) ((push_bit 4 x OR drop_bit 2 left) # bs)"
proof (induction bs arbitrary: x l left)
  case Nil
  {
    case 1
    show ?case by (simp add: reads64_end)
  next
    case 2
    have "left AND 15 = 0" "bits_in [0, 1, 2, 3, 4, 5] left" using 2(2) by (auto intro!: byte_eqI simp: bits)
    then show ?case using reads64_char(2) reads64_end(2) by simp
  next
    case 3
    have "left AND 3 = 0" "bits_in [0, 1, 2, 3, 4, 5] left" using 3(2) by (auto intro!: byte_eqI simp: bits)
    then show ?case using reads64_char(3) reads64_end(3) by simp
  }
next
  case (Cons b bs)
  {
    case 1
    have c: "bits_in [0, 1, 2, 3, 4, 5] (drop_bit 2 b)" "bits_in [4, 5] (push_bit 4 (b AND 3))" by (auto simp: bits)
    have "push_bit 2 (drop_bit 2 b) OR drop_bit 4 (push_bit 4 (b AND 3)) = b"
      by (rule byte_eqI) (auto simp: bits simp flip: numeral_2_eq_2)
    with Cons.IH(2) [OF c] show ?case by (simp add: reads64_char [OF c(1), simplified])
  next
    case 2
    have c: "bits_in [0, 1, 2, 3, 4, 5] (left OR drop_bit 4 b)" "bits_in [0, 1, 2, 3] ((left OR drop_bit 4 b) AND 15)"
      "bits_in [2, 3, 4, 5] (push_bit 2 (b AND 15))" using 2 by (auto simp: bits)
    have "push_bit 4 ((left OR drop_bit 4 b) AND 15) OR drop_bit 2 (push_bit 2 (b AND 15)) = b"
      "push_bit 2 x OR drop_bit 4 (left OR drop_bit 4 b) = push_bit 2 x OR drop_bit 4 left"
      using 2 by (auto intro!: byte_eqI simp: bits)
    with Cons.IH(3) [OF c(2, 3)] show ?case by (simp add: reads64_char [OF c(1), simplified])
  next
    case 3
    have c: "bits_in [0, 1, 2, 3, 4, 5] (left OR drop_bit 6 b)" "bits_in [0, 1, 2, 3, 4, 5] (b AND 63)"
      using 3 by (auto simp: bits)
    have "push_bit 6 ((left OR drop_bit 6 b) AND 3) OR (b AND 63) = b"
      "push_bit 4 x OR drop_bit 2 (left OR drop_bit 6 b) = push_bit 4 x OR drop_bit 2 left"
      using 3 by (auto intro!: byte_eqI simp: bits)
    with Cons.IH(1) show ?case by (simp add: reads64_char [OF c(1)] reads64_char [OF c(2)])
  }
qed

lemma reads32_char:
  assumes "bits_in [0, 1, 2, 3, 4] w"
  shows "reads32 0 x (char32 w # s) v \<longleftrightarrow> reads32 1 w s v"
    "reads32 1 x (char32 w # s) (b # v) \<longleftrightarrow> b = (push_bit 3 x OR drop_bit 2 w) \<and> reads32 2 (w AND 3) s v"
    "reads32 2 x (char32 w # s) v \<longleftrightarrow> reads32 3 (push_bit 5 x OR w) s v"
    "reads32 3 x (char32 w # s) (b # v) \<longleftrightarrow> b = (push_bit 1 x OR drop_bit 4 w) \<and> reads32 4 (w AND 15) s v"
    "reads32 4 x (char32 w # s) (b # v) \<longleftrightarrow> b = (push_bit 4 x OR drop_bit 1 w) \<and> reads32 5 (w AND 1) s v"
    "reads32 5 x (char32 w # s) v \<longleftrightarrow> reads32 6 (push_bit 5 x OR w) s v"
    "reads32 6 x (char32 w # s) (b # v) \<longleftrightarrow> b = (push_bit 2 x OR drop_bit 3 w) \<and> reads32 7 (w AND 7) s v"
    "reads32 7 x (char32 w # s) (b # v) \<longleftrightarrow> b = (push_bit 5 x OR w) \<and> reads32 0 x s v"
  by (auto simp: reads32_def decode32_char [OF assms] c_str_char32 [OF assms] split: prod.splits)

lemma reads32_end:
  "reads32 0 x [] v \<longleftrightarrow> v = []"
  "reads32 2 0 ''======'' []" "reads32 4 0 ''===='' []" "reads32 5 0 ''==='' []" "reads32 7 0 ''='' []"
  by (auto simp: reads32_def invalid32_def bad_padding_def padding_chars char_at_def upt_rec numeral_eq_Suc)

lemma encode32_reads:
  "reads32 0 x (encode32 0 l bs) bs"
  "bits_in [0, 1, 2, 3, 4] x \<Longrightarrow> bits_in [2, 3, 4] left \<Longrightarrow>
     reads32 1 x (encode32 1 left bs) ((push_bit 3 x OR drop_bit 2 left) # bs)"
  "bits_in [0, 1, 2, 3, 4, 5, 6] x \<Longrightarrow> bits_in [4] left \<Longrightarrow>
     reads32 3 x (encode32 2 left bs) ((push_bit 1 x OR drop_bit 4 left) # bs)"
  "bits_in [0, 1, 2, 3] x \<Longrightarrow> bits_in [1, 2, 3, 4] left \<Longrightarrow>
     reads32 4 x (encode32 3 left bs) ((push_bit 4 x OR drop_bit 1 left) # bs)"
  "bits_in [0, 1, 2, 3, 4, 5] x \<Longrightarrow> bits_in [3, 4] left \<Longrightarrow>
     reads32 6 x (encode32 4 left bs) ((push_bit 2 x OR drop_bit 3 left) # bs)"
proof (induction bs arbitrary: x l left)
  case Nil
  {
    case 1
    show ?case by (simp add: reads32_end)
  next
    case 2
    have "left AND 3 = 0" "bits_in [0, 1, 2, 3, 4] left" using 2(2) by (auto intro!: byte_eqI simp: bits)
    then show ?case using reads32_char(2) reads32_end(2) by (simp add: numeral_eq_Suc)
  next
    case 3
    have "left AND 15 = 0" "bits_in [0, 1, 2, 3, 4] left" using 3(2) by (auto intro!: byte_eqI simp: bits)
    then show ?case using reads32_char(4) reads32_end(3) by (simp add: numeral_eq_Suc)
  next
    case 4
    have "left AND 1 = 0" "bits_in [0, 1, 2, 3, 4] left" using 4(2) by (auto intro!: byte_eqI simp: bits)
    then show ?case using reads32_char(5) reads32_end(4) by (simp add: numeral_eq_Suc)
  next
    case 5
    have "left AND 7 = 0" "bits_in [0, 1, 2, 3, 4] left" using 5(2) by (auto intro!: byte_eqI simp: bits)
    then show ?case using reads32_char(7) reads32_end(5) by (simp add: numeral_eq_Suc)
  }
next
  case (Cons b bs)
  {
    case 1
    have c: "bits_in [0, 1, 2, 3, 4] (drop_bit 3 b)" "bits_in [2, 3, 4] (push_bit 2 (b AND 7))" by (auto simp: bits)
    have "push_bit 3 (drop_bit 3 b) OR drop_bit 2 (push_bit 2 (b AND 7)) = b"
      by (rule byte_eqI) (auto simp: bits simp flip: numeral_2_eq_2)
    with Cons.IH(2) [OF c] show ?case by (simp add: reads32_char [OF c(1), simplified])
  next
    case 2
    let ?w = "left OR drop_bit 6 b" and ?d = "drop_bit 1 b AND 31"
    have c: "bits_in [0, 1, 2, 3, 4] ?w" "bits_in [0, 1, 2, 3, 4] ?d"
      "bits_in [0, 1, 2, 3, 4, 5, 6] (push_bit 5 (?w AND 3) OR ?d)" "bits_in [4] (push_bit 4 (b AND 1))"
      using 2 by (auto simp: bits)
    have "push_bit 1 (push_bit 5 (?w AND 3) OR ?d) OR drop_bit 4 (push_bit 4 (b AND 1)) = b"
      "push_bit 3 x OR drop_bit 2 ?w = push_bit 3 x OR drop_bit 2 left"
      using 2 by (auto intro!: byte_eqI simp: bits simp flip: numeral_2_eq_2 numeral_3_eq_3)
    with Cons.IH(3) [OF c(3, 4)] show ?case by (simp add: reads32_char [OF c(1), simplified] reads32_char [OF c(2), simplified])
  next
    case 3
    let ?w = "left OR drop_bit 4 b"
    have c: "bits_in [0, 1, 2, 3, 4] ?w" "bits_in [0, 1, 2, 3] (?w AND 15)"
      "bits_in [1, 2, 3, 4] (push_bit 1 (b AND 15))" using 3 by (auto simp: bits)
    have "push_bit 4 (?w AND 15) OR drop_bit 1 (push_bit 1 (b AND 15)) = b"
      "push_bit 1 x OR drop_bit 4 ?w = push_bit 1 x OR drop_bit 4 left"
      using 3 by (auto intro!: byte_eqI simp: bits simp flip: numeral_2_eq_2 numeral_3_eq_3)
    with Cons.IH(4) [OF c(2, 3)] show ?case by (simp add: reads32_char [OF c(1), simplified])
  next
    case 4
    let ?w = "left OR drop_bit 7 b" and ?d = "drop_bit 2 b AND 31"
    have c: "bits_in [0, 1, 2, 3, 4] ?w" "bits_in [0, 1, 2, 3, 4] ?d"
      "bits_in [0, 1, 2, 3, 4, 5] (push_bit 5 (?w AND 1) OR ?d)" "bits_in [3, 4] (push_bit 3 (b AND 3))"
      using 4 by (auto simp: bits)
    have "push_bit 2 (push_bit 5 (?w AND 1) OR ?d) OR drop_bit 3 (push_bit 3 (b AND 3)) = b"
      "push_bit 4 x OR drop_bit 1 ?w = push_bit 4 x OR drop_bit 1 left"
      using 4 by (auto intro!: byte_eqI simp: bits simp flip: numeral_2_eq_2 numeral_3_eq_3)
    with Cons.IH(5) [OF c(3, 4)] show ?case by (simp add: reads32_char [OF c(1), simplified] reads32_char [OF c(2), simplified])
  next
    case 5
    let ?w = "left OR drop_bit 5 b" and ?d = "b AND 31"
    have c: "bits_in [0, 1, 2, 3, 4] ?w" "bits_in [0, 1, 2, 3, 4] ?d" using 5 by (auto simp: bits)
    have "push_bit 5 (?w AND 7) OR ?d = b" "push_bit 2 x OR drop_bit 3 ?w = push_bit 2 x OR drop_bit 3 left"
      using 5 by (auto intro!: byte_eqI simp: bits simp flip: numeral_2_eq_2 numeral_3_eq_3)
    with Cons.IH(1) show ?case by (simp add: reads32_char [OF c(1), simplified] reads32_char [OF c(2), simplified])
  }
qed

lemma base64_text: "c_str (EncodeBase64 v) = EncodeBase64 v" "DecodeBase64 (EncodeBase64 v) = (v, False)"
  using encode64_reads(1) [of 0 0 v] by (auto simp: reads64_def EncodeBase64_def DecodeBase64_def split: prod.splits)

lemma base32_text: "c_str (EncodeBase32 v) = EncodeBase32 v" "DecodeBase32 (EncodeBase32 v) = (v, False)"
  using encode32_reads(1) [of 0 0 v] by (auto simp: reads32_def EncodeBase32_def DecodeBase32_def split: prod.splits)

text \<open>Round trip: every list of bytes is what its base 64 text and its base 32 text decode to, and neither text is
  reported as invalid.\<close>
theorem base64_base32_roundtrip:
  "DecodeBase64 (EncodeBase64 v) = (v, False) \<and> DecodeBase32 (EncodeBase32 v) = (v, False)"
  using base64_text(2) base32_text(2) by simp

section \<open>Hexadecimal read back\<close>

definition hex_pair :: "byte \<Rightarrow> string" where
  "hex_pair b = [''0123456789abcdef'' ! unat (drop_bit 4 b), ''0123456789abcdef'' ! unat (b AND 15)]"

lemma hex_digit:
  assumes "bits_in [0, 1, 2, 3] w"
  shows "phexdigit (''0123456789abcdef'' ! unat w) = Some w" "\<not> isspace (''0123456789abcdef'' ! unat w)"
    "''0123456789abcdef'' ! unat w \<noteq> CHR 0x00"
proof -
  have w: "unat w < 16" using bits_in_less [OF assms, of 4] by simp
  have d: "distinct ''0123456789abcdef''" by code_simp
  show "phexdigit (''0123456789abcdef'' ! unat w) = Some w" using index_of_nth [OF d, of "unat w"] w by (simp add: phexdigit_def)
  have "list_all (\<lambda>n. \<not> isspace (''0123456789abcdef'' ! n) \<and> ''0123456789abcdef'' ! n \<noteq> CHR 0x00) [0..<16]" by code_simp
  then show "\<not> isspace (''0123456789abcdef'' ! unat w)" "''0123456789abcdef'' ! unat w \<noteq> CHR 0x00"
    using w by (simp_all add: list_all_iff)
qed

lemma hex_pair_parse: "parse_hex (hex_pair b @ s) = b # parse_hex s" "c_str (hex_pair b @ s) = hex_pair b @ c_str s"
proof -
  have c: "bits_in [0, 1, 2, 3] (drop_bit 4 b)" "bits_in [0, 1, 2, 3] (b AND 15)" by (auto simp: bits)
  have "push_bit 4 (drop_bit 4 b) OR b AND 15 = b" by (rule byte_eqI) (auto simp: bits)
  then show "parse_hex (hex_pair b @ s) = b # parse_hex s" "c_str (hex_pair b @ s) = hex_pair b @ c_str s"
    using hex_digit [OF c(1)] hex_digit [OF c(2)] by (simp_all add: hex_pair_def c_str_def)
qed

lemma hex_plain: "parse_hex (c_str (concat (map hex_pair v))) = v"
  by (induction v) (simp_all add: hex_pair_parse)

lemma hex_space: "parse_hex (CHR '' '' # s) = parse_hex s" "c_str (CHR '' '' # s) = CHR '' '' # c_str s"
  by (simp_all add: isspace_def c_str_def)

lemma space_isspace: "isspace (CHR '' '')"
  by (simp add: isspace_def)

lemma hex_spaced: "parse_hex (c_str (concat (map (\<lambda>(k, b). (if k = 0 then [] else '' '') @ hex_pair b) (enumerate n v)))) = v"
  by (induction v arbitrary: n) (simp_all add: hex_pair_parse hex_space space_isspace)

text \<open>Round trip: \<open>ParseHex\<close> reads back what \<open>HexStr\<close> prints, with and without spaces.\<close>
theorem hex_roundtrip: "ParseHex (HexStr v fSpaces) = v"
  using hex_plain [of v] hex_spaced [of 0 v] by (simp add: ParseHex_def HexStr_def Let_def flip: hex_pair_def)

section \<open>What a wildcard matches\<close>

fun wild_lang :: "string \<Rightarrow> string set" where
  "wild_lang [] = {[]}"
| "wild_lang (m # pat) =
     (if m = CHR ''*'' then {x @ y | x y. y \<in> wild_lang pat}
      else if m = CHR ''?'' then {c # y | c y. y \<in> wild_lang pat}
      else {m # y | y. y \<in> wild_lang pat})"

lemma WildcardMatch_lang: "WildcardMatch psz pat \<longleftrightarrow> psz \<in> wild_lang pat"
proof (induction psz pat rule: WildcardMatch.induct)
  case (2 psz m pat)
  show ?case
  proof (cases "m = CHR ''*''")
    case True
    have "WildcardMatch psz (m # pat) \<longleftrightarrow>
        psz \<in> wild_lang pat \<or> (case psz of [] \<Rightarrow> False | _ # cs \<Rightarrow> cs \<in> wild_lang (m # pat))"
      using 2(1) [OF True] 2(2) [OF True] True by (auto split: list.splits)
    also have "\<dots> \<longleftrightarrow> psz \<in> wild_lang (m # pat)"
      using True by (cases psz) (auto, metis append_Cons, metis append_eq_Cons_conv)
    finally show ?thesis .
  next
    case False
    then show ?thesis using 2(3) by (cases psz) auto
  qed
qed simp

section \<open>Amounts read back\<close>

lemma digit_char: "d < 10 \<Longrightarrow> isdigit (digit_char d) \<and> digit_value (digit_char d) = d \<and> digit_char d \<noteq> CHR ''.''
    \<and> \<not> isspace (digit_char d) \<and> digit_char d \<noteq> CHR 0x00"
proof -
  have "list_all (\<lambda>d. isdigit (digit_char d) \<and> digit_value (digit_char d) = d \<and> digit_char d \<noteq> CHR ''.''
    \<and> \<not> isspace (digit_char d) \<and> digit_char d \<noteq> CHR 0x00) [0..<10]" by code_simp
  then show "d < 10 \<Longrightarrow> ?thesis" by (simp add: list_all_iff)
qed

lemma isdigit_char: "isdigit c \<Longrightarrow> \<exists>d < 10. c = digit_char d"
proof -
  have "list_all (\<lambda>c. list_ex (\<lambda>d. c = digit_char d) [0..<10]) ''0123456789''" by code_simp
  then show "isdigit c \<Longrightarrow> \<exists>d < 10. c = digit_char d"
    by (auto simp: isdigit_def list_all_iff list_ex_iff)
qed

lemma isdigit_facts:
  assumes "isdigit c"
  shows "digit_value c < 10" "c \<noteq> CHR ''.''" "\<not> isspace c" "c \<noteq> CHR 0x00"
  using isdigit_char [OF assms] digit_char by auto

lemma digits_value_acc: "fold (\<lambda>c n. n * 10 + int (digit_value c)) s a = a * 10 ^ length s + digits_value s"
proof (induction s arbitrary: a)
  case (Cons c s)
  show ?case using Cons [of "a * 10 + int (digit_value c)"] Cons [of "int (digit_value c)"]
    by (simp add: digits_value_def algebra_simps)
qed (simp add: digits_value_def)

lemma digits_value_simps [simp]:
  "digits_value [] = 0"
  "digits_value (c # s) = int (digit_value c) * 10 ^ length s + digits_value s"
  "digits_value (s @ t) = digits_value s * 10 ^ length t + digits_value t"
proof -
  show "digits_value [] = 0" by (simp add: digits_value_def)
  show "digits_value (c # s) = int (digit_value c) * 10 ^ length s + digits_value s"
    using digits_value_acc [of s "int (digit_value c)"] by (simp add: digits_value_def)
  show "digits_value (s @ t) = digits_value s * 10 ^ length t + digits_value t"
    using digits_value_acc [of t "digits_value s"] by (simp add: digits_value_def)
qed

lemma digits_value_bounds: "list_all isdigit s \<Longrightarrow> 0 \<le> digits_value s \<and> digits_value s < 10 ^ length s"
proof (induction s)
  case (Cons c s)
  then have "int (digit_value c) * 10 ^ length s \<le> 9 * 10 ^ length s" using isdigit_facts(1) [of c] by (intro mult_right_mono) auto
  moreover have "0 \<le> digits_value s" "digits_value s < 10 ^ length s" "0 \<le> int (digit_value c) * 10 ^ length s" using Cons by auto
  moreover have "(10::int) ^ length (c # s) = 9 * 10 ^ length s + 10 ^ length s" by simp
  ultimately show ?case unfolding digits_value_simps(2) by linarith
qed simp

lemma atoi64_digits:
  assumes "list_all isdigit s" and "length s \<le> 10"
  shows "atoi64 s = digits_value s"
proof -
  have n: "\<not> isdigit (CHR ''-'')" "\<not> isdigit (CHR ''+'')" "\<not> isdigit (CHR 0x00)" by code_simp+
  have c: "c_str s = s" "takeWhile isdigit s = s"
    using assms(1) by (simp_all add: c_str_def takeWhile_eq_all_conv list_all_iff) (auto dest: isdigit_facts)
  have d: "dropWhile isspace s = s" using assms(1) by (cases s) (auto dest: isdigit_facts)
  have h: "char_at s 0 \<noteq> CHR ''-''" "char_at s 0 \<noteq> CHR ''+''" using assms(1) n by (cases s; auto simp: char_at_def)+
  have "(10::int) ^ length s \<le> 10 ^ 10" using assms(2) by (intro power_increasing) auto
  then have "0 \<le> digits_value s" "digits_value s < 10 ^ 10" using digits_value_bounds [OF assms(1)] by auto
  then show ?thesis by (simp add: atoi64_def c d h)
qed

lemma nat_digits_facts:
  "list_all isdigit (nat_digits n) \<and> nat_digits n \<noteq> [] \<and> digits_value (nat_digits n) = int n"
proof (induction n rule: nat_digits.induct)
  case (1 n)
  show ?case
  proof (cases "n < 10")
    case True
    then show ?thesis using digit_char [of n] by (simp add: nat_digits.simps [of n])
  next
    case False
    then have "list_all isdigit (nat_digits (n div 10))" "digits_value (nat_digits (n div 10)) = int (n div 10)" using 1 by auto
    moreover have "int (n div 10) * 10 + int (n mod 10) = int n" by (simp add: zdiv_int zmod_int)
    ultimately show ?thesis using False digit_char [of "n mod 10"] by (simp add: nat_digits.simps [of n])
  qed
qed

lemma nat_digits_length: "0 < k \<Longrightarrow> n < 10 ^ k \<Longrightarrow> length (nat_digits n) \<le> k"
proof (induction n arbitrary: k rule: nat_digits.induct)
  case (1 n)
  show ?case
  proof (cases "n < 10")
    case True
    then show ?thesis using 1 by (simp add: nat_digits.simps [of n])
  next
    case False
    obtain j where k: "k = Suc j" using 1(2) by (cases k) auto
    have "j \<noteq> 0" using 1(3) False k by (cases j) auto
    moreover have "n div 10 < 10 ^ j" using 1(3) k by (simp add: less_mult_imp_div_less mult.commute)
    ultimately show ?thesis using 1(1) [OF False, of j] False k by (simp add: nat_digits.simps [of n])
  qed
qed

lemma pad_zeros_facts:
  assumes "n < 10 ^ 6"
  shows "length (pad_zeros 6 (nat_digits n)) = 6" "list_all isdigit (pad_zeros 6 (nat_digits n))"
    "digits_value (pad_zeros 6 (nat_digits n)) = int n"
proof -
  have digit0: "isdigit (CHR ''0'')" by code_simp
  have z: "digits_value (replicate k (CHR ''0'')) = 0" for k by (induction k) (simp_all add: digit_value_def index_of_def)
  show "length (pad_zeros 6 (nat_digits n)) = 6" using nat_digits_length [of 6 n] assms by (simp add: pad_zeros_def)
  show "list_all isdigit (pad_zeros 6 (nat_digits n))" 
    using nat_digits_facts [of n] digit0 by (auto simp: pad_zeros_def list_all_iff)
  show "digits_value (pad_zeros 6 (nat_digits n)) = int n" using nat_digits_facts [of n] z by (simp add: pad_zeros_def)
qed

lemma trim_money_zeros: "\<exists>k. xs = replicate k (CHR ''0'') @ trim_money xs"
proof (induction xs rule: trim_money.induct)
  case (1 a b c cs)
  show ?case
  proof (cases "a = CHR ''0'' \<and> isdigit c")
    case True
    then obtain k where "b # c # cs = replicate k (CHR ''0'') @ trim_money (b # c # cs)" using 1 by blast
    then have "a # b # c # cs = replicate (Suc k) (CHR ''0'') @ trim_money (b # c # cs)" using True by simp
    moreover have "trim_money (a # b # c # cs) = trim_money (b # c # cs)" using True by simp
    ultimately show ?thesis by metis
  next
    case False
    then have "trim_money (a # b # c # cs) = a # b # c # cs" by (simp only: trim_money.simps if_False)
    then show ?thesis by (intro exI [of _ 0]) (simp del: trim_money.simps)
  qed
qed (auto intro: exI [of _ 0])

lemma trimmed:
  assumes "list_all isdigit f"
  obtains g k where "rev (trim_money (rev (w @ CHR ''.'' # f))) = w @ CHR ''.'' # g" and "f = g @ replicate k (CHR ''0'')"
proof -
  define y where "y = trim_money (rev (w @ CHR ''.'' # f))"
  obtain k where k: "rev (w @ CHR ''.'' # f) = replicate k (CHR ''0'') @ y"
    using trim_money_zeros unfolding y_def by blast
  then have "w @ CHR ''.'' # f = rev (replicate k (CHR ''0'') @ y)" by (metis rev_rev_ident)
  then have "w @ CHR ''.'' # f = rev y @ replicate k (CHR ''0'')" by (simp only: rev_append rev_replicate)
  then consider us where "rev y = w @ us" "CHR ''.'' # f = us @ replicate k (CHR ''0'')"
    | us where "w = rev y @ us" "replicate k (CHR ''0'') = us @ CHR ''.'' # f"
    unfolding append_eq_append_conv2 [of w] by metis
  then show thesis
  proof cases
    case 1
    moreover obtain g where "us = CHR ''.'' # g" using 1(2) by (cases us; cases k) auto
    ultimately show ?thesis using that by (simp add: y_def)
  next
    case 2
    then have "CHR ''.'' \<in> set (replicate k (CHR ''0''))" by simp
    then show ?thesis by simp
  qed
qed

lemma parse_units_digits:
  "list_all isdigit ds \<Longrightarrow> length ds = Suc j \<Longrightarrow> parse_units (10 ^ j) a ds = (a + digits_value ds, [])"
proof (induction ds arbitrary: a j)
  case (Cons d ds)
  show ?case
  proof (cases j)
    case 0
    then show ?thesis using Cons by simp
  next
    case (Suc i)
    have "(10 ^ j :: int) sdiv 10 = 10 ^ i" using Suc by (simp add: signed_divide_int_def)
    then show ?thesis using Cons Suc by simp
  qed
qed simp

lemma parse_units_trimmed:
  "parse_units m a (g @ replicate k (CHR ''0'')) = (u, []) \<Longrightarrow> parse_units m a g = (u, [])"
proof (induction g arbitrary: m a)
  case Nil
  have z: "digit_value (CHR ''0'') = 0" by code_simp
  have "parse_units m a (replicate k (CHR ''0'')) = (u, []) \<Longrightarrow> a = u" for m
    by (induction k arbitrary: m) (auto simp: z split: if_splits)
  then show ?case using Nil by simp
qed (auto split: if_splits)

lemma parse_whole_digits:
  "list_all isdigit w \<Longrightarrow> parse_whole s (w @ CHR ''.'' # g) = parse_whole (s @ w) (CHR ''.'' # g)"
  by (induction w arbitrary: s) (auto dest: isdigit_facts)

lemma money_text:
  assumes "0 \<le> n" "n < 10 ^ 16"
  shows "ParseMoney (FormatMoney n False) = Some n"
proof -
  define w where "w = nat_digits (nat (n div COIN))"
  define f where "f = pad_zeros 6 (nat_digits (nat (n mod COIN)))"
  have m: "0 \<le> n mod 1000000" "n mod 1000000 \<le> 1000000" using pos_mod_bound [of 1000000 n] by auto
  have q: "n div COIN < 10 ^ 10" "0 \<le> n div COIN" using assms by (auto simp: COIN_def)
  have r: "0 \<le> n mod COIN" "n mod COIN < 10 ^ 6" by (auto simp: COIN_def)
  have w: "list_all isdigit w" "w \<noteq> []" "digits_value w = n div COIN" "length w \<le> 10"
    using nat_digits_facts [of "nat (n div COIN)"] nat_digits_length [of 10 "nat (n div COIN)"] q by (auto simp: w_def)
  have f: "length f = 6" "list_all isdigit f" "digits_value f = n mod COIN"
    using pad_zeros_facts [of "nat (n mod COIN)"] r by (auto simp: f_def)
  have "wrap64 (- n) = - n" if "n \<le> 0" using that assms(1) by (simp add: wrap64_def)
  then have "FormatMoney n False = rev (trim_money (rev (w @ CHR ''.'' # f)))"
    using assms(1) q r by (auto simp: FormatMoney_def print_int_def print_06_def w_def f_def signed_divide_int_def signed_modulo_int_def COIN_def Let_def)
  then obtain g k where g: "FormatMoney n False = w @ CHR ''.'' # g" "f = g @ replicate k (CHR ''0'')"
    using trimmed [OF f(2), of w] by metis
  have gd: "list_all isdigit g" using f(2) g(2) by simp
  have u: "parse_units 100000 0 g = (n mod COIN, [])"
    using parse_units_digits [OF f(2), of 5 0] f(1,3) g(2) parse_units_trimmed [of 100000 0 g k] by simp
  have c: "c_str (w @ CHR ''.'' # g) = w @ CHR ''.'' # g"
    unfolding c_str_def by (subst takeWhile_eq_all_conv) (use w(1) gd in \<open>auto simp: list_all_iff dest: isdigit_facts\<close>)
  have s: "dropWhile isspace (w @ CHR ''.'' # g) = w @ CHR ''.'' # g"
    using w(1,2) by (cases w) (auto dest: isdigit_facts)
  note atoi = atoi64_digits [OF w(1,4)]
  have "ParseMoney (FormatMoney n False) = Some (wrap64 (n div COIN * COIN + n mod COIN))"
    using parse_whole_digits [OF w(1), of "[]" g] u c s w(3,4) m by (simp add: ParseMoney_def atoi g(1) CENT_def COIN_def)
  moreover have "n div COIN * COIN + n mod COIN = n" by simp
  moreover have "wrap64 n = n" using assms by (simp add: wrap64_def)
  ultimately show ?thesis by simp
qed

lemma parse_whole_shape:
  "parse_whole s cs = Some (w, u, r) \<Longrightarrow> list_all isdigit s \<Longrightarrow> list_all isdigit w"
  by (induction s cs rule: parse_whole.induct) (auto split: if_splits prod.splits)

lemma ParseMoney_bounds:
  assumes "ParseMoney s = Some n"
  shows "0 \<le> n \<and> n \<le> 10 ^ 16"
proof -
  obtain w u r where p: "parse_whole [] (dropWhile isspace (c_str s)) = Some (w, u, r)" "length w \<le> 10" "0 \<le> u" "u \<le> COIN"
    "n = wrap64 (atoi64 w * COIN + u)"
    using assms by (auto simp: ParseMoney_def split: option.splits prod.splits if_splits)
  have d: "list_all isdigit w" using parse_whole_shape [OF p(1)] by simp
  have "(10::int) ^ length w \<le> 10 ^ 10" using p(2) by (intro power_increasing) auto
  then have "0 \<le> atoi64 w" "atoi64 w < 10 ^ 10" using digits_value_bounds [OF d] atoi64_digits [OF d p(2)] by auto
  then show ?thesis using p(3,4,5) by (simp add: COIN_def wrap64_def)
qed



section \<open>Names and versions\<close>

definition leftTrim :: "string \<Rightarrow> char \<Rightarrow> string" where
  "leftTrim src chr = dropWhile (\<lambda>c. c = chr) src"

definition FormatVersion :: "int \<Rightarrow> string" where
  "FormatVersion nVer =
     print_int (nVer sdiv 1000000) @ ''.'' @ print_int (nVer sdiv 10000 smod 100) @ ''.'' @
     print_int (nVer sdiv 100 smod 100) @
     (if nVer smod 100 = 0 then [] else ''.'' @ print_int (nVer smod 100))"

definition FormatSubVersion :: "string \<Rightarrow> int \<Rightarrow> string list \<Rightarrow> string" where
  "FormatSubVersion name nClientVersion comments =
     ''/'' @ name @ '':'' @ FormatVersion nClientVersion @
     (if comments = [] then [] else ''('' @ concat (hd comments # map (\<lambda>c. ''; '' @ c) (tl comments)) @ '')'') @ ''/''"

end
