(* ===== verification/Base58.thy ===== *)
theory Base58
  imports Solver Text
begin

text \<open>
  Base 58 (\<open>src/src/base58.h\<close>): the encoding, the checksum, addresses and secret keys.  A C string ends at
  its first zero character.  \<open>fTestNet\<close> is an argument.
\<close>

section \<open>The encoding\<close>

definition pszBase58 :: string where
  "pszBase58 = ''123456789ABCDEFGHJKLMNPQRSTUVWXYZabcdefghijkmnopqrstuvwxyz''"

text \<open>\<open>strchr(pszBase58, c)\<close>, as a position.\<close>

definition strchr58 :: "char \<Rightarrow> nat option" where
  "strchr58 c =
     (let k = length (takeWhile (\<lambda>d. d \<noteq> c) pszBase58) in if k < length pszBase58 then Some k else None)"

text \<open>The digits of a number, least significant first.\<close>

function b58_digits :: "CBigNum \<Rightarrow> string" where
  "b58_digits bn = (if bn > 0 then pszBase58 ! nat (bn mod 58) # b58_digits (bn div 58) else [])"
  by pat_completeness auto
termination by (relation "measure nat") auto

declare b58_digits.simps [simp del]

definition EncodeBase58 :: "openssl \<Rightarrow> valtype \<Rightarrow> string" where
  "EncodeBase58 L vch =
     rev (b58_digits (setvch L (rev vch @ [0])) @ map (\<lambda>_. pszBase58 ! 0) (takeWhile (\<lambda>b. b = 0) vch))"

fun b58_value :: "CBigNum \<Rightarrow> string \<Rightarrow> CBigNum option" where
  "b58_value bn [] = Some bn"
| "b58_value bn (c # cs) =
     (case strchr58 c of
        None \<Rightarrow> if dropWhile isspace (c # cs) = [] then Some bn else None
      | Some k \<Rightarrow> b58_value (bn * 58 + int k) cs)"

definition trim_sign :: "valtype \<Rightarrow> valtype" where
  "trim_sign vch =
     (if length vch \<ge> 2 \<and> last vch = 0 \<and> vch ! (length vch - 2) \<ge> 0x80 then butlast vch else vch)"

definition DecodeBase58 :: "openssl \<Rightarrow> string \<Rightarrow> valtype option" where
  "DecodeBase58 L str =
     (let psz = dropWhile isspace (c_str str)
      in map_option (\<lambda>bn. map (\<lambda>_. 0) (takeWhile (\<lambda>c. c = pszBase58 ! 0) psz) @ rev (trim_sign (getvch L bn)))
           (b58_value 0 psz))"

section \<open>The checksum\<close>

definition EncodeBase58Check :: "openssl \<Rightarrow> valtype \<Rightarrow> string" where
  "EncodeBase58Check L vchIn = EncodeBase58 L (vchIn @ take 4 (bytes256 (Hash L vchIn)))"

definition DecodeBase58Check :: "openssl \<Rightarrow> string \<Rightarrow> valtype option" where
  "DecodeBase58Check L str =
     (case DecodeBase58 L str of
        None \<Rightarrow> None
      | Some vch \<Rightarrow>
          if length vch < 4 then None
          else
            (let data = take (length vch - 4) vch
             in if take 4 (bytes256 (Hash L data)) \<noteq> drop (length vch - 4) vch then None else Some data))"

section \<open>Encoded data\<close>

record CBase58Data =
  b58_nVersion :: byte
  vchData :: valtype

definition CBase58Data_new :: CBase58Data where
  "CBase58Data_new = \<lparr>b58_nVersion = 0, vchData = []\<rparr>"

definition SetData :: "int \<Rightarrow> valtype \<Rightarrow> CBase58Data" where
  "SetData nVersionIn data = \<lparr>b58_nVersion = word_of_int nVersionIn, vchData = data\<rparr>"

definition Data_SetString :: "openssl \<Rightarrow> string \<Rightarrow> bool \<times> CBase58Data" where
  "Data_SetString L str =
     (case DecodeBase58Check L str of
        Some (v # data) \<Rightarrow> (True, \<lparr>b58_nVersion = v, vchData = data\<rparr>)
      | _ \<Rightarrow> (False, CBase58Data_new))"

definition Data_ToString :: "openssl \<Rightarrow> CBase58Data \<Rightarrow> string" where
  "Data_ToString L d = EncodeBase58Check L (b58_nVersion d # vchData d)"

fun vch_less :: "valtype \<Rightarrow> valtype \<Rightarrow> bool" where
  "vch_less xs [] = False"
| "vch_less [] (y # ys) = True"
| "vch_less (x # xs) (y # ys) = (x < y \<or> x = y \<and> vch_less xs ys)"

definition CompareTo :: "CBase58Data \<Rightarrow> CBase58Data \<Rightarrow> int" where
  "CompareTo a b =
     (if b58_nVersion a < b58_nVersion b then -1
      else if b58_nVersion a > b58_nVersion b then 1
      else if vch_less (vchData a) (vchData b) then -1
      else if vch_less (vchData b) (vchData a) then 1
      else 0)"

section \<open>Addresses\<close>

definition PUBKEY_ADDRESS :: int where "PUBKEY_ADDRESS = 43"
definition SCRIPT_ADDRESS :: int where "SCRIPT_ADDRESS = 8"
definition PUBKEY_ADDRESS_TEST :: int where "PUBKEY_ADDRESS_TEST = 111"
definition SCRIPT_ADDRESS_TEST :: int where "SCRIPT_ADDRESS_TEST = 196"

definition Address_Set :: "bool \<Rightarrow> CTxDestination \<Rightarrow> CBase58Data \<Rightarrow> bool \<times> CBase58Data" where
  "Address_Set fTestNet dest a =
     (case dest of
        DestKeyID h \<Rightarrow> (True, SetData (if fTestNet then PUBKEY_ADDRESS_TEST else PUBKEY_ADDRESS) (bytes160 h))
      | DestScriptID h \<Rightarrow> (True, SetData (if fTestNet then SCRIPT_ADDRESS_TEST else SCRIPT_ADDRESS) (bytes160 h))
      | CNoDestination \<Rightarrow> (False, a))"

definition Address_IsValid :: "bool \<Rightarrow> CBase58Data \<Rightarrow> bool" where
  "Address_IsValid fTestNet a \<longleftrightarrow>
     (let v = uint (b58_nVersion a)
      in if v = PUBKEY_ADDRESS \<or> v = SCRIPT_ADDRESS then \<not> fTestNet \<and> length (vchData a) = 20
         else if v = PUBKEY_ADDRESS_TEST \<or> v = SCRIPT_ADDRESS_TEST then fTestNet \<and> length (vchData a) = 20
         else False)"

definition Address_Get :: "bool \<Rightarrow> CBase58Data \<Rightarrow> CTxDestination" where
  "Address_Get fTestNet a =
     (let v = uint (b58_nVersion a)
      in if \<not> Address_IsValid fTestNet a then CNoDestination
         else if v = PUBKEY_ADDRESS \<or> v = PUBKEY_ADDRESS_TEST then DestKeyID (le_word (take 20 (vchData a)))
         else if v = SCRIPT_ADDRESS \<or> v = SCRIPT_ADDRESS_TEST then DestScriptID (le_word (take 20 (vchData a)))
         else CNoDestination)"

definition Address_GetKeyID :: "bool \<Rightarrow> CBase58Data \<Rightarrow> CKeyID option" where
  "Address_GetKeyID fTestNet a =
     (let v = uint (b58_nVersion a)
      in if \<not> Address_IsValid fTestNet a then None
         else if v = PUBKEY_ADDRESS \<or> v = PUBKEY_ADDRESS_TEST then Some (le_word (take 20 (vchData a)))
         else None)"

definition Address_IsScript :: "bool \<Rightarrow> CBase58Data \<Rightarrow> bool" where
  "Address_IsScript fTestNet a \<longleftrightarrow>
     Address_IsValid fTestNet a \<and> (uint (b58_nVersion a) = SCRIPT_ADDRESS \<or> uint (b58_nVersion a) = SCRIPT_ADDRESS_TEST)"

section \<open>Secret keys\<close>

text \<open>A failed assertion, or reading past the end, is \<open>None\<close>.\<close>

definition Secret_SetSecret :: "bool \<Rightarrow> CSecret \<Rightarrow> bool \<Rightarrow> CBase58Data option" where
  "Secret_SetSecret fTestNet vchSecret fCompressed =
     (if length vchSecret \<noteq> 32 then None
      else
        (let d = SetData (128 + (if fTestNet then PUBKEY_ADDRESS_TEST else PUBKEY_ADDRESS)) vchSecret
         in Some (if fCompressed then d\<lparr>vchData := vchData d @ [1]\<rparr> else d)))"

definition Secret_GetSecret :: "CBase58Data \<Rightarrow> (CSecret \<times> bool) option" where
  "Secret_GetSecret d =
     (if length (vchData d) < 32 then None else Some (take 32 (vchData d), length (vchData d) = 33))"

definition Secret_IsValid :: "bool \<Rightarrow> CBase58Data \<Rightarrow> bool" where
  "Secret_IsValid fTestNet d \<longleftrightarrow>
     (let v = uint (b58_nVersion d); data = vchData d
      in (if v = 128 + PUBKEY_ADDRESS then \<not> fTestNet else if v = 128 + PUBKEY_ADDRESS_TEST then fTestNet else False) \<and>
         (length data = 32 \<or> length data = 33 \<and> data ! 32 = 1))"

definition Secret_SetString :: "openssl \<Rightarrow> bool \<Rightarrow> string \<Rightarrow> bool \<times> CBase58Data" where
  "Secret_SetString L fTestNet str =
     (case Data_SetString L str of (ok, d) \<Rightarrow> (ok \<and> Secret_IsValid fTestNet d, d))"

section \<open>Digits\<close>

definition b58_num :: "nat list \<Rightarrow> int" where
  "b58_num ks = fold (\<lambda>k bn. bn * 58 + int k) ks 0"

definition b58_chars :: "nat list \<Rightarrow> string" where
  "b58_chars = map ((!) pszBase58)"

definition b58_ok :: "nat list \<Rightarrow> bool" where
  "b58_ok ks \<longleftrightarrow> (\<forall>k \<in> set ks. k < 58)"

lemma length_psz: "length pszBase58 = 58"
  by (simp add: pszBase58_def)

lemma strchr58_nth: "k < 58 \<Longrightarrow> strchr58 (pszBase58 ! k) = Some k"
proof -
  have "list_all (\<lambda>k. strchr58 (pszBase58 ! k) = Some k) [0..<58]" by code_simp
  then show "k < 58 \<Longrightarrow> strchr58 (pszBase58 ! k) = Some k" by (simp add: list_all_iff)
qed

lemma strchr58_Some: "strchr58 c = Some k \<Longrightarrow> k < 58 \<and> pszBase58 ! k = c"
  using nth_length_takeWhile [of "\<lambda>d. d \<noteq> c" pszBase58]
  by (auto simp: strchr58_def Let_def length_psz split: if_splits)

lemma strchr58_space: "isspace c \<Longrightarrow> strchr58 c = None"
  by (auto simp: isspace_def) (code_simp+)

lemma b58_num_snoc: "b58_num (ks @ [k]) = b58_num ks * 58 + int k"
  by (simp add: b58_num_def)

lemma b58_num_nonneg: "0 \<le> b58_num ks"
  by (induction ks rule: rev_induct) (simp_all add: b58_num_snoc, simp add: b58_num_def)

lemma b58_num_zeros: "b58_num (replicate z 0 @ ks) = b58_num ks"
  by (induction z) (simp_all add: b58_num_def)


lemma b58_num_pos: "b58_ok ks \<Longrightarrow> ks \<noteq> [] \<Longrightarrow> hd ks \<noteq> 0 \<Longrightarrow> 0 < b58_num ks"
proof (induction ks rule: rev_induct)
  case (snoc k ks)
  show ?case
  proof (cases "ks = []")
    case True
    with snoc.prems show ?thesis by (simp add: b58_num_def)
  next
    case False
    with snoc have "0 < b58_num ks" by (auto simp: b58_ok_def)
    then show ?thesis by (simp add: b58_num_snoc)
  qed
qed simp

lemma b58_digits_num:
  "b58_ok ks \<Longrightarrow> ks = [] \<or> hd ks \<noteq> 0 \<Longrightarrow> b58_digits (b58_num ks) = b58_chars (rev ks)"
proof (induction ks rule: rev_induct)
  case Nil
  then show ?case by (simp add: b58_num_def b58_chars_def b58_digits.simps)
next
  case (snoc k ks)
  have k: "k < 58" "b58_ok ks" using snoc.prems(1) by (auto simp: b58_ok_def)
  have hd: "ks = [] \<or> hd ks \<noteq> 0" using snoc.prems(2) by (cases ks) simp_all
  have n: "b58_num (ks @ [k]) mod 58 = int k" "b58_num (ks @ [k]) div 58 = b58_num ks"
    using k(1) b58_num_nonneg [of ks] by (simp_all add: b58_num_snoc)
  have "0 < b58_num (ks @ [k])" using b58_num_pos [OF snoc.prems(1)] snoc.prems(2) by simp
  with n snoc.IH [OF k(2) hd] show ?case by (subst b58_digits.simps) (simp add: b58_chars_def)
qed

lemma b58_num_exists: "0 \<le> n \<Longrightarrow> \<exists>ks. b58_ok ks \<and> (ks = [] \<or> hd ks \<noteq> 0) \<and> b58_num ks = n"
proof (induction "nat n" arbitrary: n rule: less_induct)
  case less
  show ?case
  proof (cases "n = 0")
    case True
    then show ?thesis by (intro exI [of _ "[]"]) (simp add: b58_ok_def b58_num_def)
  next
    case False
    with less.prems have "nat (n div 58) < nat n" "0 \<le> n div 58" by simp_all
    from less.hyps [OF this] obtain ks where ks: "b58_ok ks" "ks = [] \<or> hd ks \<noteq> 0" "b58_num ks = n div 58"
      by blast
    have "b58_num (ks @ [nat (n mod 58)]) = n" using ks(3) by (simp add: b58_num_snoc)
    moreover have "hd (ks @ [nat (n mod 58)]) \<noteq> 0"
    proof (cases ks)
      case Nil
      with ks(3) have "n div 58 = 0" by (simp add: b58_num_def)
      with False less.prems have "n mod 58 \<noteq> 0" by (metis div_mult_mod_eq mult_zero_left add_0)
      moreover have "0 \<le> n mod 58" by simp
      ultimately show ?thesis using Nil by simp
    qed (use ks(2) in simp)
    moreover have "b58_ok (ks @ [nat (n mod 58)])" using ks(1) by (auto simp: b58_ok_def)
    ultimately show ?thesis by (intro exI [of _ "ks @ [nat (n mod 58)]"]) simp
  qed
qed

lemma b58_value_chars:
  "b58_ok ks \<Longrightarrow> list_all isspace sp \<Longrightarrow>
     b58_value bn (b58_chars ks @ sp) = Some (fold (\<lambda>k bn. bn * 58 + int k) ks bn)"
proof (induction ks arbitrary: bn)
  case Nil
  then show ?case
    by (cases sp) (auto simp: b58_chars_def strchr58_space list_all_iff)
next
  case (Cons k ks)
  then have "k < 58" "b58_ok ks" by (auto simp: b58_ok_def)
  with Cons show ?case by (simp add: b58_chars_def strchr58_nth)
qed

lemma b58_value_Some:
  "b58_value bn s = Some r \<Longrightarrow> \<exists>ks sp. b58_ok ks \<and> list_all isspace sp \<and> s = b58_chars ks @ sp"
proof (induction bn s rule: b58_value.induct)
  case (1 bn)
  then show ?case by (intro exI [of _ "[]"]) (simp add: b58_ok_def b58_chars_def)
next
  case (2 bn c cs)
  show ?case
  proof (cases "strchr58 c")
    case None
    with "2.prems" have "list_all isspace (c # cs)" by (auto simp: list_all_iff split: if_splits dest: dropWhile_eq_Nil_conv [THEN iffD1])
    then show ?thesis by (intro exI [of _ "[]"] exI [of _ "c # cs"]) (simp add: b58_ok_def b58_chars_def)
  next
    case (Some k)
    with 2 obtain ks sp where ks: "b58_ok ks" "list_all isspace sp" "cs = b58_chars ks @ sp" by fastforce
    with strchr58_Some [OF Some] show ?thesis
      by (intro exI [of _ "k # ks"] exI [of _ sp]) (simp add: b58_ok_def b58_chars_def)
  qed
qed

section \<open>Bytes\<close>

lemma trim_getvch:
  assumes "mpi_documented L" and "0 \<le> n"
  shows "trim_sign (getvch L n) = min_le (nat n)"
proof (cases "rev (min_le (nat n))")
  case Nil
  with assms show ?thesis by (simp add: getvch_documented mpi_body_def trim_sign_def)
next
  case (Cons c cs)
  then have m: "min_le (nat n) = rev cs @ [c]" by (metis rev.simps(2) rev_rev_ident)
  have c: "c \<noteq> 0" using min_le_last [of "nat n"] m by simp
  show ?thesis
  proof (cases "c AND 0x80 = 0")
    case True
    with assms Cons m c show ?thesis by (simp add: getvch_documented mpi_body_def trim_sign_def)
  next
    case False
    have "c AND 0x80 = 0x80" using False by (intro byte_eqI) (auto simp: bit_and_iff byte_high_iff)
    then have "c \<ge> 0x80" by (metis word_and_le2)
    with assms Cons m False show ?thesis by (simp add: getvch_documented mpi_body_def trim_sign_def nth_append butlast_append)
  qed
qed

lemma setvch_bytes:
  assumes "mpi_documented L" and "length v + 1 < 2 ^ 32"
  shows "setvch L (rev v @ [0]) = int (be_nat v)"
  using assms by (simp add: setvch_documented mpi_value_def)

lemma be_nat_zeros: "be_nat (replicate z 0 @ v) = be_nat v"
  by (induction z) simp_all

lemma byte_256: "(256 :: byte) = 0"
  by code_simp

lemma rev_min_le_unique:
  assumes "v = [] \<or> hd v \<noteq> 0"
  shows "rev (min_le (be_nat v)) = v"
proof -
  have "min_le (le_nat w) = w" if "w = [] \<or> last w \<noteq> 0" for w :: "byte list"
    using that
  proof (induction w)
    case (Cons b w)
    have w: "w = [] \<or> last w \<noteq> 0" using Cons.prems by (cases w) simp_all
    have "le_nat (b # w) \<noteq> 0"
    proof
      assume z: "le_nat (b # w) = 0"
      then have "unat b = 0" "le_nat w = 0" by simp_all
      with Cons.IH [OF w] have "w = []" by (simp add: min_le.simps)
      with \<open>unat b = 0\<close> Cons.prems show False by (simp add: unat_eq_zero)
    qed
    moreover have "word_of_nat (le_nat (b # w)) = b"
    proof -
      have "word_of_nat (le_nat (b # w)) = b + 256 * word_of_nat (le_nat w)" by simp
      then show ?thesis unfolding byte_256 by simp
    qed
    moreover have "le_nat (b # w) div 256 = le_nat w" by simp
    ultimately show ?case using Cons.IH [OF w] by (subst min_le.simps) simp
  qed (simp add: min_le.simps)
  from this [of "rev v"] assms show ?thesis by (auto simp: be_nat_def last_rev)
qed


section \<open>Encoding and decoding\<close>

lemma split_zeros: "\<exists>z r. xs = replicate z (0 :: 'a :: zero) @ r \<and> (r = [] \<or> hd r \<noteq> 0)"
proof (induction xs)
  case Nil
  then show ?case by (intro exI [of _ 0] exI [of _ "[]"]) simp
next
  case (Cons x xs)
  then obtain z r where r: "xs = replicate z 0 @ r" "r = [] \<or> hd r \<noteq> 0" by blast
  show ?case
  proof (cases "x = 0")
    case True
    with r show ?thesis by (intro exI [of _ "Suc z"] exI [of _ r]) simp
  next
    case False
    then show ?thesis by (intro exI [of _ 0] exI [of _ "x # xs"]) simp
  qed
qed

lemma takeWhile_zeros: "r = [] \<or> hd r \<noteq> 0 \<Longrightarrow> takeWhile (\<lambda>b. b = 0) (replicate z 0 @ r) = replicate z (0 :: 'a :: zero)"
  by (induction z) (cases r, auto)

lemma psz_not_space: "k < 58 \<Longrightarrow> \<not> isspace (pszBase58 ! k)"
  using strchr58_nth strchr58_space by fastforce

lemma takeWhile_ones:
  assumes "b58_ok r" and "r = [] \<or> hd r \<noteq> 0" and "list_all isspace sp"
  shows "takeWhile (\<lambda>c. c = pszBase58 ! 0) (b58_chars (replicate z 0 @ r) @ sp) = replicate z (pszBase58 ! 0)"
proof -
  have "takeWhile (\<lambda>c. c = pszBase58 ! 0) (b58_chars r @ sp) = []"
  proof (cases r)
    case Nil
    have "\<not> isspace (pszBase58 ! 0)" by (rule psz_not_space) simp
    with Nil assms(3) show ?thesis by (cases sp) (auto simp: b58_chars_def)
  next
    case (Cons k ks)
    with assms have "k < 58" "k \<noteq> 0" by (auto simp: b58_ok_def)
    then have "pszBase58 ! k \<noteq> pszBase58 ! 0" using strchr58_nth [of k] strchr58_nth [of 0] by auto
    with Cons show ?thesis by (simp add: b58_chars_def)
  qed
  then show ?thesis by (induction z) (simp_all add: b58_chars_def)
qed

definition b58_strip :: "string \<Rightarrow> string" where
  "b58_strip s = rev (dropWhile isspace (rev (dropWhile isspace s)))"

lemma strip_chars:
  assumes "b58_ok ks" and "list_all isspace sp"
  shows "rev (dropWhile isspace (rev (b58_chars ks @ sp))) = b58_chars ks"
proof -
  have "dropWhile isspace (rev sp @ rev (b58_chars ks)) = dropWhile isspace (rev (b58_chars ks))"
    using assms(2) by (intro dropWhile_append2) (simp add: list_all_iff)
  also have "\<dots> = rev (b58_chars ks)"
  proof (cases ks rule: rev_cases)
    case (snoc ks' k)
    with assms(1) have "k < 58" by (simp add: b58_ok_def)
    with snoc psz_not_space show ?thesis by (simp add: b58_chars_def)
  qed (simp add: b58_chars_def)
  finally show ?thesis by simp
qed

lemma decode_chars:
  assumes "mpi_documented L" and "b58_ok r" and "r = [] \<or> hd r \<noteq> 0" and "list_all isspace sp"
    and "dropWhile isspace (c_str s) = b58_chars (replicate z 0 @ r) @ sp"
  shows "DecodeBase58 L s = Some (replicate z 0 @ rev (min_le (nat (b58_num r))))"
proof -
  have ok: "b58_ok (replicate z 0 @ r)" using assms(2) by (auto simp: b58_ok_def)
  have "b58_value 0 (b58_chars (replicate z 0 @ r) @ sp) = Some (b58_num r)"
    using b58_value_chars [OF ok assms(4), of 0] b58_num_zeros [of z r] by (simp add: b58_num_def)
  then show ?thesis
    using takeWhile_ones [OF assms(2-4), of z] trim_getvch [OF assms(1) b58_num_nonneg]
    by (simp add: DecodeBase58_def assms(5) map_replicate_const)
qed

lemma encode_bytes:
  assumes "mpi_documented L" and "length v + 1 < 2 ^ 32" and "v = replicate z 0 @ w" and "w = [] \<or> hd w \<noteq> 0"
    and "b58_ok r" and "r = [] \<or> hd r \<noteq> 0" and "b58_num r = int (be_nat w)"
  shows "EncodeBase58 L v = b58_chars (replicate z 0 @ r)"
proof -
  have "setvch L (rev v @ [0]) = b58_num r"
    using setvch_bytes [OF assms(1, 2)] be_nat_zeros [of z w] assms(3, 7) by simp
  moreover have "b58_digits (b58_num r) = b58_chars (rev r)" by (rule b58_digits_num [OF assms(5, 6)])
  ultimately show ?thesis
    using takeWhile_zeros [OF assms(4), of z] assms(3)
    by (simp add: EncodeBase58_def map_replicate_const b58_chars_def rev_map)
qed

lemma base58_parts:
  assumes "mpi_documented L" and "length v + 1 < 2 ^ 32"
  shows "DecodeBase58 L s = Some v \<longleftrightarrow> b58_strip (c_str s) = EncodeBase58 L v"
proof
  assume d: "DecodeBase58 L s = Some v"
  let ?p = "dropWhile isspace (c_str s)"
  obtain bn where "b58_value 0 ?p = Some bn" using d by (auto simp: DecodeBase58_def Let_def)
  then obtain ks sp where p: "b58_ok ks" "list_all isspace sp" "?p = b58_chars ks @ sp"
    using b58_value_Some by blast
  obtain z r where r: "ks = replicate z 0 @ r" "r = [] \<or> hd r \<noteq> 0" using split_zeros by blast
  have ok: "b58_ok r" using p(1) r(1) by (auto simp: b58_ok_def)
  have v: "v = replicate z 0 @ rev (min_le (nat (b58_num r)))"
    using decode_chars [OF assms(1) ok r(2) p(2), of s z] p(3) r(1) d by simp
  have "rev (min_le (nat (b58_num r))) = [] \<or> hd (rev (min_le (nat (b58_num r)))) \<noteq> 0"
    using min_le_last [of "nat (b58_num r)"] by (auto simp: hd_rev)
  moreover have "b58_num r = int (be_nat (rev (min_le (nat (b58_num r)))))" by (simp add: be_nat_def b58_num_nonneg)
  ultimately have "EncodeBase58 L v = b58_chars ks"
    unfolding r(1) by (intro encode_bytes [OF assms v _ ok r(2)])
  then show "b58_strip (c_str s) = EncodeBase58 L v" using strip_chars [OF p(1, 2)] p(3) by (simp add: b58_strip_def)
next
  assume e: "b58_strip (c_str s) = EncodeBase58 L v"
  let ?p = "dropWhile isspace (c_str s)"
  obtain z w where w: "v = replicate z 0 @ w" "w = [] \<or> hd w \<noteq> 0" using split_zeros by blast
  obtain r where r: "b58_ok r" "r = [] \<or> hd r \<noteq> 0" "b58_num r = int (be_nat w)" using b58_num_exists [of "int (be_nat w)"] by auto
  have "b58_strip (c_str s) = b58_chars (replicate z 0 @ r)" using e encode_bytes [OF assms w r] by simp
  moreover have "?p = rev (dropWhile isspace (rev ?p)) @ rev (takeWhile isspace (rev ?p))"
    by (metis rev_append rev_rev_ident takeWhile_dropWhile_id)
  ultimately have "?p = b58_chars (replicate z 0 @ r) @ rev (takeWhile isspace (rev ?p))" by (simp add: b58_strip_def)
  moreover have "list_all isspace (rev (takeWhile isspace (rev ?p)))" by (auto simp: list_all_iff dest: set_takeWhileD)
  ultimately have "DecodeBase58 L s = Some (replicate z 0 @ rev (min_le (nat (b58_num r))))"
    using decode_chars [OF assms(1) r(1, 2)] by blast
  with r(3) rev_min_le_unique [OF w(2)] w(1) show "DecodeBase58 L s = Some v" by simp
qed

text \<open>
  Base 58 is canonical: a string decodes to some bytes exactly when, up to white space around it, it is
  their encoding.  So decoding undoes encoding, leading zero bytes included, and every other string is
  refused.
\<close>

theorem base58_iff:
  assumes "mpi_documented L" and "length v + 1 < 2 ^ 32"
  shows "DecodeBase58 L s = Some v \<longleftrightarrow> b58_strip (c_str s) = EncodeBase58 L v"
  using assms by (rule base58_parts)

lemma base58check_parts:
  assumes "mpi_documented L" and "length v + 5 < 2 ^ 32"
  shows "DecodeBase58Check L s = Some v \<longleftrightarrow> b58_strip (c_str s) = EncodeBase58Check L v"
proof -
  let ?c = "\<lambda>v. take 4 (bytes256 (Hash L v))"
  have "DecodeBase58Check L s = Some v \<longleftrightarrow> DecodeBase58 L s = Some (v @ ?c v)"
  proof (cases "DecodeBase58 L s")
    case (Some x)
    show ?thesis
    proof (cases "length x < 4")
      case False
      let ?n = "length x - 4"
      have "take ?n x = v \<and> ?c v = drop ?n x \<longleftrightarrow> x = v @ ?c v"
        using append_take_drop_id [of ?n x] by (auto simp del: append_take_drop_id)
      with Some False show ?thesis by (auto simp: DecodeBase58Check_def Let_def)
    qed (use Some in \<open>auto simp: DecodeBase58Check_def\<close>)
  qed (simp add: DecodeBase58Check_def)
  then show ?thesis using base58_parts [OF assms(1), of "v @ ?c v" s] assms(2) by (simp add: EncodeBase58Check_def)
qed

lemma psz_not_null: "k < 58 \<Longrightarrow> pszBase58 ! k \<noteq> CHR 0x00"
proof -
  have "strchr58 (CHR 0x00) = None" by code_simp
  then show "k < 58 \<Longrightarrow> pszBase58 ! k \<noteq> CHR 0x00" using strchr58_nth by fastforce
qed

lemma encoded_clean:
  assumes "mpi_documented L" and "length v + 1 < 2 ^ 32"
  shows "b58_strip (c_str (EncodeBase58 L v)) = EncodeBase58 L v"
proof -
  obtain z w where w: "v = replicate z 0 @ w" "w = [] \<or> hd w \<noteq> 0" using split_zeros by blast
  obtain r where r: "b58_ok r" "r = [] \<or> hd r \<noteq> 0" "b58_num r = int (be_nat w)" using b58_num_exists [of "int (be_nat w)"] by auto
  let ?ks = "replicate z 0 @ r"
  have e: "EncodeBase58 L v = b58_chars ?ks" by (rule encode_bytes [OF assms w r])
  have ok: "b58_ok ?ks" using r(1) by (auto simp: b58_ok_def)
  have "\<forall>c \<in> set (b58_chars ?ks). c \<noteq> CHR 0x00 \<and> \<not> isspace c"
  proof
    fix c assume "c \<in> set (b58_chars ?ks)"
    then obtain k where k: "k \<in> set ?ks" "c = pszBase58 ! k" unfolding b58_chars_def set_map by (rule imageE)
    with ok have "k < 58" unfolding b58_ok_def by blast
    from psz_not_null [OF this] psz_not_space [OF this] show "c \<noteq> CHR 0x00 \<and> \<not> isspace c" unfolding k(2) by blast
  qed
  then have "c_str (b58_chars ?ks) = b58_chars ?ks" and "dropWhile isspace (b58_chars ?ks) = b58_chars ?ks"
    unfolding c_str_def by (blast intro: takeWhile_eq_all_conv [THEN iffD2], cases "b58_chars ?ks", simp_all)
  then show ?thesis using strip_chars [OF ok, of "[]"] unfolding e by (simp add: b58_strip_def)
qed

lemma base58check_roundtrip:
  assumes "mpi_documented L" and "length v + 5 < 2 ^ 32"
  shows "DecodeBase58Check L (EncodeBase58Check L v) = Some v"
  using base58check_parts [OF assms] encoded_clean [OF assms(1), of "v @ take 4 (bytes256 (Hash L v))"] assms(2)
  by (simp add: EncodeBase58Check_def)

lemma data_roundtrip:
  "mpi_documented L \<Longrightarrow> length (vchData d) + 6 < 2 ^ 32 \<Longrightarrow> Data_SetString L (Data_ToString L d) = (True, d)"
  using base58check_roundtrip [of L "b58_nVersion d # vchData d"] by (simp add: Data_SetString_def Data_ToString_def)

lemma versions:
  "uint (word_of_int PUBKEY_ADDRESS :: byte) = PUBKEY_ADDRESS" "uint (word_of_int SCRIPT_ADDRESS :: byte) = SCRIPT_ADDRESS"
  "uint (word_of_int PUBKEY_ADDRESS_TEST :: byte) = PUBKEY_ADDRESS_TEST"
  "uint (word_of_int SCRIPT_ADDRESS_TEST :: byte) = SCRIPT_ADDRESS_TEST"
  "uint (word_of_int (128 + PUBKEY_ADDRESS) :: byte) = 128 + PUBKEY_ADDRESS"
  "uint (word_of_int (128 + PUBKEY_ADDRESS_TEST) :: byte) = 128 + PUBKEY_ADDRESS_TEST"
  by (simp_all add: PUBKEY_ADDRESS_def SCRIPT_ADDRESS_def PUBKEY_ADDRESS_TEST_def SCRIPT_ADDRESS_TEST_def)

lemmas address_defs = PUBKEY_ADDRESS_def SCRIPT_ADDRESS_def PUBKEY_ADDRESS_TEST_def SCRIPT_ADDRESS_TEST_def

text \<open>
  C33.  Addresses and secret keys survive being printed and read: the address of a destination is valid on its
  own network and on no other, its text is read back as that address, and the destination comes out again;
  a secret of 32 bytes and its compression flag come out of the text of its encoding.
\<close>

theorem address_roundtrip:
  assumes "mpi_documented L" and "dest \<noteq> CNoDestination" and "length sec = 32"
  shows "\<exists>a d. Address_Set t dest CBase58Data_new = (True, a) \<and>
    Data_SetString L (Data_ToString L a) = (True, a) \<and> Address_Get t a = dest \<and>
    Address_IsValid t a \<and> \<not> Address_IsValid (\<not> t) a \<and>
    Secret_SetSecret t sec c = Some d \<and> Secret_SetString L t (Data_ToString L d) = (True, d) \<and>
    Secret_GetSecret d = Some (sec, c)"
proof -
  obtain a where a: "Address_Set t dest CBase58Data_new = (True, a)" "length (vchData a) = 20"
    "Address_Get t a = dest" "Address_IsValid t a" "\<not> Address_IsValid (\<not> t) a"
    using assms(2) by (cases dest; cases t)
      (auto simp: Address_Set_def SetData_def Address_Get_def Address_IsValid_def Let_def versions, auto simp: address_defs)
  obtain d where d: "Secret_SetSecret t sec c = Some d" by (simp add: Secret_SetSecret_def assms(3) Let_def)
  then have "length (vchData d) \<le> 33" "Secret_IsValid t d" "Secret_GetSecret d = Some (sec, c)"
    using assms(3) by (cases t; cases c; auto simp: Secret_SetSecret_def Secret_IsValid_def Secret_GetSecret_def SetData_def
        Let_def versions nth_append address_defs)+
  with a d data_roundtrip [OF assms(1), of a] data_roundtrip [OF assms(1), of d] show ?thesis
    by (simp add: Secret_SetString_def)
qed

theorem base58_iff_witness:
  "DecodeBase58 sample_openssl (CHR 0x20 # EncodeBase58 sample_openssl [0, 1, 2]) = Some [0, 1, 2]"
proof -
  have "b58_strip (c_str (CHR 0x20 # s)) = b58_strip (c_str s)" for s
    by (simp add: b58_strip_def c_str_def isspace_def)
  then show ?thesis
    using base58_iff [OF mpi_documented_sample, of "[0, 1, 2]"] encoded_clean [OF mpi_documented_sample, of "[0, 1, 2]"]
    by simp
qed


theorem address_roundtrip_witness:
  "\<exists>a. Address_Set False (DestKeyID 7) CBase58Data_new = (True, a) \<and> Address_Get False a = DestKeyID 7"
  using address_roundtrip [OF mpi_documented_sample, of "DestKeyID 7" "replicate 32 1" False True] by auto

end
