(* ===== verification/Settings.thy ===== *)
theory Settings
  imports Text "HOL-Library.List_Lexorder" "HOL-Library.Char_ord"
begin

text \<open>
  The settings (\<open>src/src/util.cpp\<close>): \<open>mapArgs\<close> and \<open>mapMultiArgs\<close> from the command line and the configuration
  file, as on systems other than Windows.  What Boost's reader takes from the configuration file is an argument.
\<close>

type_synonym settings = "string \<rightharpoonup> string"

section \<open>Reading the settings\<close>

text \<open>\<open>atoi\<close> cuts the 64-bit number down to an \<open>int\<close>.\<close>

definition atoi :: "string \<Rightarrow> int" where
  "atoi s = sint (word_of_int (atoi64 s) :: 32 word)"

definition GetArg :: "settings \<Rightarrow> string \<Rightarrow> string \<Rightarrow> string" where
  "GetArg mapArgs strArg strDefault = (case mapArgs strArg of Some v \<Rightarrow> v | None \<Rightarrow> strDefault)"

definition GetArg_int :: "settings \<Rightarrow> string \<Rightarrow> int \<Rightarrow> int" where
  "GetArg_int mapArgs strArg nDefault = (case mapArgs strArg of Some v \<Rightarrow> atoi64 v | None \<Rightarrow> nDefault)"

definition GetBoolArg :: "settings \<Rightarrow> string \<Rightarrow> bool \<Rightarrow> bool" where
  "GetBoolArg mapArgs strArg fDefault =
     (case mapArgs strArg of Some v \<Rightarrow> if v = [] then True else atoi v \<noteq> 0 | None \<Rightarrow> fDefault)"

section \<open>Changing them\<close>

definition SoftSetArg :: "settings \<Rightarrow> string \<Rightarrow> string \<Rightarrow> bool \<times> settings" where
  "SoftSetArg mapArgs strArg strValue =
     (if mapArgs strArg \<noteq> None then (False, mapArgs) else (True, mapArgs(strArg \<mapsto> strValue)))"

definition SoftSetBoolArg :: "settings \<Rightarrow> string \<Rightarrow> bool \<Rightarrow> bool \<times> settings" where
  "SoftSetBoolArg mapArgs strArg fValue = (if fValue then SoftSetArg mapArgs strArg ''1'' else SoftSetArg mapArgs strArg ''0'')"

text \<open>A leading \<open>-no\<close> is looked up in \<open>mapArgs\<close>, whatever map is changed; the key set, if one is.\<close>

definition InterpretNegativeSetting :: "settings \<Rightarrow> string \<Rightarrow> settings \<Rightarrow> settings \<times> string option" where
  "InterpretNegativeSetting mapArgs name mapSettingsRet =
     (if take 3 name = ''-no'' then
        (let positive = CHR ''-'' # drop 3 name
         in if mapSettingsRet positive = None then
              (mapSettingsRet(positive \<mapsto> if \<not> GetBoolArg mapArgs name False then ''1'' else ''0''), Some positive)
            else (mapSettingsRet, None))
      else (mapSettingsRet, None))"

section \<open>The command line\<close>

text \<open>One argument, cut by \<open>strlcpy\<close> to 9999 characters; \<open>None\<close> ends the loop.\<close>

definition split_arg :: "string \<Rightarrow> (string \<times> string) option" where
  "split_arg arg =
     (let psz = take 9999 (c_str arg);
          key = takeWhile (\<lambda>c. c \<noteq> CHR ''='') psz
      in if char_at key 0 \<noteq> CHR ''-'' then None else Some (key, drop (length key + 1) psz))"

fun parse_args :: "string list \<Rightarrow> settings \<Rightarrow> (string \<Rightarrow> string list) \<Rightarrow> settings \<times> (string \<Rightarrow> string list)" where
  "parse_args [] a ma = (a, ma)"
| "parse_args (x # xs) a ma =
     (case split_arg x of
        None \<Rightarrow> (a, ma)
      | Some (k, v) \<Rightarrow> parse_args xs (a(k \<mapsto> v)) (ma(k := ma k @ [v])))"

text \<open>
  The second loop walks the map in key order while it adds to it: a key added behind the current one is met later.
  The second argument holds the keys still to come.
\<close>

definition single_dash :: "string \<Rightarrow> settings \<Rightarrow> settings \<times> string \<times> string option" where
  "single_dash name a =
     (if take 2 name = ''--'' then
        (let singleDash = drop 1 name
         in if a singleDash = None then (a(singleDash := a name), singleDash, Some singleDash) else (a, singleDash, None))
      else (a, name, None))"

fun come_later :: "string \<Rightarrow> string option \<Rightarrow> string list \<Rightarrow> string list" where
  "come_later cur (Some k) ks = (if cur < k then insort k ks else ks)"
| "come_later cur None ks = ks"

definition key_weight :: "string list \<Rightarrow> nat" where
  "key_weight ks = sum_list (map (\<lambda>k. 4 ^ length k) ks)"

lemma come_later_weight: "key_weight (come_later k n ks) \<le> key_weight ks + (case n of None \<Rightarrow> 0 | Some x \<Rightarrow> 4 ^ length x)"
proof -
  have "key_weight (insort x ks) = 4 ^ length x + key_weight ks" for x by (induction ks) (auto simp: key_weight_def)
  then show ?thesis by (cases "(k, n, ks)" rule: come_later.cases) auto
qed

lemma single_dash_length:
  "single_dash k a = (a1, name, new1) \<Longrightarrow> length name \<le> length k \<and> (case new1 of None \<Rightarrow> True | Some x \<Rightarrow> length x < length k)"
  by (cases k) (auto simp: single_dash_def Let_def split: if_splits)

lemma negative_length:
  assumes "InterpretNegativeSetting a name m = (a2, new2)"
  shows "case new2 of None \<Rightarrow> True | Some x \<Rightarrow> Suc (length x) < length name"
proof (cases new2)
  case (Some x)
  then have t: "take 3 name = ''-no''" and x: "x = CHR ''-'' # drop 3 name"
    using assms by (auto simp: InterpretNegativeSetting_def Let_def split: if_splits)
  have "length (take 3 name) = 3" unfolding t by simp
  then have "3 \<le> length name" by simp
  then show ?thesis using Some x by simp
qed simp

lemma pow4_sum: "a < n \<Longrightarrow> b < n \<Longrightarrow> (4::nat) ^ a + 4 ^ b < 4 ^ n"
proof -
  assume "a < n" "b < n"
  then have "(4::nat) ^ Suc a \<le> 4 ^ n" "(4::nat) ^ Suc b \<le> 4 ^ n" by (simp_all only: power_increasing Suc_leI one_le_numeral)
  moreover have "(0::nat) < 4 ^ a" "(0::nat) < 4 ^ b" by simp_all
  ultimately show ?thesis unfolding power_Suc by linarith
qed

lemma negative_pass_smaller:
  assumes s: "single_dash k a = (a1, name, new1)" and i: "InterpretNegativeSetting a1 name a1 = (a2, new2)"
  shows "key_weight (come_later k new2 (come_later k new1 ks)) < key_weight (k # ks)"
proof -
  let ?w = "\<lambda>n. case n of None \<Rightarrow> 0 | Some x \<Rightarrow> (4::nat) ^ length x"
  have "key_weight (come_later k new2 (come_later k new1 ks)) \<le> key_weight ks + ?w new1 + ?w new2"
    using come_later_weight [of k new2 "come_later k new1 ks"] come_later_weight [of k new1 ks] by simp
  also have "\<dots> < key_weight ks + 4 ^ length k"
    using single_dash_length [OF s] negative_length [OF i] pow4_sum
    by (cases new1; cases new2) (auto simp: power_strict_increasing less_trans [OF lessI])
  finally show ?thesis by (simp add: key_weight_def)
qed

function negative_pass :: "settings \<Rightarrow> string list \<Rightarrow> settings" where
  "negative_pass a [] = a"
| "negative_pass a (k # ks) =
     (case single_dash k a of
        (a1, name, new1) \<Rightarrow>
          (case InterpretNegativeSetting a1 name a1 of
             (a2, new2) \<Rightarrow> negative_pass a2 (come_later k new2 (come_later k new1 ks))))"
  by pat_completeness auto

termination
  by (relation "measure (\<lambda>(a, ks). key_weight ks)") (simp, metis negative_pass_smaller in_measure case_prod_conv)

definition ParseParameters :: "string list \<Rightarrow> settings \<times> (string \<Rightarrow> string list)" where
  "ParseParameters argv =
     (case parse_args (drop 1 argv) Map.empty (\<lambda>_. []) of
        (a, ma) \<Rightarrow>
          (negative_pass a
             (sort (remdups (map (\<lambda>x. fst (the (split_arg x))) (takeWhile (\<lambda>x. split_arg x \<noteq> None) (drop 1 argv))))),
           ma))"

section \<open>The configuration file\<close>

text \<open>Its entries, in order; both callers pass \<open>mapArgs\<close> and \<open>mapMultiArgs\<close> themselves.\<close>

fun ReadConfigFile :: "(string \<times> string) list \<Rightarrow> settings \<Rightarrow> (string \<Rightarrow> string list) \<Rightarrow> settings \<times> (string \<Rightarrow> string list)" where
  "ReadConfigFile [] a ma = (a, ma)"
| "ReadConfigFile ((k, v) # es) a ma =
     (let strKey = CHR ''-'' # k;
          a1 = (if a strKey = None
                then (let a' = a(strKey \<mapsto> v) in fst (InterpretNegativeSetting a' strKey a')) else a)
      in ReadConfigFile es a1 (ma(strKey := ma strKey @ [v])))"

section \<open>What was given explicitly stays\<close>

lemma InterpretNegative_le: "m \<subseteq>\<^sub>m fst (InterpretNegativeSetting a name m)"
  by (auto simp: InterpretNegativeSetting_def Let_def map_le_def)

lemma single_dash_le: "a \<subseteq>\<^sub>m fst (single_dash k a)"
  by (auto simp: single_dash_def Let_def map_le_def)

lemma negative_pass_le: "a \<subseteq>\<^sub>m negative_pass a ks"
proof (induction a ks rule: negative_pass.induct)
  case (2 a k ks)
  obtain a1 name new1 where s: "single_dash k a = (a1, name, new1)" by (cases "single_dash k a")
  obtain a2 new2 where i: "InterpretNegativeSetting a1 name a1 = (a2, new2)" by fastforce
  have "a \<subseteq>\<^sub>m a1" using single_dash_le [of a k] s by simp
  also have "a1 \<subseteq>\<^sub>m a2" using InterpretNegative_le [of a1 a1 name] i by simp
  finally (map_le_trans) show ?case using 2 s i by (auto intro: map_le_trans)
qed simp

lemma ReadConfigFile_le: "a \<subseteq>\<^sub>m fst (ReadConfigFile es a ma)"
proof (induction es a ma rule: ReadConfigFile.induct)
  case (2 k v es a ma)
  let ?k = "CHR ''-'' # k"
  have "a \<subseteq>\<^sub>m a(?k \<mapsto> v)" if "a ?k = None" using that by (auto simp: map_le_def)
  then have "a \<subseteq>\<^sub>m fst (InterpretNegativeSetting (a(?k \<mapsto> v)) ?k (a(?k \<mapsto> v)))" if "a ?k = None"
    using that InterpretNegative_le map_le_trans by blast
  then show ?case using 2 [OF refl refl] by (auto simp: Let_def fun_upd_def intro: map_le_trans)
qed simp

lemma parse_args_last:
  "list_all (\<lambda>x. split_arg x \<noteq> None) xs \<Longrightarrow> split_arg x = Some (k, v) \<Longrightarrow>
     list_all (\<lambda>y. map_option fst (split_arg y) \<noteq> Some k) ys \<Longrightarrow> fst (parse_args (xs @ x # ys) a ma) k = Some v"
proof (induction xs arbitrary: a ma)
  case Nil
  have "fst (parse_args ys a ma) k = a k" if "list_all (\<lambda>y. map_option fst (split_arg y) \<noteq> Some k) ys" for a ma
    using that by (induction ys arbitrary: a ma) (auto split: option.splits)
  then show ?case using Nil by simp
qed (auto split: option.splits)

text \<open>The last explicit use of a setting decides: if a command line argument before the first one without a dash gives
  key \<open>k\<close> the value \<open>v\<close> and no later argument repeats \<open>k\<close>, then \<open>k\<close> has the value \<open>v\<close> after the double-dash and
  negation pass and after any configuration file.\<close>
theorem explicit_setting_wins:
  assumes "list_all (\<lambda>x. split_arg x \<noteq> None) xs" and "split_arg x = Some (k, v)"
    and "list_all (\<lambda>y. map_option fst (split_arg y) \<noteq> Some k) ys"
  shows "fst (ReadConfigFile es (fst (ParseParameters (prog # xs @ x # ys))) ma) k = Some v"
proof -
  have p: "fst (parse_args (xs @ x # ys) Map.empty (\<lambda>_. [])) k = Some v" by (rule parse_args_last [OF assms])
  let ?a = "fst (parse_args (xs @ x # ys) Map.empty (\<lambda>_. []))"
  have "?a \<subseteq>\<^sub>m fst (ParseParameters (prog # xs @ x # ys))"
    using negative_pass_le by (auto simp: ParseParameters_def split: prod.splits)
  then have "?a \<subseteq>\<^sub>m fst (ReadConfigFile es (fst (ParseParameters (prog # xs @ x # ys))) ma)"
    using ReadConfigFile_le map_le_trans by blast
  moreover have "k \<in> dom ?a" using p by blast
  ultimately show ?thesis using p unfolding map_le_def by metis
qed

theorem explicit_setting_wins_witness:
  "fst (ReadConfigFile [(''gen'', ''0'')] (fst (ParseParameters [''jackpotd'', ''-nogen=1'', ''-gen=7'', ''-gen''])) (\<lambda>_. []))
     ''-gen'' = Some []"
  using explicit_setting_wins [of "[''-nogen=1'', ''-gen=7'']" "''-gen''" "''-gen''" "[]" "[]" "[(''gen'', ''0'')]" "''jackpotd''" "\<lambda>_. []"]
  by (simp add: split_arg_def c_str_def char_at_def Let_def)

end
