(* ===== verification/HexText.thy ===== *)
theory HexText
  imports Text
begin

text \<open>
  Numbers as text (\<open>src/src/uint256.h\<close>, \<open>bignum.h\<close>): the hexadecimal form of hashes and the decimal and hexadecimal
  form of big numbers, written and read.
\<close>

section \<open>Hashes\<close>

definition GetHex :: "uint256 \<Rightarrow> string" where
  "GetHex x = concat (map hex_pair (rev (bytes256 x)))"

definition skip_0x :: "string \<Rightarrow> string" where
  "skip_0x psz = (if char_at psz 0 = CHR ''0'' \<and> char_at psz 1 \<in> {CHR ''x'', CHR ''X''} then drop 2 psz else psz)"

definition isxdigit :: "char \<Rightarrow> bool" where
  "isxdigit c \<longleftrightarrow> phexdigit c \<noteq> None"

text \<open>From the last digit back, two digits to a byte.\<close>

fun hex_bytes :: "byte list \<Rightarrow> byte list" where
  "hex_bytes (d # e # ds) = (d OR push_bit 4 e) # hex_bytes ds"
| "hex_bytes ds = ds"

definition SetHex :: "string \<Rightarrow> uint256" where
  "SetHex psz =
     (let ds = map (the \<circ> phexdigit) (takeWhile isxdigit (skip_0x (dropWhile isspace (c_str psz))))
      in le_word (take 32 (hex_bytes (rev ds))))"

section \<open>Big numbers\<close>

text \<open>The digits from the last one on, for a base from 2 to 16.\<close>

function big_digits :: "int \<Rightarrow> int \<Rightarrow> string" where
  "big_digits nBase bn =
     (if bn > 0 \<and> nBase > 1 then ''0123456789abcdef'' ! nat (bn mod nBase) # big_digits nBase (bn div nBase) else [])"
  by pat_completeness auto
termination
proof (relation "measure (\<lambda>(_, bn). nat bn)")
  fix nBase bn :: int
  assume "bn > 0 \<and> nBase > 1"
  then have "bn div nBase < bn" by (simp add: int_div_less_self)
  then show "((nBase, bn div nBase), nBase, bn) \<in> measure (\<lambda>(_, bn). nat bn)" using \<open>bn > 0 \<and> nBase > 1\<close> by simp
qed simp

declare big_digits.simps [simp del]

definition Big_ToString :: "int \<Rightarrow> int \<Rightarrow> string" where
  "Big_ToString n nBase =
     (if n = 0 then ''0'' else rev (big_digits nBase \<bar>n\<bar> @ (if n < 0 then ''-'' else [])))"

definition Big_GetHex :: "int \<Rightarrow> string" where
  "Big_GetHex n = Big_ToString n 16"

definition Big_SetHex :: "string \<Rightarrow> int" where
  "Big_SetHex str =
     (let psz = dropWhile isspace (c_str str);
          fNegative = (char_at psz 0 = CHR ''-'');
          ds = takeWhile isxdigit (dropWhile isspace (skip_0x (if fNegative then tl psz else psz)));
          v = fold (\<lambda>c b. push_bit 4 b + uint (the (phexdigit c))) ds 0
      in if fNegative then 0 - v else v)"

section \<open>Reading back\<close>

lemma hex_digit_facts:
  assumes "d < 16"
  shows "phexdigit (''0123456789abcdef'' ! d) = Some (word_of_nat d)" "isxdigit (''0123456789abcdef'' ! d)"
    "\<not> isspace (''0123456789abcdef'' ! d)" "''0123456789abcdef'' ! d \<notin> {CHR ''x'', CHR ''X'', CHR ''-'', CHR 0x00}"
proof -
  have "list_all (\<lambda>d. \<not> isspace (''0123456789abcdef'' ! d) \<and>
      ''0123456789abcdef'' ! d \<notin> {CHR ''x'', CHR ''X'', CHR ''-'', CHR 0x00}) [0..<16]" by code_simp
  then show "\<not> isspace (''0123456789abcdef'' ! d)" "''0123456789abcdef'' ! d \<notin> {CHR ''x'', CHR ''X'', CHR ''-'', CHR 0x00}"
    using assms by (simp_all add: list_all_iff)
  have "distinct ''0123456789abcdef''" by code_simp
  then show "phexdigit (''0123456789abcdef'' ! d) = Some (word_of_nat d)"
    using index_of_nth [of "''0123456789abcdef''" d] assms by (simp add: phexdigit_def)
  then show "isxdigit (''0123456789abcdef'' ! d)" by (simp add: isxdigit_def)
qed

text \<open>Text made of such digits is taken whole by either reader.\<close>

definition hex_text :: "string \<Rightarrow> bool" where
  "hex_text s \<longleftrightarrow> list_all (\<lambda>c. \<exists>d < 16. c = ''0123456789abcdef'' ! d) s"

lemma hex_text_scan:
  assumes "hex_text s"
  shows "c_str s = s" "dropWhile isspace s = s" "skip_0x s = s" "takeWhile isxdigit s = s" "char_at s 0 \<noteq> CHR ''-''"
proof -
  have a: "\<not> isspace c \<and> isxdigit c \<and> c \<notin> {CHR ''x'', CHR ''X'', CHR ''-'', CHR 0x00}" if c: "c \<in> set s" for c
  proof -
    obtain d where "d < 16" "c = ''0123456789abcdef'' ! d" using assms c unfolding hex_text_def list_all_iff by blast
    then show ?thesis using hex_digit_facts [of d] by simp
  qed
  show "c_str s = s" "takeWhile isxdigit s = s" using a by (auto simp: c_str_def takeWhile_eq_all_conv)
  show "dropWhile isspace s = s" using a by (cases s) auto
  have at: "char_at s n \<notin> {CHR ''x'', CHR ''X'', CHR ''-''}" for n using a [of "s ! n"] by (auto simp: char_at_def)
  then show "skip_0x s = s" "char_at s 0 \<noteq> CHR ''-''" by (auto simp: skip_0x_def)
qed

lemma hex_pair_text: "hex_text (concat (map hex_pair bs))"
proof -
  have "unat (drop_bit 4 b) < 16 \<and> unat (b AND 15) < 16" for b :: byte
    using bits_in_less [of "[0, 1, 2, 3]" "drop_bit 4 b" 4] bits_in_less [of "[0, 1, 2, 3]" "b AND 15" 4] by (auto simp: bits)
  then show ?thesis by (induction bs) (auto simp: hex_text_def hex_pair_def)
qed

lemma hex_pair_digits: "map (the \<circ> phexdigit) (hex_pair b) = [drop_bit 4 b, b AND 15]"
proof -
  have c: "bits_in [0, 1, 2, 3] (drop_bit 4 b)" "bits_in [0, 1, 2, 3] (b AND 15)" by (auto simp: bits)
  show ?thesis using hex_digit(1) [OF c(1)] hex_digit(1) [OF c(2)] by (simp add: hex_pair_def)
qed

lemma hex_bytes_back: "hex_bytes (rev (map (the \<circ> phexdigit) (concat (map hex_pair (rev bs))))) = bs"
proof (induction bs)
  case (Cons b bs)
  have "(b AND 15) OR push_bit 4 (drop_bit 4 b) = b" by (rule byte_eqI) (auto simp: bits)
  then have "hex_bytes (rev (map (the \<circ> phexdigit) (hex_pair b)) @ s) = b # hex_bytes s" for s
    unfolding hex_pair_digits by simp
  then show ?case using Cons by (simp add: comp_def)
qed simp

lemma SetHex_GetHex: "SetHex (GetHex x) = x"
proof -
  let ?s = "concat (map hex_pair (rev (bytes256 x)))"
  note s = hex_text_scan [OF hex_pair_text, of "rev (bytes256 x)"]
  have "SetHex ?s = le_word (take 32 (hex_bytes (rev (map (the \<circ> phexdigit) ?s))))"
    unfolding SetHex_def Let_def s(1-3) s(4) ..
  then show ?thesis unfolding GetHex_def hex_bytes_back by simp
qed

lemma big_digits_text: "1 < b \<Longrightarrow> b \<le> 16 \<Longrightarrow> hex_text (rev (big_digits b n))"
proof (induction b n rule: big_digits.induct)
  case (1 b n)
  have "n mod b < b" using 1(2) by simp
  then have "nat (n mod b) < 16" using 1(3) by linarith
  then show ?case using 1 by (subst big_digits.simps) (auto simp: hex_text_def list_all_iff)
qed

definition hex_value :: "string \<Rightarrow> int" where
  "hex_value ds = fold (\<lambda>c b. push_bit 4 b + uint (the (phexdigit c))) ds 0"

lemma hex_value_digits: "0 \<le> n \<Longrightarrow> hex_value (rev (big_digits 16 n)) = n"
proof (induction "16::int" n rule: big_digits.induct)
  case (1 n)
  show ?case
  proof (cases "n > 0")
    case True
    have d: "nat (n mod 16) < 16" by simp
    have "0 \<le> n mod 16" "n mod 16 < 16" by simp_all
    then have "n mod 16 mod 256 = n mod 16" by (intro mod_pos_pos_trivial) linarith+
    then have "uint (word_of_nat (nat (n mod 16)) :: byte) = n mod 16" by (simp add: uint_word_of_int)
    then have "hex_value (rev (big_digits 16 n)) = push_bit 4 (hex_value (rev (big_digits 16 (n div 16)))) + n mod 16"
      using True hex_digit_facts(1) [OF d] by (subst big_digits.simps) (simp add: hex_value_def)
    also have "\<dots> = n div 16 * 16 + n mod 16" using 1 True by (simp add: push_bit_eq_mult)
    finally show ?thesis by simp
  next
    case False
    then show ?thesis using 1 by (simp add: big_digits.simps hex_value_def)
  qed
qed

lemma Big_SetHex_GetHex: "Big_SetHex (Big_GetHex n) = n"
proof (cases "n = 0")
  case True
  have "Big_SetHex ''0'' = 0" by code_simp
  then show ?thesis using True by (simp add: Big_GetHex_def Big_ToString_def)
next
  case False
  let ?s = "rev (big_digits 16 \<bar>n\<bar>)"
  have t: "hex_text ?s" by (rule big_digits_text) simp_all
  have v: "hex_value ?s = \<bar>n\<bar>" by (rule hex_value_digits) simp
  note s = hex_text_scan [OF t]
  have m: "c_str (CHR ''-'' # ?s) = CHR ''-'' # ?s" "dropWhile isspace (CHR ''-'' # ?s) = CHR ''-'' # ?s"
    using s(1) by (simp_all add: c_str_def isspace_def)
  show ?thesis
  proof (cases "n < 0")
    case True
    have "Big_SetHex (CHR ''-'' # ?s) = 0 - hex_value ?s"
      unfolding Big_SetHex_def Let_def m by (simp add: char_at_def s hex_value_def)
    then show ?thesis using True v by (simp add: Big_GetHex_def Big_ToString_def)
  next
    case n: False
    have "Big_SetHex ?s = hex_value ?s"
      using s(5) unfolding Big_SetHex_def Let_def s(1) s(2) by (simp only: if_False s hex_value_def)
    then show ?thesis using n False v by (simp add: Big_GetHex_def Big_ToString_def)
  qed
qed

text \<open>Round trip: every 256-bit hash and every big number, of either sign, is read back from its hexadecimal
  text.\<close>
theorem hex_number_roundtrip: "SetHex (GetHex x) = x \<and> Big_SetHex (Big_GetHex n) = n"
  using SetHex_GetHex Big_SetHex_GetHex by simp

end
