(* ===== verification/Netaddr.thy ===== *)
theory Netaddr
  imports HexText Serialize
begin

text \<open>
  Network addresses (\<open>src/src/netbase.h\<close>, \<open>netbase.cpp\<close>): \<open>CNetAddr\<close>, its classes, networks and groups, and
  \<open>CService\<close>, built with IPv6.  The classes of the source extend one another, and so do the records.  The numeric
  names and the resolver of the operating system are parameters.
\<close>

section \<open>Addresses\<close>

datatype Network = NET_UNROUTABLE | NET_IPV4 | NET_IPV6 | NET_TOR | NET_I2P

definition net_number :: "Network \<Rightarrow> nat" where
  "net_number n = (case n of NET_UNROUTABLE \<Rightarrow> 0 | NET_IPV4 \<Rightarrow> 1 | NET_IPV6 \<Rightarrow> 2 | NET_TOR \<Rightarrow> 3 | NET_I2P \<Rightarrow> 4)"

record CNetAddr =
  ip :: "byte list"

definition NetAddr_Init :: CNetAddr where
  "NetAddr_Init = \<lparr>ip = replicate 16 0\<rparr>"

definition pchIPv4 :: "byte list" where
  "pchIPv4 = [0, 0, 0, 0, 0, 0, 0, 0, 0, 0, 0xff, 0xff]"

definition pchOnionCat :: "byte list" where
  "pchOnionCat = [0xFD, 0x87, 0xD8, 0x7E, 0xEB, 0x43]"

definition pchGarliCat :: "byte list" where
  "pchGarliCat = [0xFD, 0x60, 0xDB, 0x4D, 0xDD, 0xB5]"

text \<open>The four bytes of an IPv4 address.\<close>

definition CNetAddr_of_in_addr :: "byte list \<Rightarrow> CNetAddr" where
  "CNetAddr_of_in_addr ipv4Addr = \<lparr>ip = pchIPv4 @ ipv4Addr\<rparr>"

text \<open>\<open>GetByte\<close> counts from the last byte.\<close>

definition GetByte :: "'a CNetAddr_scheme \<Rightarrow> nat \<Rightarrow> byte" where
  "GetByte a n = ip a ! (15 - n)"

text \<open>\<open>memcmp\<close> of a prefix.\<close>

definition begins :: "byte list \<Rightarrow> 'a CNetAddr_scheme \<Rightarrow> bool" where
  "begins p a \<longleftrightarrow> take (length p) (ip a) = p"

definition IsIPv4 :: "'a CNetAddr_scheme \<Rightarrow> bool" where
  "IsIPv4 a \<longleftrightarrow> begins pchIPv4 a"

definition IsTor :: "'a CNetAddr_scheme \<Rightarrow> bool" where
  "IsTor a \<longleftrightarrow> begins pchOnionCat a"

definition IsI2P :: "'a CNetAddr_scheme \<Rightarrow> bool" where
  "IsI2P a \<longleftrightarrow> begins pchGarliCat a"

definition IsIPv6 :: "'a CNetAddr_scheme \<Rightarrow> bool" where
  "IsIPv6 a \<longleftrightarrow> \<not> IsIPv4 a \<and> \<not> IsTor a \<and> \<not> IsI2P a"

definition IsRFC1918 :: "'a CNetAddr_scheme \<Rightarrow> bool" where
  "IsRFC1918 a \<longleftrightarrow> IsIPv4 a \<and>
     (GetByte a 3 = 10 \<or> (GetByte a 3 = 192 \<and> GetByte a 2 = 168) \<or>
      (GetByte a 3 = 172 \<and> (GetByte a 2 \<ge> 16 \<and> GetByte a 2 \<le> 31)))"

definition IsRFC3927 :: "'a CNetAddr_scheme \<Rightarrow> bool" where
  "IsRFC3927 a \<longleftrightarrow> IsIPv4 a \<and> (GetByte a 3 = 169 \<and> GetByte a 2 = 254)"

definition IsRFC3849 :: "'a CNetAddr_scheme \<Rightarrow> bool" where
  "IsRFC3849 a \<longleftrightarrow> GetByte a 15 = 0x20 \<and> GetByte a 14 = 0x01 \<and> GetByte a 13 = 0x0D \<and> GetByte a 12 = 0xB8"

definition IsRFC3964 :: "'a CNetAddr_scheme \<Rightarrow> bool" where
  "IsRFC3964 a \<longleftrightarrow> GetByte a 15 = 0x20 \<and> GetByte a 14 = 0x02"

definition IsRFC6052 :: "'a CNetAddr_scheme \<Rightarrow> bool" where
  "IsRFC6052 a \<longleftrightarrow> begins [0, 0x64, 0xFF, 0x9B, 0, 0, 0, 0, 0, 0, 0, 0] a"

definition IsRFC4380 :: "'a CNetAddr_scheme \<Rightarrow> bool" where
  "IsRFC4380 a \<longleftrightarrow> GetByte a 15 = 0x20 \<and> GetByte a 14 = 0x01 \<and> GetByte a 13 = 0 \<and> GetByte a 12 = 0"

definition IsRFC4862 :: "'a CNetAddr_scheme \<Rightarrow> bool" where
  "IsRFC4862 a \<longleftrightarrow> begins [0xFE, 0x80, 0, 0, 0, 0, 0, 0] a"

definition IsRFC4193 :: "'a CNetAddr_scheme \<Rightarrow> bool" where
  "IsRFC4193 a \<longleftrightarrow> GetByte a 15 AND 0xFE = 0xFC"

definition IsRFC6145 :: "'a CNetAddr_scheme \<Rightarrow> bool" where
  "IsRFC6145 a \<longleftrightarrow> begins [0, 0, 0, 0, 0, 0, 0, 0, 0xFF, 0xFF, 0, 0] a"

definition IsRFC4843 :: "'a CNetAddr_scheme \<Rightarrow> bool" where
  "IsRFC4843 a \<longleftrightarrow> GetByte a 15 = 0x20 \<and> GetByte a 14 = 0x01 \<and> GetByte a 13 = 0x00 \<and> GetByte a 12 AND 0xF0 = 0x10"

definition IsLocal :: "'a CNetAddr_scheme \<Rightarrow> bool" where
  "IsLocal a \<longleftrightarrow>
     (if IsIPv4 a \<and> (GetByte a 3 = 127 \<or> GetByte a 3 = 0) then True
      else ip a = [0, 0, 0, 0, 0, 0, 0, 0, 0, 0, 0, 0, 0, 0, 0, 1])"

definition IsMulticast :: "'a CNetAddr_scheme \<Rightarrow> bool" where
  "IsMulticast a \<longleftrightarrow> (IsIPv4 a \<and> GetByte a 3 AND 0xF0 = 0xE0) \<or> GetByte a 15 = 0xFF"

definition IsValid :: "'a CNetAddr_scheme \<Rightarrow> bool" where
  "IsValid a \<longleftrightarrow>
     (if begins (drop 3 pchIPv4) a then False
      else if ip a = replicate 16 0 then False
      else if IsRFC3849 a then False
      else if IsIPv4 a then
        (if drop 12 (ip a) = [0xff, 0xff, 0xff, 0xff] then False else if drop 12 (ip a) = [0, 0, 0, 0] then False else True)
      else True)"

definition IsRoutable :: "'a CNetAddr_scheme \<Rightarrow> bool" where
  "IsRoutable a \<longleftrightarrow> IsValid a \<and>
     \<not> (IsRFC1918 a \<or> IsRFC3927 a \<or> IsRFC4862 a \<or> (IsRFC4193 a \<and> \<not> IsTor a \<and> \<not> IsI2P a) \<or> IsRFC4843 a \<or> IsLocal a)"

definition GetNetwork :: "'a CNetAddr_scheme \<Rightarrow> Network" where
  "GetNetwork a =
     (if \<not> IsRoutable a then NET_UNROUTABLE
      else if IsIPv4 a then NET_IPV4
      else if IsTor a then NET_TOR
      else if IsI2P a then NET_I2P
      else NET_IPV6)"

section \<open>Groups and hashes\<close>

text \<open>\<open>nBits\<close> bits of the address from byte \<open>nStartByte\<close> on; the last, partial byte has its low bits set.\<close>

function group_bits :: "'a CNetAddr_scheme \<Rightarrow> nat \<Rightarrow> nat \<Rightarrow> byte list" where
  "group_bits a nStartByte nBits =
     (if nBits \<ge> 8 then GetByte a (15 - nStartByte) # group_bits a (nStartByte + 1) (nBits - 8)
      else if nBits > 0 then [GetByte a (15 - nStartByte) OR (push_bit nBits 1 - 1)]
      else [])"
  by pat_completeness auto
termination by (relation "measure (\<lambda>(_, _, nBits). nBits)") auto

declare group_bits.simps [simp del]

definition GetGroup :: "'a CNetAddr_scheme \<Rightarrow> byte list" where
  "GetGroup a =
     (let (nClass0, nBits0) = (if IsLocal a then (255, 0) else (net_number NET_IPV6, 16));
          nStartByte0 = 0
      in if \<not> IsRoutable a then word_of_nat (net_number NET_UNROUTABLE) # group_bits a nStartByte0 0
         else if IsIPv4 a \<or> IsRFC6145 a \<or> IsRFC6052 a then word_of_nat (net_number NET_IPV4) # group_bits a 12 nBits0
         else if IsRFC3964 a then word_of_nat (net_number NET_IPV4) # group_bits a 2 nBits0
         else if IsRFC4380 a then [word_of_nat (net_number NET_IPV4), GetByte a 3 XOR 0xFF, GetByte a 2 XOR 0xFF]
         else if IsTor a then word_of_nat (net_number NET_TOR) # group_bits a 6 4
         else if IsI2P a then word_of_nat (net_number NET_I2P) # group_bits a 6 4
         else if GetByte a 15 = 0x20 \<and> GetByte a 14 = 0x11 \<and> GetByte a 13 = 0x04 \<and> GetByte a 12 = 0x70
              then word_of_nat nClass0 # group_bits a nStartByte0 36
         else word_of_nat nClass0 # group_bits a nStartByte0 32)"

definition NetAddr_GetHash :: "openssl \<Rightarrow> 'a CNetAddr_scheme \<Rightarrow> 64 word" where
  "NetAddr_GetHash L a = le_word (take 8 (bytes256 (Hash L (ip a))))"

text \<open>\<open>memcmp\<close> as an order.\<close>

definition NetAddr_less :: "'a CNetAddr_scheme \<Rightarrow> 'b CNetAddr_scheme \<Rightarrow> bool" where
  "NetAddr_less a b \<longleftrightarrow> (ip a, ip b) \<in> lexord {(x, y). x < y}"

section \<open>Names\<close>

definition SetSpecial :: "string \<Rightarrow> CNetAddr option" where
  "SetSpecial strName =
     (if length strName > 6 \<and> drop (length strName - 6) strName = ''.onion'' then
        (let vchAddr = fst (DecodeBase32 (take (length strName - 6) strName))
         in if length vchAddr \<noteq> 16 - length pchOnionCat then None else Some \<lparr>ip = pchOnionCat @ vchAddr\<rparr>)
      else if length strName > 11 \<and> drop (length strName - 11) strName = ''.oc.b32.i2p'' then
        (let vchAddr = fst (DecodeBase32 (take (length strName - 11) strName))
         in if length vchAddr \<noteq> 16 - length pchGarliCat then None else Some \<lparr>ip = pchOnionCat @ vchAddr\<rparr>)
      else None)"

definition print_byte :: "byte \<Rightarrow> string" where
  "print_byte b = print_int (uint b)"

definition print_pair :: "'a CNetAddr_scheme \<Rightarrow> nat \<Rightarrow> string" where
  "print_pair a n = Big_GetHex (or (push_bit 8 (uint (GetByte a n))) (uint (GetByte a (n - 1))))"

text \<open>The name the operating system gives to a numeric address, if it does, is \<open>getnameinfo\<close>.\<close>

definition ToStringIP :: "(byte list \<Rightarrow> string option) \<Rightarrow> 'a CNetAddr_scheme \<Rightarrow> string" where
  "ToStringIP getnameinfo a =
     (if IsTor a then EncodeBase32 (take 10 (drop 6 (ip a))) @ ''.onion''
      else if IsI2P a then EncodeBase32 (take 10 (drop 6 (ip a))) @ ''.oc.b32.i2p''
      else
        (case getnameinfo (ip a) of
           Some name \<Rightarrow> name
         | None \<Rightarrow>
             if IsIPv4 a then
               print_byte (GetByte a 3) @ ''.'' @ print_byte (GetByte a 2) @ ''.'' @ print_byte (GetByte a 1) @ ''.'' @
               print_byte (GetByte a 0)
             else
               print_pair a 15 @ '':'' @ print_pair a 13 @ '':'' @ print_pair a 11 @ '':'' @ print_pair a 9 @ '':'' @
               print_pair a 7 @ '':'' @ print_pair a 5 @ '':'' @ print_pair a 3 @ '':'' @ print_pair a 1))"

section \<open>Reachability\<close>

datatype Reachability =
  REACH_UNREACHABLE | REACH_DEFAULT | REACH_TEREDO | REACH_IPV6_WEAK | REACH_IPV4 | REACH_IPV6_STRONG | REACH_PRIVATE

datatype ExtNetwork = Ext Network | NET_UNKNOWN | NET_TEREDO

definition GetExtNetwork :: "'a CNetAddr_scheme option \<Rightarrow> ExtNetwork" where
  "GetExtNetwork addr =
     (case addr of None \<Rightarrow> NET_UNKNOWN | Some a \<Rightarrow> if IsRFC4380 a then NET_TEREDO else Ext (GetNetwork a))"

definition GetReachabilityFrom :: "'a CNetAddr_scheme \<Rightarrow> 'b CNetAddr_scheme option \<Rightarrow> Reachability" where
  "GetReachabilityFrom a paddrPartner =
     (if \<not> IsRoutable a then REACH_UNREACHABLE
      else
        (let ourNet = GetExtNetwork (Some a);
             theirNet = GetExtNetwork paddrPartner;
             fTunnel = (IsRFC3964 a \<or> IsRFC6052 a \<or> IsRFC6145 a)
         in case theirNet of
              Ext NET_IPV4 \<Rightarrow> (case ourNet of Ext NET_IPV4 \<Rightarrow> REACH_IPV4 | _ \<Rightarrow> REACH_DEFAULT)
            | Ext NET_IPV6 \<Rightarrow>
                (case ourNet of
                   NET_TEREDO \<Rightarrow> REACH_TEREDO
                 | Ext NET_IPV4 \<Rightarrow> REACH_IPV4
                 | Ext NET_IPV6 \<Rightarrow> if fTunnel then REACH_IPV6_WEAK else REACH_IPV6_STRONG
                 | _ \<Rightarrow> REACH_DEFAULT)
            | Ext NET_TOR \<Rightarrow>
                (case ourNet of Ext NET_IPV4 \<Rightarrow> REACH_IPV4 | Ext NET_TOR \<Rightarrow> REACH_PRIVATE | _ \<Rightarrow> REACH_DEFAULT)
            | Ext NET_I2P \<Rightarrow> (case ourNet of Ext NET_I2P \<Rightarrow> REACH_PRIVATE | _ \<Rightarrow> REACH_DEFAULT)
            | NET_TEREDO \<Rightarrow>
                (case ourNet of
                   NET_TEREDO \<Rightarrow> REACH_TEREDO
                 | Ext NET_IPV6 \<Rightarrow> REACH_IPV6_WEAK
                 | Ext NET_IPV4 \<Rightarrow> REACH_IPV4
                 | _ \<Rightarrow> REACH_DEFAULT)
            | _ \<Rightarrow>
                (case ourNet of
                   NET_TEREDO \<Rightarrow> REACH_TEREDO
                 | Ext NET_IPV6 \<Rightarrow> REACH_IPV6_WEAK
                 | Ext NET_IPV4 \<Rightarrow> REACH_IPV4
                 | Ext NET_I2P \<Rightarrow> REACH_PRIVATE
                 | Ext NET_TOR \<Rightarrow> REACH_PRIVATE
                 | _ \<Rightarrow> REACH_DEFAULT)))"

section \<open>Services\<close>

record CService = CNetAddr +
  port :: "16 word"

definition CService_new :: "'a CNetAddr_scheme \<Rightarrow> 16 word \<Rightarrow> CService" where
  "CService_new cip portIn = \<lparr>ip = ip cip, port = portIn\<rparr>"

definition CService_default :: CService where
  "CService_default = CService_new NetAddr_Init 0"

definition SetPort :: "CService \<Rightarrow> 16 word \<Rightarrow> CService" where
  "SetPort s portIn = s\<lparr>port := portIn\<rparr>"

definition Service_eq :: "'a CService_scheme \<Rightarrow> 'b CService_scheme \<Rightarrow> bool" where
  "Service_eq a b \<longleftrightarrow> ip a = ip b \<and> port a = port b"

definition Service_less :: "'a CService_scheme \<Rightarrow> 'b CService_scheme \<Rightarrow> bool" where
  "Service_less a b \<longleftrightarrow> NetAddr_less a b \<or> (ip a = ip b \<and> port a < port b)"

definition Service_GetKey :: "'a CService_scheme \<Rightarrow> byte list" where
  "Service_GetKey s = ip s @ [ucast (drop_bit 8 (port s)), ucast (port s AND 0x0FF)]"

definition ToStringPort :: "'a CService_scheme \<Rightarrow> string" where
  "ToStringPort s = print_int (uint (port s))"

definition ToStringIPPort :: "(byte list \<Rightarrow> string option) \<Rightarrow> 'a CService_scheme \<Rightarrow> string" where
  "ToStringIPPort getnameinfo s =
     (if IsIPv4 s \<or> IsTor s \<or> IsI2P s then ToStringIP getnameinfo s @ '':'' @ ToStringPort s
      else ''['' @ ToStringIP getnameinfo s @ '']:'' @ ToStringPort s)"

text \<open>A socket address: its family, its port as stored, its bytes.  \<open>None\<close> stands for other families.\<close>

datatype sockaddr = AF_INET "16 word" "byte list" | AF_INET6 "16 word" "byte list" | AF_other

definition htons :: "16 word \<Rightarrow> 16 word" where
  "htons p = push_bit 8 p OR drop_bit 8 p"

definition SetSockAddr :: "sockaddr \<Rightarrow> CService option" where
  "SetSockAddr paddr =
     (case paddr of
        AF_INET p a \<Rightarrow> Some (CService_new (CNetAddr_of_in_addr a) (htons p))
      | AF_INET6 p a \<Rightarrow> Some (CService_new \<lparr>ip = a\<rparr> (htons p))
      | AF_other \<Rightarrow> None)"

definition GetSockAddr :: "'a CService_scheme \<Rightarrow> nat \<Rightarrow> (sockaddr \<times> nat) option" where
  "GetSockAddr s addrlen =
     (if IsIPv4 s then (if addrlen < 16 then None else Some (AF_INET (htons (port s)) (drop 12 (ip s)), 16))
      else if IsIPv6 s then (if addrlen < 28 then None else Some (AF_INET6 (htons (port s)) (ip s), 28))
      else None)"

text \<open>The wire format: the address and the port in network order.\<close>

definition ser_u16 :: "16 word \<Rightarrow> byte list" where
  "ser_u16 x = nat_le 2 (unat x)"

definition unser_u16 :: "16 word reader" where
  "unser_u16 bs = map_option (\<lambda>(xs, r). (word_of_nat (le_nat xs), r)) (READDATA 2 bs)"

definition ser_CService :: "'a CService_scheme \<Rightarrow> byte list" where
  "ser_CService s = ip s @ ser_u16 (htons (port s))"

definition unser_CService :: "CService reader" where
  "unser_CService bs =
     (case READDATA 16 bs of
        None \<Rightarrow> None
      | Some (a, r) \<Rightarrow> map_option (\<lambda>(portN, r'). (\<lparr>ip = a, port = htons portN\<rparr>, r')) (unser_u16 r))"

section \<open>Names and ports\<close>

definition ParseNetwork :: "string \<Rightarrow> Network" where
  "ParseNetwork net =
     (let lower = map (\<lambda>c. case index_of ''ABCDEFGHIJKLMNOPQRSTUVWXYZ'' c of Some k \<Rightarrow> ''abcdefghijklmnopqrstuvwxyz'' ! k | None \<Rightarrow> c) net
      in if lower = ''ipv4'' then NET_IPV4 else if lower = ''ipv6'' then NET_IPV6 else if lower = ''tor'' then NET_TOR
         else if lower = ''i2p'' then NET_I2P else NET_UNROUTABLE)"

text \<open>Where \<open>strtol\<close> stops: at the start if there are no digits.\<close>

definition strtol_end :: "string \<Rightarrow> string" where
  "strtol_end s =
     (let t = dropWhile isspace s;
          u = (if char_at t 0 = CHR ''-'' \<or> char_at t 0 = CHR ''+'' then tl t else t)
      in if takeWhile isdigit u = [] then s else dropWhile isdigit u)"

definition find_last_of :: "char \<Rightarrow> string \<Rightarrow> nat option" where
  "find_last_of c s =
     (let n = length (takeWhile (\<lambda>d. d \<noteq> c) (rev s)) in if n < length s then Some (length s - 1 - n) else None)"

text \<open>The port is changed only when one is given; the host comes second.\<close>

definition SplitHostPort :: "string \<Rightarrow> int \<Rightarrow> int \<times> string" where
  "SplitHostPort in0 portOut =
     (let (s, p) =
            (case find_last_of (CHR '':'') in0 of
               None \<Rightarrow> (in0, portOut)
             | Some colon \<Rightarrow>
                 (let fBracketed = (char_at in0 0 = CHR ''['' \<and> char_at in0 (colon - 1) = CHR '']'');
                      fMultiColon = (find_last_of (CHR '':'') (if colon = 0 then in0 else take colon in0) \<noteq> None)
                  in if colon = 0 \<or> fBracketed \<or> \<not> fMultiColon then
                       (let num = c_str (drop (colon + 1) in0);
                            n = sint (word_of_int (atoi64 num) :: 32 word)
                        in if strtol_end num = [] \<and> n \<ge> 0 then
                             (take colon in0, if n > 0 \<and> n < 0x10000 then n else portOut)
                           else (in0, portOut))
                     else (in0, portOut)))
      in (p, if s \<noteq> [] \<and> hd s = CHR ''['' \<and> last s = CHR '']'' then take (length s - 2) (drop 1 s) else s))"

text \<open>The addresses the operating system knows for a name, in its order; \<open>Inl\<close> are IPv4.\<close>

type_synonym resolver = "string \<Rightarrow> bool \<Rightarrow> (byte list + byte list) list option"

definition resolved :: "byte list + byte list \<Rightarrow> CNetAddr" where
  "resolved r = (case r of Inl a \<Rightarrow> CNetAddr_of_in_addr a | Inr a \<Rightarrow> \<lparr>ip = a\<rparr>)"

definition LookupIntern :: "resolver \<Rightarrow> string \<Rightarrow> nat \<Rightarrow> bool \<Rightarrow> CNetAddr list \<times> bool" where
  "LookupIntern getaddrinfo pszName nMaxSolutions fAllowLookup =
     (case SetSpecial pszName of
        Some addr \<Rightarrow> ([addr], True)
      | None \<Rightarrow>
          (case getaddrinfo pszName fAllowLookup of
             None \<Rightarrow> ([], False)
           | Some aiRes \<Rightarrow>
               (let vIP = map resolved (if nMaxSolutions = 0 then aiRes else take nMaxSolutions aiRes)
                in (vIP, length vIP > 0))))"

definition LookupHost :: "resolver \<Rightarrow> string \<Rightarrow> nat \<Rightarrow> bool \<Rightarrow> CNetAddr list \<times> bool" where
  "LookupHost getaddrinfo pszName nMaxSolutions fAllowLookup =
     (if char_at pszName 0 = CHR 0x00 then ([], False)
      else
        (let psz = take 255 pszName;
             pszHost = (if hd psz = CHR ''['' \<and> last psz = CHR '']'' then butlast (tl psz) else psz)
         in LookupIntern getaddrinfo pszHost nMaxSolutions fAllowLookup))"

definition Lookup_all :: "resolver \<Rightarrow> string \<Rightarrow> int \<Rightarrow> bool \<Rightarrow> nat \<Rightarrow> CService list option" where
  "Lookup_all getaddrinfo pszName portDefault fAllowLookup nMaxSolutions =
     (if char_at pszName 0 = CHR 0x00 then None
      else
        (case SplitHostPort pszName portDefault of
           (p, hostname) \<Rightarrow>
             (case LookupIntern getaddrinfo (c_str hostname) nMaxSolutions fAllowLookup of
                (vIP, fRet) \<Rightarrow> if \<not> fRet then None else Some (map (\<lambda>a. CService_new a (word_of_int p)) vIP))))"

definition Lookup :: "resolver \<Rightarrow> string \<Rightarrow> int \<Rightarrow> bool \<Rightarrow> CService option" where
  "Lookup getaddrinfo pszName portDefault fAllowLookup =
     map_option hd (Lookup_all getaddrinfo pszName portDefault fAllowLookup 1)"

definition LookupNumeric :: "resolver \<Rightarrow> string \<Rightarrow> int \<Rightarrow> CService option" where
  "LookupNumeric getaddrinfo pszName portDefault = Lookup getaddrinfo pszName portDefault False"

text \<open>The constructors that take a name: what is not found stays unset.\<close>

definition CNetAddr_named :: "resolver \<Rightarrow> string \<Rightarrow> bool \<Rightarrow> CNetAddr" where
  "CNetAddr_named getaddrinfo strIp fAllowLookup =
     (case LookupHost getaddrinfo (c_str strIp) 1 fAllowLookup of
        (vIP, fRet) \<Rightarrow> if fRet then hd vIP else NetAddr_Init)"

definition CService_named :: "resolver \<Rightarrow> string \<Rightarrow> int \<Rightarrow> bool \<Rightarrow> CService" where
  "CService_named getaddrinfo strIpPort portDefault fAllowLookup =
     (case Lookup getaddrinfo (c_str strIpPort) portDefault fAllowLookup of
        Some s \<Rightarrow> s
      | None \<Rightarrow> CService_default)"

section \<open>Proxies\<close>

record proxies =
  proxyInfo :: "Network \<Rightarrow> CService \<times> int"
  nameproxyInfo :: "CService \<times> int"

definition SetProxy :: "Network \<Rightarrow> CService \<Rightarrow> int \<Rightarrow> proxies \<Rightarrow> bool \<times> proxies" where
  "SetProxy net addrProxy nSocksVersion s =
     (if nSocksVersion \<noteq> 0 \<and> nSocksVersion \<noteq> 4 \<and> nSocksVersion \<noteq> 5 then (False, s)
      else if nSocksVersion \<noteq> 0 \<and> \<not> IsValid addrProxy then (False, s)
      else (True, s\<lparr>proxyInfo := (proxyInfo s)(net := (addrProxy, nSocksVersion))\<rparr>))"

definition GetProxy :: "Network \<Rightarrow> proxies \<Rightarrow> (CService \<times> int) option" where
  "GetProxy net s = (if snd (proxyInfo s net) = 0 then None else Some (proxyInfo s net))"

definition SetNameProxy :: "CService \<Rightarrow> int \<Rightarrow> proxies \<Rightarrow> bool \<times> proxies" where
  "SetNameProxy addrProxy nSocksVersion s =
     (if nSocksVersion \<noteq> 0 \<and> nSocksVersion \<noteq> 5 then (False, s)
      else if nSocksVersion \<noteq> 0 \<and> \<not> IsValid addrProxy then (False, s)
      else (True, s\<lparr>nameproxyInfo := (addrProxy, nSocksVersion)\<rparr>))"

definition GetNameProxy :: "proxies \<Rightarrow> (CService \<times> int) option" where
  "GetNameProxy s = (if snd (nameproxyInfo s) = 0 then None else Some (nameproxyInfo s))"

definition HaveNameProxy :: "proxies \<Rightarrow> bool" where
  "HaveNameProxy s \<longleftrightarrow> snd (nameproxyInfo s) \<noteq> 0"

definition IsProxy :: "'a CNetAddr_scheme \<Rightarrow> proxies \<Rightarrow> bool" where
  "IsProxy addr s \<longleftrightarrow>
     list_ex (\<lambda>net. snd (proxyInfo s net) \<noteq> 0 \<and> ip addr = ip (fst (proxyInfo s net)))
       [NET_UNROUTABLE, NET_IPV4, NET_IPV6, NET_TOR, NET_I2P]"

section \<open>Facts\<close>

lemma take_suffix [simp]: "take (length (xs @ ys) - length ys) (xs @ ys) = xs"
  "drop (length (xs @ ys) - length ys) (xs @ ys) = ys"
  by simp_all

lemma onion_name:
  assumes "length v = 10"
  shows "SetSpecial (EncodeBase32 v @ ''.onion'') = Some \<lparr>ip = pchOnionCat @ v\<rparr>"
proof -
  have "EncodeBase32 v \<noteq> []" using base32_text(2) [of v] assms by (auto simp: DecodeBase32_def)
  then show ?thesis using assms base32_text(2) [of v] by (simp add: SetSpecial_def pchOnionCat_def)
qed

lemma i2p_name:
  assumes "length v = 10"
  shows "SetSpecial (EncodeBase32 v @ ''.oc.b32.i2p'') = Some \<lparr>ip = pchOnionCat @ v\<rparr>"
proof -
  have "EncodeBase32 v \<noteq> []" using base32_text(2) [of v] assms by (auto simp: DecodeBase32_def)
  moreover have "drop (length (EncodeBase32 v @ ''.oc.b32.i2p'') - 6) (EncodeBase32 v @ ''.oc.b32.i2p'') = ''32.i2p''" by simp
  ultimately show ?thesis using assms base32_text(2) [of v] by (simp add: SetSpecial_def pchGarliCat_def)
qed

lemma special_names_tor_i2p:
  assumes "length (ip a) = 16"
  shows "IsTor a \<longrightarrow> SetSpecial (ToStringIP getnameinfo a) = Some \<lparr>ip = ip a\<rparr>"
    and "IsI2P a \<longrightarrow> (\<exists>b. SetSpecial (ToStringIP getnameinfo a) = Some b \<and> IsTor b \<and> \<not> IsI2P b \<and> drop 6 (ip b) = drop 6 (ip a))"
proof -
  have l: "length (drop 6 (ip a)) = 10" "take 10 (drop 6 (ip a)) = drop 6 (ip a)" using assms by simp_all
  show "IsTor a \<longrightarrow> SetSpecial (ToStringIP getnameinfo a) = Some \<lparr>ip = ip a\<rparr>"
  proof
    assume t: "IsTor a"
    have "length pchOnionCat = 6" by (simp add: pchOnionCat_def)
    with t have "take 6 (ip a) = pchOnionCat" by (simp add: IsTor_def begins_def)
    then have "pchOnionCat @ drop 6 (ip a) = ip a" using append_take_drop_id [of 6 "ip a"] by metis
    then show "SetSpecial (ToStringIP getnameinfo a) = Some \<lparr>ip = ip a\<rparr>"
      using onion_name [OF l(1)] t l(2) by (simp add: ToStringIP_def)
  qed
  show "IsI2P a \<longrightarrow> (\<exists>b. SetSpecial (ToStringIP getnameinfo a) = Some b \<and> IsTor b \<and> \<not> IsI2P b \<and> drop 6 (ip b) = drop 6 (ip a))"
  proof
    assume i: "IsI2P a"
    then have "\<not> IsTor a" by (auto simp: IsTor_def IsI2P_def begins_def pchOnionCat_def pchGarliCat_def)
    then show "\<exists>b. SetSpecial (ToStringIP getnameinfo a) = Some b \<and> IsTor b \<and> \<not> IsI2P b \<and> drop 6 (ip b) = drop 6 (ip a)"
      using i2p_name [OF l(1)] i l(2)
      by (simp add: ToStringIP_def IsTor_def IsI2P_def begins_def pchOnionCat_def pchGarliCat_def)
  qed
qed

text \<open>The IPv4 address an address stands for, by the translation and tunnelling standards.\<close>

definition embedded_ipv4 :: "'a CNetAddr_scheme \<Rightarrow> byte list option" where
  "embedded_ipv4 a =
     (if IsIPv4 a \<or> IsRFC6145 a \<or> IsRFC6052 a then Some (drop 12 (ip a))
      else if IsRFC3964 a then Some (take 4 (drop 2 (ip a)))
      else if IsRFC4380 a then Some (map (\<lambda>b. b XOR 0xFF) (drop 12 (ip a)))
      else None)"

text \<open>C38.  The names of hidden services: a Tor address is read back from its printed name, but the printed name of an
  I2P address is read as a Tor address with the same last ten bytes, because the prefix copied is that of Tor.\<close>
theorem special_names:
  assumes "length (ip a) = 16"
  shows "(IsTor a \<longrightarrow> SetSpecial (ToStringIP getnameinfo a) = Some \<lparr>ip = ip a\<rparr>) \<and>
    (IsI2P a \<longrightarrow> (\<exists>b. SetSpecial (ToStringIP getnameinfo a) = Some b \<and> IsTor b \<and> \<not> IsI2P b \<and> drop 6 (ip b) = drop 6 (ip a)))"
  using special_names_tor_i2p [OF assms] by blast

theorem special_names_witness:
  "SetSpecial (ToStringIP (\<lambda>_. None) \<lparr>ip = pchOnionCat @ replicate 10 7\<rparr>) = Some \<lparr>ip = pchOnionCat @ replicate 10 7\<rparr> \<and>
   (\<exists>b. SetSpecial (ToStringIP (\<lambda>_. None) \<lparr>ip = pchGarliCat @ replicate 10 7\<rparr>) = Some b \<and> IsTor b \<and> \<not> IsI2P b)"
proof -
  have t: "IsTor \<lparr>ip = pchOnionCat @ replicate 10 7\<rparr>" "length (ip \<lparr>ip = pchOnionCat @ replicate 10 7\<rparr>) = 16"
    "IsI2P \<lparr>ip = pchGarliCat @ replicate 10 7\<rparr>" "length (ip \<lparr>ip = pchGarliCat @ replicate 10 7\<rparr>) = 16"
    by (simp_all add: IsTor_def IsI2P_def begins_def pchOnionCat_def pchGarliCat_def)
  show ?thesis using special_names [OF t(2), of "\<lambda>_. None"] special_names [OF t(4), of "\<lambda>_. None"] t(1,3) by auto
qed

lemma two_bytes: "n + 2 \<le> length xs \<Longrightarrow> take 2 (drop n xs) = [xs ! n, xs ! (n + 1)]"
  by (simp add: take_Suc_conv_app_nth numeral_2_eq_2)

lemma group_two: "length (ip a) = 16 \<Longrightarrow> s \<le> 14 \<Longrightarrow> group_bits a s 16 = take 2 (drop s (ip a))"
  by (subst two_bytes) (simp_all add: group_bits.simps [of a s] group_bits.simps [of a "Suc s"] group_bits.simps [of a _ 0] GetByte_def)

lemma routable_not_local: "IsRoutable a \<Longrightarrow> \<not> IsLocal a"
  by (simp add: IsRoutable_def)

lemma GetGroup_embedded:
  assumes "length (ip a) = 16" and "IsRoutable a" and "embedded_ipv4 a = Some v"
  shows "GetGroup a = 1 # take 2 v"
proof -
  have b: "map (\<lambda>b. b XOR 0xFF) (take 2 (drop 12 (ip a))) = [GetByte a 3 XOR 0xFF, GetByte a 2 XOR 0xFF]"
    using assms(1) by (simp add: two_bytes GetByte_def)
  have v: "v = drop 12 (ip a) \<or> v = take 4 (drop 2 (ip a)) \<or> v = map (\<lambda>b. b XOR 0xFF) (drop 12 (ip a))"
    using assms(3) by (auto simp: embedded_ipv4_def split: if_splits)
  have g: "group_bits a 12 16 = take 2 (drop 12 (ip a))" "group_bits a 2 16 = take 2 (drop 2 (ip a))"
    using group_two [OF assms(1)] by simp_all
  show ?thesis
    using assms(2,3) routable_not_local [OF assms(2)] g b
    by (auto simp: GetGroup_def embedded_ipv4_def net_number_def take_map split: if_splits)
qed

text \<open>Groups of addresses: everything that is not routable, local addresses included, is one group; a routable
  address that stands for an IPv4 address (mapped, translated, 6to4 or Teredo) is grouped by the first two bytes of that
  address, so that changing the form of an address does not change its group.\<close>
theorem GetGroup_of_ipv4:
  assumes "length (ip a) = 16" and "length (ip b) = 16" and "IsRoutable a" and "IsRoutable b"
    and "embedded_ipv4 a = Some v" and "embedded_ipv4 b = Some w"
  shows "(GetGroup a = GetGroup b \<longleftrightarrow> take 2 v = take 2 w) \<and> (\<not> IsRoutable c \<longrightarrow> GetGroup c = [0])"
proof -
  have "GetGroup c = [0]" if "\<not> IsRoutable c"
    using that by (auto simp: GetGroup_def net_number_def group_bits.simps [of c 0 0] split: if_splits)
  then show ?thesis using GetGroup_embedded [OF assms(1,3,5)] GetGroup_embedded [OF assms(2,4,6)] by simp
qed

theorem GetGroup_of_ipv4_witness:
  "GetGroup (CNetAddr_of_in_addr [8, 9, 10, 11]) = GetGroup \<lparr>ip = [0x20, 0x02, 8, 9, 10, 11, 0, 0, 0, 0, 0, 0, 0, 0, 0, 1]\<rparr>
     \<and> GetGroup (CNetAddr_of_in_addr [127, 0, 0, 1]) = [0]"
proof -
  have h: "length (ip (CNetAddr_of_in_addr [8, 9, 10, 11])) = 16" "length [0x20, 0x02, 8, 9, 10, 11, 0, 0, 0, 0, 0, 0, 0, 0, 0, 1 :: byte] = 16"
    "IsRoutable (CNetAddr_of_in_addr [8, 9, 10, 11])" "IsRoutable \<lparr>ip = [0x20, 0x02, 8, 9, 10, 11, 0, 0, 0, 0, 0, 0, 0, 0, 0, 1]\<rparr>"
    "embedded_ipv4 (CNetAddr_of_in_addr [8, 9, 10, 11]) = Some [8, 9, 10, 11]"
    "embedded_ipv4 \<lparr>ip = [0x20, 0x02, 8, 9, 10, 11, 0, 0, 0, 0, 0, 0, 0, 0, 0, 1]\<rparr> = Some [8, 9, 10, 11]"
    "\<not> IsRoutable (CNetAddr_of_in_addr [127, 0, 0, 1])"
    by code_simp+
  show ?thesis
    using GetGroup_of_ipv4 [of "CNetAddr_of_in_addr [8, 9, 10, 11]" "\<lparr>ip = [0x20, 0x02, 8, 9, 10, 11, 0, 0, 0, 0, 0, 0, 0, 0, 0, 1]\<rparr>",
        OF h(1) _ h(3,4,5,6), of "CNetAddr_of_in_addr [127, 0, 0, 1]"] h(7) by simp
qed

interpretation service: codec ser_CService unser_CService "\<lambda>_. 18" "\<lambda>s. length (ip s) = 16"
proof
  fix s :: CService and r :: "byte list"
  assume s: "length (ip s) = 16"
  have h: "htons (htons p) = p" for p :: "16 word"
    by (rule bit_word_eqI) (auto simp: htons_def bit_simps)
  have u: "unser_u16 (ser_u16 p @ r) = Some (p, r)" for p
    using unsigned_less [of p, where ?'a = nat] by (simp add: unser_u16_def ser_u16_def)
  show "unser_CService (ser_CService s @ r) = Some (s, r)"
    using s by (cases s) (simp add: unser_CService_def ser_CService_def u h)
  show "length (ser_CService s) = 18" using s by (simp add: ser_CService_def ser_u16_def)
qed

lemma Service_GetKey_inject:
  assumes "length (ip a) = 16" and "length (ip b) = 16" and "Service_GetKey a = Service_GetKey b"
  shows "Service_eq a b"
proof -
  have e: "ip a = ip b" "ucast (drop_bit 8 (port a)) = (ucast (drop_bit 8 (port b)) :: byte)"
    "ucast (port a AND 0xFF) = (ucast (port b AND 0xFF) :: byte)"
    using assms by (simp_all add: Service_GetKey_def)
  have m: "p AND 0xFF = take_bit 8 p" for p :: "16 word" by (simp add: take_bit_eq_mask mask_eq_exp_minus_1)
  have "port a = port b"
  proof (rule bit_word_eqI)
    fix n assume n: "n < LENGTH(16)"
    have "bit (ucast (drop_bit 8 (port a)) :: byte) (n - 8) = bit (ucast (drop_bit 8 (port b)) :: byte) (n - 8)"
      "bit (ucast (take_bit 8 (port a)) :: byte) n = bit (ucast (take_bit 8 (port b)) :: byte) n" using e(2,3) m by simp_all
    then show "bit (port a) n = bit (port b) n" using n by (cases "n < 8") (auto simp: bit_simps)
  qed
  then show ?thesis using e(1) by (simp add: Service_eq_def)
qed

end
