(* ===== verification/Protocol.thy ===== *)
theory Protocol
  imports Netaddr
begin

text \<open>
  Messages on the wire (\<open>src/src/protocol.h\<close>, \<open>protocol.cpp\<close>): peer addresses, inventory entries and message
  headers.  The bytes that start a message depend on the network and are an argument.
\<close>

section \<open>Peer addresses\<close>

record CAddress = CService +
  a_nServices :: "64 word"
  a_nTime :: u32
  a_nLastTry :: int

definition NODE_NETWORK :: "64 word" where "NODE_NETWORK = 1"
definition CADDR_TIME_VERSION :: int where "CADDR_TIME_VERSION = 31402"

definition Address_Init :: "CAddress \<Rightarrow> CAddress" where
  "Address_Init a = a\<lparr>a_nServices := NODE_NETWORK, a_nTime := 100000000, a_nLastTry := 0\<rparr>"

definition CAddress_of :: "'a CService_scheme \<Rightarrow> 64 word \<Rightarrow> CAddress" where
  "CAddress_of ipIn nServicesIn =
     (Address_Init \<lparr>ip = ip ipIn, port = port ipIn, a_nServices = 0, a_nTime = 0, a_nLastTry = 0\<rparr>)\<lparr>a_nServices := nServicesIn\<rparr>"

definition CAddress_default :: CAddress where
  "CAddress_default = CAddress_of CService_default NODE_NETWORK"

definition ser_u64 :: "64 word \<Rightarrow> byte list" where
  "ser_u64 x = nat_le 8 (unat x)"

definition unser_u64 :: "64 word reader" where
  "unser_u64 bs = map_option (\<lambda>(xs, r). (word_of_nat (le_nat xs), r)) (READDATA 8 bs)"

text \<open>
  \<open>disk\<close> and \<open>gethash\<close> are the bits of \<open>nType\<close>; on disk the version is written too and, read back, replaces that of
  the stream.
\<close>

definition ser_CAddress :: "bool \<Rightarrow> bool \<Rightarrow> int \<Rightarrow> 'a CAddress_scheme \<Rightarrow> byte list" where
  "ser_CAddress disk gethash nVersion0 a =
     (if disk then ser_i32 nVersion0 else []) @
     (if disk \<or> (nVersion0 \<ge> CADDR_TIME_VERSION \<and> \<not> gethash) then ser_u32 (a_nTime a) else []) @
     ser_u64 (a_nServices a) @ ser_CService a"

definition unser_CAddress :: "bool \<Rightarrow> bool \<Rightarrow> int \<Rightarrow> CAddress reader" where
  "unser_CAddress disk gethash nVersion0 bs =
     (case (if disk then unser_i32 bs else Some (nVersion0, bs)) of
        None \<Rightarrow> None
      | Some (nVersion1, r) \<Rightarrow>
          (case (if disk \<or> (nVersion1 \<ge> CADDR_TIME_VERSION \<and> \<not> gethash) then unser_u32 r else Some (100000000, r)) of
             None \<Rightarrow> None
           | Some (t, r1) \<Rightarrow>
               (case unser_u64 r1 of
                  None \<Rightarrow> None
                | Some (sv, r2) \<Rightarrow>
                    map_option
                      (\<lambda>(s, r3). (\<lparr>ip = ip s, port = port s, a_nServices = sv, a_nTime = t, a_nLastTry = 0\<rparr>, r3))
                      (unser_CService r2))))"

section \<open>Inventory\<close>

record CInv =
  inv_type :: int
  inv_hash :: uint256

definition ppszTypeName :: "string list" where
  "ppszTypeName = [''ERROR'', ''tx'', ''block'']"

definition CInv_default :: CInv where
  "CInv_default = \<lparr>inv_type = 0, inv_hash = 0\<rparr>"

definition CInv_of :: "int \<Rightarrow> uint256 \<Rightarrow> CInv" where
  "CInv_of typeIn hashIn = \<lparr>inv_type = typeIn, inv_hash = hashIn\<rparr>"

text \<open>\<open>None\<close> is the exception.\<close>

definition CInv_named :: "string \<Rightarrow> uint256 \<Rightarrow> CInv option" where
  "CInv_named strType hashIn =
     map_option (\<lambda>i. \<lparr>inv_type = int i, inv_hash = hashIn\<rparr>)
       (find (\<lambda>i. strType = ppszTypeName ! i) [1..<length ppszTypeName])"

definition Inv_less :: "CInv \<Rightarrow> CInv \<Rightarrow> bool" where
  "Inv_less a b \<longleftrightarrow> inv_type a < inv_type b \<or> (inv_type a = inv_type b \<and> inv_hash a < inv_hash b)"

definition IsKnownType :: "CInv \<Rightarrow> bool" where
  "IsKnownType i \<longleftrightarrow> inv_type i \<ge> 1 \<and> inv_type i < int (length ppszTypeName)"

definition Inv_GetCommand :: "CInv \<Rightarrow> string option" where
  "Inv_GetCommand i = (if \<not> IsKnownType i then None else Some (ppszTypeName ! nat (inv_type i)))"

definition Inv_ToString :: "CInv \<Rightarrow> string option" where
  "Inv_ToString i = map_option (\<lambda>c. c @ '' '' @ take 20 (GetHex (inv_hash i))) (Inv_GetCommand i)"

definition ser_CInv :: "CInv \<Rightarrow> byte list" where
  "ser_CInv i = ser_i32 (inv_type i) @ ser_u256 (inv_hash i)"

definition unser_CInv :: "CInv reader" where
  "unser_CInv bs =
     (case unser_i32 bs of
        None \<Rightarrow> None
      | Some (t, r) \<Rightarrow> map_option (\<lambda>(h, r'). (\<lparr>inv_type = t, inv_hash = h\<rparr>, r')) (unser_u256 r))"

section \<open>Message headers\<close>

definition COMMAND_SIZE :: nat where "COMMAND_SIZE = 12"

record CMessageHeader =
  h_start :: "byte list"
  h_command :: "byte list"
  nMessageSize :: u32
  nChecksum :: u32

definition MessageHeader_default :: "byte list \<Rightarrow> CMessageHeader" where
  "MessageHeader_default pchMessageStart =
     \<lparr>h_start = pchMessageStart, h_command = (replicate COMMAND_SIZE 0)[1 := 1], nMessageSize = - 1, nChecksum = 0\<rparr>"

definition char_byte :: "char \<Rightarrow> byte" where
  "char_byte c = word_of_nat (of_char c)"

text \<open>\<open>strncpy\<close> fills up with zeros.\<close>

definition MessageHeader_of :: "byte list \<Rightarrow> string \<Rightarrow> u32 \<Rightarrow> CMessageHeader" where
  "MessageHeader_of pchMessageStart pszCommand nMessageSizeIn =
     \<lparr>h_start = pchMessageStart,
      h_command = take COMMAND_SIZE (map char_byte (c_str pszCommand) @ replicate COMMAND_SIZE 0),
      nMessageSize = nMessageSizeIn, nChecksum = 0\<rparr>"

definition byte_char :: "byte \<Rightarrow> char" where
  "byte_char b = char_of (unat b)"

definition Header_GetCommand :: "CMessageHeader \<Rightarrow> string" where
  "Header_GetCommand h =
     (if h_command h ! (COMMAND_SIZE - 1) = 0 then map byte_char (takeWhile (\<lambda>b. b \<noteq> 0) (h_command h))
      else map byte_char (h_command h))"

text \<open>The command: printable characters up to the first zero, then zeros.  Characters are signed.\<close>

fun command_ok :: "byte list \<Rightarrow> bool" where
  "command_ok [] = True"
| "command_ok (b # bs) =
     (if b = 0 then list_all (\<lambda>c. c = 0) bs
      else if b <s 0x20 \<or> 0x7E <s b then False
      else command_ok bs)"

definition Header_IsValid :: "byte list \<Rightarrow> CMessageHeader \<Rightarrow> bool" where
  "Header_IsValid pchMessageStart h \<longleftrightarrow>
     (if h_start h \<noteq> pchMessageStart then False
      else if \<not> command_ok (h_command h) then False
      else if unat (nMessageSize h) > MAX_SIZE then False
      else True)"

definition ser_header_msg :: "CMessageHeader \<Rightarrow> byte list" where
  "ser_header_msg h = h_start h @ h_command h @ ser_u32 (nMessageSize h) @ ser_u32 (nChecksum h)"

definition unser_header_msg :: "CMessageHeader reader" where
  "unser_header_msg bs =
     (case READDATA 4 bs of
        None \<Rightarrow> None
      | Some (s, r) \<Rightarrow>
          (case READDATA COMMAND_SIZE r of
             None \<Rightarrow> None
           | Some (c, r1) \<Rightarrow>
               (case unser_u32 r1 of
                  None \<Rightarrow> None
                | Some (n, r2) \<Rightarrow>
                    map_option (\<lambda>(k, r3). (\<lparr>h_start = s, h_command = c, nMessageSize = n, nChecksum = k\<rparr>, r3))
                      (unser_u32 r2))))"

section \<open>What is written is read back\<close>

lemma unser_u64_ser [simp]: "unser_u64 (ser_u64 p @ r) = Some (p, r)"
  using unsigned_less [of p, where ?'a = nat] by (simp add: unser_u64_def ser_u64_def)

definition carried :: "bool \<Rightarrow> bool \<Rightarrow> int \<Rightarrow> CAddress \<Rightarrow> bool" where
  "carried disk gethash v a \<longleftrightarrow>
     length (ip a) = 16 \<and> a_nLastTry a = 0 \<and> - (2 ^ 31) \<le> v \<and> v < 2 ^ 31 \<and>
     (disk \<or> (v \<ge> CADDR_TIME_VERSION \<and> \<not> gethash) \<or> a_nTime a = 100000000)"

lemma address_read_back:
  assumes "carried disk gethash v a"
  shows "unser_CAddress disk gethash v (ser_CAddress disk gethash v a @ r) = Some (a, r)"
proof -
  have i: "unser_i32 (ser_i32 v @ r) = Some (v, r)" for r using assms by (intro i32.read_back) (simp add: carried_def)
  obtain s where s: "s = \<lparr>ip = ip a, port = port a\<rparr>" by simp
  have "ser_CService a = ser_CService s" by (simp add: s ser_CService_def)
  then have c: "unser_CService (ser_CService a @ r) = Some (s, r)"
    using service.read_back [of s] assms by (simp add: s carried_def)
  have a: "\<lparr>ip = ip a, port = port a, a_nServices = a_nServices a, a_nTime = a_nTime a, a_nLastTry = 0\<rparr> = a"
    using assms by (cases a) (simp add: carried_def)
  have t: "a_nTime a = 100000000" if "\<not> (disk \<or> (v \<ge> CADDR_TIME_VERSION \<and> \<not> gethash))" using that assms by (auto simp: carried_def)
  show ?thesis
    by (cases "disk \<or> (v \<ge> CADDR_TIME_VERSION \<and> \<not> gethash)")
      (auto simp: unser_CAddress_def ser_CAddress_def i u32.read_back c a t [symmetric], simp_all add: s a t [symmetric])
qed

interpretation address: codec "ser_CAddress disk gethash v" "unser_CAddress disk gethash v"
    "\<lambda>_. (if disk then 4 else 0) + (if disk \<or> (v \<ge> CADDR_TIME_VERSION \<and> \<not> gethash) then 4 else 0) + 26"
    "carried disk gethash v"
proof
  fix x r assume x: "carried disk gethash v x"
  show "unser_CAddress disk gethash v (ser_CAddress disk gethash v x @ r) = Some (x, r)" using x by (rule address_read_back)
  show "length (ser_CAddress disk gethash v x) = (if disk then 4 else 0) +
      (if disk \<or> (v \<ge> CADDR_TIME_VERSION \<and> \<not> gethash) then 4 else 0) + 26"
    using x by (simp add: ser_CAddress_def ser_CService_def ser_u64_def ser_u16_def ser_u32_def ser_i32_def carried_def)
qed

interpretation inv: codec ser_CInv unser_CInv "\<lambda>_. 36" "\<lambda>i. - (2 ^ 31) \<le> inv_type i \<and> inv_type i < 2 ^ 31"
proof
  fix x :: CInv and r assume x: "- (2 ^ 31) \<le> inv_type x \<and> inv_type x < 2 ^ 31"
  show "unser_CInv (ser_CInv x @ r) = Some (x, r)" using x by (simp add: unser_CInv_def ser_CInv_def i32.read_back u256.read_back)
  show "length (ser_CInv x) = 36" by (simp add: ser_CInv_def ser_i32_def ser_u256_def)
qed

interpretation header: codec ser_header_msg unser_header_msg "\<lambda>_. 24" "\<lambda>h. length (h_start h) = 4 \<and> length (h_command h) = 12"
proof
  fix x :: CMessageHeader and r assume x: "length (h_start x) = 4 \<and> length (h_command x) = 12"
  show "unser_header_msg (ser_header_msg x @ r) = Some (x, r)"
    using x by (simp add: unser_header_msg_def ser_header_msg_def COMMAND_SIZE_def u32.read_back)
  show "length (ser_header_msg x) = 24" using x by (simp add: ser_header_msg_def ser_u32_def)
qed

lemma inv_names:
  "CInv_named s h = Some i \<longleftrightarrow> IsKnownType i \<and> inv_hash i = h \<and> Inv_GetCommand i = Some s"
proof -
  have "[1..<length ppszTypeName] = [1, 2]" by code_simp
  then have f: "CInv_named s h = (if s = ''tx'' then Some \<lparr>inv_type = 1, inv_hash = h\<rparr>
      else if s = ''block'' then Some \<lparr>inv_type = 2, inv_hash = h\<rparr> else None)"
    by (simp add: CInv_named_def ppszTypeName_def)
  have k: "IsKnownType i \<longleftrightarrow> inv_type i = 1 \<or> inv_type i = 2" by (auto simp: IsKnownType_def ppszTypeName_def)
  have e: "\<lparr>inv_type = n, inv_hash = h\<rparr> = i \<longleftrightarrow> inv_type i = n \<and> inv_hash i = h" for n by (cases i) auto
  show ?thesis unfolding f by (auto simp: k e Inv_GetCommand_def ppszTypeName_def)
qed

definition printable :: "char \<Rightarrow> bool" where
  "printable c \<longleftrightarrow> 0x20 \<le> (of_char c :: nat) \<and> (of_char c :: nat) \<le> 0x7E"

lemma byte_char_byte [simp]: "byte_char (char_byte c) = c"
  by (simp add: byte_char_def char_byte_def unat_word_of_nat_byte)

lemma printable_byte: "printable c \<Longrightarrow> char_byte c \<noteq> 0 \<and> \<not> char_byte c <s 0x20 \<and> \<not> 0x7E <s char_byte c \<and> c \<noteq> CHR 0x00"
proof -
  assume p: "printable c"
  then have u: "uint (char_byte c) = of_char c" "(of_char c :: int) \<ge> 32" "(of_char c :: int) \<le> 126"
    using of_nat_of_char [of c, where ?'a = int] by (auto simp: char_byte_def printable_def uint_nat unat_word_of_nat_byte)
  then have "sint (char_byte c) = of_char c" by (simp add: sint_uint signed_take_bit_int_eq_self)
  then show ?thesis using u p by (auto simp: word_sless_alt printable_def)
qed

lemma header_of_command:
  assumes "list_all printable s" and "length s \<le> COMMAND_SIZE" and "unat n \<le> MAX_SIZE"
  shows "Header_IsValid ms (MessageHeader_of ms s n)" "Header_GetCommand (MessageHeader_of ms s n) = s"
proof -
  let ?c = "take COMMAND_SIZE (map char_byte s @ replicate COMMAND_SIZE 0)"
  have c: "?c = map char_byte s @ replicate (COMMAND_SIZE - length s) 0" using assms(2) by simp
  have s: "c_str s = s" using assms(1) printable_byte by (auto simp: c_str_def takeWhile_eq_all_conv list_all_iff)
  have z: "\<forall>b \<in> set (map char_byte s). b \<noteq> 0" using assms(1) printable_byte by (auto simp: list_all_iff)
  have "command_ok (replicate k 0)" for k by (cases k) (simp_all add: list_all_iff)
  then have "command_ok (map char_byte s @ replicate k 0)" for k using assms(1) by (induction s) (auto dest: printable_byte)
  then show "Header_IsValid ms (MessageHeader_of ms s n)" using assms(3) by (simp add: Header_IsValid_def MessageHeader_of_def s c del: take_append)
  have t: "takeWhile (\<lambda>b. b \<noteq> 0) (map char_byte s @ replicate k 0) = map char_byte s" for k
    using z by (induction s) (cases k, auto)
  have m: "map byte_char (map char_byte s) = s" by (simp add: comp_def)
  show "Header_GetCommand (MessageHeader_of ms s n) = s"
  proof (cases "length s = COMMAND_SIZE")
    case True
    then have "?c ! (COMMAND_SIZE - 1) \<noteq> 0" using z by (simp add: c COMMAND_SIZE_def nth_append)
    then show ?thesis using True m by (simp add: Header_GetCommand_def MessageHeader_of_def s c del: take_append)
  next
    case False
    then have "?c ! (COMMAND_SIZE - 1) = 0" using assms(2) by (auto simp: c COMMAND_SIZE_def nth_append)
    then show ?thesis using t m by (simp add: Header_GetCommand_def MessageHeader_of_def s c del: take_append)
  qed
qed

end
