(* ===== verification/Received.thy ===== *)
theory Received
  imports Protocol Block
begin

text \<open>
  Typing of what arrives: whatever bytes a peer or the disk supplies, a reader fails or returns a value of its type
  and an unread rest.  The locale \<open>typed_reader\<close> is that contract; with \<open>codec\<close> it gives that a value read is written
  and read back, so a received object can be relayed.
\<close>

locale typed_reader =
  fixes unser :: "'a reader" and wf :: "'a \<Rightarrow> bool"
  assumes typed: "unser bs = Some (x, r) \<Longrightarrow> wf x"
    and rest: "unser bs = Some (x, r) \<Longrightarrow> length r \<le> length bs"
begin

lemma read_elems_typed:
  "read_elems unser n bs = Some (xs, r) \<Longrightarrow> length xs = n \<and> (\<forall>x \<in> set xs. wf x) \<and> length r \<le> length bs"
proof (induction n arbitrary: bs xs r)
  case (Suc n)
  then obtain x r1 ys where x: "unser bs = Some (x, r1)" "read_elems unser n r1 = Some (ys, r)" "xs = x # ys"
    by (auto split: option.splits)
  then show ?case using Suc.IH [OF x(2)] typed [OF x(1)] rest [OF x(1)] by auto
qed simp

end

locale message = codec ser unser sz wf + typed_reader unser wf
  for ser :: "'a \<Rightarrow> byte list" and unser sz wf
begin

lemma relay:
  assumes "unser bs = Some (x, r)"
  shows "wf x \<and> length r \<le> length bs \<and> unser (ser x @ r') = Some (x, r') \<and> length (ser x) = sz x"
  using typed [OF assms] rest [OF assms] read_back size_ok by simp

end

lemma READDATA_Some: "READDATA k bs = Some (xs, r) \<Longrightarrow> length xs = k \<and> bs = xs @ r"
  by (auto simp: READDATA_def split: if_splits)

lemma compact_size_typed: "ReadCompactSize bs = Some (n, r) \<Longrightarrow> n \<le> MAX_SIZE \<and> length r \<le> length bs"
  by (auto simp: ReadCompactSize_def split: list.splits option.splits if_splits dest!: READDATA_Some)

context typed_reader
begin

lemma vector_typed:
  assumes "unser_vector unser bs = Some (xs, r)"
  shows "length xs \<le> MAX_SIZE" "\<forall>x \<in> set xs. wf x" "length r \<le> length bs"
proof -
  obtain n r1 where n: "ReadCompactSize bs = Some (n, r1)" "read_elems unser n r1 = Some (xs, r)"
    using assms by (auto simp: unser_vector_def split: option.splits)
  then show "length xs \<le> MAX_SIZE" "\<forall>x \<in> set xs. wf x" "length r \<le> length bs"
    using compact_size_typed [OF n(1)] read_elems_typed [OF n(2)] by auto
qed

end

section \<open>Numbers and byte vectors\<close>

named_theorems reads "how long the rest is"

lemma u16_rest [reads]: "unser_u16 bs = Some (x, r) \<Longrightarrow> length bs = length r + 2"
  by (auto simp: unser_u16_def dest!: READDATA_Some)

lemma u32_rest [reads]: "unser_u32 bs = Some (x, r) \<Longrightarrow> length bs = length r + 4"
  by (auto simp: unser_u32_def dest!: READDATA_Some)

lemma u64_rest [reads]: "unser_u64 bs = Some (x, r) \<Longrightarrow> length bs = length r + 8"
  by (auto simp: unser_u64_def dest!: READDATA_Some)

lemma u256_rest [reads]: "unser_u256 bs = Some (x, r) \<Longrightarrow> length bs = length r + 32"
  by (auto simp: unser_u256_def dest!: READDATA_Some)

lemma i32_typed: "unser_i32 bs = Some (x, r) \<Longrightarrow> - (2 ^ 31) \<le> x \<and> x < 2 ^ 31 \<and> length bs = length r + 4"
  by (auto simp: unser_i32_def dest!: READDATA_Some)

lemma i64_typed: "unser_i64 bs = Some (x, r) \<Longrightarrow> in_i64 x \<and> length bs = length r + 8"
  by (auto simp: unser_i64_def in_i64_wrap64 dest!: READDATA_Some)

lemma bytes_typed: "unser_bytes bs = Some (v, r) \<Longrightarrow> length v \<le> MAX_SIZE \<and> length r \<le> length bs"
  by (auto simp: unser_bytes_def read_blocks_eq split: option.splits dest!: READDATA_Some compact_size_typed)

lemma outpoint_rest [reads]: "unser_COutPoint bs = Some (p, r) \<Longrightarrow> length bs = length r + 36"
  by (auto simp: unser_COutPoint_def split: option.splits dest!: reads)

section \<open>Transactions and blocks\<close>

interpretation r_txin: message ser_CTxIn unser_CTxIn size_CTxIn wf_CTxIn
proof
  fix bs x r assume "unser_CTxIn bs = Some (x, r)"
  then show "wf_CTxIn x" "length r \<le> length bs"
    by (auto simp: unser_CTxIn_def wf_CTxIn_def split: option.splits dest!: reads bytes_typed)
qed

interpretation r_txout: message ser_CTxOut unser_CTxOut size_CTxOut wf_CTxOut
proof
  fix bs x r assume "unser_CTxOut bs = Some (x, r)"
  then show "wf_CTxOut x" "length r \<le> length bs"
    by (auto simp: unser_CTxOut_def wf_CTxOut_def split: option.splits dest!: i64_typed bytes_typed)
qed

interpretation r_transaction: message ser_CTransaction unser_CTransaction size_CTransaction wf_CTransaction
proof
  fix bs x r assume "unser_CTransaction bs = Some (x, r)"
  then obtain v r1 t r2 ins r3 outs r4 l where p: "unser_i32 bs = Some (v, r1)" "unser_u32 r1 = Some (t, r2)"
    "unser_vector unser_CTxIn r2 = Some (ins, r3)" "unser_vector unser_CTxOut r3 = Some (outs, r4)" "unser_u32 r4 = Some (l, r)"
    "x = \<lparr>nVersion = v, nTime = t, vin = ins, vout = outs, nLockTime = l\<rparr>"
    by (auto simp: unser_CTransaction_def split: option.splits)
  then show "wf_CTransaction x" "length r \<le> length bs"
    using i32_typed [OF p(1)] u32_rest [OF p(2)] r_txin.vector_typed [OF p(3)] r_txout.vector_typed [OF p(4)] u32_rest [OF p(5)]
    by (simp_all add: wf_CTransaction_def)
qed

lemma header_typed:
  assumes "unser_header bs = Some (b, r)"
  shows "- (2 ^ 31) \<le> b_nVersion b" "b_nVersion b < 2 ^ 31" "vMerkleTree b = []" "length r \<le> length bs"
proof -
  obtain v r1 where "unser_i32 bs = Some (v, r1)" "b_nVersion b = v" "vMerkleTree b = []" "length r \<le> length r1"
    using assms by (auto simp: unser_header_def split: option.splits dest!: reads)
  then show "- (2 ^ 31) \<le> b_nVersion b" "b_nVersion b < 2 ^ 31" "vMerkleTree b = []" "length r \<le> length bs"
    using i32_typed by fastforce+
qed

interpretation r_block: message ser_CBlock unser_CBlock size_CBlock wf_CBlock
proof
  fix bs x r assume "unser_CBlock bs = Some (x, r)"
  then obtain b r1 txs r2 s where p: "unser_header bs = Some (b, r1)" "unser_vector unser_CTransaction r1 = Some (txs, r2)"
    "unser_bytes r2 = Some (s, r)" "x = b\<lparr>vtx := txs, vchBlockSig := s\<rparr>"
    by (auto simp: unser_CBlock_def split: option.splits)
  then show "wf_CBlock x" "length r \<le> length bs"
    using header_typed [OF p(1)] r_transaction.vector_typed [OF p(2)] bytes_typed [OF p(3)] by (simp_all add: wf_CBlock_def)
qed

section \<open>Addresses, inventory and headers of messages\<close>

lemma service_typed: "unser_CService bs = Some (s, r) \<Longrightarrow> length (ip s) = 16 \<and> length bs = length r + 18"
  by (auto simp: unser_CService_def split: option.splits dest!: reads READDATA_Some)

lemma address_typed:
  assumes "unser_CAddress False False v bs = Some (a, r)" and "- (2 ^ 31) \<le> v" "v < 2 ^ 31"
  shows "carried False False v a" "length r \<le> length bs"
  using assms by (auto simp: unser_CAddress_def carried_def split: option.splits if_splits dest!: reads service_typed)

definition wf_CInv :: "CInv \<Rightarrow> bool" where
  "wf_CInv i \<longleftrightarrow> - (2 ^ 31) \<le> inv_type i \<and> inv_type i < 2 ^ 31"

interpretation r_inv: message ser_CInv unser_CInv "\<lambda>_. 36" wf_CInv
proof
  fix bs x r assume "unser_CInv bs = Some (x, r)"
  then show "wf_CInv x" "length r \<le> length bs"
    by (auto simp: unser_CInv_def wf_CInv_def split: option.splits dest!: reads i32_typed)
qed (simp_all add: wf_CInv_def inv.read_back inv.size_ok)

definition wf_header_msg :: "CMessageHeader \<Rightarrow> bool" where
  "wf_header_msg h \<longleftrightarrow> length (h_start h) = 4 \<and> length (h_command h) = 12"

interpretation r_header: message ser_header_msg unser_header_msg "\<lambda>_. 24" wf_header_msg
proof
  fix bs x r assume "unser_header_msg bs = Some (x, r)"
  then show "wf_header_msg x" "length r \<le> length bs"
    by (auto simp: unser_header_msg_def wf_header_msg_def COMMAND_SIZE_def split: option.splits dest!: reads READDATA_Some)
qed (simp_all add: wf_header_msg_def header.read_back header.size_ok)

text \<open>C36.  Whatever bytes arrive, a block, a transaction, a list of inventory items or an address that is read from
  them is well formed (its integers are in the range of their types, its vectors and scripts at most \<open>MAX_SIZE\<close> long, an
  address has sixteen bytes), and so is read back exactly after it has been written to be relayed.\<close>
theorem received_typed:
  "(unser_CBlock bs = Some (b, r) \<longrightarrow> wf_CBlock b \<and> length r \<le> length bs \<and> unser_CBlock (ser_CBlock b @ q) = Some (b, q)) \<and>
   (unser_CTransaction bs = Some (tx, r) \<longrightarrow>
      wf_CTransaction tx \<and> length r \<le> length bs \<and> unser_CTransaction (ser_CTransaction tx @ q) = Some (tx, q)) \<and>
   (unser_vector unser_CInv bs = Some (invs, r) \<longrightarrow>
      length invs \<le> MAX_SIZE \<and> length r \<le> length bs \<and> unser_vector unser_CInv (ser_vector ser_CInv invs @ q) = Some (invs, q)) \<and>
   (unser_CAddress False False v bs = Some (a, r) \<longrightarrow> - (2 ^ 31) \<le> v \<and> v < 2 ^ 31 \<longrightarrow>
      length (ip a) = 16 \<and> length r \<le> length bs \<and> unser_CAddress False False v (ser_CAddress False False v a @ q) = Some (a, q))"
proof (intro conjI impI)
  assume "unser_vector unser_CInv bs = Some (invs, r)"
  note i = r_inv.vector_typed [OF this]
  then show "length invs \<le> MAX_SIZE" "length r \<le> length bs" "unser_vector unser_CInv (ser_vector ser_CInv invs @ q) = Some (invs, q)"
    using r_inv.vector_read_back [of invs] by (simp_all add: wf_CInv_def)
next
  assume a: "unser_CAddress False False v bs = Some (a, r)" and v: "- (2 ^ 31) \<le> v \<and> v < 2 ^ 31"
  note t = address_typed [OF a conjunct1 [OF v] conjunct2 [OF v]]
  then show "length (ip a) = 16" "length r \<le> length bs" "unser_CAddress False False v (ser_CAddress False False v a @ q) = Some (a, q)"
    using address_read_back by (simp_all add: carried_def)
qed (use r_block.relay r_transaction.relay in blast)+

theorem received_typed_witness:
  "let tx = \<lparr>nVersion = 1, nTime = 1400000000, vin = [\<lparr>prevout = COutPoint 5 1, scriptSig = [1, 2, 3], nSequence = 7\<rparr>],
       vout = [\<lparr>nValue = 50, scriptPubKey = [0x51]\<rparr>], nLockTime = 0\<rparr>
   in unser_CTransaction (ser_CTransaction tx @ [9]) = Some (tx, [9]) \<and> wf_CTransaction tx \<and>
     unser_CTransaction (ser_CTransaction tx @ [7]) = Some (tx, [7])"
proof -
  let ?tx = "\<lparr>nVersion = 1, nTime = 1400000000, vin = [\<lparr>prevout = COutPoint 5 1, scriptSig = [1, 2, 3], nSequence = 7\<rparr>],
       vout = [\<lparr>nValue = 50, scriptPubKey = [0x51]\<rparr>], nLockTime = 0\<rparr>"
  have "wf_CTransaction ?tx"
    by (simp add: wf_CTransaction_def wf_CTxIn_def wf_CTxOut_def MAX_SIZE_def in_i64_def i64_min_def i64_max_def)
  then have r: "unser_CTransaction (ser_CTransaction ?tx @ [9]) = Some (?tx, [9])" by (rule transaction.read_back)
  then show ?thesis
    using received_typed [of "ser_CTransaction ?tx @ [9]" CBlock_SetNull "[9]" "[7]" ?tx "[]" 0 CAddress_default] by (simp only: Let_def)
qed

end
