(* ===== verification/Clock.thy ===== *)
theory Clock
  imports Netaddr
begin

text \<open>
  The adjusted clock (\<open>src/src/util.h\<close>, \<open>util.cpp\<close>): the median filter and the offset the peers' clocks give.  The
  system clock is an argument; showing the warning to the user is left out.
\<close>

section \<open>The median filter\<close>

record CMedianFilter =
  vValues :: "int list"
  vSorted :: "int list"
  mf_size :: nat

definition MedianFilter_new :: "nat \<Rightarrow> int \<Rightarrow> CMedianFilter" where
  "MedianFilter_new nSize initial_value = \<lparr>vValues = [initial_value], vSorted = [initial_value], mf_size = nSize\<rparr>"

definition input :: "CMedianFilter \<Rightarrow> int \<Rightarrow> CMedianFilter" where
  "input f v =
     (let vs = (if length (vValues f) = mf_size f then tl (vValues f) else vValues f) @ [v]
      in f\<lparr>vValues := vs, vSorted := sort vs\<rparr>)"

text \<open>\<open>None\<close> is the failed assertion.\<close>

definition median :: "CMedianFilter \<Rightarrow> int option" where
  "median f =
     (let n = length (vSorted f)
      in if n = 0 then None
         else if odd n then Some (vSorted f ! (n div 2))
         else Some (wrap64 (vSorted f ! (n div 2 - 1) + vSorted f ! (n div 2)) sdiv 2))"

section \<open>The time offset\<close>

record clock_state =
  nMockTime :: int
  nTimeOffset :: int
  setKnown :: "byte list set"
  vTimeOffsets :: CMedianFilter
  fDone :: bool

definition clock_start :: clock_state where
  "clock_start =
     \<lparr>nMockTime = 0, nTimeOffset = 0, setKnown = {}, vTimeOffsets = MedianFilter_new 200 0, fDone = False\<rparr>"

definition GetTime :: "int \<Rightarrow> clock_state \<Rightarrow> int" where
  "GetTime time s = (if nMockTime s \<noteq> 0 then nMockTime s else time)"

definition SetMockTime :: "int \<Rightarrow> clock_state \<Rightarrow> clock_state" where
  "SetMockTime nMockTimeIn s = s\<lparr>nMockTime := nMockTimeIn\<rparr>"

definition GetAdjustedTime :: "int \<Rightarrow> clock_state \<Rightarrow> int" where
  "GetAdjustedTime time s = wrap64 (GetTime time s + nTimeOffset s)"

definition abs64 :: "int \<Rightarrow> int" where
  "abs64 n = (if n \<ge> 0 then n else wrap64 (- n))"

text \<open>\<open>setKnown\<close> holds the addresses by their bytes.\<close>

definition AddTimeData :: "int \<Rightarrow> 'a CNetAddr_scheme \<Rightarrow> int \<Rightarrow> clock_state \<Rightarrow> clock_state" where
  "AddTimeData time addr nTime0 s =
     (let nOffsetSample = wrap64 (nTime0 - GetTime time s)
      in if ip addr \<in> setKnown s then s
         else
           (let f = input (vTimeOffsets s) nOffsetSample;
                s1 = s\<lparr>setKnown := insert (ip addr) (setKnown s), vTimeOffsets := f\<rparr>;
                n = length (vValues f)
            in if n \<ge> 5 \<and> n mod 2 = 1 then
                 (case median f of
                    None \<Rightarrow> s1
                  | Some nMedian \<Rightarrow>
                      if abs64 nMedian < 70 * 60 then s1\<lparr>nTimeOffset := nMedian\<rparr>
                      else
                        (let fMatch = list_ex (\<lambda>nOffset. nOffset \<noteq> 0 \<and> abs64 nOffset < 5 * 60) (vSorted f)
                         in s1\<lparr>nTimeOffset := 0, fDone := fDone s1 \<or> \<not> fMatch\<rparr>))
               else s1))"

section \<open>The offset stays small, and stays for good once the window is full\<close>

text \<open>The states the clock can be in: from the start, by samples and by setting the mock time.\<close>

inductive clock_reachable :: "clock_state \<Rightarrow> bool" where
  start: "clock_reachable clock_start"
| sample: "clock_reachable s \<Longrightarrow> clock_reachable (AddTimeData time (addr :: CNetAddr) nTime0 s)"
| mock: "clock_reachable s \<Longrightarrow> clock_reachable (SetMockTime t s)"

definition clock_inv :: "clock_state \<Rightarrow> bool" where
  "clock_inv s \<longleftrightarrow> (nTimeOffset s \<in> {- 4199..4199} \<or> nTimeOffset s = i64_min) \<and> mf_size (vTimeOffsets s) = 200 \<and>
     vSorted (vTimeOffsets s) = sort (vValues (vTimeOffsets s)) \<and>
     0 < length (vValues (vTimeOffsets s)) \<and> length (vValues (vTimeOffsets s)) \<le> 200 \<and>
     (\<forall>v \<in> set (vValues (vTimeOffsets s)). in_i64 v)"

lemma small_abs64: "in_i64 n \<Longrightarrow> abs64 n < 4200 \<Longrightarrow> n = i64_min \<or> n \<in> {- 4199..4199}"
proof (cases "n = i64_min")
  case False
  moreover assume "in_i64 n" "abs64 n < 4200"
  ultimately have "in_i64 (- n)" by (auto simp: in_i64_def i64_min_def i64_max_def)
  then show ?thesis using \<open>abs64 n < 4200\<close> by (auto simp: abs64_def split: if_splits)
qed simp

lemma median_in: "odd (length (vSorted f)) \<Longrightarrow> median f = Some m \<Longrightarrow> m \<in> set (vSorted f)"
  by (auto simp: median_def Let_def split: if_splits)

lemma input_facts:
  assumes "mf_size f = 200" and "0 < length (vValues f)" and "length (vValues f) \<le> 200"
    and "\<forall>v \<in> set (vValues f). in_i64 v" and "in_i64 v"
  shows "vSorted (input f v) = sort (vValues (input f v))" "mf_size (input f v) = 200"
    "length (vValues (input f v)) = min 200 (length (vValues f) + 1)"
    "\<forall>v \<in> set (vValues (input f v)). in_i64 v"
  using assms by (cases "vValues f"; auto simp: input_def Let_def)+

lemma AddTimeData_inv:
  assumes "clock_inv s"
  shows "clock_inv (AddTimeData time addr nTime0 s)"
    "length (vValues (vTimeOffsets s)) = 200 \<Longrightarrow> nTimeOffset (AddTimeData time addr nTime0 s) = nTimeOffset s
       \<and> length (vValues (vTimeOffsets (AddTimeData time addr nTime0 s))) = 200"
proof -
  define f where "f = input (vTimeOffsets s) (wrap64 (nTime0 - GetTime time s))"
  have h: "mf_size (vTimeOffsets s) = 200" "0 < length (vValues (vTimeOffsets s))" "length (vValues (vTimeOffsets s)) \<le> 200"
    "\<forall>v \<in> set (vValues (vTimeOffsets s)). in_i64 v"
    using assms unfolding clock_inv_def by blast+
  note f = input_facts [OF h in_i64_wrap64 [of "nTime0 - GetTime time s"], folded f_def]
  have g: "0 < length (vValues f)" "length (vValues f) \<le> 200" using f(3) by auto
  define s1 where "s1 = s\<lparr>setKnown := insert (ip addr) (setKnown s), vTimeOffsets := f\<rparr>"
  have i1: "clock_inv s1" using assms f g by (simp add: clock_inv_def s1_def)
  have keep: "clock_inv (s1\<lparr>nTimeOffset := m, fDone := d\<rparr>)" if "m = i64_min \<or> m \<in> {- 4199..4199}" for m d
    using i1 that unfolding clock_inv_def by (simp, blast)
  have m: "m = i64_min \<or> m \<in> {- 4199..4199}" if "odd (length (vValues f))" "median f = Some m" "abs64 m < 4200" for m
    using small_abs64 [OF _ that(3)] median_in [OF _ that(2)] that(1) f(1,4) by simp
  have a: "AddTimeData time addr nTime0 s =
      (if ip addr \<in> setKnown s then s
       else if length (vValues f) \<ge> 5 \<and> length (vValues f) mod 2 = 1 then
         (case median f of
            None \<Rightarrow> s1
          | Some nMedian \<Rightarrow>
              if abs64 nMedian < 70 * 60 then s1\<lparr>nTimeOffset := nMedian\<rparr>
              else s1\<lparr>nTimeOffset := 0, fDone := fDone s1 \<or> \<not> list_ex (\<lambda>nOffset. nOffset \<noteq> 0 \<and> abs64 nOffset < 5 * 60) (vSorted f)\<rparr>)
       else s1)"
    unfolding AddTimeData_def Let_def f_def [symmetric] s1_def [symmetric] by (rule refl)
  consider "AddTimeData time addr nTime0 s = s" | "AddTimeData time addr nTime0 s = s1"
    | x d where "AddTimeData time addr nTime0 s = s1\<lparr>nTimeOffset := x, fDone := d\<rparr>" "x = i64_min \<or> x \<in> {- 4199..4199}"
      "length (vValues f) mod 2 = 1" "ip addr \<notin> setKnown s"
  proof (cases "ip addr \<in> setKnown s \<or> \<not> (length (vValues f) \<ge> 5 \<and> length (vValues f) mod 2 = 1) \<or> median f = None")
    case True
    then show ?thesis using that(1,2) a by (auto split: if_splits)
  next
    case False
    then obtain x where x: "median f = Some x" "odd (length (vValues f))" by (auto simp: odd_iff_mod_2_eq_one)
    show ?thesis
    proof (cases "abs64 x < 4200")
      case True
      have "s1\<lparr>nTimeOffset := x\<rparr> = s1\<lparr>nTimeOffset := x, fDone := fDone s1\<rparr>" by simp
      then show ?thesis using that(3) [of "fDone s1" x] a False x True m [OF x(2,1) True] by simp
    next
      case no: False
      then show ?thesis using that(3) [of _ 0] a False x by simp
    qed
  qed
  note c = this
  show "clock_inv (AddTimeData time addr nTime0 s)"
    using c
  proof cases
    case 3
    show ?thesis unfolding 3(1) by (rule keep [OF 3(2)])
  qed (simp_all add: assms i1)
  show "nTimeOffset (AddTimeData time addr nTime0 s) = nTimeOffset s
       \<and> length (vValues (vTimeOffsets (AddTimeData time addr nTime0 s))) = 200"
    if "length (vValues (vTimeOffsets s)) = 200"
    using c
  proof cases
    case 3
    then show ?thesis using that f(3) by simp
  qed (use that f(3) in \<open>simp_all add: s1_def\<close>)
qed

lemma clock_reachable_inv: "clock_reachable s \<Longrightarrow> clock_inv s"
proof (induction rule: clock_reachable.induct)
  case start
  then show ?case by (simp add: clock_inv_def clock_start_def MedianFilter_new_def in_i64_def i64_min_def i64_max_def)
next
  case (mock s t)
  then show ?case by (simp add: clock_inv_def SetMockTime_def)
qed (simp add: AddTimeData_inv)

text \<open>C37.  The clock under hostile peers: in every state that samples can lead to, the offset is less than seventy minutes
  either way, save for the one value whose absolute value overflows; and once two hundred samples are held, which is an
  even number, no further sample ever changes the offset.\<close>
theorem clock_offset_bounded:
  assumes "clock_reachable s"
  shows "(nTimeOffset s \<in> {- 4199..4199} \<or> nTimeOffset s = i64_min) \<and>
    (length (vValues (vTimeOffsets s)) = 200 \<longrightarrow> nTimeOffset (AddTimeData time addr nTime0 s) = nTimeOffset s
       \<and> length (vValues (vTimeOffsets (AddTimeData time addr nTime0 s))) = 200)"
  using clock_reachable_inv [OF assms] AddTimeData_inv(2) [of s] by (auto simp: clock_inv_def)

text \<open>Four peers suffice for the exceptional value.\<close>

definition sample_peer :: "byte \<Rightarrow> CNetAddr" where
  "sample_peer b = CNetAddr_of_in_addr [8, 8, 8, b]"

definition sample_clock :: clock_state where
  "sample_clock = fold (\<lambda>b. AddTimeData 1500000000 (sample_peer b) (i64_min + 1500000000)) [1, 2, 3, 4] clock_start"

lemma sample_clock_reachable: "clock_reachable sample_clock"
  by (simp add: sample_clock_def clock_reachable.intros)

lemma sample_clock_offset: "nTimeOffset sample_clock = i64_min"
  by (simp add: sample_clock_def AddTimeData_def clock_start_def MedianFilter_new_def input_def median_def GetTime_def Let_def
      abs64_def wrap64_def i64_min_def sample_peer_def CNetAddr_of_in_addr_def pchIPv4_def)

theorem clock_offset_bounded_witness:
  "nTimeOffset sample_clock = i64_min \<and>
     (nTimeOffset sample_clock \<in> {- 4199..4199} \<or> nTimeOffset sample_clock = i64_min)"
  using clock_offset_bounded [OF sample_clock_reachable, of 0 CService_default 0] sample_clock_offset by simp

end
