(* ===== verification/AddrMan.thy ===== *)
theory AddrMan
  imports Protocol
begin

text \<open>
  The address manager (\<open>src/src/addrman.h\<close>, \<open>addrman.cpp\<close>): every entry is in some of the 256 new buckets or in one of
  the 64 tried buckets, and \<open>vRandom\<close> lists all entries in random order.  \<open>None\<close> is a failed assertion (or an
  access the code does not guard).  Random numbers come from an endless sequence \<open>rng\<close>; the adjusted time is an
  argument.  Selecting a peer compares floating-point chances and is left out; so are locks.
\<close>

section \<open>Entries\<close>

record CAddrInfo = CAddress +
  source :: CNetAddr
  nLastSuccess :: int
  nAttempts :: int
  nRefCount :: int
  fInTried :: bool
  nRandomPos :: int

definition CAddrInfo_new :: "'a CAddress_scheme \<Rightarrow> CNetAddr \<Rightarrow> CAddrInfo" where
  "CAddrInfo_new addrIn addrSource =
     \<lparr>ip = ip addrIn, port = port addrIn, a_nServices = a_nServices addrIn, a_nTime = a_nTime addrIn, a_nLastTry = 0,
      source = addrSource, nLastSuccess = 0, nAttempts = 0, nRefCount = 0, fInTried = False, nRandomPos = - 1\<rparr>"

definition CAddrInfo_default :: CAddrInfo where
  "CAddrInfo_default = CAddrInfo_new CAddress_default NetAddr_Init"

definition ADDRMAN_TRIED_BUCKET_COUNT :: nat where "ADDRMAN_TRIED_BUCKET_COUNT = 64"
definition ADDRMAN_TRIED_BUCKET_SIZE :: nat where "ADDRMAN_TRIED_BUCKET_SIZE = 64"
definition ADDRMAN_NEW_BUCKET_COUNT :: nat where "ADDRMAN_NEW_BUCKET_COUNT = 256"
definition ADDRMAN_NEW_BUCKET_SIZE :: nat where "ADDRMAN_NEW_BUCKET_SIZE = 64"
definition ADDRMAN_TRIED_BUCKETS_PER_GROUP :: nat where "ADDRMAN_TRIED_BUCKETS_PER_GROUP = 4"
definition ADDRMAN_NEW_BUCKETS_PER_SOURCE_GROUP :: nat where "ADDRMAN_NEW_BUCKETS_PER_SOURCE_GROUP = 32"
definition ADDRMAN_NEW_BUCKETS_PER_ADDRESS :: int where "ADDRMAN_NEW_BUCKETS_PER_ADDRESS = 4"
definition ADDRMAN_TRIED_ENTRIES_INSPECT_ON_EVICT :: nat where "ADDRMAN_TRIED_ENTRIES_INSPECT_ON_EVICT = 4"
definition ADDRMAN_HORIZON_DAYS :: int where "ADDRMAN_HORIZON_DAYS = 30"
definition ADDRMAN_RETRIES :: int where "ADDRMAN_RETRIES = 3"
definition ADDRMAN_MAX_FAILURES :: int where "ADDRMAN_MAX_FAILURES = 10"
definition ADDRMAN_MIN_FAIL_DAYS :: int where "ADDRMAN_MIN_FAIL_DAYS = 7"
definition ADDRMAN_GETADDR_MAX_PCT :: nat where "ADDRMAN_GETADDR_MAX_PCT = 23"
definition ADDRMAN_GETADDR_MAX :: nat where "ADDRMAN_GETADDR_MAX = 2500"

definition Get64 :: "uint256 \<Rightarrow> nat" where
  "Get64 h = le_nat (take 8 (bytes256 h))"

definition GetTriedBucket :: "openssl \<Rightarrow> byte list \<Rightarrow> 'a CService_scheme \<Rightarrow> nat" where
  "GetTriedBucket L nKey a =
     (let hash1 = Get64 (Hash L (ser_bytes nKey @ ser_bytes (Service_GetKey a)));
          hash2 = Get64 (Hash L (ser_bytes nKey @ ser_bytes (GetGroup a) @ nat_le 8 (hash1 mod ADDRMAN_TRIED_BUCKETS_PER_GROUP)))
      in hash2 mod ADDRMAN_TRIED_BUCKET_COUNT)"

definition GetNewBucket :: "openssl \<Rightarrow> byte list \<Rightarrow> 'a CNetAddr_scheme \<Rightarrow> 'b CNetAddr_scheme \<Rightarrow> nat" where
  "GetNewBucket L nKey a src =
     (let hash1 = Get64 (Hash L (ser_bytes nKey @ ser_bytes (GetGroup a) @ ser_bytes (GetGroup src)));
          hash2 = Get64 (Hash L (ser_bytes nKey @ ser_bytes (GetGroup src) @ nat_le 8 (hash1 mod ADDRMAN_NEW_BUCKETS_PER_SOURCE_GROUP)))
      in hash2 mod ADDRMAN_NEW_BUCKET_COUNT)"

definition IsTerrible :: "CAddrInfo \<Rightarrow> int \<Rightarrow> bool" where
  "IsTerrible i nNow \<longleftrightarrow>
     (if a_nLastTry i \<noteq> 0 \<and> a_nLastTry i \<ge> nNow - 60 then False
      else if uint (a_nTime i) > nNow + 10 * 60 then True
      else if a_nTime i = 0 \<or> nNow - uint (a_nTime i) > ADDRMAN_HORIZON_DAYS * 86400 then True
      else if nLastSuccess i = 0 \<and> nAttempts i \<ge> ADDRMAN_RETRIES then True
      else if nNow - nLastSuccess i > ADDRMAN_MIN_FAIL_DAYS * 86400 \<and> nAttempts i \<ge> ADDRMAN_MAX_FAILURES then True
      else False)"

section \<open>The tables\<close>

record CAddrMan =
  am_nKey :: "byte list"
  nIdCount :: nat
  mapInfo :: "(nat \<times> CAddrInfo) list"
  mapAddr :: "byte list \<rightharpoonup> nat"
  vRandom :: "nat list"
  nTried :: int
  vvTried :: "nat list list"
  nNew :: int
  vvNew :: "nat list list"

definition CAddrMan_new :: "byte list \<Rightarrow> CAddrMan" where
  "CAddrMan_new key =
     \<lparr>am_nKey = key, nIdCount = 0, mapInfo = [], mapAddr = Map.empty, vRandom = [], nTried = 0,
      vvTried = replicate ADDRMAN_TRIED_BUCKET_COUNT [], nNew = 0, vvNew = replicate ADDRMAN_NEW_BUCKET_COUNT []\<rparr>"

abbreviation info_of :: "CAddrMan \<Rightarrow> nat \<Rightarrow> CAddrInfo option" where
  "info_of s \<equiv> map_of (mapInfo s)"

definition put_info :: "nat \<Rightarrow> CAddrInfo \<Rightarrow> CAddrMan \<Rightarrow> CAddrMan" where
  "put_info k i s = s\<lparr>mapInfo := map_put k i (mapInfo s)\<rparr>"

text \<open>An \<open>int\<close> used as an \<open>unsigned int\<close>.\<close>

definition as_unsigned :: "int \<Rightarrow> nat" where
  "as_unsigned n = nat (n mod 2 ^ 32)"

definition AM_Find :: "'a CNetAddr_scheme \<Rightarrow> CAddrMan \<Rightarrow> (nat \<times> CAddrInfo) option" where
  "AM_Find addr s =
     (case mapAddr s (ip addr) of
        None \<Rightarrow> None
      | Some k \<Rightarrow> (case info_of s k of None \<Rightarrow> None | Some i \<Rightarrow> Some (k, i)))"

definition AM_Create :: "'a CAddress_scheme \<Rightarrow> CNetAddr \<Rightarrow> CAddrMan \<Rightarrow> nat \<times> CAddrMan" where
  "AM_Create addr addrSource s =
     (let k = nIdCount s
      in (k, put_info k ((CAddrInfo_new addr addrSource)\<lparr>nRandomPos := int (length (vRandom s))\<rparr>)
               (s\<lparr>nIdCount := k + 1, mapAddr := (mapAddr s)(ip addr \<mapsto> k), vRandom := vRandom s @ [k]\<rparr>)))"

definition SwapRandom :: "nat \<Rightarrow> nat \<Rightarrow> CAddrMan \<Rightarrow> CAddrMan option" where
  "SwapRandom nRndPos1 nRndPos2 s =
     (if nRndPos1 = nRndPos2 then Some s
      else if \<not> (nRndPos1 < length (vRandom s) \<and> nRndPos2 < length (vRandom s)) then None
      else
        (let nId1 = vRandom s ! nRndPos1; nId2 = vRandom s ! nRndPos2
         in case (info_of s nId1, info_of s nId2) of
              (Some i1, Some i2) \<Rightarrow>
                (let s1 = put_info nId1 (i1\<lparr>nRandomPos := int nRndPos2\<rparr>) s;
                     s2 = put_info nId2 ((the (info_of s1 nId2))\<lparr>nRandomPos := int nRndPos1\<rparr>) s1
                 in Some (s2\<lparr>vRandom := (vRandom s)[nRndPos1 := nId2, nRndPos2 := nId1]\<rparr>))
            | _ \<Rightarrow> None))"

section \<open>Evicting\<close>

text \<open>\<open>operator[]\<close> of \<open>std::map\<close> makes an entry when there is none.\<close>

definition touch :: "nat \<Rightarrow> (nat \<times> CAddrInfo) list \<Rightarrow> (nat \<times> CAddrInfo) list" where
  "touch k m = (if map_of m k = None then map_put k CAddrInfo_default m else m)"

text \<open>\<open>nOldest\<close> and \<open>nOldestPos\<close> are \<open>None\<close> for -1.\<close>

fun inspect_tried ::
  "nat \<Rightarrow> nat \<Rightarrow> rng \<Rightarrow> nat list \<Rightarrow> (nat \<times> CAddrInfo) list \<Rightarrow> nat option \<Rightarrow> nat option \<Rightarrow>
     (nat list \<times> (nat \<times> CAddrInfo) list \<times> nat option \<times> rng) option" where
  "inspect_tried 0 i r v m nOldest nOldestPos = Some (v, m, nOldestPos, r)"
| "inspect_tried (Suc k) i r v m nOldest nOldestPos =
     (if \<not> i < length v then Some (v, m, nOldestPos, r)
      else
        (case GetRandInt (length v - i) r of
           (n, r1) \<Rightarrow>
             (let nPos = n + i; nTemp = v ! nPos; v1 = v[nPos := v ! i, i := nTemp]
              in case nOldest of
                   None \<Rightarrow> inspect_tried k (i + 1) r1 v1 m (Some nTemp) (Some nPos)
                 | Some old \<Rightarrow>
                     (case map_of m nTemp of
                        None \<Rightarrow> None
                      | Some info \<Rightarrow>
                          (let m1 = touch old m
                           in if nLastSuccess info < nLastSuccess (the (map_of m1 old))
                              then inspect_tried k (i + 1) r1 v1 m1 (Some nTemp) (Some nPos)
                              else inspect_tried k (i + 1) r1 v1 m1 nOldest nOldestPos)))))"

definition SelectTried :: "nat \<Rightarrow> CAddrMan \<Rightarrow> rng \<Rightarrow> (nat option \<times> CAddrMan \<times> rng) option" where
  "SelectTried nKBucket s r =
     (case inspect_tried ADDRMAN_TRIED_ENTRIES_INSPECT_ON_EVICT 0 r (vvTried s ! nKBucket) (mapInfo s) None None of
        None \<Rightarrow> None
      | Some (v, m, nOldestPos, r1) \<Rightarrow>
          Some (nOldestPos, s\<lparr>vvTried := (vvTried s)[nKBucket := v], mapInfo := m\<rparr>, r1))"

text \<open>One reference less; the entry goes when none is left.\<close>

definition release :: "nat \<Rightarrow> CAddrMan \<Rightarrow> CAddrMan option" where
  "release k s =
     (case info_of s k of
        None \<Rightarrow> None
      | Some info \<Rightarrow>
          (let info1 = info\<lparr>nRefCount := nRefCount info - 1\<rparr>; s1 = put_info k info1 s
           in if nRefCount info1 = 0 then
                (case SwapRandom (as_unsigned (nRandomPos info1)) (as_unsigned (int (length (vRandom s1)) - 1)) s1 of
                   None \<Rightarrow> None
                 | Some s2 \<Rightarrow>
                     Some (s2\<lparr>vRandom := butlast (vRandom s2), mapAddr := (mapAddr s2)(ip info := None),
                              mapInfo := map_erase k (mapInfo s2), nNew := nNew s2 - 1\<rparr>))
              else Some s1))"

fun find_terrible :: "CAddrMan \<Rightarrow> int \<Rightarrow> nat list \<Rightarrow> nat option option" where
  "find_terrible s nNow [] = Some None"
| "find_terrible s nNow (k # ks) =
     (case info_of s k of
        None \<Rightarrow> None
      | Some info \<Rightarrow> if IsTerrible info nNow then Some (Some k) else find_terrible s nNow ks)"

fun oldest_picked :: "CAddrMan \<Rightarrow> nat list \<Rightarrow> nat \<Rightarrow> nat list \<Rightarrow> nat option \<Rightarrow> nat option option" where
  "oldest_picked s picks nI [] nOldest = Some nOldest"
| "oldest_picked s picks nI (k # ks) nOldest =
     (if nI \<in> set picks then
        (case nOldest of
           None \<Rightarrow> oldest_picked s picks (nI + 1) ks (Some k)
         | Some old \<Rightarrow>
             (case (info_of s k, info_of s old) of
                (Some ik, Some io) \<Rightarrow>
                  oldest_picked s picks (nI + 1) ks (if a_nTime ik < a_nTime io then Some k else Some old)
              | _ \<Rightarrow> None))
      else oldest_picked s picks (nI + 1) ks nOldest)"

definition ShrinkNew :: "nat \<Rightarrow> int \<Rightarrow> CAddrMan \<Rightarrow> rng \<Rightarrow> (nat \<times> CAddrMan \<times> rng) option" where
  "ShrinkNew nUBucket nNow s r =
     (if \<not> nUBucket < length (vvNew s) then None
      else
        (let vNew = vvNew s ! nUBucket;
             without = (\<lambda>k s. s\<lparr>vvNew := (vvNew s)[nUBucket := remove1 k (vvNew s ! nUBucket)]\<rparr>)
         in case find_terrible s nNow vNew of
              None \<Rightarrow> None
            | Some (Some k) \<Rightarrow> map_option (\<lambda>s1. (0, without k s1, r)) (release k s)
            | Some None \<Rightarrow>
                (case GetRandInt (length vNew) r of
                   (n0, r0) \<Rightarrow>
                 case GetRandInt (length vNew) r0 of
                   (n1, r1) \<Rightarrow>
                 case GetRandInt (length vNew) r1 of
                   (n2, r2) \<Rightarrow>
                 case GetRandInt (length vNew) r2 of
                   (n3, r3) \<Rightarrow>
                   (case oldest_picked s [n0, n1, n2, n3] 0 vNew None of
                      Some (Some k) \<Rightarrow> map_option (\<lambda>s1. (1, without k s1, r3)) (release k s)
                    | _ \<Rightarrow> None))))"

section \<open>From new to tried\<close>

definition MakeTried :: "openssl \<Rightarrow> nat \<Rightarrow> nat \<Rightarrow> CAddrMan \<Rightarrow> rng \<Rightarrow> (CAddrMan \<times> rng) option" where
  "MakeTried L nId nOrigin s r =
     (case info_of s nId of
        None \<Rightarrow> None
      | Some info \<Rightarrow>
          if nId \<notin> set (vvNew s ! nOrigin) then None
          else
            (let info1 = info\<lparr>nRefCount := nRefCount info - int (length (filter (\<lambda>b. nId \<in> set b) (vvNew s)))\<rparr>;
                 s1 = put_info nId info1 (s\<lparr>vvNew := map (remove1 nId) (vvNew s), nNew := nNew s - 1\<rparr>);
                 nKBucket = GetTriedBucket L (am_nKey s) info1;
                 vTried = vvTried s ! nKBucket
             in if nRefCount info1 \<noteq> 0 then None
                else if length vTried < ADDRMAN_TRIED_BUCKET_SIZE then
                  Some (put_info nId (info1\<lparr>fInTried := True\<rparr>)
                          (s1\<lparr>vvTried := (vvTried s)[nKBucket := vTried @ [nId]], nTried := nTried s + 1\<rparr>), r)
                else
                  (case SelectTried nKBucket s1 r of
                     Some (Some nPos, s2, r2) \<Rightarrow>
                       (let nOld = vvTried s2 ! nKBucket ! nPos
                        in case info_of s2 nOld of
                             None \<Rightarrow> None
                           | Some infoOld \<Rightarrow>
                               (let nUBucket = GetNewBucket L (am_nKey s) infoOld (source infoOld);
                                    s3 = put_info nOld (infoOld\<lparr>fInTried := False, nRefCount := 1\<rparr>) s2;
                                    b = (if length (vvNew s3 ! nUBucket) < ADDRMAN_NEW_BUCKET_SIZE then nUBucket else nOrigin);
                                    s4 = s3\<lparr>vvNew := (vvNew s3)[b := set_insert nOld (vvNew s3 ! b)], nNew := nNew s3 + 1,
                                            vvTried := (vvTried s3)[nKBucket := (vvTried s3 ! nKBucket)[nPos := nId]]\<rparr>
                                in Some (put_info nId ((the (info_of s4 nId))\<lparr>fInTried := True\<rparr>) s4, r2)))
                   | _ \<Rightarrow> None)))"

definition AM_Good :: "openssl \<Rightarrow> 'a CService_scheme \<Rightarrow> int \<Rightarrow> CAddrMan \<Rightarrow> rng \<Rightarrow> (CAddrMan \<times> rng) option" where
  "AM_Good L addr t s r =
     (case AM_Find addr s of
        None \<Rightarrow> Some (s, r)
      | Some (nId, info) \<Rightarrow>
          if \<not> Service_eq info addr then Some (s, r)
          else
            (let s1 = put_info nId (info\<lparr>nLastSuccess := t, a_nLastTry := t, a_nTime := word_of_int t, nAttempts := 0\<rparr>) s
             in if fInTried info then Some (s1, r)
                else
                  (case GetRandInt (length (vvNew s1)) r of
                     (nRnd, r1) \<Rightarrow>
                       (case find (\<lambda>nB. nId \<in> set (vvNew s1 ! nB)) (map (\<lambda>n. (n + nRnd) mod length (vvNew s1)) [0..<length (vvNew s1)]) of
                          None \<Rightarrow> Some (s1, r1)
                        | Some nUBucket \<Rightarrow> MakeTried L nId nUBucket s1 r1))))"

section \<open>Adding and updating\<close>

definition AM_bucket :: "openssl \<Rightarrow> nat \<Rightarrow> 'a CNetAddr_scheme \<Rightarrow> int \<Rightarrow> CAddrMan \<Rightarrow> rng \<Rightarrow> (CAddrMan \<times> rng) option" where
  "AM_bucket L nId src nNow s r =
     (case info_of s nId of
        None \<Rightarrow> None
      | Some info \<Rightarrow>
          (let nUBucket = GetNewBucket L (am_nKey s) info src
           in if nId \<in> set (vvNew s ! nUBucket) then Some (s, r)
              else
                (let s1 = put_info nId (info\<lparr>nRefCount := nRefCount info + 1\<rparr>) s
                 in case (if length (vvNew s ! nUBucket) = ADDRMAN_NEW_BUCKET_SIZE
                          then map_option snd (ShrinkNew nUBucket nNow s1 r) else Some (s1, r)) of
                      None \<Rightarrow> None
                    | Some (s2, r2) \<Rightarrow>
                        Some (s2\<lparr>vvNew := (vvNew s2)[nUBucket := set_insert nId (vvNew s2 ! nUBucket)]\<rparr>, r2))))"

text \<open>What is known already is brought up to date; the second component tells whether to go on to the buckets.\<close>

definition update_known :: "'a CAddress_scheme \<Rightarrow> int \<Rightarrow> int \<Rightarrow> CAddrInfo \<Rightarrow> CAddrInfo" where
  "update_known addr nTimePenalty nNow pinfo =
     (let fCurrentlyOnline = (nNow - uint (a_nTime addr) < 24 * 60 * 60);
          nUpdateInterval = (if fCurrentlyOnline then 60 * 60 else 24 * 60 * 60);
          p1 = (if a_nTime addr \<noteq> 0 \<and>
                   (a_nTime pinfo = 0 \<or> uint (a_nTime pinfo) < uint (a_nTime addr) - nUpdateInterval - nTimePenalty)
                then pinfo\<lparr>a_nTime := word_of_int (max 0 (uint (a_nTime addr) - nTimePenalty))\<rparr> else pinfo)
      in p1\<lparr>a_nServices := a_nServices p1 OR a_nServices addr\<rparr>)"

definition AM_Add ::
  "openssl \<Rightarrow> 'a CAddress_scheme \<Rightarrow> CNetAddr \<Rightarrow> int \<Rightarrow> int \<Rightarrow> CAddrMan \<Rightarrow> rng \<Rightarrow> (bool \<times> CAddrMan \<times> rng) option" where
  "AM_Add L addr src nTimePenalty nNow s r =
     (if \<not> IsRoutable addr then Some (False, s, r)
      else
        (case AM_Find addr s of
           Some (nId, pinfo0) \<Rightarrow>
             (let pinfo = update_known addr nTimePenalty nNow pinfo0; s1 = put_info nId pinfo s
              in if a_nTime addr = 0 \<or> (a_nTime pinfo \<noteq> 0 \<and> a_nTime addr \<le> a_nTime pinfo) then Some (False, s1, r)
                 else if fInTried pinfo then Some (False, s1, r)
                 else if nRefCount pinfo = ADDRMAN_NEW_BUCKETS_PER_ADDRESS then Some (False, s1, r)
                 else
                   (let nFactor = 2 ^ nat (nRefCount pinfo)
                    in case (if nFactor > 1 then GetRandInt nFactor r else (0, r)) of
                         (n, r1) \<Rightarrow>
                           if nFactor > 1 \<and> n \<noteq> 0 then Some (False, s1, r1)
                           else map_option (\<lambda>(s2, r2). (False, s2, r2)) (AM_bucket L nId src nNow s1 r1)))
         | None \<Rightarrow>
             (case AM_Create addr src s of
                (nId, s1) \<Rightarrow>
                  (let pinfo = the (info_of s1 nId);
                       s2 = put_info nId (pinfo\<lparr>a_nTime := word_of_int (max 0 (uint (a_nTime pinfo) - nTimePenalty))\<rparr>)
                              (s1\<lparr>nNew := nNew s1 + 1\<rparr>)
                   in map_option (\<lambda>(s3, r3). (True, s3, r3)) (AM_bucket L nId src nNow s2 r)))))"

definition AM_Attempt :: "'a CService_scheme \<Rightarrow> int \<Rightarrow> CAddrMan \<Rightarrow> CAddrMan" where
  "AM_Attempt addr t s =
     (case AM_Find addr s of
        None \<Rightarrow> s
      | Some (nId, info) \<Rightarrow>
          if \<not> Service_eq info addr then s
          else put_info nId (info\<lparr>a_nLastTry := t, nAttempts := nAttempts info + 1\<rparr>) s)"

definition AM_Connected :: "'a CService_scheme \<Rightarrow> int \<Rightarrow> CAddrMan \<Rightarrow> CAddrMan" where
  "AM_Connected addr t s =
     (case AM_Find addr s of
        None \<Rightarrow> s
      | Some (nId, info) \<Rightarrow>
          if \<not> Service_eq info addr then s
          else if t - uint (a_nTime info) > 20 * 60 then put_info nId (info\<lparr>a_nTime := word_of_int t\<rparr>) s
          else s)"

fun getaddr_loop :: "nat \<Rightarrow> nat \<Rightarrow> CAddrMan \<Rightarrow> rng \<Rightarrow> (CAddrInfo list \<times> CAddrMan \<times> rng) option" where
  "getaddr_loop 0 n s r = Some ([], s, r)"
| "getaddr_loop (Suc k) n s r =
     (case GetRandInt (length (vRandom s) - n) r of
        (p, r1) \<Rightarrow>
          (case SwapRandom n (p + n) s of
             None \<Rightarrow> None
           | Some s1 \<Rightarrow>
               (case info_of s1 (vRandom s1 ! n) of
                  None \<Rightarrow> None
                | Some info \<Rightarrow> map_option (\<lambda>(v, s2, r2). (info # v, s2, r2)) (getaddr_loop k (n + 1) s1 r1))))"

definition AM_GetAddr :: "CAddrMan \<Rightarrow> rng \<Rightarrow> (CAddrInfo list \<times> CAddrMan \<times> rng) option" where
  "AM_GetAddr s r =
     getaddr_loop (min ADDRMAN_GETADDR_MAX (ADDRMAN_GETADDR_MAX_PCT * length (vRandom s) div 100)) 0 s r"

section \<open>The code's own consistency check\<close>

text \<open>\<open>Check_\<close> returns a number below zero for what is wrong.  The entry \<open>operator[]\<close> may add is not kept.\<close>

fun check_infos :: "CAddrMan \<Rightarrow> (nat \<times> CAddrInfo) list \<Rightarrow> nat list \<Rightarrow> (nat \<rightharpoonup> int) \<Rightarrow> int + nat list \<times> (nat \<rightharpoonup> int)" where
  "check_infos s [] setTried mapNew = Inr (setTried, mapNew)"
| "check_infos s ((n, info) # m) setTried mapNew =
     (if fInTried info \<and> nLastSuccess info = 0 then Inl (- 1)
      else if fInTried info \<and> nRefCount info \<noteq> 0 then Inl (- 2)
      else if \<not> fInTried info \<and> (nRefCount info < 0 \<or> nRefCount info > ADDRMAN_NEW_BUCKETS_PER_ADDRESS) then Inl (- 3)
      else if \<not> fInTried info \<and> nRefCount info = 0 then Inl (- 4)
      else if (case mapAddr s (ip info) of None \<Rightarrow> 0 | Some k \<Rightarrow> k) \<noteq> n then Inl (- 5)
      else if nRandomPos info < 0 \<or> nRandomPos info \<ge> int (length (vRandom s)) \<or> vRandom s ! nat (nRandomPos info) \<noteq> n
           then Inl (- 14)
      else if a_nLastTry info < 0 then Inl (- 6)
      else if nLastSuccess info < 0 then Inl (- 8)
      else if fInTried info then check_infos s m (set_insert n setTried) mapNew
      else check_infos s m setTried (mapNew(n \<mapsto> nRefCount info)))"

fun check_tried :: "nat list \<Rightarrow> nat list \<Rightarrow> nat list option" where
  "check_tried [] setTried = Some setTried"
| "check_tried (k # ks) setTried = (if k \<notin> set setTried then None else check_tried ks (remove1 k setTried))"

fun check_new :: "nat list \<Rightarrow> (nat \<rightharpoonup> int) \<Rightarrow> (nat \<rightharpoonup> int) option" where
  "check_new [] mapNew = Some mapNew"
| "check_new (k # ks) mapNew =
     (case mapNew k of
        None \<Rightarrow> None
      | Some c \<Rightarrow> check_new ks (if c - 1 = 0 then mapNew(k := None) else mapNew(k \<mapsto> c - 1)))"

text \<open>\<open>mapNew\<close> has the keys of the entries not in tried.\<close>

definition AM_Check :: "CAddrMan \<Rightarrow> int" where
  "AM_Check s =
     (if int (length (vRandom s)) \<noteq> nTried s + nNew s then - 7
      else
        (case check_infos s (mapInfo s) [] Map.empty of
           Inl e \<Rightarrow> e
         | Inr (setTried, mapNew) \<Rightarrow>
             if int (length setTried) \<noteq> nTried s then - 9
             else if int (length (filter (\<lambda>(n, _). mapNew n \<noteq> None) (mapInfo s))) \<noteq> nNew s then - 10
             else
               (case check_tried (concat (vvTried s)) setTried of
                  None \<Rightarrow> - 11
                | Some restTried \<Rightarrow>
                    (case check_new (concat (vvNew s)) mapNew of
                       None \<Rightarrow> - 12
                     | Some restNew \<Rightarrow>
                         if restTried \<noteq> [] then - 13
                         else if list_ex (\<lambda>(n, _). restNew n \<noteq> None) (mapInfo s) then - 15
                         else 0))))"

end
