(* ===== verification/AddrMan_Facts.thy ===== *)
theory AddrMan_Facts
  imports AddrMan "HOL-Library.Multiset"
begin

text \<open>
  What every operation of the address manager keeps: the two indexes and the random order agree with the entries,
  every entry is in the tried table or referenced from one to four new buckets, and no bucket overflows.  It follows
  that no assertion fails, that the code's own check finds nothing, and that the tables are bounded.
\<close>

section \<open>The invariant\<close>

definition refs :: "CAddrMan \<Rightarrow> nat \<Rightarrow> nat" where
  "refs s k = length (filter (\<lambda>b. k \<in> set b) (vvNew s))"

definition random_ok :: "CAddrMan \<Rightarrow> bool" where
  "random_ok s \<longleftrightarrow>
     (\<forall>k i. info_of s k = Some i \<longrightarrow>
        0 \<le> nRandomPos i \<and> nat (nRandomPos i) < length (vRandom s) \<and> vRandom s ! nat (nRandomPos i) = k) \<and>
     (\<forall>p < length (vRandom s). \<exists>i. info_of s (vRandom s ! p) = Some i \<and> nRandomPos i = int p)"

definition index_ok :: "CAddrMan \<Rightarrow> bool" where
  "index_ok s \<longleftrightarrow>
     sorted_map (mapInfo s) \<and>
     (\<forall>k i. info_of s k = Some i \<longrightarrow> k < nIdCount s \<and> mapAddr s (ip i) = Some k) \<and>
     (\<forall>a k. mapAddr s a = Some k \<longrightarrow> (\<exists>i. info_of s k = Some i \<and> ip i = a))"

definition buckets_ok :: "CAddrMan \<Rightarrow> bool" where
  "buckets_ok s \<longleftrightarrow>
     length (vvTried s) = 64 \<and> length (vvNew s) = 256 \<and>
     (\<forall>b \<in> set (vvTried s). length b \<le> 64) \<and> (\<forall>b \<in> set (vvNew s). sorted_wrt (<) b \<and> length b \<le> 64) \<and>
     distinct (concat (vvTried s)) \<and>
     (\<forall>b \<in> set (vvTried s) \<union> set (vvNew s). \<forall>k \<in> set b. info_of s k \<noteq> None)"

text \<open>\<open>ex\<close> counts the references an operation in progress has taken without having entered them into a bucket.\<close>

definition entry_ok :: "CAddrMan \<Rightarrow> (nat \<Rightarrow> nat) \<Rightarrow> nat \<Rightarrow> CAddrInfo \<Rightarrow> bool" where
  "entry_ok s ex k i \<longleftrightarrow>
     (fInTried i \<longleftrightarrow> (\<exists>b \<in> set (vvTried s). k \<in> set b)) \<and> nRefCount i = int (refs s k + ex k) \<and>
     (if fInTried i then nRefCount i = 0 \<and> nLastSuccess i \<noteq> 0 else 1 \<le> nRefCount i \<and> nRefCount i \<le> 4) \<and>
     0 \<le> a_nLastTry i \<and> 0 \<le> nLastSuccess i"

definition am_wf :: "(nat \<Rightarrow> nat) \<Rightarrow> CAddrMan \<Rightarrow> bool" where
  "am_wf ex s \<longleftrightarrow> index_ok s \<and> random_ok s \<and> buckets_ok s \<and>
     (\<forall>k i. info_of s k = Some i \<longrightarrow> entry_ok s ex k i) \<and>
     nTried s = int (length (concat (vvTried s))) \<and> nTried s + nNew s = int (length (vRandom s))"

abbreviation none :: "nat \<Rightarrow> nat" where "none \<equiv> (\<lambda>_. 0)"

section \<open>Lists\<close>

lemma filter_update:
  "n < length xs \<Longrightarrow> length (filter P (xs[n := y])) + (if P (xs ! n) then 1 else 0) = length (filter P xs) + (if P y then 1 else 0)"
proof (induction xs arbitrary: n)
  case (Cons x xs)
  then show ?case by (cases n) auto
qed simp

lemma remove1_sorted: "sorted_wrt (<) (xs :: nat list) \<Longrightarrow> set (remove1 k xs) = set xs - {k} \<and> sorted_wrt (<) (remove1 k xs)"
  by (induction xs) auto

lemma set_insert_length: "sorted_wrt (<) xs \<Longrightarrow> x \<notin> set xs \<Longrightarrow> length (set_insert x xs) = Suc (length xs)"
  by (induction xs) auto

lemma card_concat: "card (\<Union>b \<in> set bs. set b) \<le> length bs * n" if "\<forall>b \<in> set bs. length b \<le> n"
  using that
proof (induction bs)
  case (Cons b bs)
  have "card (set b \<union> (\<Union>b \<in> set bs. set b)) \<le> card (set b) + card (\<Union>b \<in> set bs. set b)" by (rule card_Un_le)
  also have "\<dots> \<le> n + length bs * n" using Cons card_length [of b] by (auto intro: add_mono order_trans)
  finally show ?case by simp
qed simp

lemma length_concat_le: "\<forall>b \<in> set bs. length b \<le> n \<Longrightarrow> length (concat bs) \<le> length bs * n"
  by (induction bs) auto

section \<open>Single steps\<close>

lemma info_of_put: "index_ok s \<Longrightarrow> info_of (put_info k i s) = (info_of s)(k \<mapsto> i)"
  by (simp add: put_info_def map_of_put index_ok_def)

lemma put_info_sel [simp]:
  "am_nKey (put_info k i s) = am_nKey s" "nIdCount (put_info k i s) = nIdCount s" "mapAddr (put_info k i s) = mapAddr s"
  "vRandom (put_info k i s) = vRandom s" "nTried (put_info k i s) = nTried s" "vvTried (put_info k i s) = vvTried s"
  "nNew (put_info k i s) = nNew s" "vvNew (put_info k i s) = vvNew s" "mapInfo (put_info k i s) = map_put k i (mapInfo s)"
  by (simp_all add: put_info_def)

lemma am_wfD:
  assumes "am_wf ex s"
  shows "index_ok s" "random_ok s" "buckets_ok s" "info_of s k = Some i \<Longrightarrow> entry_ok s ex k i"
    "nTried s = int (length (concat (vvTried s)))" "nTried s + nNew s = int (length (vRandom s))"
    "sorted_map (mapInfo s)" "length (vvTried s) = 64" "length (vvNew s) = 256"
  using assms by (auto simp: am_wf_def index_ok_def buckets_ok_def)

text \<open>Replacing an entry by one that keeps its address and its place.\<close>

lemma put_info_index:
  assumes "index_ok s" and "random_ok s" and "info_of s k = Some i" and "ip j = ip i" and "nRandomPos j = nRandomPos i"
  shows "index_ok (put_info k j s)" "random_ok (put_info k j s)"
proof -
  note m = info_of_put [OF assms(1), of k j]
  have "sorted_map (map_put k j (mapInfo s))" using assms(1) by (simp add: index_ok_def sorted_map_put)
  then show "index_ok (put_info k j s)"
    using assms(1,3,4) m unfolding index_ok_def by (auto split: if_splits) (metis option.inject)+
  show "random_ok (put_info k j s)"
    using assms(2,3,5) m unfolding random_ok_def by (auto split: if_splits)
qed

lemma put_info_buckets:
  assumes "index_ok s" and "buckets_ok s"
  shows "buckets_ok (put_info k j s)"
  using assms(2) info_of_put [OF assms(1), of k j] unfolding buckets_ok_def by auto

lemma am_wf_put:
  assumes "am_wf ex s" and "info_of s k = Some i" and "ip j = ip i" and "nRandomPos j = nRandomPos i"
    and "entry_ok s ex' k j" and "\<And>x. x \<noteq> k \<Longrightarrow> ex' x = ex x"
  shows "am_wf ex' (put_info k j s)"
proof -
  note w = am_wfD [OF assms(1)]
  note m = info_of_put [OF w(1), of k j]
  have r: "refs (put_info k j s) = refs s" by (simp add: refs_def fun_eq_iff)
  have "entry_ok (put_info k j s) ex' x y" if "info_of (put_info k j s) x = Some y" for x y
    using that w(4) [of x y] assms(5,6) m unfolding entry_ok_def by (auto simp: r split: if_splits)
  then show ?thesis
    using put_info_index [OF w(1,2) assms(2-4)] put_info_buckets [OF w(1,3)] w(5,6) unfolding am_wf_def by simp
qed

section \<open>The random order\<close>

text \<open>The entries of two states up to their places.\<close>

definition placeless :: "CAddrMan \<Rightarrow> nat \<Rightarrow> CAddrInfo option" where
  "placeless s k = map_option (\<lambda>i. i\<lparr>nRandomPos := 0\<rparr>) (info_of s k)"

lemma placeless_same:
  assumes "placeless s' k = placeless s k" and "info_of s' k = Some i"
  obtains j where "info_of s k = Some j" "ip i = ip j" "nRefCount i = nRefCount j" "fInTried i = fInTried j"
    "nLastSuccess i = nLastSuccess j" "a_nLastTry i = a_nLastTry j" "i = j\<lparr>nRandomPos := nRandomPos i\<rparr>"
proof (cases "info_of s k")
  case None
  then show thesis using assms by (simp add: placeless_def)
next
  case (Some j)
  then have e: "i\<lparr>nRandomPos := 0\<rparr> = j\<lparr>nRandomPos := 0\<rparr>" using assms by (simp add: placeless_def)
  have "i = j\<lparr>nRandomPos := nRandomPos i\<rparr>" using e by (cases i; cases j) simp
  then show thesis
    using that [OF Some] arg_cong [OF e, of ip] arg_cong [OF e, of nRefCount] arg_cong [OF e, of fInTried]
      arg_cong [OF e, of nLastSuccess] arg_cong [OF e, of a_nLastTry] by simp
qed

lemma placeless_Some: "placeless s' k = placeless s k \<Longrightarrow> info_of s k = Some j \<Longrightarrow> \<exists>i. info_of s' k = Some i \<and> ip i = ip j"
  using placeless_same [of s k s' j] by (metis placeless_def option.map_disc_iff option.exhaust)

lemma index_placeless:
  assumes "index_ok s" and "sorted_map (mapInfo s')" and "nIdCount s' = nIdCount s" and "mapAddr s' = mapAddr s"
    and "\<And>k. placeless s' k = placeless s k"
  shows "index_ok s'"
  unfolding index_ok_def
proof (intro conjI allI impI)
  fix k i assume "info_of s' k = Some i"
  then obtain j where "info_of s k = Some j" "ip i = ip j" using placeless_same [OF assms(5)] by metis
  then show "k < nIdCount s'" "mapAddr s' (ip i) = Some k" using assms(1,3,4) by (auto simp: index_ok_def)
next
  fix a k assume "mapAddr s' a = Some k"
  then have "mapAddr s a = Some k" using assms(4) by simp
  then obtain j where "info_of s k = Some j" "ip j = a" using assms(1) unfolding index_ok_def by blast
  then show "\<exists>i. info_of s' k = Some i \<and> ip i = a" using placeless_Some [OF assms(5)] by auto
qed (rule assms(2))

lemma SwapRandom_ok:
  assumes i: "index_ok s" and r: "random_ok s" and p: "p < length (vRandom s)" and q: "q < length (vRandom s)"
  obtains m where "SwapRandom p q s = Some (s\<lparr>mapInfo := m, vRandom := (vRandom s)[p := vRandom s ! q, q := vRandom s ! p]\<rparr>)"
    "index_ok (s\<lparr>mapInfo := m, vRandom := (vRandom s)[p := vRandom s ! q, q := vRandom s ! p]\<rparr>)"
    "random_ok (s\<lparr>mapInfo := m, vRandom := (vRandom s)[p := vRandom s ! q, q := vRandom s ! p]\<rparr>)"
    "\<And>k. placeless (s\<lparr>mapInfo := m, vRandom := (vRandom s)[p := vRandom s ! q, q := vRandom s ! p]\<rparr>) k = placeless s k"
proof (cases "p = q")
  case True
  then have "s\<lparr>mapInfo := mapInfo s, vRandom := (vRandom s)[p := vRandom s ! q, q := vRandom s ! p]\<rparr> = s" by simp
  then show ?thesis using that [of "mapInfo s"] True i r by (simp add: SwapRandom_def)
next
  case False
  let ?v = "vRandom s"
  obtain ip where ip: "info_of s (?v ! p) = Some ip" "nRandomPos ip = int p" using r p by (auto simp: random_ok_def)
  obtain iq where iq: "info_of s (?v ! q) = Some iq" "nRandomPos iq = int q" using r q by (auto simp: random_ok_def)
  have d: "?v ! p \<noteq> ?v ! q" using False ip iq by auto
  define m where "m = map_put (?v ! q) (iq\<lparr>nRandomPos := int p\<rparr>) (map_put (?v ! p) (ip\<lparr>nRandomPos := int q\<rparr>) (mapInfo s))"
  let ?s = "s\<lparr>mapInfo := m, vRandom := ?v[p := ?v ! q, q := ?v ! p]\<rparr>"
  have so: "sorted_map (mapInfo s)" using i by (simp add: index_ok_def)
  have mo: "map_of m = (info_of s)(?v ! p \<mapsto> ip\<lparr>nRandomPos := int q\<rparr>, ?v ! q \<mapsto> iq\<lparr>nRandomPos := int p\<rparr>)"
    using so by (simp add: m_def map_of_put sorted_map_put)
  have "SwapRandom p q s = Some ?s"
    using False p q ip iq d so by (simp add: SwapRandom_def Let_def put_info_def m_def map_of_put sorted_map_put)
  moreover have pl: "placeless ?s k = placeless s k" for k
    using ip iq d by (auto simp: placeless_def mo)
  moreover have "index_ok ?s"
    by (rule index_placeless [OF i _ _ _ pl]) (simp_all add: m_def so sorted_map_put)
  moreover have "random_ok ?s"
  proof -
    have "\<exists>i. map_of m (?v[p := ?v ! q, q := ?v ! p] ! x) = Some i \<and> nRandomPos i = int x" if x: "x < length ?v" for x
    proof -
      obtain ix where ix: "info_of s (?v ! x) = Some ix" "nRandomPos ix = int x" using r x by (auto simp: random_ok_def)
      then have "x \<noteq> p \<Longrightarrow> ?v ! x \<noteq> ?v ! p" "x \<noteq> q \<Longrightarrow> ?v ! x \<noteq> ?v ! q" using ip iq by auto
      then show ?thesis using ix d p q False by (cases "x = p"; cases "x = q") (auto simp: mo)
    qed
    moreover have "0 \<le> nRandomPos j \<and> nat (nRandomPos j) < length ?v \<and> ?v[p := ?v ! q, q := ?v ! p] ! nat (nRandomPos j) = k"
      if k: "map_of m k = Some j" for k j
    proof -
      consider "k = ?v ! p" "j = ip\<lparr>nRandomPos := int q\<rparr>" | "k = ?v ! q" "j = iq\<lparr>nRandomPos := int p\<rparr>"
        | "k \<noteq> ?v ! p" "k \<noteq> ?v ! q" "info_of s k = Some j" using k d by (auto simp: mo split: if_splits)
      then show ?thesis
      proof cases
        case 3
        then have j: "0 \<le> nRandomPos j" "nat (nRandomPos j) < length ?v" "?v ! nat (nRandomPos j) = k" using r by (auto simp: random_ok_def)
        then have "nat (nRandomPos j) \<noteq> p" "nat (nRandomPos j) \<noteq> q" using 3 by auto
        then show ?thesis using j by simp
      qed (use p q d False in auto)
    qed
    ultimately show ?thesis by (simp add: random_ok_def)
  qed
  ultimately show ?thesis using that by blast
qed

lemma entry_ok_cong:
  "fInTried i = fInTried j \<Longrightarrow> nRefCount i = nRefCount j \<Longrightarrow> nLastSuccess i = nLastSuccess j \<Longrightarrow> a_nLastTry i = a_nLastTry j \<Longrightarrow>
     vvNew s' = vvNew s \<Longrightarrow> vvTried s' = vvTried s \<Longrightarrow> entry_ok s' ex k i = entry_ok s ex k j"
  by (simp add: entry_ok_def refs_def)

lemma entry_ok_refs:
  "vvTried s' = vvTried s \<Longrightarrow> refs s' k + ex' k = refs s k + ex k \<Longrightarrow> entry_ok s' ex' k i = entry_ok s ex k i"
  by (simp only: entry_ok_def)

lemma placeless_dom: "placeless s' k = placeless s k \<Longrightarrow> (info_of s' k = None) = (info_of s k = None)"
  by (simp add: placeless_def) (metis option.map_disc_iff)

lemma am_wf_placeless:
  assumes "am_wf ex s" and "index_ok s'" and "random_ok s'" and "\<And>k. placeless s' k = placeless s k"
    and "vvNew s' = vvNew s" and "vvTried s' = vvTried s" and "nTried s' = nTried s" and "nNew s' = nNew s"
    and "length (vRandom s') = length (vRandom s)"
  shows "am_wf ex s'"
proof -
  note w = am_wfD [OF assms(1)]
  have "buckets_ok s'" using w(3) placeless_dom [OF assms(4)] assms(5,6) by (simp add: buckets_ok_def)
  moreover have "entry_ok s' ex k i" if k: "info_of s' k = Some i" for k i
  proof -
    obtain j where j: "info_of s k = Some j" "fInTried i = fInTried j" "nRefCount i = nRefCount j"
      "nLastSuccess i = nLastSuccess j" "a_nLastTry i = a_nLastTry j" using placeless_same [OF assms(4) k] by metis
    then show ?thesis using w(4) [OF j(1)] entry_ok_cong [OF j(2-5) assms(5,6)] by simp
  qed
  ultimately show ?thesis using assms(2,3,5-9) w(5,6) by (simp add: am_wf_def)
qed

lemma vRandom_distinct: "random_ok s \<Longrightarrow> distinct (vRandom s)"
  unfolding distinct_conv_nth random_ok_def by (metis of_nat_eq_iff option.inject)

lemma vRandom_ids: "random_ok s \<Longrightarrow> k \<in> set (vRandom s) \<longleftrightarrow> info_of s k \<noteq> None"
  unfolding random_ok_def in_set_conv_nth by (metis option.distinct(1) option.exhaust)

lemma size_bound:
  assumes "am_wf ex s" and "\<And>k. 0 < ex k \<Longrightarrow> k = x"
  shows "length (vRandom s) \<le> 20481" "ex = none \<Longrightarrow> length (vRandom s) \<le> 20480"
proof -
  note w = am_wfD [OF assms(1)]
  let ?T = "\<Union>b \<in> set (vvTried s). set b" and ?N = "\<Union>b \<in> set (vvNew s). set b"
  have "k \<in> ?T \<union> ?N \<or> 0 < ex k" if k: "k \<in> set (vRandom s)" for k
  proof -
    obtain i where i: "entry_ok s ex k i" using k vRandom_ids [OF w(2)] w(4) by blast
    then have "k \<in> ?T \<or> 0 < refs s k + ex k" by (auto simp: entry_ok_def split: if_splits)
    moreover have "0 < refs s k \<Longrightarrow> k \<in> ?N" by (auto simp: refs_def length_greater_0_conv filter_empty_conv)
    ultimately show ?thesis by auto
  qed
  then have "set (vRandom s) \<subseteq> (?T \<union> ?N) \<union> {k. 0 < ex k}" by blast
  moreover have f: "finite {k. 0 < ex k}" "card {k. 0 < ex k} \<le> 1" "ex = none \<Longrightarrow> card {k. 0 < ex k} = 0"
  proof -
    have "{k. 0 < ex k} \<subseteq> {x}" using assms(2) by blast
    then show "finite {k. 0 < ex k}" "card {k. 0 < ex k} \<le> 1" using card_mono [of "{x}"] finite_subset by fastforce+
  qed simp
  ultimately have "card (set (vRandom s)) \<le> card ((?T \<union> ?N) \<union> {k. 0 < ex k})" by (intro card_mono) auto
  also have "\<dots> \<le> card (?T \<union> ?N) + card {k. 0 < ex k}" by (rule card_Un_le)
  also have "card (?T \<union> ?N) \<le> card ?T + card ?N" by (rule card_Un_le)
  also have "card ?T \<le> length (vvTried s) * 64" using w(3) by (intro card_concat) (simp add: buckets_ok_def)
  also have "card ?N \<le> length (vvNew s) * 64" using w(3) by (intro card_concat) (simp add: buckets_ok_def)
  finally have "length (vRandom s) \<le> 20480 + card {k. 0 < ex k}"
    using w(8,9) distinct_card [OF vRandom_distinct [OF w(2)]] by simp
  then show "length (vRandom s) \<le> 20481" "ex = none \<Longrightarrow> length (vRandom s) \<le> 20480" using f(2,3) by auto
qed

lemma erase_last:
  assumes i: "index_ok s" and r: "random_ok s" and l: "vRandom s = vs @ [k]" and e: "info_of s k = Some e"
    and s': "s' = s\<lparr>vRandom := butlast (vRandom s), mapAddr := (mapAddr s)(ip e := None), mapInfo := map_erase k (mapInfo s), nNew := n\<rparr>"
  shows "index_ok s'" "random_ok s'" "info_of s' = (info_of s)(k := None)" "vRandom s' = vs"
proof -
  show m: "info_of s' = (info_of s)(k := None)" and v: "vRandom s' = vs" using l by (simp_all add: s' map_of_erase)
  have addr: "mapAddr s (ip e) = Some k" using i e unfolding index_ok_def by blast
  show "index_ok s'"
    unfolding index_ok_def m
  proof (intro conjI allI impI)
    show "sorted_map (mapInfo s')" using i by (simp add: s' index_ok_def sorted_map_erase)
  next
    fix x j assume "((info_of s)(k := None)) x = Some j"
    then have x: "x \<noteq> k" "info_of s x = Some j" by (auto split: if_splits)
    then have "x < nIdCount s" "mapAddr s (ip j) = Some x" using i unfolding index_ok_def by blast+
    then show "x < nIdCount s'" "mapAddr s' (ip j) = Some x" using x addr by (auto simp: s')
  next
    fix a x assume "mapAddr s' a = Some x"
    then have a: "mapAddr s a = Some x" "a \<noteq> ip e" by (auto simp: s' split: if_splits)
    then obtain j where j: "info_of s x = Some j" "ip j = a" using i unfolding index_ok_def by blast
    then have "x \<noteq> k" using a(2) e by auto
    then show "\<exists>i. ((info_of s)(k := None)) x = Some i \<and> ip i = a" using j by auto
  qed
  have d: "distinct (vs @ [k])" using vRandom_distinct [OF r] l by simp
  show "random_ok s'"
    unfolding random_ok_def m v
  proof (intro conjI allI impI)
    fix x j assume "((info_of s)(k := None)) x = Some j"
    then have x: "x \<noteq> k" "info_of s x = Some j" by (auto split: if_splits)
    then have p: "0 \<le> nRandomPos j" "nat (nRandomPos j) < length (vs @ [k])" "(vs @ [k]) ! nat (nRandomPos j) = x"
      using r l unfolding random_ok_def by auto
    then show "0 \<le> nRandomPos j" "nat (nRandomPos j) < length vs" "vs ! nat (nRandomPos j) = x"
      using x(1) by (auto simp: nth_append split: if_splits)
  next
    fix p assume p: "p < length vs"
    then obtain j where "info_of s (vs ! p) = Some j" "nRandomPos j = int p"
      using r l unfolding random_ok_def by (metis length_append_singleton less_SucI nth_append)
    moreover have "vs ! p \<noteq> k" using d p nth_mem [OF p] by auto
    ultimately show "\<exists>i. ((info_of s)(k := None)) (vs ! p) = Some i \<and> nRandomPos i = int p" by simp
  qed
qed

section \<open>Taking an entry out of a new bucket\<close>

definition without :: "nat \<Rightarrow> nat \<Rightarrow> CAddrMan \<Rightarrow> CAddrMan" where
  "without b k s = s\<lparr>vvNew := (vvNew s)[b := remove1 k (vvNew s ! b)]\<rparr>"

lemma refs_update:
  "b < length (vvNew s) \<Longrightarrow> refs (s\<lparr>vvNew := (vvNew s)[b := y]\<rparr>) x + (if x \<in> set (vvNew s ! b) then 1 else 0)
     = refs s x + (if x \<in> set y then 1 else 0)"
  unfolding refs_def by (simp add: filter_update [of b "vvNew s" "\<lambda>b. x \<in> set b"])

lemma index_random_vvNew [simp]:
  "index_ok (s\<lparr>vvNew := n\<rparr>) = index_ok s" "random_ok (s\<lparr>vvNew := n\<rparr>) = random_ok s"
  "index_ok (s\<lparr>vvTried := n\<rparr>) = index_ok s" "random_ok (s\<lparr>vvTried := n\<rparr>) = random_ok s"
  "index_ok (s\<lparr>nNew := c\<rparr>) = index_ok s" "random_ok (s\<lparr>nNew := c\<rparr>) = random_ok s"
  "index_ok (s\<lparr>nTried := c\<rparr>) = index_ok s" "random_ok (s\<lparr>nTried := c\<rparr>) = random_ok s"
  by (simp_all add: index_ok_def random_ok_def)

lemma bucket_sorted: "buckets_ok s \<Longrightarrow> b < 256 \<Longrightarrow> sorted_wrt (<) (vvNew s ! b) \<and> length (vvNew s ! b) \<le> 64"
  by (simp add: buckets_ok_def)

lemma refs_without:
  assumes "buckets_ok s" and "b < 256" and "k \<in> set (vvNew s ! b)"
  shows "refs (without b k s) x = refs s x - (if x = k then 1 else 0)" "0 < refs s k"
proof -
  have r: "set (remove1 k (vvNew s ! b)) = set (vvNew s ! b) - {k}" using remove1_sorted bucket_sorted [OF assms(1,2)] by blast
  have "b < length (vvNew s)" using assms(1,2) by (simp add: buckets_ok_def)
  note u = refs_update [OF this, of "remove1 k (vvNew s ! b)", folded without_def]
  have "refs (without b k s) x + (if x \<in> set (vvNew s ! b) then 1 else 0) = refs s x + (if x \<in> set (vvNew s ! b) - {k} then 1 else 0)"
    "refs (without b k s) k + 1 = refs s k" using u [of x] u [of k] assms(3) unfolding r by simp_all
  then show "refs (without b k s) x = refs s x - (if x = k then 1 else 0)" "0 < refs s k"
    by (cases "x = k"; cases "x \<in> set (vvNew s ! b)"; simp)+
qed

text \<open>The buckets after a bucket lost or gained entries and an entry went, which is in no bucket any more.\<close>

lemma buckets_without:
  assumes "buckets_ok s" and "b < 256" and "vvTried s' = vvTried s" and "vvNew s' = (vvNew s)[b := remove1 k (vvNew s ! b)]"
    and "\<And>x. info_of s' x = None \<Longrightarrow> info_of s x = None \<or> (\<forall>b \<in> set (vvTried s') \<union> set (vvNew s'). x \<notin> set b)"
  shows "buckets_ok s'"
proof -
  have l: "b < length (vvNew s)" using assms(1,2) by (simp add: buckets_ok_def)
  note bs = bucket_sorted [OF assms(1,2)]
  have y: "sorted_wrt (<) (remove1 k (vvNew s ! b))" "set (remove1 k (vvNew s ! b)) \<subseteq> set (vvNew s ! b)"
    using remove1_sorted [of "vvNew s ! b" k] bs by blast+
  have yl: "length (remove1 k (vvNew s ! b)) \<le> 64"
    by (rule order_trans [OF _ conjunct2 [OF bs]]) (simp add: length_remove1)
  have u: "set (vvNew s') \<subseteq> insert (remove1 k (vvNew s ! b)) (set (vvNew s))" using assms(4) set_update_subset_insert by metis
  have m: "vvNew s ! b \<in> set (vvNew s)" using l by simp
  have "info_of s' x \<noteq> None" if c: "c \<in> set (vvTried s') \<union> set (vvNew s')" and x: "x \<in> set c" for c x
  proof
    assume "info_of s' x = None"
    then have "info_of s x = None" using assms(5) [of x] c x by blast
    moreover obtain d where "d \<in> set (vvTried s) \<union> set (vvNew s)" "x \<in> set d"
    proof (cases "c \<in> set (vvTried s')")
      case True
      then show ?thesis using that [of c] x assms(3) by simp
    next
      case False
      then consider "c = remove1 k (vvNew s ! b)" | "c \<in> set (vvNew s)" using c u by blast
      then show ?thesis
      proof cases
        case 1
        then have "x \<in> set (vvNew s ! b)" using x y(2) by blast
        then show ?thesis using that [of "vvNew s ! b"] m by simp
      next
        case 2
        then show ?thesis using that [of c] x by simp
      qed
    qed
    ultimately show False using assms(1) unfolding buckets_ok_def by blast
  qed
  moreover have "\<forall>c \<in> set (vvNew s'). sorted_wrt (<) c \<and> length c \<le> 64"
  proof
    fix c assume "c \<in> set (vvNew s')"
    then have "c = remove1 k (vvNew s ! b) \<or> c \<in> set (vvNew s)" using u by blast
    then show "sorted_wrt (<) c \<and> length c \<le> 64" using y(1) yl assms(1) unfolding buckets_ok_def by blast
  qed
  moreover have "length (vvNew s') = 256" using assms(1,4) by (simp add: buckets_ok_def)
  moreover have "length (vvTried s) = 64" "\<forall>b \<in> set (vvTried s). length b \<le> 64" "distinct (concat (vvTried s))"
    using assms(1) unfolding buckets_ok_def by blast+
  ultimately show ?thesis unfolding buckets_ok_def assms(3) by blast
qed

lemma in_bucket: "b < 256 \<Longrightarrow> buckets_ok s \<Longrightarrow> k \<in> set (vvNew s ! b) \<Longrightarrow> \<exists>c \<in> set (vvNew s). k \<in> set c"
  by (auto simp: buckets_ok_def intro!: bexI [of _ "vvNew s ! b"])

lemma refs_0: "refs s k = 0 \<Longrightarrow> c \<in> set (vvNew s) \<Longrightarrow> k \<notin> set c"
  by (auto simp: refs_def filter_empty_conv)

lemma release_ok:
  assumes wf: "am_wf ex s" and ex: "\<And>k. 0 < ex k \<Longrightarrow> k = x" and b: "b < 256" and k: "k \<in> set (vvNew s ! b)"
  obtains s1 where "release k s = Some s1" "am_wf ex (without b k s1)" "vvNew s1 = vvNew s" "am_nKey s1 = am_nKey s"
    "\<And>y. 0 < ex y \<Longrightarrow> info_of s y \<noteq> None \<Longrightarrow> info_of s1 y \<noteq> None"
proof -
  note w = am_wfD [OF wf]
  obtain i where i: "info_of s k = Some i" using in_bucket [OF b w(3) k] w(3) unfolding buckets_ok_def by blast
  note e = w(4) [OF i]
  have r: "0 < refs s k" "refs (without b k s) y = refs s y - (if y = k then 1 else 0)" for y
    using refs_without [OF w(3) b k] by simp_all
  have nt: "\<not> fInTried i" "nRefCount i = int (refs s k + ex k)" using e r(1) by (auto simp: entry_ok_def split: if_splits)
  let ?i = "i\<lparr>nRefCount := nRefCount i - 1\<rparr>"
  let ?s = "put_info k ?i s"
  have ii: "info_of ?s = (info_of s)(k \<mapsto> ?i)" by (rule info_of_put [OF w(1)])
  have io: "index_ok ?s" "random_ok ?s" using put_info_index [OF w(1,2) i] by simp_all
  have same: "entry_ok s' ex y j" if "info_of s y = Some j" "y \<noteq> k" "vvTried s' = vvTried s" "refs s' y = refs s y" for s' y j
    using w(4) [OF that(1)] unfolding entry_ok_def that(3,4) .
  show thesis
  proof (cases "nRefCount i = 1")
    case False
    have m: "info_of (without b k ?s) = (info_of s)(k \<mapsto> ?i)" using ii by (simp add: without_def)
    have rs: "refs (without b k ?s) y = refs s y - (if y = k then 1 else 0)" for y
      using r(2) [of y] by (simp add: without_def refs_def)
    have "am_wf ex (without b k ?s)"
      unfolding am_wf_def
    proof (intro conjI allI impI)
      show "index_ok (without b k ?s)" "random_ok (without b k ?s)" using io by (simp_all add: without_def)
      show "buckets_ok (without b k ?s)"
        by (rule buckets_without [OF w(3) b, where k = k]) (use m in \<open>auto simp: without_def split: if_splits\<close>)
      fix y j assume j: "info_of (without b k ?s) y = Some j"
      show "entry_ok (without b k ?s) ex y j"
      proof (cases "y = k")
        case True
        then have "j = ?i" using j m by simp
        then show ?thesis using e nt r(1) rs [of k] False True by (auto simp: entry_ok_def without_def)
      next
        case y: False
        then show ?thesis using j m rs [of y] by (intro same) (simp_all add: without_def)
      qed
    qed (use w(5,6) in \<open>simp_all add: without_def\<close>)
    then show thesis using that [of ?s] False i ii by (auto simp: release_def Let_def)
  next
    case True
    have rk: "refs s k = 1" "ex k = 0" using nt r(1) True by auto
    have pos: "0 \<le> nRandomPos i" "nat (nRandomPos i) < length (vRandom s)" "vRandom s ! nat (nRandomPos i) = k"
      using w(2) i unfolding random_ok_def by blast+
    let ?p = "nat (nRandomPos i)" and ?q = "length (vRandom s) - 1"
    have len: "length (vRandom s) \<le> 20481" using size_bound(1) [OF wf ex] .
    have uns: "as_unsigned (int n) = n" if "n \<le> 20481" for n using that by (simp add: as_unsigned_def)
    have au: "as_unsigned (nRandomPos i) = ?p" "as_unsigned (int (length (vRandom s)) - 1) = ?q"
      using pos len uns [of ?p] uns [of ?q] by (auto simp: of_nat_diff)
    obtain m where m: "SwapRandom ?p ?q ?s = Some (?s\<lparr>mapInfo := m, vRandom := (vRandom ?s)[?p := vRandom ?s ! ?q, ?q := vRandom ?s ! ?p]\<rparr>)"
      "index_ok (?s\<lparr>mapInfo := m, vRandom := (vRandom ?s)[?p := vRandom ?s ! ?q, ?q := vRandom ?s ! ?p]\<rparr>)"
      "random_ok (?s\<lparr>mapInfo := m, vRandom := (vRandom ?s)[?p := vRandom ?s ! ?q, ?q := vRandom ?s ! ?p]\<rparr>)"
      "\<And>y. placeless (?s\<lparr>mapInfo := m, vRandom := (vRandom ?s)[?p := vRandom ?s ! ?q, ?q := vRandom ?s ! ?p]\<rparr>) y = placeless ?s y"
      by (rule SwapRandom_ok [OF io, of ?p ?q]) (use pos in auto)
    define s2 where "s2 = ?s\<lparr>mapInfo := m, vRandom := (vRandom ?s)[?p := vRandom ?s ! ?q, ?q := vRandom ?s ! ?p]\<rparr>"
    note m = m [folded s2_def]
    have v2: "length (vRandom s2) = length (vRandom s)" "vRandom s2 \<noteq> []" using pos by (auto simp: s2_def)
    moreover have "vRandom s2 ! ?q = k" using pos by (auto simp: s2_def nth_list_update)
    ultimately have "last (vRandom s2) = k" by (simp add: last_conv_nth)
    then have v3: "vRandom s2 = butlast (vRandom s2) @ [k]" using v2(2) by (metis append_butlast_last_id)
    obtain i2 where i2: "info_of s2 k = Some i2" "ip i2 = ip i" using placeless_Some [OF m(4), of k ?i] ii by auto
    define s3 where "s3 = s2\<lparr>vRandom := butlast (vRandom s2), mapAddr := (mapAddr s2)(ip i2 := None),
        mapInfo := map_erase k (mapInfo s2), nNew := nNew s2 - 1\<rparr>"
    note e3 = erase_last [OF m(2,3) v3 i2(1) s3_def]
    have rel: "release k s = Some s3"
      using True i au m(1) i2(2) by (simp add: release_def Let_def s3_def)
    have sel: "vvNew s3 = vvNew s" "vvTried s3 = vvTried s" "nTried s3 = nTried s" "nNew s3 = nNew s - 1" "am_nKey s3 = am_nKey s"
      by (simp_all add: s3_def s2_def)
    have rs: "refs (without b k s3) y = refs s y - (if y = k then 1 else 0)" for y
      using r(2) [of y] by (simp add: without_def refs_def sel)
    have gone: "info_of s3 y = None \<Longrightarrow> y \<noteq> k \<Longrightarrow> info_of s y = None" for y
      using e3(3) placeless_dom [OF m(4), of y] ii by (simp split: if_splits)
    have "am_wf ex (without b k s3)"
      unfolding am_wf_def
    proof (intro conjI allI impI)
      show "index_ok (without b k s3)" "random_ok (without b k s3)" using e3(1,2) by (simp_all add: without_def)
      show "buckets_ok (without b k s3)"
      proof (rule buckets_without [OF w(3) b, where k = k])
        fix y assume "info_of (without b k s3) y = None"
        then have "info_of s3 y = None" by (simp add: without_def)
        moreover have "\<forall>c \<in> set (vvTried s). k \<notin> set c" using e nt(1) by (simp add: entry_ok_def)
        moreover have "\<forall>c \<in> set (vvNew (without b k s3)). k \<notin> set c" using rs [of k] rk refs_0 by simp
        ultimately show "info_of s y = None \<or> (\<forall>c \<in> set (vvTried (without b k s3)) \<union> set (vvNew (without b k s3)). y \<notin> set c)"
          using gone [of y] by (cases "y = k") (auto simp: without_def sel)
      qed (simp_all add: without_def sel)
      fix y j assume "info_of (without b k s3) y = Some j"
      then have y: "y \<noteq> k" "info_of s2 y = Some j" using e3(3) by (auto simp: without_def split: if_splits)
      obtain j0 where j0: "info_of ?s y = Some j0" "nRefCount j = nRefCount j0" "fInTried j = fInTried j0"
        "nLastSuccess j = nLastSuccess j0" "a_nLastTry j = a_nLastTry j0" using placeless_same [OF m(4) y(2)] by metis
      then have "info_of s y = Some j0" using ii y(1) by simp
      then have "entry_ok (without b k s3) ex y j0" using y(1) rs [of y] by (intro same) (simp_all add: without_def sel)
      then show "entry_ok (without b k s3) ex y j" unfolding entry_ok_def j0(2-5) .
    qed (use w(5,6) pos v2 in \<open>simp_all add: without_def sel e3(4)\<close>)
    moreover have "info_of s3 y \<noteq> None" if "0 < ex y" "info_of s y \<noteq> None" for y
    proof -
      have "y \<noteq> k" using that(1) rk(2) by auto
      then show ?thesis using gone [of y] that(2) by blast
    qed
    ultimately show thesis using that [of s3] rel sel by simp
  qed
qed

section \<open>Making room in a new bucket\<close>

lemma GetRandInt_less: "0 < n \<Longrightarrow> GetRandInt n r = (x, r') \<Longrightarrow> x < n"
  by (auto simp: GetRandInt_def)

lemma find_terrible_ok:
  "\<forall>k \<in> set ks. info_of s k \<noteq> None \<Longrightarrow> \<exists>res. find_terrible s t ks = Some res \<and> (\<forall>k. res = Some k \<longrightarrow> k \<in> set ks)"
  by (induction ks) auto

lemma oldest_picked_ok:
  "\<forall>k \<in> set ks. info_of s k \<noteq> None \<Longrightarrow> (\<forall>k. old = Some k \<longrightarrow> info_of s k \<noteq> None) \<Longrightarrow>
     \<exists>res. oldest_picked s picks n ks old = Some res \<and> (\<forall>k. res = Some k \<longrightarrow> k \<in> set ks \<or> old = Some k) \<and>
       (old \<noteq> None \<or> (\<exists>j < length ks. n + j \<in> set picks) \<longrightarrow> res \<noteq> None)"
proof (induction ks arbitrary: n old)
  case (Cons k ks)
  have step: "n + j \<in> set picks \<Longrightarrow> j \<noteq> 0 \<Longrightarrow> \<exists>i < length ks. Suc n + i \<in> set picks" if "j < length (k # ks)" for j
    using that by (intro exI [of _ "j - 1"]) auto
  have zero: "(\<exists>j < length (k # ks). n + j \<in> set picks) \<longleftrightarrow> n \<in> set picks \<or> (\<exists>i < length ks. Suc n + i \<in> set picks)"
    using step by (metis add.right_neutral add_Suc_right add_Suc_shift length_Cons less_Suc_eq_0_disj zero_less_Suc)
  obtain ik where ik: "info_of s k = Some ik" using Cons.prems(1) by auto
  show ?case
  proof (cases "n \<in> set picks")
    case False
    then show ?thesis using Cons.IH [of old "Suc n"] Cons.prems zero by (auto simp del: length_Cons)
  next
    case True
    show ?thesis
    proof (cases old)
      case None
      then show ?thesis using True Cons.IH [of "Some k" "Suc n"] Cons.prems by auto
    next
      case (Some o')
      then obtain io where io: "info_of s o' = Some io" using Cons.prems(2) by auto
      define nw where "nw = (if a_nTime ik < a_nTime io then Some k else Some o')"
      have "\<forall>x. nw = Some x \<longrightarrow> info_of s x \<noteq> None \<and> (x = k \<or> x = o')" using ik io by (auto simp: nw_def)
      moreover have "nw \<noteq> None" by (simp add: nw_def)
      ultimately show ?thesis using True Some ik io Cons.IH [of nw "Suc n"] Cons.prems(1) by (auto simp flip: nw_def)
    qed
  qed
qed simp

lemma ShrinkNew_ok:
  assumes wf: "am_wf ex s" and ex: "\<And>k. 0 < ex k \<Longrightarrow> k = x" and b: "b < 256" and ne: "vvNew s ! b \<noteq> []"
  obtains n s' r' k where "ShrinkNew b t s r = Some (n, s', r')" "am_wf ex s'" "k \<in> set (vvNew s ! b)"
    "vvNew s' = (vvNew s)[b := remove1 k (vvNew s ! b)]" "am_nKey s' = am_nKey s"
    "\<And>y. 0 < ex y \<Longrightarrow> info_of s y \<noteq> None \<Longrightarrow> info_of s' y \<noteq> None"
proof -
  note goal = that
  note w = am_wfD [OF wf]
  let ?v = "vvNew s ! b"
  have pres: "\<forall>k \<in> set ?v. info_of s k \<noteq> None" using w(3,9) b unfolding buckets_ok_def by (metis UnI2 nth_mem)
  have lam: "(\<lambda>k s. s\<lparr>vvNew := (vvNew s)[b := remove1 k (vvNew s ! b)]\<rparr>) = without b" by (simp add: without_def fun_eq_iff)
  have fin: thesis if k: "k \<in> set ?v" and e: "ShrinkNew b t s r = map_option (\<lambda>s1. (n, without b k s1, r')) (release k s)" for k n r'
  proof -
    obtain s1 where s1: "release k s = Some s1" "am_wf ex (without b k s1)" "vvNew s1 = vvNew s" "am_nKey s1 = am_nKey s"
      "\<And>y. 0 < ex y \<Longrightarrow> info_of s y \<noteq> None \<Longrightarrow> info_of s1 y \<noteq> None"
      by (rule release_ok [OF wf ex b k], assumption) blast
    show thesis by (rule goal [of n "without b k s1" r' k]) (use e s1 k in \<open>simp_all add: without_def\<close>)
  qed
  obtain res where res: "find_terrible s t ?v = Some res" "\<forall>k. res = Some k \<longrightarrow> k \<in> set ?v" using find_terrible_ok [OF pres] by blast
  show thesis
  proof (cases res)
    case (Some k)
    show thesis by (rule fin [of k 0 r]) (use Some res w(9) b in \<open>simp_all add: ShrinkNew_def Let_def lam\<close>)
  next
    case None
    obtain n0 r0 where g0: "GetRandInt (length ?v) r = (n0, r0)" by fastforce
    obtain n1 r1 where g1: "GetRandInt (length ?v) r0 = (n1, r1)" by fastforce
    obtain n2 r2 where g2: "GetRandInt (length ?v) r1 = (n2, r2)" by fastforce
    obtain n3 r3 where g3: "GetRandInt (length ?v) r2 = (n3, r3)" by fastforce
    have n0: "n0 < length ?v" using GetRandInt_less [OF _ g0] ne by simp
    obtain k where k: "oldest_picked s [n0, n1, n2, n3] 0 ?v None = Some (Some k)" "k \<in> set ?v"
      using oldest_picked_ok [OF pres, of None "[n0, n1, n2, n3]" 0] n0 by auto
    show thesis
      by (rule fin [OF k(2), of 1 r3]) (use None res w(9) b g0 g1 g2 g3 k in \<open>simp add: ShrinkNew_def Let_def lam\<close>)
  qed
qed

section \<open>Entering an entry into a new bucket\<close>

lemma insert_ok:
  assumes wf: "am_wf ex s" and b: "b < 256" and x: "x \<notin> set (vvNew s ! b)" and l: "length (vvNew s ! b) < 64"
    and ex: "ex x = 1" and p: "info_of s x \<noteq> None"
  shows "am_wf (ex(x := 0)) (s\<lparr>vvNew := (vvNew s)[b := set_insert x (vvNew s ! b)]\<rparr>)"
proof -
  note w = am_wfD [OF wf]
  let ?y = "set_insert x (vvNew s ! b)" and ?s = "s\<lparr>vvNew := (vvNew s)[b := set_insert x (vvNew s ! b)]\<rparr>"
  have len: "b < length (vvNew s)" using w(9) b by simp
  have rs: "refs ?s y = refs s y + (if y = x then 1 else 0)" for y
    using refs_update [OF len, of ?y y] x by (cases "y = x"; cases "y \<in> set (vvNew s ! b)") simp_all
  have so: "sorted_wrt (<) ?y" "length ?y \<le> 64"
    using bucket_sorted [OF w(3) b] sorted_set_insert set_insert_length [OF _ x] l by simp_all
  have u: "set (vvNew ?s) \<subseteq> insert ?y (set (vvNew s))" using set_update_subset_insert by simp
  have m: "vvNew s ! b \<in> set (vvNew s)" using len by simp
  have pres: "info_of s k \<noteq> None" if "k \<in> set ?y" for k using that p w(3) m unfolding buckets_ok_def by auto
  have "\<forall>c \<in> set (vvNew ?s). sorted_wrt (<) c \<and> length c \<le> 64"
    using u so w(3) unfolding buckets_ok_def by blast
  moreover have "\<forall>c \<in> set (vvTried s) \<union> set (vvNew ?s). \<forall>k \<in> set c. info_of s k \<noteq> None"
    using u pres w(3) unfolding buckets_ok_def by blast
  moreover have "length (vvTried s) = 64" "\<forall>b \<in> set (vvTried s). length b \<le> 64" "distinct (concat (vvTried s))"
    using w(3) unfolding buckets_ok_def by blast+
  ultimately have "buckets_ok ?s" using w(9) unfolding buckets_ok_def by simp
  moreover have "entry_ok ?s (ex(x := 0)) k i" if "info_of ?s k = Some i" for k i
  proof -
    have "refs ?s k + (ex(x := 0)) k = refs s k + ex k" unfolding rs using ex by simp
    moreover have "entry_ok s ex k i" using that w(4) by simp
    ultimately show ?thesis using entry_ok_refs [of ?s s k "ex(x := 0)" ex i] by simp
  qed
  ultimately show ?thesis using w(1,2,5,6) unfolding am_wf_def by simp
qed

lemma GetNewBucket_less: "GetNewBucket L key a src < 256"
  by (simp add: GetNewBucket_def Let_def ADDRMAN_NEW_BUCKET_COUNT_def)

lemma AM_bucket_ok:
  assumes i: "info_of s n = Some info" and nb: "n \<notin> set (vvNew s ! GetNewBucket L (am_nKey s) info src)"
    and wf: "am_wf (none(n := 1)) (put_info n (info\<lparr>nRefCount := nRefCount info + 1\<rparr>) s)"
  shows "\<exists>s' r'. AM_bucket L n src t s r = Some (s', r') \<and> am_wf none s'"
proof -
  let ?b = "GetNewBucket L (am_nKey s) info src" and ?s = "put_info n (info\<lparr>nRefCount := nRefCount info + 1\<rparr>) s"
  have b: "?b < 256" by (rule GetNewBucket_less)
  note w = am_wfD [OF wf]
  have ex: "0 < (none(n := 1)) k \<Longrightarrow> k = n" for k by (simp split: if_splits)
  have p: "info_of ?s n \<noteq> None"
  proof -
    have "n \<in> fst ` set (mapInfo ?s)" by simp
    then show ?thesis by (auto simp: map_of_eq_None_iff)
  qed
  have r0: "(none(n := 1))(n := 0) = none" by auto
  show ?thesis
  proof (cases "length (vvNew s ! ?b) = 64")
    case True
    then have ne: "vvNew ?s ! ?b \<noteq> []" by auto
    obtain m s2 r2 k where sh: "ShrinkNew ?b t ?s r = Some (m, s2, r2)" "am_wf (none(n := 1)) s2" "k \<in> set (vvNew ?s ! ?b)"
      "vvNew s2 = (vvNew ?s)[?b := remove1 k (vvNew ?s ! ?b)]" "am_nKey s2 = am_nKey ?s"
      "\<And>y. 0 < (none(n := 1)) y \<Longrightarrow> info_of ?s y \<noteq> None \<Longrightarrow> info_of s2 y \<noteq> None"
      by (rule ShrinkNew_ok [OF wf ex b ne, of t r], assumption) blast
    have v: "vvNew s2 ! ?b = remove1 k (vvNew s ! ?b)" using sh(4) b w(9) by simp
    have nn: "n \<notin> set (vvNew s2 ! ?b)" using nb by (auto simp: v dest: notin_set_remove1)
    have ll: "length (vvNew s2 ! ?b) < 64" using True sh(3) by (simp add: v length_remove1)
    have pp: "info_of s2 n \<noteq> None" using sh(6) [of n] p by simp
    have "am_wf none (s2\<lparr>vvNew := (vvNew s2)[?b := set_insert n (vvNew s2 ! ?b)]\<rparr>)"
      by (rule insert_ok [OF sh(2) b nn ll _ pp, unfolded r0]) simp
    then show ?thesis using i nb True sh(1) by (simp add: AM_bucket_def Let_def ADDRMAN_NEW_BUCKET_SIZE_def)
  next
    case False
    have "length (vvNew s ! ?b) \<le> 64" using bucket_sorted [OF w(3) b] by simp
    then have ll: "length (vvNew ?s ! ?b) < 64" using False by simp
    have nn: "n \<notin> set (vvNew ?s ! ?b)" using nb by simp
    have "am_wf none (?s\<lparr>vvNew := (vvNew ?s)[?b := set_insert n (vvNew ?s ! ?b)]\<rparr>)"
      by (rule insert_ok [OF wf b nn ll _ p, unfolded r0]) simp
    then show ?thesis using i nb False by (simp add: AM_bucket_def Let_def ADDRMAN_NEW_BUCKET_SIZE_def)
  qed
qed

lemma create_wf:
  assumes wf: "am_wf none s" and a: "mapAddr s a = None" and k: "k = nIdCount s"
    and e: "ip e = a" "nRandomPos e = int (length (vRandom s))" "\<not> fInTried e" "nRefCount e = 1" "a_nLastTry e = 0" "nLastSuccess e = 0"
    and m: "sorted_map (mapInfo s')" "info_of s' = (info_of s)(k \<mapsto> e)"
    and f: "nIdCount s' = k + 1" "mapAddr s' = (mapAddr s)(a \<mapsto> k)" "vRandom s' = vRandom s @ [k]" "nTried s' = nTried s"
      "nNew s' = nNew s + 1" "vvTried s' = vvTried s" "vvNew s' = vvNew s"
  shows "am_wf (none(k := 1)) s'"
proof -
  note w = am_wfD [OF wf]
  have fresh: "info_of s k = None" using w(1) k unfolding index_ok_def by (metis less_irrefl option.exhaust)
  have nb: "\<forall>c \<in> set (vvTried s) \<union> set (vvNew s). k \<notin> set c" using w(3) fresh unfolding buckets_ok_def by blast
  have "index_ok s'"
    unfolding index_ok_def m(2)
  proof (intro conjI allI impI)
    fix x j assume "((info_of s)(k \<mapsto> e)) x = Some j"
    then consider "x = k" "j = e" | "x \<noteq> k" "info_of s x = Some j" by (auto split: if_splits)
    then have "x < k + 1 \<and> (x = k \<or> ip j \<noteq> a) \<and> (x = k \<and> ip j = a \<or> mapAddr s (ip j) = Some x)"
    proof cases
      case 2
      then have "x < nIdCount s" "mapAddr s (ip j) = Some x" using w(1) unfolding index_ok_def by blast+
      then show ?thesis using k a by auto
    qed (simp add: e)
    then show "x < nIdCount s'" "mapAddr s' (ip j) = Some x" using f(1,2) by auto
  next
    fix b x assume "mapAddr s' b = Some x"
    then consider "b = a" "x = k" | "b \<noteq> a" "mapAddr s b = Some x" using f(2) by (auto split: if_splits)
    then show "\<exists>i. ((info_of s)(k \<mapsto> e)) x = Some i \<and> ip i = b"
    proof cases
      case 2
      then obtain i where i: "info_of s x = Some i" "ip i = b" using w(1) unfolding index_ok_def by blast
      then have "x \<noteq> k" using fresh by auto
      then show ?thesis using i by simp
    qed (simp add: e)
  qed (rule m(1))
  moreover have "random_ok s'"
    unfolding random_ok_def m(2) f(3)
  proof (intro conjI allI impI)
    fix x j assume "((info_of s)(k \<mapsto> e)) x = Some j"
    then consider "x = k" "j = e" | "x \<noteq> k" "info_of s x = Some j" by (auto split: if_splits)
    then have "0 \<le> nRandomPos j \<and> nat (nRandomPos j) < length (vRandom s @ [k]) \<and> (vRandom s @ [k]) ! nat (nRandomPos j) = x"
    proof cases
      case 2
      then have "0 \<le> nRandomPos j" "nat (nRandomPos j) < length (vRandom s)" "vRandom s ! nat (nRandomPos j) = x"
        using w(2) unfolding random_ok_def by blast+
      then show ?thesis by (simp add: nth_append)
    qed (simp add: e)
    then show "0 \<le> nRandomPos j" "nat (nRandomPos j) < length (vRandom s @ [k])" "(vRandom s @ [k]) ! nat (nRandomPos j) = x"
      by blast+
  next
    fix p assume p: "p < length (vRandom s @ [k])"
    show "\<exists>i. ((info_of s)(k \<mapsto> e)) ((vRandom s @ [k]) ! p) = Some i \<and> nRandomPos i = int p"
    proof (cases "p = length (vRandom s)")
      case True
      then show ?thesis using e(2) by simp
    next
      case False
      then have pl: "p < length (vRandom s)" using p by simp
      then obtain j where j: "info_of s (vRandom s ! p) = Some j" "nRandomPos j = int p" using w(2) unfolding random_ok_def by blast
      then have "vRandom s ! p \<noteq> k" using fresh by auto
      then show ?thesis using j pl by (simp add: nth_append)
    qed
  qed
  moreover have "buckets_ok s'" using w(3) m(2) f(6,7) unfolding buckets_ok_def by simp
  moreover have "entry_ok s' (none(k := 1)) x j" if "info_of s' x = Some j" for x j
  proof (cases "x = k")
    case True
    have "refs s' k = 0" using nb f(7) by (simp add: refs_def filter_empty_conv)
    then show ?thesis using True that m(2) e nb f(6) by (simp add: entry_ok_def)
  next
    case False
    then have "entry_ok s none x j" using that m(2) w(4) by simp
    moreover have "refs s' x + (none(k := 1)) x = refs s x + none x" using False f(7) by (simp add: refs_def)
    ultimately show ?thesis using entry_ok_refs [OF f(6)] by metis
  qed
  ultimately show ?thesis using w(5,6) f(3-6) unfolding am_wf_def by simp
qed

section \<open>Adding\<close>

lemma AM_Find_Some: "AM_Find a s = Some (k, i) \<Longrightarrow> info_of s k = Some i"
  by (auto simp: AM_Find_def split: option.splits)

lemma AM_Find_None: "index_ok s \<Longrightarrow> AM_Find a s = None \<Longrightarrow> mapAddr s (ip a) = None"
  unfolding index_ok_def by (cases "mapAddr s (ip a)") (fastforce simp: AM_Find_def split: option.splits)+

lemma put_same:
  assumes wf: "am_wf ex s" and i: "info_of s k = Some i" and "ip j = ip i" "nRandomPos j = nRandomPos i"
    "fInTried j = fInTried i" "nRefCount j = nRefCount i" "0 \<le> a_nLastTry j" "0 \<le> nLastSuccess j" "fInTried j \<longrightarrow> nLastSuccess j \<noteq> 0"
  shows "am_wf ex (put_info k j s)"
proof (rule am_wf_put [OF wf i assms(3,4)])
  have e: "entry_ok s ex k i" by (rule am_wfD(4) [OF wf i])
  show "entry_ok s ex k j" unfolding entry_ok_def assms(5,6) using e assms(5,7-9) unfolding entry_ok_def by metis
qed simp

lemma AM_bucket_total:
  assumes wf: "am_wf none s" and i: "info_of s n = Some info" and t: "\<not> fInTried info" and c: "nRefCount info < 4"
  shows "\<exists>s' r'. AM_bucket L n src nNow s r = Some (s', r') \<and> am_wf none s'"
proof (cases "n \<in> set (vvNew s ! GetNewBucket L (am_nKey s) info src)")
  case True
  then show ?thesis using wf i by (simp add: AM_bucket_def Let_def)
next
  case False
  have e: "entry_ok s none n info" by (rule am_wfD(4) [OF wf i])
  have "am_wf (none(n := 1)) (put_info n (info\<lparr>nRefCount := nRefCount info + 1\<rparr>) s)"
  proof (rule am_wf_put [OF wf i])
    show "entry_ok s (none(n := 1)) n (info\<lparr>nRefCount := nRefCount info + 1\<rparr>)" using e t c unfolding entry_ok_def by simp
  qed simp_all
  then show ?thesis by (rule AM_bucket_ok [OF i False])
qed

lemma update_known_same [simp]:
  "ip (update_known a p t i) = ip i" "nRandomPos (update_known a p t i) = nRandomPos i" "fInTried (update_known a p t i) = fInTried i"
  "nRefCount (update_known a p t i) = nRefCount i" "a_nLastTry (update_known a p t i) = a_nLastTry i"
  "nLastSuccess (update_known a p t i) = nLastSuccess i"
  by (simp_all add: update_known_def Let_def)

lemma AM_Add_ok:
  assumes wf: "am_wf none s"
  shows "\<exists>b s' r'. AM_Add L addr src pen nNow s r = Some (b, s', r') \<and> am_wf none s'"
proof (cases "IsRoutable addr")
  case False
  then show ?thesis using wf by (auto simp: AM_Add_def)
next
  case True
  show ?thesis
  proof (cases "AM_Find addr s")
    case (Some x)
    then obtain n i where f: "AM_Find addr s = Some (n, i)" by (cases x) auto
    note i = AM_Find_Some [OF f]
    let ?p = "update_known addr pen nNow i" and ?s = "put_info n (update_known addr pen nNow i) s"
    have e: "entry_ok s none n i" by (rule am_wfD(4) [OF wf i])
    have wf1: "am_wf none ?s" by (rule put_same [OF wf i]) (use e in \<open>auto simp: entry_ok_def\<close>)
    have i1: "info_of ?s n = Some ?p" using info_of_put [OF am_wfD(1) [OF wf]] by simp
    show ?thesis
    proof (cases "a_nTime addr = 0 \<or> (a_nTime ?p \<noteq> 0 \<and> a_nTime addr \<le> a_nTime ?p) \<or> fInTried i \<or> nRefCount i = 4")
      case True
      then show ?thesis using wf1 f \<open>IsRoutable addr\<close> by (auto simp: AM_Add_def Let_def ADDRMAN_NEW_BUCKETS_PER_ADDRESS_def)
    next
      case False
      then have c: "nRefCount i < 4" using e unfolding entry_ok_def by auto
      obtain m r1 where g: "(if 2 ^ nat (nRefCount i) > (1::nat) then GetRandInt (2 ^ nat (nRefCount i)) r else (0, r)) = (m, r1)"
        by fastforce
      obtain s' r' where "AM_bucket L n src nNow ?s r1 = Some (s', r')" "am_wf none s'"
        using AM_bucket_total [OF wf1 i1] False c by fastforce
      then show ?thesis using wf1 f \<open>IsRoutable addr\<close> False g by (auto simp: AM_Add_def Let_def ADDRMAN_NEW_BUCKETS_PER_ADDRESS_def)
    qed
  next
    case None
    let ?k = "nIdCount s"
    obtain s1 where c: "AM_Create addr src s = (?k, s1)" by (simp add: AM_Create_def Let_def)
    define e0 where "e0 = (CAddrInfo_new addr src)\<lparr>nRandomPos := int (length (vRandom s))\<rparr>"
    define e1 where "e1 = e0\<lparr>a_nTime := word_of_int (max 0 (uint (a_nTime e0) - pen))\<rparr>"
    have so: "sorted_map (mapInfo s)" by (rule am_wfD(7) [OF wf])
    have s1: "s1 = put_info ?k e0 (s\<lparr>nIdCount := ?k + 1, mapAddr := (mapAddr s)(ip addr \<mapsto> ?k), vRandom := vRandom s @ [?k]\<rparr>)"
      using c by (simp add: AM_Create_def Let_def e0_def)
    have i1: "info_of s1 = (info_of s)(?k \<mapsto> e0)" "sorted_map (mapInfo s1)" using so by (simp_all add: s1 map_of_put sorted_map_put)
    define s2 where "s2 = put_info ?k e1 (s1\<lparr>nNew := nNew s1 + 1\<rparr>)"
    have i2: "info_of s2 = (info_of s)(?k \<mapsto> e1)" "sorted_map (mapInfo s2)" using i1 by (simp_all add: s2_def map_of_put sorted_map_put)
    have sel: "vvNew s2 = vvNew s" "vvTried s2 = vvTried s" "nTried s2 = nTried s" "nNew s2 = nNew s + 1" "am_nKey s2 = am_nKey s"
      "vRandom s2 = vRandom s @ [?k]" "nIdCount s2 = ?k + 1" "mapAddr s2 = (mapAddr s)(ip addr \<mapsto> ?k)"
      by (simp_all add: s2_def s1)
    let ?s3 = "put_info ?k (e1\<lparr>nRefCount := nRefCount e1 + 1\<rparr>) s2"
    have wf3: "am_wf (none(?k := 1)) ?s3"
      by (rule create_wf [OF wf AM_Find_None [OF am_wfD(1) [OF wf] None] refl, of "e1\<lparr>nRefCount := nRefCount e1 + 1\<rparr>"])
        (use i2 sel in \<open>simp_all add: e1_def e0_def CAddrInfo_new_def map_of_put sorted_map_put\<close>)
    have fresh: "info_of s ?k = None" using am_wfD(1) [OF wf] unfolding index_ok_def by (metis less_irrefl option.exhaust)
    have "GetNewBucket L (am_nKey s2) e1 src < length (vvNew s)" using GetNewBucket_less am_wfD(9) [OF wf] by simp
    then have nb: "?k \<notin> set (vvNew s2 ! GetNewBucket L (am_nKey s2) e1 src)"
      using am_wfD(3) [OF wf] fresh nth_mem sel(1) unfolding buckets_ok_def by (metis UnI2)
    obtain s' r' where "AM_bucket L ?k src nNow s2 r = Some (s', r')" "am_wf none s'"
      using AM_bucket_ok [OF _ nb wf3] i2(1) by fastforce
    then show ?thesis using None True c i1(1) by (auto simp: AM_Add_def Let_def s2_def e1_def)
  qed
qed

section \<open>Updating and listing\<close>

lemma entry_signs:
  assumes "am_wf ex s" and "info_of s k = Some i"
  shows "0 \<le> a_nLastTry i" "0 \<le> nLastSuccess i" "fInTried i \<Longrightarrow> nLastSuccess i \<noteq> 0" "0 \<le> nRefCount i"
  using am_wfD(4) [OF assms] by (auto simp: entry_ok_def split: if_splits)

lemma AM_Attempt_ok:
  assumes wf: "am_wf none s" and t: "0 \<le> t"
  shows "am_wf none (AM_Attempt addr t s)"
proof (cases "AM_Find addr s")
  case (Some x)
  then obtain n i where f: "AM_Find addr s = Some (n, i)" by (cases x) auto
  note i = AM_Find_Some [OF f]
  have "am_wf none (put_info n (i\<lparr>a_nLastTry := t, nAttempts := nAttempts i + 1\<rparr>) s)"
    by (rule put_same [OF wf i]) (use t entry_signs [OF wf i] in auto)
  then show ?thesis using f wf by (simp add: AM_Attempt_def)
qed (simp add: AM_Attempt_def wf)

lemma AM_Connected_ok:
  assumes wf: "am_wf none s"
  shows "am_wf none (AM_Connected addr t s)"
proof (cases "AM_Find addr s")
  case (Some x)
  then obtain n i where f: "AM_Find addr s = Some (n, i)" by (cases x) auto
  note i = AM_Find_Some [OF f]
  have "am_wf none (put_info n (i\<lparr>a_nTime := word_of_int t\<rparr>) s)"
    by (rule put_same [OF wf i]) (use entry_signs [OF wf i] in auto)
  then show ?thesis using f wf by (simp add: AM_Connected_def)
qed (simp add: AM_Connected_def wf)

lemma getaddr_loop_ok:
  "am_wf none s \<Longrightarrow> n + k \<le> length (vRandom s) \<Longrightarrow>
     \<exists>v s' r'. getaddr_loop k n s r = Some (v, s', r') \<and> am_wf none s' \<and> length v = k"
proof (induction k arbitrary: n s r)
  case (Suc k)
  note wf = Suc.prems(1)
  note w = am_wfD [OF wf]
  obtain p r1 where g: "GetRandInt (length (vRandom s) - n) r = (p, r1)" by fastforce
  have n: "n < length (vRandom s)" using Suc.prems(2) by simp
  then have q: "p + n < length (vRandom s)" using GetRandInt_less [OF _ g] by simp
  let ?v = "(vRandom s)[n := vRandom s ! (p + n), p + n := vRandom s ! n]"
  obtain m where m: "SwapRandom n (p + n) s = Some (s\<lparr>mapInfo := m, vRandom := ?v\<rparr>)" "index_ok (s\<lparr>mapInfo := m, vRandom := ?v\<rparr>)"
    "random_ok (s\<lparr>mapInfo := m, vRandom := ?v\<rparr>)" "\<And>k. placeless (s\<lparr>mapInfo := m, vRandom := ?v\<rparr>) k = placeless s k"
    by (rule SwapRandom_ok [OF w(1,2) n q]) (use that in auto)
  define s1 where "s1 = s\<lparr>mapInfo := m, vRandom := ?v\<rparr>"
  note m = m [folded s1_def]
  have l: "length (vRandom s1) = length (vRandom s)" by (simp add: s1_def)
  have wf1: "am_wf none s1" by (rule am_wf_placeless [OF wf m(2-4)]) (simp_all add: s1_def)
  obtain i where i: "info_of s1 (vRandom s1 ! n) = Some i" using m(3) n l unfolding random_ok_def by metis
  obtain v s' r' where "getaddr_loop k (n + 1) s1 r1 = Some (v, s', r')" "am_wf none s'" "length v = k"
    using Suc.IH [OF wf1, of "n + 1" r1] Suc.prems(2) l by auto
  then show ?case using g m(1) i by simp
qed simp

lemma AM_GetAddr_ok:
  assumes "am_wf none s"
  shows "\<exists>v s' r'. AM_GetAddr s r = Some (v, s', r') \<and> am_wf none s' \<and> length v \<le> 2500"
proof -
  let ?k = "min ADDRMAN_GETADDR_MAX (ADDRMAN_GETADDR_MAX_PCT * length (vRandom s) div 100)"
  have "23 * length (vRandom s) div 100 \<le> length (vRandom s)" by simp
  then have "0 + ?k \<le> length (vRandom s)" by (simp add: ADDRMAN_GETADDR_MAX_PCT_def min.coboundedI2)
  then obtain v s' r' where "getaddr_loop ?k 0 s r = Some (v, s', r')" "am_wf none s'" "length v = ?k"
    using getaddr_loop_ok [OF assms] by metis
  then show ?thesis by (simp add: AM_GetAddr_def ADDRMAN_GETADDR_MAX_def)
qed

section \<open>The tried table\<close>

lemma mset_concat_update: "k < length t \<Longrightarrow> mset (concat (t[k := y])) + mset (t ! k) = mset (concat t) + mset y"
proof (induction t arbitrary: k)
  case (Cons x t)
  then show ?case by (cases k) (simp_all add: add.assoc add.left_commute add.commute)
qed simp

lemma in_concat: "k \<in> set (concat t) \<longleftrightarrow> (\<exists>b \<in> set t. k \<in> set b)"
  by auto

lemma tried_cong:
  assumes "map mset t' = map mset t"
  shows "mset (concat t') = mset (concat t)" "length t' = length t" "(\<forall>b \<in> set t'. length b \<le> c) = (\<forall>b \<in> set t. length b \<le> c)"
    "set (concat t') = set (concat t)"
proof -
  show m: "mset (concat t') = mset (concat t)" by (simp only: mset_concat assms)
  show "length t' = length t" using arg_cong [OF assms, of length] by simp
  have e: "(\<forall>b \<in> set t. length b \<le> c) = (\<forall>x \<in> set (map mset t). size x \<le> c)" for t :: "'a list list" by simp
  show "(\<forall>b \<in> set t'. length b \<le> c) = (\<forall>b \<in> set t. length b \<le> c)" by (simp only: e assms)
  show "set (concat t') = set (concat t)" using m mset_eq_setD by blast
qed

text \<open>The order inside a tried bucket does not matter, nor how the entries got where they are.\<close>

lemma am_wf_cong:
  assumes wf: "am_wf ex s" and m: "info_of s' = info_of s" "sorted_map (mapInfo s')"
    and f: "nIdCount s' = nIdCount s" "mapAddr s' = mapAddr s" "vRandom s' = vRandom s" "nTried s' = nTried s" "nNew s' = nNew s"
      "vvNew s' = vvNew s"
    and t: "map mset (vvTried s') = map mset (vvTried s)"
  shows "am_wf ex s'"
proof -
  note w = am_wfD [OF wf]
  note c = tried_cong [OF t]
  have "index_ok s'" using w(1) m f(1,2) by (simp add: index_ok_def)
  moreover have "random_ok s'" using w(2) m f(3) by (simp add: random_ok_def)
  moreover have "buckets_ok s'"
  proof -
    have "distinct (concat (vvTried s'))" using w(3) mset_eq_imp_distinct_iff [OF c(1)] by (simp add: buckets_ok_def)
    moreover have "\<forall>k \<in> set (concat (vvTried s')). info_of s k \<noteq> None" unfolding c(4) using w(3) by (auto simp: buckets_ok_def)
    ultimately show ?thesis using w(3) c(2,3) unfolding buckets_ok_def m f(6) by (auto simp: in_concat)
  qed
  moreover have "entry_ok s' ex k i" if "info_of s' k = Some i" for k i
  proof -
    have "entry_ok s ex k i" using that w(4) m(1) by simp
    then show ?thesis unfolding entry_ok_def refs_def f(6) in_concat [symmetric] c(4) .
  qed
  moreover have "length (concat (vvTried s')) = length (concat (vvTried s))" using c(1) by (metis size_mset)
  ultimately show ?thesis using w(5,6) f(3-5) unfolding am_wf_def by simp
qed

lemma inspect_tried_ok:
  "\<forall>x \<in> set v. map_of m x \<noteq> None \<Longrightarrow> (\<forall>x. old = Some x \<longrightarrow> map_of m x \<noteq> None) \<Longrightarrow> (\<forall>q. pos = Some q \<longrightarrow> q < length v) \<Longrightarrow>
     (pos = None) = (old = None) \<Longrightarrow>
     \<exists>v' pos' r'. inspect_tried k i r v m old pos = Some (v', m, pos', r') \<and> mset v' = mset v \<and>
       (\<forall>q. pos' = Some q \<longrightarrow> q < length v) \<and> (pos \<noteq> None \<or> (0 < k \<and> i < length v) \<longrightarrow> pos' \<noteq> None)"
proof (induction k arbitrary: i r v old pos)
  case (Suc k)
  show ?case
  proof (cases "i < length v")
    case False
    then show ?thesis using Suc.prems by (cases old; cases pos) auto
  next
    case True
    obtain n r1 where g: "GetRandInt (length v - i) r = (n, r1)" by fastforce
    have n: "n + i < length v" using GetRandInt_less [OF _ g] True by simp
    let ?v = "v[n + i := v ! i, i := v ! (n + i)]" and ?x = "v ! (n + i)"
    have ms: "mset ?v = mset v" using True n by (rule mset_swap)
    have se: "set ?v = set v" using ms mset_eq_setD by blast
    have px: "map_of m ?x \<noteq> None" using Suc.prems(1) n by simp
    note ih = Suc.IH [of ?v _ _ "i + 1" r1, unfolded se ms length_list_update, OF Suc.prems(1)]
    have new: "\<exists>v' pos' r'. inspect_tried k (i + 1) r1 ?v m (Some ?x) (Some (n + i)) = Some (v', m, pos', r') \<and> mset v' = mset v \<and>
       (\<forall>q. pos' = Some q \<longrightarrow> q < length v) \<and> pos' \<noteq> None"
      using ih [of "Some ?x" "Some (n + i)"] px n by simp
    show ?thesis
    proof (cases old)
      case None
      then show ?thesis using new True g by (simp add: Let_def)
    next
      case (Some o')
      then have o: "map_of m o' \<noteq> None" and p: "pos \<noteq> None" using Suc.prems(2,4) by auto
      have old: "\<exists>v' pos' r'. inspect_tried k (i + 1) r1 ?v m old pos = Some (v', m, pos', r') \<and> mset v' = mset v \<and>
         (\<forall>q. pos' = Some q \<longrightarrow> q < length v) \<and> pos' \<noteq> None"
        using ih [OF Suc.prems(2-4)] p by blast
      obtain ix io where "map_of m ?x = Some ix" "map_of m o' = Some io" using px o by blast
      then show ?thesis using new old Some True g by (simp add: Let_def touch_def)
    qed
  qed
next
  case 0
  then show ?case by (cases old; cases pos) auto
qed

lemma SelectTried_ok:
  assumes "\<forall>x \<in> set (vvTried s ! K). info_of s x \<noteq> None" and "vvTried s ! K \<noteq> []"
  obtains v q r' where "SelectTried K s r = Some (Some q, s\<lparr>vvTried := (vvTried s)[K := v]\<rparr>, r')" "mset v = mset (vvTried s ! K)"
    "q < length v"
proof -
  obtain v' pos' r' where i: "inspect_tried 4 0 r (vvTried s ! K) (mapInfo s) None None = Some (v', mapInfo s, pos', r')"
    "mset v' = mset (vvTried s ! K)" "\<forall>q. pos' = Some q \<longrightarrow> q < length (vvTried s ! K)" "pos' \<noteq> None"
    using inspect_tried_ok [OF assms(1), of None None 4 0 r] assms(2) by auto
  then obtain q where q: "pos' = Some q" by blast
  have "length v' = length (vvTried s ! K)" using i(2) by (metis size_mset)
  then show thesis using that [of q v' r'] i q by (simp add: SelectTried_def ADDRMAN_TRIED_ENTRIES_INSPECT_ON_EVICT_def)
qed

section \<open>From new to tried\<close>

lemma set_take_drop: "p < length v \<Longrightarrow> mset (take p v @ drop (Suc p) v) + {#v ! p#} = mset v"
proof -
  assume "p < length v"
  then have "v = take p v @ v ! p # drop (Suc p) v" by (rule id_take_nth_drop)
  then have "mset v = mset (take p v @ v ! p # drop (Suc p) v)" by simp
  then show ?thesis by simp
qed

lemma tried_bucket_ok: "buckets_ok s \<Longrightarrow> K < 64 \<Longrightarrow> length (vvTried s ! K) \<le> 64 \<and> (\<forall>x \<in> set (vvTried s ! K). info_of s x \<noteq> None)"
  unfolding buckets_ok_def by (metis UnI1 nth_mem)

lemma tried_present: "buckets_ok s \<Longrightarrow> k \<in> set (concat (vvTried s)) \<Longrightarrow> info_of s k \<noteq> None"
  unfolding buckets_ok_def in_concat by blast

lemma length_update_le: "\<forall>b \<in> set t. length b \<le> c \<Longrightarrow> length y \<le> c \<Longrightarrow> \<forall>b \<in> set (t[k := y]). length b \<le> c"
  using set_update_subset_insert [of t k y] by blast

lemma entry_ok_moved:
  "(k \<in> set (concat (vvTried s')) \<longleftrightarrow> k \<in> set (concat (vvTried s))) \<Longrightarrow> refs s' k + ex' k = refs s k + ex k \<Longrightarrow>
     entry_ok s' ex' k i = entry_ok s ex k i"
  by (simp only: entry_ok_def in_concat)

lemma demote_ok:
  assumes wf: "am_wf none s" and K: "K < 64" and p: "p < length (vvTried s ! K)" and x: "x = vvTried s ! K ! p"
    and i: "info_of s x = Some i"
    and s': "s' = put_info x (i\<lparr>fInTried := False, nRefCount := 1\<rparr>)
        (s\<lparr>vvTried := (vvTried s)[K := take p (vvTried s ! K) @ drop (Suc p) (vvTried s ! K)], nTried := nTried s - 1, nNew := nNew s + 1\<rparr>)"
  shows "am_wf (none(x := 1)) s'"
proof -
  note w = am_wfD [OF wf]
  let ?v = "vvTried s ! K" and ?i = "i\<lparr>fInTried := False, nRefCount := 1\<rparr>"
  let ?y = "take p ?v @ drop (Suc p) ?v"
  have Kl: "K < length (vvTried s)" using K w(8) by simp
  have m: "info_of s' = (info_of s)(x \<mapsto> ?i)" using w(7) by (simp add: s' map_of_put)
  have sel: "vvTried s' = (vvTried s)[K := ?y]" "vvNew s' = vvNew s"
    "nTried s' = nTried s - 1" "nNew s' = nNew s + 1" "vRandom s' = vRandom s" by (simp_all add: s')
  have "mset (concat (vvTried s')) + mset ?v = mset (concat (vvTried s)) + mset ?y"
    unfolding sel(1) by (rule mset_concat_update [OF Kl])
  then have "(mset (concat (vvTried s')) + {#x#}) + mset ?y = mset (concat (vvTried s)) + mset ?y"
    unfolding set_take_drop [OF p, folded x, symmetric] by (simp only: ac_simps)
  then have "mset (concat (vvTried s')) + {#x#} = mset (concat (vvTried s))" by (simp only: add_right_cancel)
  then have ms: "mset (concat (vvTried s') @ [x]) = mset (concat (vvTried s))" by simp
  have "distinct (concat (vvTried s))" using w(3) by (simp add: buckets_ok_def)
  then have d: "distinct (concat (vvTried s') @ [x])" using mset_eq_imp_distinct_iff [OF ms] by simp
  have se: "insert x (set (concat (vvTried s'))) = set (concat (vvTried s))" using mset_eq_setD [OF ms] by simp
  have io: "index_ok s'" "random_ok s'"
    using put_info_index [of "s\<lparr>vvTried := (vvTried s)[K := ?y], nTried := nTried s - 1, nNew := nNew s + 1\<rparr>" x i ?i] w(1,2) i
    by (simp_all add: s')
  have "buckets_ok s'"
  proof -
    have pr: "\<forall>k \<in> set (concat (vvTried s')). info_of s k \<noteq> None"
      using tried_present [OF w(3)] unfolding se [symmetric] by blast
    have ly: "length ?y \<le> 64" using conjunct1 [OF tried_bucket_ok [OF w(3) K]] p by simp
    have "\<forall>b \<in> set (vvTried s'). length b \<le> 64" unfolding sel(1) by (rule length_update_le) (use w(3) ly in \<open>simp_all add: buckets_ok_def\<close>)
    moreover have "\<forall>b \<in> set (vvTried s') \<union> set (vvNew s'). \<forall>k \<in> set b. info_of s' k \<noteq> None"
      using pr w(3) unfolding buckets_ok_def m sel(2) by (auto simp: in_concat)
    ultimately show ?thesis using w(3) d sel unfolding buckets_ok_def by simp
  qed
  moreover have "entry_ok s' (none(x := 1)) k j" if j: "info_of s' k = Some j" for k j
  proof (cases "k = x")
    case True
    have e: "entry_ok s none x i" by (rule w(4) [OF i])
    have "x \<in> set (concat (vvTried s))" using se by blast
    then have "fInTried i" "refs s x = 0" using e unfolding entry_ok_def in_concat by auto
    moreover have "x \<notin> set (concat (vvTried s'))" using d by simp
    moreover have "j = ?i" using True j m by simp
    moreover have "refs s' x = refs s x" by (simp add: refs_def sel(2))
    ultimately show ?thesis using True entry_signs [OF wf i] unfolding entry_ok_def in_concat [symmetric] by simp
  next
    case False
    then have "entry_ok s none k j" using j m w(4) by simp
    moreover have "k \<in> set (concat (vvTried s')) \<longleftrightarrow> k \<in> set (concat (vvTried s))" using se False by blast
    moreover have "refs s' k + (none(x := 1)) k = refs s k + none k" using False by (simp add: refs_def sel(2))
    ultimately show ?thesis using entry_ok_moved [of k s' s "none(x := 1)" none j] by blast
  qed
  moreover have "length (concat (vvTried s)) = length (concat (vvTried s')) + 1"
    using arg_cong [OF ms, of size] by (simp only: size_mset length_append list.size)
  ultimately show ?thesis using io w(5,6) unfolding am_wf_def sel(3-5) by auto
qed

text \<open>Out of all new buckets.\<close>

lemma buckets_all_without:
  assumes "buckets_ok s"
  shows "\<forall>b \<in> set (map (remove1 x) (vvNew s)). sorted_wrt (<) b \<and> length b \<le> 64"
    "b \<in> set (map (remove1 x) (vvNew s)) \<Longrightarrow> k \<in> set b \<Longrightarrow> k \<noteq> x \<and> info_of s k \<noteq> None"
proof -
  have r: "set (remove1 x c) = set c - {x} \<and> sorted_wrt (<) (remove1 x c)" "length c \<le> 64" "\<forall>k \<in> set c. info_of s k \<noteq> None"
    if "c \<in> set (vvNew s)" for c
    using that assms remove1_sorted [of c x] unfolding buckets_ok_def by blast+
  show "\<forall>b \<in> set (map (remove1 x) (vvNew s)). sorted_wrt (<) b \<and> length b \<le> 64"
  proof
    fix b assume "b \<in> set (map (remove1 x) (vvNew s))"
    then obtain c where c: "c \<in> set (vvNew s)" "b = remove1 x c" by auto
    have "length (remove1 x c) \<le> length c" by (simp add: length_remove1)
    then show "sorted_wrt (<) b \<and> length b \<le> 64" using r [OF c(1)] c(2) by simp
  qed
  show "k \<noteq> x \<and> info_of s k \<noteq> None" if "b \<in> set (map (remove1 x) (vvNew s))" "k \<in> set b" for b k
    using that r by auto
qed

lemma refs_all_without:
  assumes "buckets_ok s" and "vvNew s' = map (remove1 x) (vvNew s)"
  shows "refs s' k = (if k = x then 0 else refs s k)"
proof -
  have "(k \<in> set (remove1 x c)) = (k \<in> set c \<and> k \<noteq> x)" if "c \<in> set (vvNew s)" for c
    using that assms(1) remove1_sorted [of c x] unfolding buckets_ok_def by blast
  then have "filter (\<lambda>c. k \<in> set (remove1 x c)) (vvNew s) = filter (\<lambda>c. k \<in> set c \<and> k \<noteq> x) (vvNew s)"
    by (rule filter_cong [OF refl])
  then show ?thesis unfolding refs_def assms(2) filter_map o_def by simp
qed

lemma promote_ok:
  assumes wf: "am_wf ex s" and K: "K < 64" and l: "length (vvTried s ! K) < 64" and i: "info_of s x = Some i"
    and t: "\<not> fInTried i" "nLastSuccess i \<noteq> 0" and ex: "ex x = 0"
    and s': "s' = put_info x (i\<lparr>nRefCount := 0, fInTried := True\<rparr>)
        (s\<lparr>vvNew := map (remove1 x) (vvNew s), vvTried := (vvTried s)[K := vvTried s ! K @ [x]], nTried := nTried s + 1, nNew := nNew s - 1\<rparr>)"
  shows "am_wf ex s'"
proof -
  note w = am_wfD [OF wf]
  let ?v = "vvTried s ! K" and ?i = "i\<lparr>nRefCount := 0, fInTried := True\<rparr>"
  have Kl: "K < length (vvTried s)" using K w(8) by simp
  have m: "info_of s' = (info_of s)(x \<mapsto> ?i)" using w(7) by (simp add: s' map_of_put)
  have sel: "vvTried s' = (vvTried s)[K := ?v @ [x]]" "vvNew s' = map (remove1 x) (vvNew s)"
    "nTried s' = nTried s + 1" "nNew s' = nNew s - 1" "vRandom s' = vRandom s" by (simp_all add: s')
  have "mset (concat (vvTried s')) + mset ?v = mset (concat (vvTried s)) + mset (?v @ [x])"
    unfolding sel(1) by (rule mset_concat_update [OF Kl])
  also have "\<dots> = mset (concat (vvTried s) @ [x]) + mset ?v" by (simp add: ac_simps)
  finally have ms: "mset (concat (vvTried s')) = mset (concat (vvTried s) @ [x])" by (simp only: add_right_cancel)
  have nx: "x \<notin> set (concat (vvTried s))" using w(4) [OF i] t(1) unfolding entry_ok_def in_concat by blast
  have d: "distinct (concat (vvTried s'))" using w(3) nx mset_eq_imp_distinct_iff [OF ms] by (simp add: buckets_ok_def)
  have se: "set (concat (vvTried s')) = insert x (set (concat (vvTried s)))" using mset_eq_setD [OF ms] by simp
  have io: "index_ok s'" "random_ok s'"
    using put_info_index [of "s\<lparr>vvNew := map (remove1 x) (vvNew s), vvTried := (vvTried s)[K := ?v @ [x]], nTried := nTried s + 1, nNew := nNew s - 1\<rparr>" x i ?i]
      w(1,2) i by (simp_all add: s')
  note bw = buckets_all_without [OF w(3), where x = x]
  have "buckets_ok s'"
  proof -
    have pr: "\<forall>k \<in> set (concat (vvTried s')). info_of s k \<noteq> None"
      using tried_present [OF w(3)] i unfolding se by auto
    have "\<forall>b \<in> set (vvTried s'). length b \<le> 64" unfolding sel(1) by (rule length_update_le) (use w(3) l in \<open>simp_all add: buckets_ok_def\<close>)
    moreover have "\<forall>b \<in> set (vvTried s') \<union> set (vvNew s'). \<forall>k \<in> set b. info_of s' k \<noteq> None"
    proof (intro ballI)
      fix b k assume "b \<in> set (vvTried s') \<union> set (vvNew s')" "k \<in> set b"
      then have "k \<in> set (concat (vvTried s')) \<or> info_of s k \<noteq> None" using bw(2) [of b k] unfolding sel(2) by auto
      then show "info_of s' k \<noteq> None" using pr unfolding m by auto
    qed
    ultimately show ?thesis using w(3,9) d sel bw(1) unfolding buckets_ok_def by simp
  qed
  moreover have "entry_ok s' ex k j" if j: "info_of s' k = Some j" for k j
  proof (cases "k = x")
    case True
    have "x \<in> set (concat (vvTried s'))" using se by blast
    moreover have "refs s' x = 0" using refs_all_without [OF w(3) sel(2)] by simp
    moreover have "j = ?i" using True j m by simp
    ultimately show ?thesis using True entry_signs [OF wf i] t ex unfolding entry_ok_def in_concat [symmetric] by simp
  next
    case False
    then have "entry_ok s ex k j" using j m w(4) by simp
    moreover have "k \<in> set (concat (vvTried s')) \<longleftrightarrow> k \<in> set (concat (vvTried s))" using se False by blast
    moreover have "refs s' k + ex k = refs s k + ex k" using refs_all_without [OF w(3) sel(2)] False by simp
    ultimately show ?thesis using entry_ok_moved [of k s' s ex ex j] by blast
  qed
  moreover have "length (concat (vvTried s')) = length (concat (vvTried s)) + 1"
    using arg_cong [OF ms, of size] by (simp only: size_mset length_append list.size)
  ultimately show ?thesis using io w(5,6) unfolding am_wf_def sel(3-5) by auto
qed

text \<open>A tried entry makes room for the new one and goes to a new bucket.\<close>

lemma replace_ok:
  assumes wf: "am_wf none s" and K: "K < 64" and l: "length v \<le> 64" and q: "q < length v" and mv: "mset v = mset (vvTried s ! K)"
    and i: "info_of s n = Some i" "\<not> fInTried i" "nLastSuccess i \<noteq> 0" and io: "info_of s (v ! q) = Some io"
    and b: "b < 256" "length (map (remove1 n) (vvNew s) ! b) < 64"
    and m: "sorted_map (mapInfo s')"
      "info_of s' = (info_of s)(v ! q \<mapsto> io\<lparr>fInTried := False, nRefCount := 1\<rparr>, n \<mapsto> i\<lparr>nRefCount := 0, fInTried := True\<rparr>)"
    and f: "nIdCount s' = nIdCount s" "mapAddr s' = mapAddr s" "vRandom s' = vRandom s" "nTried s' = nTried s" "nNew s' = nNew s"
      "vvTried s' = (vvTried s)[K := v[q := n]]"
      "vvNew s' = (map (remove1 n) (vvNew s))[b := set_insert (v ! q) (map (remove1 n) (vvNew s) ! b)]"
  shows "am_wf none s'"
proof -
  note w = am_wfD [OF wf]
  let ?x = "v ! q"
  have Kl: "K < length (vvTried s)" using K w(8) by simp
  define sA where "sA = s\<lparr>vvTried := (vvTried s)[K := v]\<rparr>"
  have mA: "map mset (vvTried sA) = map mset (vvTried s)"
    using mv Kl list_update_id [of "map mset (vvTried s)" K] by (simp add: sA_def map_update)
  have wA: "am_wf none sA" by (rule am_wf_cong [OF wf _ _ _ _ _ _ _ _ mA]) (use w(7) in \<open>simp_all add: sA_def\<close>)
  have vA: "vvTried sA ! K = v" using Kl by (simp add: sA_def)
  define sB where "sB = put_info ?x (io\<lparr>fInTried := False, nRefCount := 1\<rparr>)
        (sA\<lparr>vvTried := (vvTried sA)[K := take q (vvTried sA ! K) @ drop (Suc q) (vvTried sA ! K)], nTried := nTried sA - 1, nNew := nNew sA + 1\<rparr>)"
  have wB: "am_wf (none(?x := 1)) sB" by (rule demote_ok [OF wA K _ _ _ sB_def]) (use q vA io in \<open>simp_all add: sA_def\<close>)
  have vB: "vvTried sB ! K = take q v @ drop (Suc q) v" using Kl vA by (simp add: sB_def sA_def)
  have "?x \<in> set (vvTried s ! K)" unfolding mset_eq_setD [OF mv, symmetric] by (rule nth_mem [OF q])
  then have "\<exists>c \<in> set (vvTried s). ?x \<in> set c" using Kl nth_mem by blast
  moreover have "\<not> (\<exists>c \<in> set (vvTried s). n \<in> set c)" using w(4) [OF i(1)] i(2) unfolding entry_ok_def by blast
  ultimately have nx: "n \<noteq> ?x" by metis
  have mB: "info_of sB = (info_of s)(?x \<mapsto> io\<lparr>fInTried := False, nRefCount := 1\<rparr>)" using w(7) by (simp add: sB_def sA_def map_of_put)
  define sC where "sC = put_info n (i\<lparr>nRefCount := 0, fInTried := True\<rparr>)
        (sB\<lparr>vvNew := map (remove1 n) (vvNew sB), vvTried := (vvTried sB)[K := vvTried sB ! K @ [n]], nTried := nTried sB + 1, nNew := nNew sB - 1\<rparr>)"
  have wC: "am_wf (none(?x := 1)) sC"
    by (rule promote_ok [OF wB K _ _ i(2,3) _ sC_def]) (use q l nx mB i(1) in \<open>simp_all add: vB\<close>)
  have vC: "vvNew sC = map (remove1 n) (vvNew s)" by (simp add: sC_def sB_def sA_def)
  have mC: "info_of sC = (info_of s)(?x \<mapsto> io\<lparr>fInTried := False, nRefCount := 1\<rparr>, n \<mapsto> i\<lparr>nRefCount := 0, fInTried := True\<rparr>)"
    using mB am_wfD(7) [OF wB] by (simp add: sC_def map_of_put)
  have xC: "info_of sC ?x = Some (io\<lparr>fInTried := False, nRefCount := 1\<rparr>)" using mC nx by simp
  have "refs sC ?x = 0" using am_wfD(4) [OF wC xC] by (simp add: entry_ok_def)
  moreover have "vvNew sC ! b \<in> set (vvNew sC)" using b(1) am_wfD(9) [OF wC] by simp
  ultimately have nb: "?x \<notin> set (vvNew sC ! b)" by (rule refs_0)
  have "am_wf ((none(?x := 1))(?x := 0)) (sC\<lparr>vvNew := (vvNew sC)[b := set_insert ?x (vvNew sC ! b)]\<rparr>)"
    by (rule insert_ok [OF wC b(1) nb]) (use b(2) vC xC in simp_all)
  then have wD: "am_wf none (sC\<lparr>vvNew := (vvNew sC)[b := set_insert ?x (vvNew sC ! b)]\<rparr>)" by (simp add: fun_upd_idem)
  have "mset (v[q := n]) = mset (take q v @ drop (Suc q) v @ [n])" using q by (simp add: upd_conv_take_nth_drop)
  then have tr: "map mset (vvTried s') = map mset (vvTried sC)" using vB by (simp add: f(6) sC_def sB_def sA_def map_update)
  show ?thesis
    by (rule am_wf_cong [OF wD]) (use m mC f tr vC in \<open>simp_all add: sC_def sB_def sA_def\<close>)
qed

lemma MakeTried_ok:
  assumes wf: "am_wf none s" and i: "info_of s n = Some i" and t: "\<not> fInTried i" "nLastSuccess i \<noteq> 0"
    and og: "nO < 256" "n \<in> set (vvNew s ! nO)"
  shows "\<exists>s' r'. MakeTried L n nO s r = Some (s', r') \<and> am_wf none s'"
proof -
  note w = am_wfD [OF wf]
  define i1 where "i1 = i\<lparr>nRefCount := nRefCount i - int (length (filter (\<lambda>b. n \<in> set b) (vvNew s)))\<rparr>"
  have i1': "i1 = i\<lparr>nRefCount := 0\<rparr>" using w(4) [OF i] by (simp add: i1_def entry_ok_def refs_def)
  have z: "nRefCount i1 = 0" by (simp add: i1')
  define s1 where "s1 = put_info n i1 (s\<lparr>vvNew := map (remove1 n) (vvNew s), nNew := nNew s - 1\<rparr>)"
  define K where "K = GetTriedBucket L (am_nKey s) i1"
  have K: "K < 64" by (simp add: K_def GetTriedBucket_def Let_def ADDRMAN_TRIED_BUCKET_COUNT_def)
  have Kl: "K < length (vvTried s)" using K w(8) by simp
  have m1: "info_of s1 = (info_of s)(n \<mapsto> i1)" "sorted_map (mapInfo s1)" using w(7) by (simp_all add: s1_def map_of_put sorted_map_put)
  have go: "MakeTried L n nO s r = (if length (vvTried s ! K) < 64 then
       Some (put_info n (i1\<lparr>fInTried := True\<rparr>) (s1\<lparr>vvTried := (vvTried s)[K := vvTried s ! K @ [n]], nTried := nTried s + 1\<rparr>), r)
     else (case SelectTried K s1 r of
         Some (Some q, s2, r2) \<Rightarrow>
           (let x = vvTried s2 ! K ! q
            in case info_of s2 x of None \<Rightarrow> None
               | Some io \<Rightarrow>
                   (let u = GetNewBucket L (am_nKey s) io (source io); s3 = put_info x (io\<lparr>fInTried := False, nRefCount := 1\<rparr>) s2;
                        b = (if length (vvNew s3 ! u) < 64 then u else nO);
                        s4 = s3\<lparr>vvNew := (vvNew s3)[b := set_insert x (vvNew s3 ! b)], nNew := nNew s3 + 1,
                                vvTried := (vvTried s3)[K := (vvTried s3 ! K)[q := n]]\<rparr>
                    in Some (put_info n ((the (info_of s4 n))\<lparr>fInTried := True\<rparr>) s4, r2)))
       | _ \<Rightarrow> None))"
    using og(2) z unfolding MakeTried_def i option.case Let_def i1_def [symmetric] s1_def [symmetric] K_def [symmetric]
      ADDRMAN_TRIED_BUCKET_SIZE_def ADDRMAN_NEW_BUCKET_SIZE_def by simp
  show ?thesis
  proof (cases "length (vvTried s ! K) < 64")
    case True
    let ?s = "put_info n (i\<lparr>nRefCount := 0, fInTried := True\<rparr>)
        (s\<lparr>vvNew := map (remove1 n) (vvNew s), vvTried := (vvTried s)[K := vvTried s ! K @ [n]], nTried := nTried s + 1, nNew := nNew s - 1\<rparr>)"
    have wp: "am_wf none ?s" by (rule promote_ok [OF wf K True i t _ refl]) simp
    have "am_wf none (put_info n (i1\<lparr>fInTried := True\<rparr>) (s1\<lparr>vvTried := (vvTried s)[K := vvTried s ! K @ [n]], nTried := nTried s + 1\<rparr>))"
      by (rule am_wf_cong [OF wp]) (use w(7) m1 in \<open>simp_all add: i1' s1_def map_of_put sorted_map_put\<close>)
    then show ?thesis using go True by simp
  next
    case False
    have tb: "length (vvTried s ! K) \<le> 64" "\<forall>x \<in> set (vvTried s ! K). info_of s x \<noteq> None" using tried_bucket_ok [OF w(3) K] by blast+
    have pr: "\<forall>x \<in> set (vvTried s1 ! K). info_of s1 x \<noteq> None" using tb(2) m1(1) by (simp add: s1_def)
    have ne: "vvTried s1 ! K \<noteq> []" using False by (auto simp: s1_def)
    obtain v q r2 where sel: "SelectTried K s1 r = Some (Some q, s1\<lparr>vvTried := (vvTried s1)[K := v]\<rparr>, r2)"
      "mset v = mset (vvTried s1 ! K)" "q < length v" by (rule SelectTried_ok [OF pr ne])
    have v: "mset v = mset (vvTried s ! K)" "vvTried s1 = vvTried s" using sel(2) by (simp_all add: s1_def)
    have "v ! q \<in> set (vvTried s ! K)" using sel(3) mset_eq_setD [OF v(1)] nth_mem by blast
    then have xt: "v ! q \<in> set (concat (vvTried s))" using Kl nth_mem by auto
    then obtain io where io: "info_of s (v ! q) = Some io" using tried_present [OF w(3)] by blast
    have "n \<notin> set (concat (vvTried s))" using w(4) [OF i] t(1) unfolding entry_ok_def in_concat by blast
    then have nx: "v ! q \<noteq> n" using xt by metis
    let ?u = "GetNewBucket L (am_nKey s) io (source io)"
    define b where "b = (if length (map (remove1 n) (vvNew s) ! ?u) < 64 then ?u else nO)"
    have u: "?u < 256" by (rule GetNewBucket_less)
    have b: "b < 256" using u og(1) by (simp add: b_def)
    have bl: "length (map (remove1 n) (vvNew s) ! b) < 64"
    proof -
      have "length (vvNew s ! nO) \<le> 64" using bucket_sorted [OF w(3) og(1)] by blast
      moreover have "vvNew s ! nO \<noteq> []" using og(2) by auto
      ultimately show ?thesis using og w(9) by (auto simp: b_def length_remove1)
    qed
    define s4 where "s4 = (put_info (v ! q) (io\<lparr>fInTried := False, nRefCount := 1\<rparr>) (s1\<lparr>vvTried := (vvTried s)[K := v]\<rparr>))
        \<lparr>vvNew := (map (remove1 n) (vvNew s))[b := set_insert (v ! q) (map (remove1 n) (vvNew s) ! b)], nNew := nNew s,
         vvTried := (vvTried s)[K := v[q := n]]\<rparr>"
    have m4: "info_of s4 = (info_of s)(n \<mapsto> i1, v ! q \<mapsto> io\<lparr>fInTried := False, nRefCount := 1\<rparr>)" "sorted_map (mapInfo s4)"
      using m1 by (simp_all add: s4_def map_of_put sorted_map_put)
    have "MakeTried L n nO s r = Some (put_info n (i1\<lparr>fInTried := True\<rparr>) s4, r2)"
      using go False sel(1) io nx m1 Kl v(2) m4(1)
      by (simp add: Let_def b_def [symmetric] s4_def) (simp add: s1_def b_def)
    moreover have "am_wf none (put_info n (i1\<lparr>fInTried := True\<rparr>) s4)"
    proof (rule replace_ok [OF wf K _ sel(3) v(1) i t io b bl])
      show "length v \<le> 64" using tb(1) v(1) by (metis size_mset)
    qed (use m4 nx in \<open>simp_all add: map_of_put sorted_map_put i1' s4_def s1_def fun_upd_twist\<close>)
    ultimately show ?thesis by blast
  qed
qed

end
