(* ===== verification/AddrMan_Check.thy ===== *)
theory AddrMan_Check
  imports AddrMan_Facts
begin

text \<open>
  Marking an entry as good, the states the address manager gets into, and its own consistency check on them.
\<close>

section \<open>Marking as good\<close>

lemma AM_Good_ok:
  assumes wf: "am_wf none s" and t: "0 < t"
  shows "\<exists>s' r'. AM_Good L addr t s r = Some (s', r') \<and> am_wf none s'"
proof (cases "AM_Find addr s")
  case (Some x)
  then obtain n i where f: "AM_Find addr s = Some (n, i)" by (cases x) auto
  note i = AM_Find_Some [OF f]
  let ?i = "i\<lparr>nLastSuccess := t, a_nLastTry := t, a_nTime := word_of_int t, nAttempts := 0\<rparr>"
  let ?s = "put_info n ?i s"
  have wf1: "am_wf none ?s" by (rule put_same [OF wf i]) (use t in auto)
  have i1: "info_of ?s n = Some ?i" using info_of_put [OF am_wfD(1) [OF wf]] by simp
  obtain m r1 where g: "GetRandInt (length (vvNew s)) r = (m, r1)" by fastforce
  let ?f = "find (\<lambda>nB. n \<in> set (vvNew s ! nB)) (map (\<lambda>k. (k + m) mod length (vvNew s)) [0..<length (vvNew s)])"
  show ?thesis
  proof (cases "Service_eq i addr \<and> \<not> fInTried i")
    case False
    then show ?thesis using wf wf1 f by (auto simp: AM_Good_def Let_def)
  next
    case True
    show ?thesis
    proof (cases ?f)
      case None
      then show ?thesis using True wf1 f g by (simp add: AM_Good_def)
    next
      case (Some u)
      then have "u \<in> set (map (\<lambda>k. (k + m) mod length (vvNew s)) [0..<length (vvNew s)])" "n \<in> set (vvNew ?s ! u)"
        by (auto simp: find_Some_iff simp del: set_map set_upt intro: nth_mem)
      then have u: "u < 256" "n \<in> set (vvNew ?s ! u)" using am_wfD(9) [OF wf] by auto
      have "\<exists>s' r'. MakeTried L n u ?s r1 = Some (s', r') \<and> am_wf none s'"
        by (rule MakeTried_ok [OF wf1 i1 _ _ u]) (use True t in simp_all)
      then show ?thesis using True f g Some by (simp add: AM_Good_def)
    qed
  qed
qed (use wf in \<open>simp add: AM_Good_def\<close>)

section \<open>The check\<close>

lemma check_tried_ok: "distinct ks \<Longrightarrow> sorted_wrt (<) T \<Longrightarrow> set T = set ks \<Longrightarrow> check_tried ks T = Some []"
proof (induction ks arbitrary: T)
  case (Cons k ks)
  have "set (remove1 k T) = set T - {k} \<and> sorted_wrt (<) (remove1 k T)" using remove1_sorted Cons.prems(2) by blast
  then show ?case using Cons by simp
qed simp

lemma check_new_ok:
  "(\<And>k. M k = (if count_list ks k = 0 then None else Some (int (count_list ks k)))) \<Longrightarrow> check_new ks M = Some Map.empty"
proof (induction ks arbitrary: M)
  case (Cons k ks)
  have M: "M k = Some (int (count_list ks k) + 1)" using Cons.prems [of k] by simp
  let ?M = "if int (count_list ks k) + 1 - 1 = 0 then M(k := None) else M(k \<mapsto> int (count_list ks k) + 1 - 1)"
  have "check_new ks ?M = Some Map.empty"
  proof (rule Cons.IH)
    fix x show "?M x = (if count_list ks x = 0 then None else Some (int (count_list ks x)))"
      using Cons.prems [of x] by (cases "x = k") auto
  qed
  then show ?case using M by simp
qed (simp add: fun_eq_iff)

lemma refs_count: "\<forall>b \<in> set bs. sorted_wrt (<) (b :: nat list) \<Longrightarrow> count_list (concat bs) k = length (filter (\<lambda>b. k \<in> set b) bs)"
proof (induction bs)
  case (Cons b bs)
  have "distinct b" using Cons.prems strict_sorted_iff by auto
  then have "count_list b k = (if k \<in> set b then 1 else 0)" by (induction b) auto
  then show ?case using Cons by simp
qed simp

lemma check_infos_ok:
  assumes "\<And>n i. (n, i) \<in> set m \<Longrightarrow> entry_ok s none n i \<and> mapAddr s (ip i) = Some n \<and> 0 \<le> nRandomPos i \<and>
      nRandomPos i < int (length (vRandom s)) \<and> vRandom s ! nat (nRandomPos i) = n"
    and "sorted_wrt (<) T"
  shows "\<exists>T' M'. check_infos s m T M = Inr (T', M') \<and> sorted_wrt (<) T' \<and> set T' = set T \<union> {n. \<exists>i. (n, i) \<in> set m \<and> fInTried i} \<and>
    (distinct (map fst m) \<longrightarrow>
       (\<forall>k. M' k = (case map_of m k of None \<Rightarrow> M k | Some i \<Rightarrow> if fInTried i then M k else Some (nRefCount i))))"
  using assms
proof (induction m arbitrary: T M)
  case (Cons x m)
  obtain n i where x: "x = (n, i)" by (cases x)
  have e: "entry_ok s none n i" "mapAddr s (ip i) = Some n" "0 \<le> nRandomPos i" "nRandomPos i < int (length (vRandom s))"
    "vRandom s ! nat (nRandomPos i) = n" using Cons.prems(1) [of n i] x by auto
  have a: "\<And>n i. (n, i) \<in> set m \<Longrightarrow> entry_ok s none n i \<and> mapAddr s (ip i) = Some n \<and> 0 \<le> nRandomPos i \<and>
      nRandomPos i < int (length (vRandom s)) \<and> vRandom s ! nat (nRandomPos i) = n" using Cons.prems(1) by auto
  have ok: "check_infos s (x # m) T M = (if fInTried i then check_infos s m (set_insert n T) M else check_infos s m T (M(n \<mapsto> nRefCount i)))"
    using e(2-5) e(1) unfolding entry_ok_def by (auto simp: x ADDRMAN_NEW_BUCKETS_PER_ADDRESS_def split: if_splits)
  define T1 where "T1 = (if fInTried i then set_insert n T else T)"
  define M1 where "M1 = (if fInTried i then M else M(n \<mapsto> nRefCount i))"
  have "sorted_wrt (<) T1" using Cons.prems(2) sorted_set_insert [OF Cons.prems(2), of n] by (simp add: T1_def)
  then obtain T' M' where h: "check_infos s m T1 M1 = Inr (T', M')" "sorted_wrt (<) T'"
    "set T' = set T1 \<union> {n. \<exists>i. (n, i) \<in> set m \<and> fInTried i}"
    "distinct (map fst m) \<longrightarrow> (\<forall>k. M' k = (case map_of m k of None \<Rightarrow> M1 k | Some i \<Rightarrow> if fInTried i then M1 k else Some (nRefCount i)))"
    using Cons.IH [OF a] by blast
  have "check_infos s (x # m) T M = check_infos s m T1 M1" unfolding ok T1_def M1_def by (cases "fInTried i") (simp_all only: if_True if_False)
  then have "check_infos s (x # m) T M = Inr (T', M')" unfolding h(1) .
  moreover have "set T' = set T \<union> {n. \<exists>i. (n, i) \<in> set (x # m) \<and> fInTried i}" unfolding h(3) by (auto simp: T1_def x)
  moreover have "M' k = (case map_of (x # m) k of None \<Rightarrow> M k | Some i \<Rightarrow> if fInTried i then M k else Some (nRefCount i))"
    if d: "distinct (map fst (x # m))" for k
  proof (cases "k = n")
    case True
    have "map_of m n = None" using d by (simp add: x map_of_eq_None_iff)
    then show ?thesis using True h(4) d by (simp add: x M1_def)
  next
    case False
    have "M1 k = M k" using False by (simp add: M1_def)
    then show ?thesis using False h(4) d by (simp add: x split: option.split)
  qed
  ultimately show ?case using h(2) by blast
qed simp

lemma mapInfo_entries:
  assumes wf: "am_wf none s" and m: "(n, i) \<in> set (mapInfo s)"
  shows "entry_ok s none n i" "mapAddr s (ip i) = Some n" "0 \<le> nRandomPos i" "nRandomPos i < int (length (vRandom s))"
    "vRandom s ! nat (nRandomPos i) = n"
proof -
  note w = am_wfD [OF wf]
  have i: "info_of s n = Some i" using m map_of_mem [OF w(7)] by blast
  show "entry_ok s none n i" by (rule w(4) [OF i])
  show "mapAddr s (ip i) = Some n" using w(1) i unfolding index_ok_def by blast
  have "0 \<le> nRandomPos i \<and> nat (nRandomPos i) < length (vRandom s) \<and> vRandom s ! nat (nRandomPos i) = n"
    using w(2) i unfolding random_ok_def by blast
  then show "0 \<le> nRandomPos i" "nRandomPos i < int (length (vRandom s))" "vRandom s ! nat (nRandomPos i) = n" by auto
qed

lemma AM_Check_ok:
  assumes wf: "am_wf none s"
  shows "AM_Check s = 0"
proof -
  note w = am_wfD [OF wf]
  note me = mapInfo_entries [OF wf]
  have dk: "distinct (map fst (mapInfo s))" by (rule sorted_map_distinct [OF w(7)])
  obtain T M where c: "check_infos s (mapInfo s) [] Map.empty = Inr (T, M)" "sorted_wrt (<) T"
    "set T = {n. \<exists>i. (n, i) \<in> set (mapInfo s) \<and> fInTried i}"
    "\<forall>k. M k = (case info_of s k of None \<Rightarrow> None | Some i \<Rightarrow> if fInTried i then None else Some (nRefCount i))"
    using check_infos_ok [of "mapInfo s" s "[]" Map.empty] me dk by auto
  have tr: "set T = set (concat (vvTried s))"
  proof -
    have "n \<in> set (concat (vvTried s)) \<longleftrightarrow> (\<exists>i. (n, i) \<in> set (mapInfo s) \<and> fInTried i)" for n
    proof
      assume n: "n \<in> set (concat (vvTried s))"
      then obtain i where i: "info_of s n = Some i" using tried_present [OF w(3)] by blast
      then have "fInTried i" using w(4) [OF i] n unfolding entry_ok_def in_concat by blast
      then show "\<exists>i. (n, i) \<in> set (mapInfo s) \<and> fInTried i" using i map_of_mem [OF w(7)] by blast
    next
      assume "\<exists>i. (n, i) \<in> set (mapInfo s) \<and> fInTried i"
      then show "n \<in> set (concat (vvTried s))" using me(1) unfolding entry_ok_def in_concat by blast
    qed
    then show ?thesis unfolding c(3) by blast
  qed
  have dT: "distinct T" "distinct (concat (vvTried s))" using c(2) strict_sorted_iff w(3) unfolding buckets_ok_def by blast+
  have nT: "length T = length (concat (vvTried s))" using tr dT distinct_card by metis
  have len: "length (mapInfo s) = length (vRandom s)"
  proof -
    have "set (map fst (mapInfo s)) = set (vRandom s)" using vRandom_ids [OF w(2)] by (auto simp: map_of_eq_None_iff)
    then have "card (set (map fst (mapInfo s))) = card (set (vRandom s))" by simp
    then show ?thesis using distinct_card [OF dk] distinct_card [OF vRandom_distinct [OF w(2)]] by simp
  qed
  let ?F = "filter (\<lambda>(n, i). fInTried i) (mapInfo s)"
  have lF: "length ?F = length T"
  proof -
    have "set (map fst ?F) = set T" unfolding c(3) by force
    moreover have "distinct (map fst ?F)" using dk distinct_map_filter by blast
    ultimately show ?thesis using dT(1) distinct_card by (metis length_map)
  qed
  have fM: "filter (\<lambda>(n, _). M n \<noteq> None) (mapInfo s) = filter (\<lambda>x. \<not> (case x of (n, i) \<Rightarrow> fInTried i)) (mapInfo s)"
  proof (rule filter_cong [OF refl])
    fix x assume x: "x \<in> set (mapInfo s)"
    obtain n i where ni: "x = (n, i)" by (cases x)
    then have "info_of s n = Some i" using x map_of_mem [OF w(7)] by blast
    then show "(case x of (n, _) \<Rightarrow> M n \<noteq> None) = (\<not> (case x of (n, i) \<Rightarrow> fInTried i))" using c(4) by (simp add: ni)
  qed
  have "length ?F + length (filter (\<lambda>(n, _). M n \<noteq> None) (mapInfo s)) = length (mapInfo s)"
    unfolding fM by (rule sum_length_filter_compl)
  then have nM: "int (length (filter (\<lambda>(n, _). M n \<noteq> None) (mapInfo s))) = nNew s" using lF len nT w(5,6) by linarith
  have cn: "check_new (concat (vvNew s)) M = Some Map.empty"
  proof (rule check_new_ok)
    fix k
    have r: "count_list (concat (vvNew s)) k = refs s k" using w(3) refs_count [of "vvNew s" k] unfolding buckets_ok_def refs_def by blast
    show "M k = (if count_list (concat (vvNew s)) k = 0 then None else Some (int (count_list (concat (vvNew s)) k)))"
    proof (cases "info_of s k")
      case None
      then have "\<forall>b \<in> set (vvNew s). k \<notin> set b" using w(3) unfolding buckets_ok_def by blast
      then show ?thesis using None c(4) by (simp add: r refs_def filter_empty_conv)
    next
      case (Some i)
      then show ?thesis using c(4) w(4) [OF Some] unfolding r entry_ok_def by (auto split: if_splits)
    qed
  qed
  have ct: "check_tried (concat (vvTried s)) T = Some []" by (rule check_tried_ok [OF dT(2) c(2) tr])
  have "list_ex (\<lambda>(n, _). Map.empty n \<noteq> None) (mapInfo s) = False" by (auto simp: list_ex_iff)
  then show ?thesis using c(1) nT nM cn ct w(5,6) by (simp add: AM_Check_def)
qed

section \<open>Reachable states\<close>

lemma CAddrMan_new_ok: "am_wf none (CAddrMan_new key)"
  by (simp add: am_wf_def index_ok_def random_ok_def buckets_ok_def CAddrMan_new_def ADDRMAN_TRIED_BUCKET_COUNT_def
      ADDRMAN_NEW_BUCKET_COUNT_def sorted_map_def)

inductive am_reachable :: "openssl \<Rightarrow> byte list \<Rightarrow> CAddrMan \<Rightarrow> bool" for L key where
  start: "am_reachable L key (CAddrMan_new key)"
| add: "am_reachable L key s \<Longrightarrow> AM_Add L (addr :: CAddress) src nTimePenalty nNow s r = Some (b, s', r') \<Longrightarrow> am_reachable L key s'"
| good: "am_reachable L key s \<Longrightarrow> 0 < t \<Longrightarrow> AM_Good L (serv :: CService) t s r = Some (s', r') \<Longrightarrow> am_reachable L key s'"
| attempt: "am_reachable L key s \<Longrightarrow> 0 \<le> t \<Longrightarrow> am_reachable L key (AM_Attempt (serv :: CService) t s)"
| connected: "am_reachable L key s \<Longrightarrow> am_reachable L key (AM_Connected (serv :: CService) t s)"
| getaddr: "am_reachable L key s \<Longrightarrow> AM_GetAddr s r = Some (v, s', r') \<Longrightarrow> am_reachable L key s'"

lemma am_reachable_wf: "am_reachable L key s \<Longrightarrow> am_wf none s"
proof (induction rule: am_reachable.induct)
  case (add s addr src nTimePenalty nNow r b s' r')
  then show ?case using AM_Add_ok [of s L addr src nTimePenalty nNow r] by auto
next
  case (good s t serv r s' r')
  then show ?case using AM_Good_ok [of s t L serv r] by auto
next
  case (getaddr s r v s' r')
  then show ?case using AM_GetAddr_ok [of s r] by auto
qed (simp_all add: CAddrMan_new_ok AM_Attempt_ok AM_Connected_ok)

text \<open>A first address is always accepted.\<close>

lemma AM_Add_first:
  assumes "IsRoutable addr"
  obtains s' where "AM_Add L addr src nTimePenalty nNow (CAddrMan_new key) r = Some (True, s', r)" "vRandom s' = [0]"
proof -
  have "GetNewBucket L key a src < 256" for a :: CAddrInfo by (rule GetNewBucket_less)
  then show thesis
    using that assms by (simp add: AM_Add_def AM_Find_def AM_Create_def AM_bucket_def CAddrMan_new_def Let_def put_info_def
        ADDRMAN_NEW_BUCKET_COUNT_def ADDRMAN_NEW_BUCKET_SIZE_def)
qed

text \<open>C35.  Whatever addresses are added, marked good, tried, seen connected or handed out, in any order, with any random
  choices and any hash function: the address manager's own consistency check finds nothing, it never holds more than
  20480 addresses, and no operation fails an assertion or reads outside a table (in a state reached by such operations, with
  positive times).\<close>

theorem addrman_consistent:
  assumes "am_reachable L key s"
  shows "AM_Check s = 0 \<and> length (vRandom s) \<le> 20480 \<and>
    AM_Add L (addr :: CAddress) src nTimePenalty nNow s r \<noteq> None \<and> AM_GetAddr s r \<noteq> None \<and>
    AM_Good L (serv :: CService) (int (Suc t)) s r \<noteq> None"
proof -
  note wf = am_reachable_wf [OF assms]
  have "length (vRandom s) \<le> 20480" using size_bound(2) [OF wf] by simp
  then show ?thesis
    using AM_Check_ok [OF wf] AM_Add_ok [OF wf, of L addr src nTimePenalty nNow r] AM_GetAddr_ok [OF wf, of r]
      AM_Good_ok [OF wf, of "int (Suc t)" L serv r] by force
qed

text \<open>A routable address, added to the empty manager.\<close>

definition sample_address :: CAddress where
  "sample_address = CAddress_of \<lparr>ip = pchIPv4 @ [8, 8, 4, 4], port = 15371\<rparr> 1"

lemma sample_address_routable: "IsRoutable sample_address"
  by (simp add: sample_address_def CAddress_of_def) code_simp

theorem addrman_consistent_witness:
  "\<exists>s. am_reachable sample_openssl [1, 2] s \<and> vRandom s = [0] \<and> AM_Check s = 0 \<and>
     AM_Add sample_openssl sample_address NetAddr_Init 0 1500000000 s (\<lambda>n. n) \<noteq> None"
proof -
  obtain s where s: "AM_Add sample_openssl sample_address NetAddr_Init 0 1500000000 (CAddrMan_new [1, 2]) (\<lambda>n. n) = Some (True, s, \<lambda>n. n)"
    "vRandom s = [0]" by (rule AM_Add_first [OF sample_address_routable])
  have "am_reachable sample_openssl [1, 2] s" by (rule am_reachable.add [OF am_reachable.start s(1)])
  then show ?thesis
    using s(2) addrman_consistent [of sample_openssl "[1, 2]" s sample_address NetAddr_Init 0 1500000000 "\<lambda>n. n" CService_default 0] by blast
qed

end
