(* ===== verification/KeyPool.thy ===== *)
theory KeyPool
  imports Keystore
begin

text \<open>
  The pool of pre-generated keys of the wallet (\<open>src/src/wallet.h\<close>, \<open>wallet.cpp\<close>): keys are made in advance, reserved,
  and then kept or returned.  \<open>None\<close> is an exception.  The secrets OpenSSL draws are a list, when it is
  empty generating a key fails; the results of writing to the wallet file are an endless sequence.  Locks and debug output are left out.
\<close>

section \<open>The wallet as a key store\<close>

definition FEATURE_BASE :: int where "FEATURE_BASE = 10500"
definition FEATURE_WALLETCRYPT :: int where "FEATURE_WALLETCRYPT = 40000"
definition FEATURE_COMPRPUBKEY :: int where "FEATURE_COMPRPUBKEY = 60000"
definition FEATURE_LATEST :: int where "FEATURE_LATEST = 60000"

record CKeyPool =
  kp_nTime :: int
  kp_vchPubKey :: CPubKey

text \<open>
  \<open>wdb_pool\<close> holds the records \<open>pool\<close> of the wallet file.
\<close>

record CWallet_keys =
  w_store :: CCryptoKeyStore
  nWalletVersion :: int
  nWalletMaxVersion :: int
  fFileBacked :: bool
  setKeyPool :: "int list"
  wdb_pool :: "int \<rightharpoonup> CKeyPool"
  vchDefaultKey :: CPubKey
  w_secrets :: "CSecret list"
  w_writes :: "nat \<Rightarrow> bool"

definition CanSupportFeature :: "int \<Rightarrow> 'a CWallet_keys_scheme \<Rightarrow> bool" where
  "CanSupportFeature feature w \<longleftrightarrow> nWalletMaxVersion w \<ge> feature"

definition db_write :: "'a CWallet_keys_scheme \<Rightarrow> bool \<times> 'a CWallet_keys_scheme" where
  "db_write w = (w_writes w 0, w\<lparr>w_writes := \<lambda>n. w_writes w (n + 1)\<rparr>)"

text \<open>The results of writing settings and the version are not looked at.\<close>

definition SetMinVersion :: "int \<Rightarrow> bool \<Rightarrow> 'a CWallet_keys_scheme \<Rightarrow> 'a CWallet_keys_scheme" where
  "SetMinVersion nVersion0 fExplicit w =
     (if nWalletVersion w \<ge> nVersion0 then w
      else
        (let v = (if fExplicit \<and> nVersion0 > nWalletMaxVersion w then FEATURE_LATEST else nVersion0);
             w1 = w\<lparr>nWalletVersion := v\<rparr>
         in if v > nWalletMaxVersion w1 then w1\<lparr>nWalletMaxVersion := v\<rparr> else w1))"

definition SetMaxVersion :: "int \<Rightarrow> 'a CWallet_keys_scheme \<Rightarrow> bool \<times> 'a CWallet_keys_scheme" where
  "SetMaxVersion nVersion0 w =
     (if nWalletVersion w > nVersion0 then (False, w) else (True, w\<lparr>nWalletMaxVersion := nVersion0\<rparr>))"

text \<open>
  The key goes to the wallet file in either case: \<open>AddKey\<close> writes it when the wallet is not encrypted, otherwise the virtual
  \<open>AddCryptedKey\<close> does, which the key store calls; a write that fails gives \<open>false\<close> both ways.
\<close>

definition Wallet_AddKey :: "openssl \<Rightarrow> CKey \<Rightarrow> 'a CWallet_keys_scheme \<Rightarrow> (bool \<times> 'a CWallet_keys_scheme) option" where
  "Wallet_AddKey L key w =
     (case AddKey L key (w_store w) of
        (None, _) \<Rightarrow> None
      | (Some ok, ks) \<Rightarrow>
          (let w1 = w\<lparr>w_store := ks\<rparr>
           in if \<not> ok then Some (False, w1)
              else if \<not> fFileBacked w then Some (True, w1)
              else Some (db_write w1)))"

definition MakeNewKey :: "CSecret \<Rightarrow> bool \<Rightarrow> CKey \<Rightarrow> CKey" where
  "MakeNewKey secret fCompressed k =
     (let k1 = k\<lparr>pkey := (pkey k)\<lparr>material := EC_sec secret\<rparr>\<rparr>
      in (if fCompressed then SetCompressedPubKey k1 else k1)\<lparr>fSet := True\<rparr>)"

definition GenerateNewKey :: "openssl \<Rightarrow> 'a CWallet_keys_scheme \<Rightarrow> (CPubKey \<times> 'a CWallet_keys_scheme) option" where
  "GenerateNewKey L w =
     (case w_secrets w of
        [] \<Rightarrow> None
      | secret # secrets \<Rightarrow>
          (let fCompressed = CanSupportFeature FEATURE_COMPRPUBKEY w;
               key = MakeNewKey secret fCompressed CKey_new;
               w1 = w\<lparr>w_secrets := secrets\<rparr>;
               w2 = (if fCompressed then SetMinVersion FEATURE_COMPRPUBKEY False w1 else w1)
           in case Wallet_AddKey L key w2 of
                Some (True, w3) \<Rightarrow> map_option (\<lambda>p. (p, w3)) (GetPubKey L key)
              | _ \<Rightarrow> None))"

definition SetDefaultKey :: "CPubKey \<Rightarrow> 'a CWallet_keys_scheme \<Rightarrow> bool \<times> 'a CWallet_keys_scheme" where
  "SetDefaultKey vchPubKey w =
     (case (if fFileBacked w then db_write w else (True, w)) of
        (ok, w1) \<Rightarrow> if \<not> ok then (False, w1) else (True, w1\<lparr>vchDefaultKey := vchPubKey\<rparr>))"

section \<open>The pool\<close>

definition WritePool :: "int \<Rightarrow> CKeyPool \<Rightarrow> 'a CWallet_keys_scheme \<Rightarrow> bool \<times> 'a CWallet_keys_scheme" where
  "WritePool nPool keypool w =
     (case db_write w of
        (ok, w1) \<Rightarrow> if ok then (True, w1\<lparr>wdb_pool := (wdb_pool w)(nPool \<mapsto> keypool)\<rparr>) else (False, w1))"

definition ErasePool :: "int \<Rightarrow> 'a CWallet_keys_scheme \<Rightarrow> 'a CWallet_keys_scheme" where
  "ErasePool nPool w =
     (case db_write w of (ok, w1) \<Rightarrow> if ok then w1\<lparr>wdb_pool := (wdb_pool w)(nPool := None)\<rparr> else w1)"

text \<open>\<open>now\<close> is the time, \<open>nKeypool\<close> the setting \<open>-keypool\<close>, 100 by default.\<close>

fun new_pool :: "openssl \<Rightarrow> int \<Rightarrow> nat \<Rightarrow> int \<Rightarrow> 'a CWallet_keys_scheme \<Rightarrow> 'a CWallet_keys_scheme option" where
  "new_pool L now 0 i w = Some w"
| "new_pool L now (Suc n) i w =
     (case GenerateNewKey L w of
        None \<Rightarrow> None
      | Some (k, w1) \<Rightarrow>
          (case WritePool i \<lparr>kp_nTime = now, kp_vchPubKey = k\<rparr> w1 of
             (ok, w2) \<Rightarrow> new_pool L now n (i + 1) (w2\<lparr>setKeyPool := set_insert i (setKeyPool w2)\<rparr>)))"

definition NewKeyPool :: "openssl \<Rightarrow> int \<Rightarrow> int \<Rightarrow> 'a CWallet_keys_scheme \<Rightarrow> (bool \<times> 'a CWallet_keys_scheme) option" where
  "NewKeyPool L now nKeypool w =
     (let w1 = (fold ErasePool (setKeyPool w) w)\<lparr>setKeyPool := []\<rparr>
      in if IsLocked (w_store w1) then Some (False, w1)
         else map_option (\<lambda>w2. (True, w2)) (new_pool L now (nat (max nKeypool 0)) 1 w1))"

text \<open>Every round adds a number above all others, so the loop ends after as many rounds as numbers are missing.\<close>

fun topup_loop :: "openssl \<Rightarrow> int \<Rightarrow> nat \<Rightarrow> 'a CWallet_keys_scheme \<Rightarrow> 'a CWallet_keys_scheme option" where
  "topup_loop L now 0 w = Some w"
| "topup_loop L now (Suc n) w =
     (let nEnd = (if setKeyPool w = [] then 1 else last (setKeyPool w) + 1)
      in case GenerateNewKey L w of
           None \<Rightarrow> None
         | Some (k, w1) \<Rightarrow>
             (case WritePool nEnd \<lparr>kp_nTime = now, kp_vchPubKey = k\<rparr> w1 of
                (ok, w2) \<Rightarrow>
                  if \<not> ok then None
                  else topup_loop L now n (w2\<lparr>setKeyPool := set_insert nEnd (setKeyPool w2)\<rparr>)))"

definition TopUpKeyPool :: "openssl \<Rightarrow> int \<Rightarrow> int \<Rightarrow> 'a CWallet_keys_scheme \<Rightarrow> (bool \<times> 'a CWallet_keys_scheme) option" where
  "TopUpKeyPool L now nKeypool w =
     (if IsLocked (w_store w) then Some (False, w)
      else
        (let nTargetSize = nat (max nKeypool 0 mod 2 ^ 32)
         in map_option (\<lambda>w1. (True, w1)) (topup_loop L now ((nTargetSize + 1) mod 2 ^ 32 - length (setKeyPool w)) w)))"

text \<open>The number is -1 when there is no key.\<close>

definition ReserveKeyFromKeyPool ::
  "openssl \<Rightarrow> int \<Rightarrow> int \<Rightarrow> 'a CWallet_keys_scheme \<Rightarrow> (int \<times> CKeyPool \<times> 'a CWallet_keys_scheme) option" where
  "ReserveKeyFromKeyPool L now nKeypool w =
     (case (if \<not> IsLocked (w_store w) then map_option snd (TopUpKeyPool L now nKeypool w) else Some w) of
        None \<Rightarrow> None
      | Some w1 \<Rightarrow>
          (case setKeyPool w1 of
             [] \<Rightarrow> Some (- 1, \<lparr>kp_nTime = now, kp_vchPubKey = []\<rparr>, w1)
           | nIndex # rest \<Rightarrow>
               (case wdb_pool w1 nIndex of
                  None \<Rightarrow> None
                | Some keypool \<Rightarrow>
                    if \<not> HaveKey (w_store w1) (CPubKey_GetID L (kp_vchPubKey keypool)) then None
                    else if \<not> CPubKey_IsValid (kp_vchPubKey keypool) then None
                    else Some (nIndex, keypool, w1\<lparr>setKeyPool := rest\<rparr>))))"

text \<open>The pool must not be empty here; \<open>None\<close> also stands for the access before its beginning.\<close>

definition AddReserveKey :: "CKeyPool \<Rightarrow> 'a CWallet_keys_scheme \<Rightarrow> (int \<times> 'a CWallet_keys_scheme) option" where
  "AddReserveKey keypool w =
     (if setKeyPool w = [] then None
      else
        (let nIndex = 1 + last (setKeyPool w)
         in case WritePool nIndex keypool w of
              (ok, w1) \<Rightarrow>
                if \<not> ok then None else Some (nIndex, w1\<lparr>setKeyPool := set_insert nIndex (setKeyPool w1)\<rparr>)))"

definition Wallet_KeepKey :: "int \<Rightarrow> 'a CWallet_keys_scheme \<Rightarrow> 'a CWallet_keys_scheme" where
  "Wallet_KeepKey nIndex w = (if fFileBacked w then ErasePool nIndex w else w)"

definition Wallet_ReturnKey :: "int \<Rightarrow> 'a CWallet_keys_scheme \<Rightarrow> 'a CWallet_keys_scheme" where
  "Wallet_ReturnKey nIndex w = w\<lparr>setKeyPool := set_insert nIndex (setKeyPool w)\<rparr>"

definition GetKeyFromPool ::
  "openssl \<Rightarrow> int \<Rightarrow> int \<Rightarrow> bool \<Rightarrow> 'a CWallet_keys_scheme \<Rightarrow> (CPubKey option \<times> 'a CWallet_keys_scheme) option" where
  "GetKeyFromPool L now nKeypool fAllowReuse w =
     (case ReserveKeyFromKeyPool L now nKeypool w of
        None \<Rightarrow> None
      | Some (nIndex, keypool, w1) \<Rightarrow>
          if nIndex = - 1 then
            (if fAllowReuse \<and> CPubKey_IsValid (vchDefaultKey w1) then Some (Some (vchDefaultKey w1), w1)
             else if IsLocked (w_store w1) then Some (None, w1)
             else map_option (\<lambda>(k, w2). (Some k, w2)) (GenerateNewKey L w1))
          else Some (Some (kp_vchPubKey keypool), Wallet_KeepKey nIndex w1))"

definition GetOldestKeyPoolTime ::
  "openssl \<Rightarrow> int \<Rightarrow> int \<Rightarrow> 'a CWallet_keys_scheme \<Rightarrow> (int \<times> 'a CWallet_keys_scheme) option" where
  "GetOldestKeyPoolTime L now nKeypool w =
     (case ReserveKeyFromKeyPool L now nKeypool w of
        None \<Rightarrow> None
      | Some (nIndex, keypool, w1) \<Rightarrow>
          if nIndex = - 1 then Some (now, w1) else Some (kp_nTime keypool, Wallet_ReturnKey nIndex w1))"

fun reserve_keys :: "openssl \<Rightarrow> int list \<Rightarrow> CKeyID list \<Rightarrow> 'a CWallet_keys_scheme \<Rightarrow> CKeyID list option" where
  "reserve_keys L [] setAddress w = Some setAddress"
| "reserve_keys L (i # is) setAddress w =
     (case wdb_pool w i of
        None \<Rightarrow> None
      | Some keypool \<Rightarrow>
          (let keyID = CPubKey_GetID L (kp_vchPubKey keypool)
           in if \<not> CPubKey_IsValid (kp_vchPubKey keypool) then None
              else if \<not> HaveKey (w_store w) keyID then None
              else reserve_keys L is (set_insert keyID setAddress) w))"

definition GetAllReserveKeys :: "openssl \<Rightarrow> 'a CWallet_keys_scheme \<Rightarrow> CKeyID list option" where
  "GetAllReserveKeys L w = reserve_keys L (setKeyPool w) [] w"

section \<open>Reservations\<close>

record CReserveKey =
  rk_nIndex :: int
  rk_vchPubKey :: CPubKey

definition CReserveKey_new :: CReserveKey where
  "CReserveKey_new = \<lparr>rk_nIndex = - 1, rk_vchPubKey = []\<rparr>"

definition GetReservedKey ::
  "openssl \<Rightarrow> int \<Rightarrow> int \<Rightarrow> CReserveKey \<Rightarrow> 'a CWallet_keys_scheme \<Rightarrow>
     (CPubKey \<times> CReserveKey \<times> 'a CWallet_keys_scheme) option" where
  "GetReservedKey L now nKeypool rk w =
     (case (if rk_nIndex rk = - 1 then
              (case ReserveKeyFromKeyPool L now nKeypool w of
                 None \<Rightarrow> None
               | Some (nIndex, keypool, w1) \<Rightarrow>
                   Some (\<lparr>rk_nIndex = nIndex,
                          rk_vchPubKey = (if nIndex \<noteq> - 1 then kp_vchPubKey keypool else vchDefaultKey w1)\<rparr>, w1))
            else Some (rk, w)) of
        None \<Rightarrow> None
      | Some (rk1, w1) \<Rightarrow>
          if \<not> CPubKey_IsValid (rk_vchPubKey rk1) then None else Some (rk_vchPubKey rk1, rk1, w1))"

definition CReserveKey_KeepKey :: "CReserveKey \<Rightarrow> 'a CWallet_keys_scheme \<Rightarrow> CReserveKey \<times> 'a CWallet_keys_scheme" where
  "CReserveKey_KeepKey rk w =
     (CReserveKey_new, if rk_nIndex rk \<noteq> - 1 then Wallet_KeepKey (rk_nIndex rk) w else w)"

definition CReserveKey_ReturnKey :: "CReserveKey \<Rightarrow> 'a CWallet_keys_scheme \<Rightarrow> CReserveKey \<times> 'a CWallet_keys_scheme" where
  "CReserveKey_ReturnKey rk w =
     (CReserveKey_new, if rk_nIndex rk \<noteq> - 1 then Wallet_ReturnKey (rk_nIndex rk) w else w)"

section \<open>No key is handed out twice\<close>

text \<open>What OpenSSL draws is not drawn again.\<close>

definition future_keys :: "openssl \<Rightarrow> 'a CWallet_keys_scheme \<Rightarrow> nat \<Rightarrow> CPubKey set" where
  "future_keys L w n =
     (if n < length (w_secrets w) then {EC_public L (w_secrets w ! n) False, EC_public L (w_secrets w ! n) True} else {})"

definition fresh_secrets :: "openssl \<Rightarrow> 'a CWallet_keys_scheme \<Rightarrow> bool" where
  "fresh_secrets L w \<longleftrightarrow> (\<forall>m n. m \<noteq> n \<longrightarrow> future_keys L w m \<inter> future_keys L w n = {})"

text \<open>\<open>out\<close> are the reservations in progress, \<open>used\<close> the keys that were kept.\<close>

definition pool_key :: "'a CWallet_keys_scheme \<Rightarrow> int \<Rightarrow> CPubKey \<Rightarrow> bool" where
  "pool_key w i k \<longleftrightarrow> (\<exists>kp. wdb_pool w i = Some kp \<and> kp_vchPubKey kp = k)"

definition keypool_inv :: "openssl \<Rightarrow> 'a CWallet_keys_scheme \<Rightarrow> (int \<times> CPubKey) list \<Rightarrow> CPubKey set \<Rightarrow> bool" where
  "keypool_inv L w out used \<longleftrightarrow>
     fresh_secrets L w \<and> sorted_wrt (<) (setKeyPool w) \<and> (\<forall>i \<in> set (setKeyPool w). 0 < i) \<and>
     distinct (map fst out) \<and>
     (\<forall>i k. (i, k) \<in> set out \<longrightarrow>
        i \<notin> set (setKeyPool w) \<and> setKeyPool w \<noteq> [] \<and> i < last (setKeyPool w) \<and> 0 < i \<and> pool_key w i k) \<and>
     (\<forall>i j k. i \<in> set (setKeyPool w) \<union> fst ` set out \<longrightarrow> j \<in> set (setKeyPool w) \<union> fst ` set out \<longrightarrow>
        pool_key w i k \<longrightarrow> pool_key w j k \<longrightarrow> i = j) \<and>
     (\<forall>i k. i \<in> set (setKeyPool w) \<union> fst ` set out \<longrightarrow> pool_key w i k \<longrightarrow> k \<notin> used \<and> (\<forall>n. k \<notin> future_keys L w n)) \<and>
     (\<forall>n. future_keys L w n \<inter> used = {})"

lemma db_write_sel [simp]:
  "setKeyPool (snd (db_write w)) = setKeyPool w" "wdb_pool (snd (db_write w)) = wdb_pool w"
  "w_secrets (snd (db_write w)) = w_secrets w" "w_store (snd (db_write w)) = w_store w"
  by (simp_all add: db_write_def)

lemma SetMinVersion_sel [simp]:
  "setKeyPool (SetMinVersion v e w) = setKeyPool w" "wdb_pool (SetMinVersion v e w) = wdb_pool w"
  "w_secrets (SetMinVersion v e w) = w_secrets w" "w_store (SetMinVersion v e w) = w_store w"
  by (simp_all add: SetMinVersion_def Let_def)

lemma Wallet_AddKey_sel:
  assumes "Wallet_AddKey L key w = Some (ok, w')"
  shows "setKeyPool w' = setKeyPool w" "wdb_pool w' = wdb_pool w" "w_secrets w' = w_secrets w"
  using assms db_write_sel [of "w\<lparr>w_store := snd (AddKey L key (w_store w))\<rparr>"]
  by (auto simp: Wallet_AddKey_def Let_def db_write_def split: prod.splits option.splits if_splits)

lemma GenerateNewKey_sel:
  assumes "GenerateNewKey L w = Some (k, w')"
  shows "setKeyPool w' = setKeyPool w" "wdb_pool w' = wdb_pool w" "future_keys L w' n = future_keys L w (n + 1)" "k \<in> future_keys L w 0"
proof -
  let ?c = "CanSupportFeature FEATURE_COMPRPUBKEY w"
  obtain s ss where s: "w_secrets w = s # ss" using assms by (auto simp: GenerateNewKey_def split: list.splits)
  let ?w = "w\<lparr>w_secrets := ss\<rparr>" and ?key = "MakeNewKey s ?c CKey_new"
  have a: "Wallet_AddKey L ?key (if ?c then SetMinVersion FEATURE_COMPRPUBKEY False ?w else ?w) = Some (True, w')"
    and k: "GetPubKey L ?key = Some k"
    using assms s by (auto simp: GenerateNewKey_def Let_def split: option.splits prod.splits bool.splits)
  show "setKeyPool w' = setKeyPool w" "wdb_pool w' = wdb_pool w" using Wallet_AddKey_sel [OF a] by (auto split: if_splits)
  have "w_secrets w' = ss" using Wallet_AddKey_sel [OF a] by (auto split: if_splits)
  then show "future_keys L w' n = future_keys L w (n + 1)" by (simp add: future_keys_def s)
  show "k \<in> future_keys L w 0"
    using k s by (auto simp: MakeNewKey_def GetPubKey_def SetCompressedPubKey_def future_keys_def CKey_new_def new_EC_KEY_def Let_def split: if_splits)
qed

lemma keypool_invD:
  assumes "keypool_inv L w out used"
  shows "fresh_secrets L w" "sorted_wrt (<) (setKeyPool w)" "i \<in> set (setKeyPool w) \<Longrightarrow> 0 < i" "distinct (map fst out)"
    "(i, k) \<in> set out \<Longrightarrow> i \<notin> set (setKeyPool w) \<and> setKeyPool w \<noteq> [] \<and> i < last (setKeyPool w) \<and> 0 < i \<and> pool_key w i k"
    "i \<in> set (setKeyPool w) \<union> fst ` set out \<Longrightarrow> j \<in> set (setKeyPool w) \<union> fst ` set out \<Longrightarrow> pool_key w i k \<Longrightarrow> pool_key w j k \<Longrightarrow> i = j"
    "i \<in> set (setKeyPool w) \<union> fst ` set out \<Longrightarrow> pool_key w i k \<Longrightarrow> k \<notin> used \<and> k \<notin> future_keys L w n"
    "k \<in> future_keys L w n \<Longrightarrow> k \<notin> used"
  using assms unfolding keypool_inv_def by ((elim conjE, (assumption | (erule allE)+, (erule impE, assumption)+, assumption)) | meson disjoint_iff)+

lemma last_sorted: "sorted_wrt (<) xs \<Longrightarrow> x \<in> set xs \<Longrightarrow> x \<le> last (xs :: int list)"
proof (induction xs)
  case (Cons y ys)
  then have "ys \<noteq> [] \<Longrightarrow> y < last ys" using last_in_set [of ys] by simp
  then show ?case using Cons by (cases "x = y"; cases "ys = []") (simp_all add: less_imp_le)
qed simp

lemma distinct_remove1_fst: "distinct (map fst xs) \<Longrightarrow> distinct (map fst (remove1 p xs))"
proof (induction xs)
  case (Cons x xs)
  have "set (remove1 p xs) \<subseteq> set xs" by (rule set_remove1_subset)
  then have "fst ` set (remove1 p xs) \<subseteq> fst ` set xs" by blast
  then show ?case using Cons by auto
qed simp

lemma set_insert_above: "(\<And>y. y \<in> set xs \<Longrightarrow> y < x) \<Longrightarrow> set_insert x xs = xs @ [x :: int]"
  by (induction xs) (auto simp: not_less_iff_gr_or_eq)

lemma pool_key_unique: "pool_key w i k \<Longrightarrow> pool_key w i k' \<Longrightarrow> k = k'"
  by (auto simp: pool_key_def)

text \<open>A key drawn and entered above all others.\<close>

lemma add_top:
  assumes inv: "keypool_inv L w out used" and g: "GenerateNewKey L w = Some (k, w1)"
    and n: "nEnd = (if setKeyPool w = [] then 1 else last (setKeyPool w) + 1)"
    and wp: "WritePool nEnd \<lparr>kp_nTime = now, kp_vchPubKey = k\<rparr> w1 = (True, w2)"
  shows "keypool_inv L (w2\<lparr>setKeyPool := set_insert nEnd (setKeyPool w2)\<rparr>) out used"
    "length (set_insert nEnd (setKeyPool w2)) = Suc (length (setKeyPool w))"
proof -
  note d = keypool_invD [OF inv]
  note gs = GenerateNewKey_sel [OF g]
  have w2: "setKeyPool w2 = setKeyPool w" "wdb_pool w2 = (wdb_pool w)(nEnd \<mapsto> \<lparr>kp_nTime = now, kp_vchPubKey = k\<rparr>)"
    "w_secrets w2 = w_secrets w1"
    using wp gs(1,2) by (auto simp: WritePool_def db_write_def split: if_splits)
  have above: "y < nEnd" if "y \<in> set (setKeyPool w)" for y using last_sorted [OF d(2) that] that n by auto
  then have S: "set_insert nEnd (setKeyPool w2) = setKeyPool w @ [nEnd]" by (simp add: w2 set_insert_above)
  then show "length (set_insert nEnd (setKeyPool w2)) = Suc (length (setKeyPool w))" by simp
  let ?w = "w2\<lparr>setKeyPool := set_insert nEnd (setKeyPool w2)\<rparr>"
  let ?I = "set (setKeyPool w) \<union> fst ` set out"
  have pos: "0 < nEnd" using n d(3) [of "last (setKeyPool w)"] by (auto split: if_splits)
  have nout: "i < nEnd" if "(i, x) \<in> set out" for i x using d(5) [OF that] n by auto
  have nI: "nEnd \<notin> ?I" using above nout by force
  have pk: "pool_key ?w i x \<longleftrightarrow> (if i = nEnd then x = k else pool_key w i x)" for i x by (auto simp: pool_key_def w2)
  have fut: "future_keys L ?w n = future_keys L w (n + 1)" for n
  proof -
    have "future_keys L ?w = future_keys L w1" by (simp add: future_keys_def fun_eq_iff w2(3))
    then show ?thesis using gs(3) by simp
  qed
  have fr: "fresh_secrets L ?w" using d(1) unfolding fresh_secrets_def fut by simp
  have k0: "k \<in> future_keys L w 0" by (rule gs(4))
  have kn: "k \<notin> future_keys L w (n + 1)" for n using d(1) k0 unfolding fresh_secrets_def by (metis IntI add_eq_0_iff_both_eq_0 empty_iff one_neq_zero)
  have kI: "\<not> pool_key w i k" if "i \<in> ?I" for i using d(7) [OF that] k0 by blast
  show "keypool_inv L ?w out used"
    unfolding keypool_inv_def
  proof (intro conjI allI impI ballI)
    show "sorted_wrt (<) (setKeyPool ?w)" using d(2) above by (simp add: S sorted_wrt_append)
    show "0 < i" if "i \<in> set (setKeyPool ?w)" for i using that d(3) pos by (auto simp: S)
    fix i x assume z: "(i, x) \<in> set out"
    show "i \<notin> set (setKeyPool ?w)" "setKeyPool ?w \<noteq> []" "i < last (setKeyPool ?w)" "0 < i" "pool_key ?w i x"
      using d(5) [OF z] nout [OF z] pk by (simp_all add: S)
  next
    fix i x assume "i \<in> set (setKeyPool ?w) \<union> fst ` set out" "pool_key ?w i x"
    then have i: "i = nEnd \<and> x = k \<or> i \<in> ?I \<and> i \<noteq> nEnd \<and> pool_key w i x" using pk nI by (auto simp: S split: if_splits)
    then show "x \<notin> used" using d(7) d(8) k0 by blast
    show "x \<notin> future_keys L ?w n" for n unfolding fut using i d(7) kn by blast
    fix j assume "j \<in> set (setKeyPool ?w) \<union> fst ` set out" "pool_key ?w j x"
    then have "j = nEnd \<and> x = k \<or> j \<in> ?I \<and> j \<noteq> nEnd \<and> pool_key w j x" using pk nI by (auto simp: S split: if_splits)
    then show "i = j" using i kI d(6) by blast
  next
    show "future_keys L ?w n \<inter> used = {}" for n unfolding fut using d(8) by blast
  qed (use fr d(4) in auto)
qed

lemma topup_loop_ok:
  "keypool_inv L w out used \<Longrightarrow> topup_loop L now n w = Some w' \<Longrightarrow>
     keypool_inv L w' out used \<and> length (setKeyPool w') = length (setKeyPool w) + n"
proof (induction n arbitrary: w)
  case (Suc n)
  define nEnd where "nEnd = (if setKeyPool w = [] then 1 else last (setKeyPool w) + 1)"
  obtain k w1 where g: "GenerateNewKey L w = Some (k, w1)" using Suc.prems(2) by (auto simp: Let_def split: option.splits)
  obtain w2 where wp: "WritePool nEnd \<lparr>kp_nTime = now, kp_vchPubKey = k\<rparr> w1 = (True, w2)"
    and r: "topup_loop L now n (w2\<lparr>setKeyPool := set_insert nEnd (setKeyPool w2)\<rparr>) = Some w'"
    using Suc.prems(2) g by (auto simp: Let_def nEnd_def [symmetric] split: option.splits prod.splits if_splits)
  note a = add_top [OF Suc.prems(1) g nEnd_def wp]
  show ?case using Suc.IH [OF a(1) r] a(2) by simp
qed simp

lemma reserve_ok:
  assumes inv: "keypool_inv L w out used" and u: "\<not> IsLocked (w_store w)" and n: "1 \<le> n" "n < 2 ^ 32 - 1"
    and r: "ReserveKeyFromKeyPool L now n w = Some (i, kp, w')"
  shows "keypool_inv L w' ((i, kp_vchPubKey kp) # out) used" "0 < i" "i \<notin> fst ` set out" "kp_vchPubKey kp \<notin> snd ` set out \<union> used"
proof -
  have m: "max n 0 mod 2 ^ 32 = n" and m1: "(nat n + 1) mod 2 ^ 32 = nat n + 1" using n by simp_all
  obtain w1 where w1: "topup_loop L now (nat n + 1 - length (setKeyPool w)) w = Some w1"
    and rest: "(case setKeyPool w1 of [] \<Rightarrow> i = - 1 | j # js \<Rightarrow> i = j \<and> wdb_pool w1 j = Some kp \<and> w' = w1\<lparr>setKeyPool := js\<rparr>)"
    using r u unfolding ReserveKeyFromKeyPool_def TopUpKeyPool_def Let_def m m1
    by (auto split: option.splits list.splits if_splits)
  note i1 = topup_loop_ok [OF inv w1]
  have "2 \<le> length (setKeyPool w1)" using i1 n by simp
  then obtain j j2 js where S: "setKeyPool w1 = j # j2 # js" by (metis Suc_le_length_iff numeral_2_eq_2)
  then have j: "i = j" "wdb_pool w1 j = Some kp" "w' = w1\<lparr>setKeyPool := j2 # js\<rparr>" using rest by simp_all
  note d = keypool_invD [OF conjunct1 [OF i1]]
  let ?k = "kp_vchPubKey kp"
  have pk: "pool_key w1 j ?k" using j by (simp add: pool_key_def)
  have jl: "j < last (j2 # js)" "j \<notin> set (j2 # js)" "sorted_wrt (<) (j2 # js)" using d(2) last_in_set [of "j2 # js"] unfolding S by auto
  show "0 < i" using d(3) j(1) S by simp
  show no: "i \<notin> fst ` set out" using d(5) j(1) S by fastforce
  have ko: "?k \<notin> snd ` set out"
  proof
    assume "?k \<in> snd ` set out"
    then obtain i' where i': "(i', ?k) \<in> set out" by force
    then have "pool_key w1 i' ?k" "i' \<in> fst ` set out" using d(5) by force+
    then have "i' = j" using d(6) [of i' j ?k] pk S by simp
    then show False using no i' j(1) by force
  qed
  moreover have "?k \<notin> used" using d(7) [of j ?k] pk S by simp
  ultimately show "?k \<notin> snd ` set out \<union> used" by blast
  have sel: "setKeyPool w' = j2 # js" "wdb_pool w' = wdb_pool w1" "w_secrets w' = w_secrets w1" using j(3) by simp_all
  have pe: "pool_key w' = pool_key w1" "future_keys L w' = future_keys L w1" "fresh_secrets L w' = fresh_secrets L w1"
    by (simp_all add: pool_key_def future_keys_def fresh_secrets_def fun_eq_iff sel)
  have I: "set (setKeyPool w') \<union> fst ` set ((i, ?k) # out) = set (setKeyPool w1) \<union> fst ` set out" using S j(1) sel by auto
  show "keypool_inv L w' ((i, ?k) # out) used"
    unfolding keypool_inv_def pe I
  proof (intro conjI allI impI ballI)
    fix a x assume "(a, x) \<in> set ((i, ?k) # out)"
    then consider "a = j" "x = ?k" | "(a, x) \<in> set out" using j(1) by auto
    then have "a \<notin> set (j2 # js) \<and> a < last (j2 # js) \<and> 0 < a \<and> pool_key w1 a x"
    proof cases
      case 1
      then show ?thesis using jl pk d(3) [of j] S by simp
    next
      case 2
      then show ?thesis using d(5) [OF 2] S by auto
    qed
    then show "a \<notin> set (setKeyPool w')" "setKeyPool w' \<noteq> []" "a < last (setKeyPool w')" "0 < a" "pool_key w1 a x"
      by (auto simp: sel)
  next
    show "sorted_wrt (<) (setKeyPool w')" using jl(3) by (simp only: sel)
    show "0 < a" if "a \<in> set (setKeyPool w')" for a using that d(3) [of a] S sel by auto
    show "distinct (map fst ((i, ?k) # out))" using d(4) no by simp
  qed (use d(1,6,7,8) in blast)+
qed

text \<open>Ending a reservation, or drawing a key past the pool.\<close>

lemma keep_ok:
  assumes inv: "keypool_inv L w out used" and m: "(i, k) \<in> set out"
  shows "keypool_inv L (Wallet_KeepKey i w) (remove1 (i, k) out) (insert k used)"
proof -
  note d = keypool_invD [OF inv]
  let ?w = "Wallet_KeepKey i w" and ?out = "remove1 (i, k) out"
  have sel: "setKeyPool ?w = setKeyPool w" "w_secrets ?w = w_secrets w" "j \<noteq> i \<Longrightarrow> wdb_pool ?w j = wdb_pool w j" for j
    by (auto simp: Wallet_KeepKey_def ErasePool_def db_write_def)
  have pe: "future_keys L ?w = future_keys L w" "fresh_secrets L ?w = fresh_secrets L w"
    by (simp_all add: future_keys_def fresh_secrets_def fun_eq_iff sel)
  have dis: "distinct out" using d(4) distinct_map by blast
  have o: "set ?out = set out - {(i, k)}" using dis by simp
  have f: "fst ` set ?out = fst ` set out - {i}"
  proof -
    have "(i, y) \<in> set out \<Longrightarrow> y = k" for y using d(4) m by (meson eq_key_imp_eq_value)
    then show ?thesis unfolding o by force
  qed
  have pk: "pool_key ?w j x \<longleftrightarrow> pool_key w j x" if "j \<in> set (setKeyPool w) \<union> fst ` set ?out" for j x
  proof -
    have "j \<noteq> i" using that f d(5) [OF m] by auto
    then show ?thesis using sel(3) by (simp add: pool_key_def)
  qed
  have I: "set (setKeyPool w) \<union> fst ` set ?out \<subseteq> set (setKeyPool w) \<union> fst ` set out" unfolding f by blast
  have ki: "pool_key w i k" "i \<in> set (setKeyPool w) \<union> fst ` set out" using d(5) [OF m] m by force+
  have di: "distinct (map fst ?out)" using d(4) by (rule distinct_remove1_fst)
  show ?thesis
    unfolding keypool_inv_def pe sel(1)
  proof (intro conjI allI impI ballI)
    fix j x assume "j \<in> set (setKeyPool w) \<union> fst ` set ?out" "pool_key ?w j x"
    then have j: "pool_key w j x" "j \<in> set (setKeyPool w) \<union> fst ` set out" "j \<noteq> i" using pk I f d(5) [OF m] by auto
    then have "x \<noteq> k" using d(6) [of j i k] ki by blast
    then show "x \<notin> insert k used" using d(7) j by blast
    show "x \<notin> future_keys L w n" for n using d(7) j by blast
    fix j' assume "j' \<in> set (setKeyPool w) \<union> fst ` set ?out" "pool_key ?w j' x"
    then have "j' \<in> set (setKeyPool w) \<union> fst ` set out" "pool_key w j' x" using pk I by auto
    then show "j = j'" using d(6) [OF j(2) _ j(1)] by simp
  next
    fix j x assume jx: "(j, x) \<in> set ?out"
    then have "(j, x) \<in> set out" "j \<in> set (setKeyPool w) \<union> fst ` set ?out" unfolding o by force+
    then show "j \<notin> set (setKeyPool w)" "setKeyPool w \<noteq> []" "j < last (setKeyPool w)" "0 < j" "pool_key ?w j x"
      using d(5) [of j x] pk by blast+
  next
    show "future_keys L w n \<inter> insert k used = {}" for n using d(7) ki d(8) by blast
  qed (rule d(1) d(2) d(3) di | assumption)+
qed

lemma return_ok:
  assumes inv: "keypool_inv L w out used" and m: "(i, k) \<in> set out"
  shows "keypool_inv L (Wallet_ReturnKey i w) (remove1 (i, k) out) used"
proof -
  note d = keypool_invD [OF inv]
  let ?w = "Wallet_ReturnKey i w" and ?out = "remove1 (i, k) out" and ?S = "set_insert i (setKeyPool w)"
  have sel: "setKeyPool ?w = ?S" "w_secrets ?w = w_secrets w" "wdb_pool ?w = wdb_pool w" by (simp_all add: Wallet_ReturnKey_def)
  have pe: "pool_key ?w = pool_key w" "future_keys L ?w = future_keys L w" "fresh_secrets L ?w = fresh_secrets L w"
    by (simp_all add: pool_key_def future_keys_def fresh_secrets_def fun_eq_iff sel)
  have dis: "distinct out" using d(4) distinct_map by blast
  have o: "set ?out = set out - {(i, k)}" using dis by simp
  have yk: "(i, y) \<in> set out \<Longrightarrow> y = k" for y using d(4) m by (meson eq_key_imp_eq_value)
  note im = d(5) [OF m]
  have so: "sorted_wrt (<) ?S" using sorted_set_insert [OF d(2), of i] .
  have la: "last ?S = last (setKeyPool w)"
  proof (rule antisym)
    have "last ?S \<in> set ?S" using im by (intro last_in_set) (metis empty_iff insert_iff list.set(1) set_set_insert)
    then have "last ?S = i \<or> last ?S \<in> set (setKeyPool w)" by simp
    then show "last ?S \<le> last (setKeyPool w)" using im last_sorted [OF d(2)] by fastforce
    have "last (setKeyPool w) \<in> set ?S" using im by simp
    then show "last (setKeyPool w) \<le> last ?S" by (rule last_sorted [OF so])
  qed
  have I: "set ?S \<union> fst ` set ?out = set (setKeyPool w) \<union> fst ` set out" unfolding o using m by force
  show ?thesis
    unfolding keypool_inv_def pe sel(1) I
  proof (intro conjI allI impI ballI)
    fix j x assume "(j, x) \<in> set ?out"
    then have j: "(j, x) \<in> set out" "j \<noteq> i" unfolding o using yk by auto
    then show "j \<notin> set ?S" "?S \<noteq> []" "j < last ?S" "0 < j" "pool_key w j x"
      using d(5) [OF j(1)] la im by (auto simp: set_empty [symmetric] simp del: set_empty)
  next
    show "0 < j" if "j \<in> set ?S" for j using that im d(3) by auto
    show "k \<notin> used" if "j \<in> set (setKeyPool w) \<union> fst ` set out" "pool_key w j k" for j k using d(7) [OF that] by blast
    show "k \<notin> future_keys L w n" if "j \<in> set (setKeyPool w) \<union> fst ` set out" "pool_key w j k" for j k n using d(7) [OF that] by blast
    show "future_keys L w n \<inter> used = {}" for n using d(8) by blast
    show "distinct (map fst ?out)" using d(4) by (rule distinct_remove1_fst)
  qed (rule d(1) so d(6) | assumption)+
qed

lemma draw_ok:
  assumes inv: "keypool_inv L w out used" and g: "GenerateNewKey L w = Some (k, w')"
  shows "keypool_inv L w' out (insert k used)"
proof -
  note d = keypool_invD [OF inv]
  note gs = GenerateNewKey_sel [OF g]
  note fut = gs(3)
  have pk: "pool_key w' = pool_key w" by (simp add: pool_key_def gs fun_eq_iff)
  have fr: "fresh_secrets L w'" using d(1) unfolding fresh_secrets_def fut by simp
  have kn: "k \<notin> future_keys L w (n + 1)" for n
    using d(1) gs(4) unfolding fresh_secrets_def by (metis IntI add_eq_0_iff_both_eq_0 empty_iff one_neq_zero)
  show ?thesis
    unfolding keypool_inv_def pk gs(1)
  proof (intro conjI allI impI ballI)
    show "future_keys L w' n \<inter> insert k used = {}" for n unfolding fut using kn d(8) by blast
    fix i x assume "i \<in> set (setKeyPool w) \<union> fst ` set out" "pool_key w i x"
    then show "x \<notin> insert k used" "x \<notin> future_keys L w' n" for n using d(7) gs(4) unfolding fut by blast+
  qed (use fr d(2-6) in blast)+
qed

inductive keypool_reachable :: "openssl \<Rightarrow> int \<Rightarrow> CWallet_keys \<Rightarrow> (int \<times> CPubKey) list \<Rightarrow> CPubKey set \<Rightarrow> bool" for L n where
  start: "setKeyPool w = [] \<Longrightarrow> fresh_secrets L w \<Longrightarrow> keypool_reachable L n w [] {}"
| reserve: "keypool_reachable L n w out used \<Longrightarrow> \<not> IsLocked (w_store w) \<Longrightarrow>
    ReserveKeyFromKeyPool L now n w = Some (i, kp, w') \<Longrightarrow> keypool_reachable L n w' ((i, kp_vchPubKey kp) # out) used"
| keep: "keypool_reachable L n w out used \<Longrightarrow> (i, k) \<in> set out \<Longrightarrow>
    keypool_reachable L n (Wallet_KeepKey i w) (remove1 (i, k) out) (insert k used)"
| return: "keypool_reachable L n w out used \<Longrightarrow> (i, k) \<in> set out \<Longrightarrow>
    keypool_reachable L n (Wallet_ReturnKey i w) (remove1 (i, k) out) used"
| generate: "keypool_reachable L n w out used \<Longrightarrow> GenerateNewKey L w = Some (k, w') \<Longrightarrow>
    keypool_reachable L n w' out (insert k used)"

lemma keypool_reachable_inv: "keypool_reachable L n w out used \<Longrightarrow> 1 \<le> n \<Longrightarrow> n < 2 ^ 32 - 1 \<Longrightarrow> keypool_inv L w out used"
proof (induction rule: keypool_reachable.induct)
  case (start w)
  then show ?case by (simp add: keypool_inv_def)
next
  case (reserve w out used now i kp w')
  then show ?case using reserve_ok by blast
qed (use keep_ok return_ok draw_ok in blast)+

text \<open>C39.  With a pool of at least one key and a wallet that is not locked, a key is never handed out twice: a key that is
  reserved differs from every key in a reservation still in progress and from every key that was kept or drawn
  before, and its number from the numbers in use, whatever the order of reserving, keeping, returning and drawing.\<close>
theorem keypool_no_reuse:
  assumes "keypool_reachable L n w out used" and "1 \<le> n" and "n < 2 ^ 32 - 1" and "\<not> IsLocked (w_store w)"
    and "ReserveKeyFromKeyPool L now n w = Some (i, kp, w')"
  shows "kp_vchPubKey kp \<notin> snd ` set out \<union> used \<and> i \<notin> fst ` set out \<and> i \<noteq> - 1"
  using reserve_ok [OF keypool_reachable_inv [OF assms(1-3)] assms(4,2,3,5)] by auto

section \<open>When the pool is switched off\<close>

text \<open>A wallet without encryption whose file can be written, with secrets of 32 bytes to come.\<close>

definition ready :: "'a CWallet_keys_scheme \<Rightarrow> bool" where
  "ready w \<longleftrightarrow> (\<forall>n. w_writes w n) \<and> \<not> IsCrypted (w_store w) \<and> (\<forall>s \<in> set (w_secrets w). length s = 32)"

lemma ready_db_write: "ready w \<Longrightarrow> fst (db_write w) \<and> ready (snd (db_write w))"
  by (simp add: ready_def db_write_def)

lemma gen_ready:
  assumes e: "ecdsa_documented L" and r: "ready w" and s: "w_secrets w = s # ss"
  obtains k w' where "GenerateNewKey L w = Some (k, w')" "ready w'" "w_secrets w' = ss" "CPubKey_IsValid k"
    "HaveKey (w_store w') (CPubKey_GetID L k)" "\<And>a. HaveKey (w_store w) a \<Longrightarrow> HaveKey (w_store w') a"
proof -
  let ?c = "CanSupportFeature FEATURE_COMPRPUBKEY w"
  let ?key = "MakeNewKey s ?c CKey_new" and ?k = "EC_public L s ?c"
  have key: "GetPubKey L ?key = Some ?k" "GetSecret ?key = Some (s, ?c)"
    by (simp_all add: MakeNewKey_def GetPubKey_def GetSecret_def SetCompressedPubKey_def CKey_new_def new_EC_KEY_def Let_def)
  let ?w1 = "w\<lparr>w_secrets := ss\<rparr>"
  define w2 where "w2 = (if ?c then SetMinVersion FEATURE_COMPRPUBKEY False ?w1 else ?w1)"
  have w2: "w_store w2 = w_store w" "w_writes w2 = w_writes w" "w_secrets w2 = ss" by (simp_all add: w2_def SetMinVersion_def Let_def)
  define ks where "ks = (w_store w)\<lparr>mapKeys := map_put (CPubKey_GetID L ?k) (s, ?c) (mapKeys (w_store w))\<rparr>"
  have nc: "\<not> IsCrypted (w_store w)" and wr: "w_writes w n" for n using r by (simp_all add: ready_def)
  have add: "AddKey L ?key (w_store w2) = (Some True, ks)"
    using nc key by (simp add: AddKey_def Basic_AddKey_def w2 ks_def)
  define w3 where "w3 = (if fFileBacked w2 then snd (db_write (w2\<lparr>w_store := ks\<rparr>)) else w2\<lparr>w_store := ks\<rparr>)"
  have "Wallet_AddKey L ?key w2 = Some (True, w3)"
    using add wr by (auto simp: Wallet_AddKey_def Let_def w3_def db_write_def w2)
  then have "GenerateNewKey L w = Some (?k, w3)" using key s by (simp add: GenerateNewKey_def Let_def w2_def)
  moreover have "ready w3" using r s nc by (auto simp: ready_def w3_def db_write_def w2 ks_def IsCrypted_def)
  moreover have "w_secrets w3 = ss" by (simp add: w3_def db_write_def w2)
  moreover have "CPubKey_IsValid ?k"
    using e r s unfolding ecdsa_documented_def ready_def CPubKey_IsValid_def by (metis list.set_intros(1))
  moreover have have3: "HaveKey (w_store w3) a \<longleftrightarrow> a = CPubKey_GetID L ?k \<or> HaveKey (w_store w) a" for a
  proof -
    have "w_store w3 = ks" "\<not> IsCrypted ks" using nc by (simp_all add: w3_def db_write_def ks_def IsCrypted_def)
    then show ?thesis using nc by (simp add: HaveKey_def Basic_HaveKey_def map_of_eq_None_iff ks_def del: not_None_eq)
  qed
  ultimately show thesis using that [of ?k w3] by simp
qed

text \<open>Reserving from an empty pool without a target size.\<close>

lemma reserve_zero:
  assumes e: "ecdsa_documented L" and r: "ready w" and s: "w_secrets w = s # ss" and p: "setKeyPool w = []"
  obtains kp w' where "ReserveKeyFromKeyPool L now 0 w = Some (1, kp, w')" "ready w'" "w_secrets w' = ss" "setKeyPool w' = []"
    "wdb_pool w' 1 = Some kp" "kp_vchPubKey kp \<in> future_keys L w 0" "CPubKey_IsValid (kp_vchPubKey kp)"
    "HaveKey (w_store w') (CPubKey_GetID L (kp_vchPubKey kp))"
proof -
  obtain k w1 where g: "GenerateNewKey L w = Some (k, w1)" "ready w1" "w_secrets w1 = ss" "CPubKey_IsValid k"
    "HaveKey (w_store w1) (CPubKey_GetID L k)" by (rule gen_ready [OF e r s])
  note gs = GenerateNewKey_sel [OF g(1)]
  let ?kp = "\<lparr>kp_nTime = now, kp_vchPubKey = k\<rparr>"
  define w2 where "w2 = (snd (db_write w1))\<lparr>wdb_pool := (wdb_pool w1)(1 \<mapsto> ?kp)\<rparr>"
  have wp: "WritePool 1 ?kp w1 = (True, w2)"
    using g(2) by (simp add: WritePool_def w2_def db_write_def ready_def)
  have l: "\<not> IsLocked (w_store w)" using r by (simp add: ready_def IsLocked_def)
  have w2: "w_store w2 = w_store w1" "setKeyPool w2 = []" "w_secrets w2 = ss" "wdb_pool w2 1 = Some ?kp" "ready w2"
    using g(2,3) gs(1) p by (simp_all add: w2_def db_write_def ready_def)
  have "ReserveKeyFromKeyPool L now 0 w = Some (1, ?kp, w2\<lparr>setKeyPool := []\<rparr>)"
    using l p g wp w2 by (simp add: ReserveKeyFromKeyPool_def TopUpKeyPool_def Let_def)
  moreover have "ready (w2\<lparr>setKeyPool := []\<rparr>)" using w2(5) by (simp add: ready_def)
  ultimately show thesis by (rule that) (use w2 g gs(4) in simp_all)
qed

text \<open>C40.  With \<open>-keypool=0\<close> the pool gives a key away twice: of two reservations in progress both get number 1 and the
  second key replaces the first in the wallet file; when the first is returned, the next reservation is given the
  second key, which is still in use.\<close>
theorem keypool_zero_reuses:
  assumes "ecdsa_documented L" and "ready w" and "setKeyPool w = []" and "w_secrets w = s1 # s2 # ss"
  shows "\<exists>kp1 w1 kp2 w2 w3. ReserveKeyFromKeyPool L now 0 w = Some (1, kp1, w1) \<and>
    ReserveKeyFromKeyPool L now 0 w1 = Some (1, kp2, w2) \<and>
    ReserveKeyFromKeyPool L now 0 (Wallet_ReturnKey 1 w2) = Some (1, kp2, w3)"
proof -
  obtain kp1 w1 where a: "ReserveKeyFromKeyPool L now 0 w = Some (1, kp1, w1)" "ready w1" "w_secrets w1 = s2 # ss" "setKeyPool w1 = []"
    by (rule reserve_zero [OF assms(1,2,4,3)])
  obtain kp2 w2 where b: "ReserveKeyFromKeyPool L now 0 w1 = Some (1, kp2, w2)" "ready w2" "setKeyPool w2 = []"
    "wdb_pool w2 1 = Some kp2" "CPubKey_IsValid (kp_vchPubKey kp2)" "HaveKey (w_store w2) (CPubKey_GetID L (kp_vchPubKey kp2))"
    by (rule reserve_zero [OF assms(1) a(2,3,4)])
  have l: "\<not> IsLocked (w_store w2)" using b(2) by (simp add: ready_def IsLocked_def)
  have "ReserveKeyFromKeyPool L now 0 (Wallet_ReturnKey 1 w2) = Some (1, kp2, (Wallet_ReturnKey 1 w2)\<lparr>setKeyPool := []\<rparr>)"
    using b l by (simp add: ReserveKeyFromKeyPool_def TopUpKeyPool_def Wallet_ReturnKey_def Let_def)
  then show ?thesis using a(1) b(1) by blast
qed

definition sample_wallet_keys :: CWallet_keys where
  "sample_wallet_keys =
     \<lparr>w_store = CCryptoKeyStore_new, nWalletVersion = FEATURE_BASE, nWalletMaxVersion = FEATURE_LATEST, fFileBacked = True,
      setKeyPool = [], wdb_pool = Map.empty, vchDefaultKey = [], w_secrets = [replicate 32 1, replicate 32 2], w_writes = \<lambda>_. True\<rparr>"

lemma sample_ready: "ready sample_wallet_keys"
  by (simp add: ready_def sample_wallet_keys_def CCryptoKeyStore_new_def IsCrypted_def)

theorem keypool_zero_reuses_witness:
  "\<exists>kp1 w1 kp2 w2. ReserveKeyFromKeyPool sample_openssl 0 0 sample_wallet_keys = Some (1, kp1, w1) \<and>
     ReserveKeyFromKeyPool sample_openssl 0 0 w1 = Some (1, kp2, w2)"
  using keypool_zero_reuses [OF ecdsa_documented_sample sample_ready, of "replicate 32 1" "replicate 32 2" "[]" 0]
  by (auto simp: sample_wallet_keys_def)

lemma sample_fresh: "fresh_secrets sample_openssl sample_wallet_keys"
proof -
  have n: "n < 2 \<Longrightarrow> n = 0 \<or> n = (1 :: nat)" for n by arith
  show ?thesis
    unfolding fresh_secrets_def
  proof (intro allI impI)
    fix a b :: nat assume "a \<noteq> b"
    show "future_keys sample_openssl sample_wallet_keys a \<inter> future_keys sample_openssl sample_wallet_keys b = {}"
    proof (cases "a < 2 \<and> b < 2")
      case True
      then show ?thesis using n [of a] n [of b] \<open>a \<noteq> b\<close>
        by (auto simp: future_keys_def sample_wallet_keys_def sample_openssl_def)
    next
      case False
      then show ?thesis by (auto simp: future_keys_def sample_wallet_keys_def)
    qed
  qed
qed

text \<open>Reserving succeeds when OpenSSL and the file do.\<close>

definition served :: "openssl \<Rightarrow> 'a CWallet_keys_scheme \<Rightarrow> bool" where
  "served L w \<longleftrightarrow> (\<forall>i \<in> set (setKeyPool w). \<exists>kp. wdb_pool w i = Some kp \<and> CPubKey_IsValid (kp_vchPubKey kp) \<and>
     HaveKey (w_store w) (CPubKey_GetID L (kp_vchPubKey kp)))"

lemma topup_ready:
  "ecdsa_documented L \<Longrightarrow> ready w \<Longrightarrow> served L w \<Longrightarrow> n \<le> length (w_secrets w) \<Longrightarrow>
     \<exists>w'. topup_loop L now n w = Some w' \<and> ready w' \<and> served L w'"
proof (induction n arbitrary: w)
  case (Suc n)
  obtain s ss where s: "w_secrets w = s # ss" using Suc.prems(4) by (cases "w_secrets w") auto
  obtain k w1 where g: "GenerateNewKey L w = Some (k, w1)" "ready w1" "w_secrets w1 = ss" "CPubKey_IsValid k"
    "HaveKey (w_store w1) (CPubKey_GetID L k)" "\<And>a. HaveKey (w_store w) a \<Longrightarrow> HaveKey (w_store w1) a"
    by (rule gen_ready [OF Suc.prems(1,2) s]) (use that in blast)
  note gs = GenerateNewKey_sel [OF g(1)]
  define nEnd where "nEnd = (if setKeyPool w = [] then 1 else last (setKeyPool w) + 1)"
  define w2 where "w2 = (snd (db_write w1))\<lparr>wdb_pool := (wdb_pool w1)(nEnd \<mapsto> \<lparr>kp_nTime = now, kp_vchPubKey = k\<rparr>)\<rparr>"
  have wp: "WritePool nEnd \<lparr>kp_nTime = now, kp_vchPubKey = k\<rparr> w1 = (True, w2)"
    using g(2) by (simp add: WritePool_def w2_def db_write_def ready_def)
  let ?w = "w2\<lparr>setKeyPool := set_insert nEnd (setKeyPool w2)\<rparr>"
  have "ready ?w" "w_secrets ?w = ss" using g(2,3) by (simp_all add: w2_def db_write_def ready_def)
  moreover have "served L ?w" using Suc.prems(3) g(4-6) gs(1,2) by (auto simp: served_def w2_def)
  ultimately obtain w' where w': "topup_loop L now n ?w = Some w'" "ready w'" "served L w'"
    using Suc.IH [of ?w] Suc.prems(1,4) s by auto
  have "topup_loop L now (Suc n) w = Some w'" using w'(1) g(1) wp by (simp add: Let_def nEnd_def [symmetric])
  then show ?case using w' by blast
qed simp

lemma sample_reserve:
  "\<exists>i kp w. ReserveKeyFromKeyPool sample_openssl 0 1 sample_wallet_keys = Some (i, kp, w)"
proof -
  have u: "\<not> IsLocked (w_store sample_wallet_keys)" by (simp add: sample_wallet_keys_def CCryptoKeyStore_new_def IsLocked_def IsCrypted_def)
  have n: "(nat (max 1 0 mod 2 ^ 32 :: int) + 1) mod 2 ^ 32 - length (setKeyPool sample_wallet_keys) = 2" by (simp add: sample_wallet_keys_def)
  have "served sample_openssl sample_wallet_keys" "2 \<le> length (w_secrets sample_wallet_keys)"
    by (simp_all add: served_def sample_wallet_keys_def)
  then obtain w' where w': "topup_loop sample_openssl 0 2 sample_wallet_keys = Some w'" "served sample_openssl w'"
    using topup_ready [OF ecdsa_documented_sample sample_ready] by blast
  have "keypool_inv sample_openssl sample_wallet_keys [] {}"
    by (rule keypool_reachable_inv [OF keypool_reachable.start [where n = 1]])
      (use sample_fresh in \<open>simp_all add: sample_wallet_keys_def\<close>)
  from topup_loop_ok [OF this w'(1)] obtain j js where "setKeyPool w' = j # js" by (cases "setKeyPool w'") auto
  then show ?thesis
    using u w' n by (auto simp: ReserveKeyFromKeyPool_def TopUpKeyPool_def Let_def served_def)
qed

theorem keypool_no_reuse_witness:
  "\<exists>i kp w. ReserveKeyFromKeyPool sample_openssl 0 1 sample_wallet_keys = Some (i, kp, w) \<and> i \<noteq> - 1"
proof -
  obtain i kp w where r: "ReserveKeyFromKeyPool sample_openssl 0 1 sample_wallet_keys = Some (i, kp, w)" using sample_reserve by blast
  have st: "keypool_reachable sample_openssl 1 sample_wallet_keys [] {}"
    by (rule keypool_reachable.start) (use sample_fresh in \<open>simp_all add: sample_wallet_keys_def\<close>)
  have u: "\<not> IsLocked (w_store sample_wallet_keys)" by (simp add: sample_wallet_keys_def CCryptoKeyStore_new_def IsLocked_def IsCrypted_def)
  show ?thesis using keypool_no_reuse [OF st _ _ u r] r by auto
qed

end
