(* ===== verification/Spec2Isabelle.thy ===== *)
theory Spec2Isabelle
  imports Orphans Locator SignBlock Base58 Settings HexText Received Clock AddrMan_Check KeyPool
begin

text \<open>
  A model of the core of the JackpotCoin node (\<open>src/src\<close>, C++, of the Bitcoin, PPCoin and Novacoin
  family), with the theorems that make it correct.

  The theories follow the call graph of the source, bottom up.

  \<^item> \<open>Prelude\<close>: machine integers, little-endian images, \<open>std::set\<close> and \<open>std::map\<close> as ascending lists.
  \<^item> \<open>Bignum\<close> (\<open>bignum.h\<close>, digests of \<open>util.h\<close>): OpenSSL is a record \<open>openssl\<close> of functions, a parameter
    of every definition that needs one; \<open>sample_openssl\<close> is a concrete one for running the model.
  \<^item> \<open>Opcodes\<close>, \<open>Script\<close> (\<open>script.h\<close>): the enumerations, building, reading and scanning scripts.
  \<^item> \<open>Interpreter\<close>, \<open>Interpreter_Facts\<close> (\<open>EvalScript\<close> of \<open>script.cpp\<close>): one definition per group of opcodes,
    one step, the loop; the limits every reachable state obeys, what accepted scripts look like, and
    the locale \<open>sig_checker\<close>, the contract between the interpreter and whatever checks signatures.
  \<^item> \<open>Serialize\<close> (\<open>serialize.h\<close>), \<open>Transaction\<close> (\<open>main.h\<close>): wire formats as pairs of functions, the locale
    \<open>codec\<close> for a format that reads back what it writes, transactions and their hash.
  \<^item> \<open>Key\<close> (\<open>key.h\<close>, \<open>key.cpp\<close>): public keys and keys, with the curve a parameter.
  \<^item> \<open>SigCheck\<close> (\<open>script.cpp\<close>): \<open>SignatureHash\<close>, the signature cache and \<open>CheckSig\<close>; the cached checker is
    an interpretation of \<open>sig_checker\<close>.
  \<^item> \<open>Spending\<close>: \<open>VerifyScript\<close>, and when pay-to-public-key-hash and pay-to-script-hash outputs are spent.
  \<^item> \<open>Solver\<close>, \<open>Multisig\<close>: templates, destinations, multisignature outputs and when they are spent.
  \<^item> \<open>Keystore\<close> (\<open>keystore.h\<close>, \<open>keystore.cpp\<close>, \<open>crypter.cpp\<close>): the basic and the encrypted key store, and the
    locale \<open>keystore\<close> for what a client relies on, interpreted on both.
  \<^item> \<open>Signing\<close> (\<open>script.cpp\<close>): signing, ownership, merging of partial signatures, over that contract.

  \<^item> \<open>TxRules\<close> (\<open>main.h\<close>, \<open>main.cpp\<close>): the rules on transactions that need no context, fees, input values.
  \<^item> \<open>Block\<close> (\<open>main.h\<close>, \<open>hashblock.h\<close>): blocks, their hash and wire format, Merkle trees, the block index.
  \<^item> \<open>Compact\<close> (\<open>bignum.h\<close>), \<open>Difficulty\<close> (\<open>main.cpp\<close>): compact targets and their precision, retargeting,
    proof of work, trust.
  \<^item> \<open>TxDB\<close> (\<open>db.cpp\<close>): the transaction index and the block files; coin age.
  \<^item> \<open>Rewards\<close> (\<open>main.cpp\<close>): heights by kind of block, subsidies and their bounds.
  \<^item> \<open>Connect\<close>, \<open>Connect_Facts\<close> (\<open>main.cpp\<close>): fetching, connecting and disconnecting the inputs of a
    transaction; what a connected transaction satisfies, no double spending, disconnecting undoes connecting.
  \<^item> \<open>Kernel\<close> (\<open>kernel.cpp\<close>): stake modifiers and the proof-of-stake kernel.
  \<^item> \<open>BlockRules\<close>, \<open>BlockRules_Facts\<close> (\<open>main.cpp\<close>): \<open>CheckBlock\<close>, \<open>ConnectBlock\<close>, \<open>DisconnectBlock\<close>; connecting
    can be undone and records every transaction where it lies in the block file.
  \<^item> \<open>Mempool\<close> (\<open>CTxMemPool\<close> of \<open>main.h\<close>, \<open>main.cpp\<close>): accepting, adding and removing; the two maps stay
    inverse to each other, what an accepted transaction satisfies.  \<open>Orphans\<close> (\<open>main.cpp\<close>): transactions
    whose inputs are unknown; the index by missing parent and the bounds on number and size.
  \<^item> \<open>Chain\<close>, \<open>Chain_Facts\<close> (\<open>main.cpp\<close>): \<open>Reorganize\<close>, \<open>SetBestChain\<close>; the fork is the last common block, the tip
    stays coherent, a failure changes nothing, and where a postponed block breaks this.
  \<^item> \<open>Checkpoints\<close> (\<open>checkpoints.cpp\<close>): the compiled-in checkpoints and the synchronised one, which only moves to
    a descendant; the record \<open>node_state\<close> puts the chain, the checkpoints and the orphan blocks together.
  \<^item> \<open>Accept\<close>, \<open>Accept_Facts\<close> (\<open>main.cpp\<close>): the jackpot bonus, \<open>AddToBlockIndex\<close>, \<open>AcceptBlock\<close>, \<open>ProcessBlock\<close>;
    the rules an accepted block obeys, the tip stays coherent, the queue of orphans runs dry.  The random
    generator, the power function, the disk and the clock are parameters.
  \<^item> \<open>Locator\<close> (\<open>main.cpp\<close>, \<open>main.h\<close>): blocks by height, block locators, transactions with their Merkle branch
    and their depth.  \<open>SignBlock\<close> (\<open>main.cpp\<close>): signing blocks, and that signed blocks verify.
  \<^item> \<open>Text\<close> (\<open>util.cpp\<close>, \<open>util.h\<close>): amounts, hexadecimal, base 64, base 32, wildcards and versions as text;
    \<open>HexText\<close> (\<open>uint256.h\<close>, \<open>bignum.h\<close>): hashes and big numbers as text; what is printed is read back.
    \<open>Settings\<close> (\<open>util.cpp\<close>): the settings from the command line and the configuration file.
  \<^item> \<open>Base58\<close> (\<open>base58.h\<close>): base 58 with and without checksum, addresses and secret keys as text; a string
    decodes exactly when it is an encoding.
  \<^item> \<open>Netaddr\<close> (\<open>netbase.h\<close>, \<open>netbase.cpp\<close>): network addresses, their kinds, groups and names, services, name
    resolution (\<open>getaddrinfo\<close> is a parameter) and proxies.  \<open>Protocol\<close> (\<open>protocol.h\<close>, \<open>protocol.cpp\<close>): addresses of
    peers, inventory items, message headers.  \<open>Received\<close>: whatever is read off the wire is well formed and can be
    relayed, over the locale \<open>typed_reader\<close>.
  \<^item> \<open>KeyPool\<close> (\<open>wallet.h\<close>, \<open>wallet.cpp\<close>): the keys a wallet makes in advance, reserves, keeps and takes back; no key is
    handed out twice, unless the pool is switched off.
  \<^item> \<open>Clock\<close> (\<open>util.h\<close>, \<open>util.cpp\<close>): the clock adjusted to the median of the peers, and how far they can move it.
  \<^item> \<open>AddrMan\<close>, \<open>AddrMan_Facts\<close>, \<open>AddrMan_Check\<close> (\<open>addrman.h\<close>, \<open>addrman.cpp\<close>): the address manager; random numbers
    come from an arbitrary sequence.  Every operation keeps the tables consistent and bounded.

  Conventions.  C \<open>int\<close> and \<open>int64\<close> are integers, followed by \<open>wrap64\<close> where an operation could leave the
  range; \<open>uint160\<close>, \<open>uint256\<close> and \<open>unsigned int\<close> are words.  A thrown exception, a failed assertion or a
  \<open>false\<close> with state left behind is a value (\<open>None\<close>, or a pair of verdict and state).  A recursion that may
  not return is a \<open>partial_function\<close> into options.  State the code mutates is passed and returned.

  Not modelled: sockets, threads and locks, the database, RPC and Qt (input and output), the vendored
  hash functions, and OpenSSL (a parameter, with its documented behaviour as named hypotheses:
  \<open>mpi_documented\<close>, \<open>ecdsa_documented\<close>, \<open>aes_documented\<close>).
\<close>

end
